(* ===== verification/Condor_Prelude.thy ===== *)
theory Condor_Prelude
  imports Main
begin

text \<open>
  Shared vocabulary of the development.

  \<^item> The abnormal exits of the C++ code: a failed \<open>ASSERT\<close>, an \<open>EXCEPT\<close>, \<open>DC_Exit\<close> and
    \<open>main_shutdown_rescue\<close> never return to their caller, so an operation that may take one of
    them returns a sum, \<open>Inl\<close> holding the exit that was taken and \<open>Inr\<close> the normal result.
    \<open>Crash\<close> is the end of the process by undefined behaviour (a null pointer is followed, the
    stack overflows).
  \<^item> \<open>bindR\<close> sequences such operations, as falling through to the next statement does.
  \<^item> The array loops that the container templates share (moving a block of slots up or down
    by one), with their closed forms.
  \<^item> The collections of simplification rules that the component theories fill.
\<close>

named_theorems res_simps \<open>rules for operations that may exit abnormally\<close>
named_theorems array_forms \<open>closed forms of array loops\<close>
named_theorems frame_simps \<open>fields that an operation leaves alone\<close>
named_theorems inv_intros \<open>preservation of component invariants\<close>

section \<open>Abnormal exits\<close>

datatype exc =
    EXCEPT string
  | ASSERT string
  | DC_Exit int
  | Shutdown_Rescue int
  | Crash string

type_synonym 'a res = "exc + 'a"

definition bindR :: "'e + 'a \<Rightarrow> ('a \<Rightarrow> 'e + 'b) \<Rightarrow> 'e + 'b" where
  "bindR r f = (case r of Inl e \<Rightarrow> Inl e | Inr x \<Rightarrow> f x)"

lemma bindR_Inl [simp, res_simps]: "bindR (Inl e) f = Inl e"
  by (simp add: bindR_def)

lemma bindR_Inr [simp, res_simps]: "bindR (Inr x) f = f x"
  by (simp add: bindR_def)

lemma bindR_eq_Inr: "bindR r f = Inr y \<longleftrightarrow> (\<exists>x. r = Inr x \<and> f x = Inr y)"
  by (cases r) auto

lemma bindR_InrE [elim!]:
  assumes "bindR r f = Inr y"
  obtains x where "r = Inr x" and "f x = Inr y"
  using assms by (auto simp: bindR_eq_Inr)

lemma bindR_assoc: "bindR (bindR r f) g = bindR r (\<lambda>x. bindR (f x) g)"
  by (cases r) auto

text \<open>\<open>foldR\<close> runs a loop body over a list and stops at the first abnormal exit.\<close>

fun foldR :: "('a \<Rightarrow> 's \<Rightarrow> 'e + 's) \<Rightarrow> 'a list \<Rightarrow> 's \<Rightarrow> 'e + 's" where
  "foldR f [] s = Inr s"
| "foldR f (x # xs) s = bindR (f x s) (foldR f xs)"

text \<open>
  What every iteration keeps, the whole loop keeps.
\<close>

lemma foldR_invariant:
  assumes "foldR f xs s = Inr t" and "I s"
    and step: "\<And>x s t. x \<in> set xs \<Longrightarrow> I s \<Longrightarrow> f x s = Inr t \<Longrightarrow> I t"
  shows "I t"
  using assms
proof (induction xs arbitrary: s)
  case Nil
  then show ?case by simp
next
  case (Cons x xs)
  then obtain u where u: "f x s = Inr u" "foldR f xs u = Inr t"
    by auto
  with Cons.prems have "I u" by (metis list.set_intros(1))
  with u Cons.IH [of u] Cons.prems(3) show ?case by (meson list.set_intros(2))
qed

lemma foldR_append: "foldR f (xs @ ys) s = bindR (foldR f xs s) (foldR f ys)"
proof (induction xs arbitrary: s)
  case (Cons x xs)
  then show ?case by (cases "f x s") simp_all
qed simp

section \<open>Machine integers\<close>

text \<open>
  A C \<open>int\<close> of the platforms Condor builds on has 32 bits. Counters are modelled as \<open>int\<close>;
  where the code takes care about overflow the range is stated with \<open>int_range\<close>.
\<close>

definition INT_MAX :: int where
  "INT_MAX = 2147483647"

definition int_range :: "int \<Rightarrow> bool" where
  "int_range x \<longleftrightarrow> - INT_MAX - 1 \<le> x \<and> x \<le> INT_MAX"

section \<open>Numbers in messages\<close>

text \<open>What \<^verbatim>\<open>%d\<close> prints, and what \<open>MyString(int)\<close> holds.\<close>

fun string_of_nat :: "nat \<Rightarrow> string" where
  "string_of_nat n =
     (if n < 10 then [char_of (48 + n)] else string_of_nat (n div 10) @ [char_of (48 + n mod 10)])"

declare string_of_nat.simps [simp del]

definition string_of_int :: "int \<Rightarrow> string" where
  "string_of_int i = (if i < 0 then CHR ''-'' # string_of_nat (nat (- i)) else string_of_nat (nat i))"

text \<open>The value of a string of decimal digits: reading back what was printed.\<close>

definition digits_value :: "string \<Rightarrow> nat" where
  "digits_value s = foldl (\<lambda>v c. 10 * v + (of_char c - 48)) 0 s"

lemma digits_value_snoc: "digits_value (s @ [c]) = 10 * digits_value s + (of_char c - 48)"
  by (simp add: digits_value_def)

lemma digits_value_string_of_nat: "digits_value (string_of_nat n) = n"
proof (induction n rule: string_of_nat.induct)
  case (1 n)
  show ?case
  proof (cases "n < 10")
    case True
    then show ?thesis by (subst string_of_nat.simps) (simp add: digits_value_def)
  next
    case False
    moreover have "(48 + n mod 10) mod 256 = 48 + n mod 10" by simp
    ultimately show ?thesis using 1 by (subst string_of_nat.simps) (simp add: digits_value_snoc)
  qed
qed

lemma digits_value_zeros: "digits_value (replicate k CHR ''0'' @ s) = digits_value s"
  by (induction k) (simp_all add: digits_value_def)

section \<open>Array loops\<close>

text \<open>
  \<^verbatim>\<open>for (int i = n; i > index; i--) a[i] = a[i-1];\<close>
\<close>

fun shift_up :: "'a list \<Rightarrow> nat \<Rightarrow> nat \<Rightarrow> 'a list" where
  "shift_up xs i index =
     (if index < i then shift_up (xs[i := xs ! (i - 1)]) (i - 1) index else xs)"

text \<open>
  \<^verbatim>\<open>for (int i = index; i < n - 1; i++) a[i] = a[i+1];\<close>
\<close>

function shift_down :: "'a list \<Rightarrow> nat \<Rightarrow> nat \<Rightarrow> 'a list" where
  "shift_down xs i n =
     (if Suc i < n then shift_down (xs[i := xs ! Suc i]) (Suc i) n else xs)"
  by pat_completeness auto
termination
  by (relation "measure (\<lambda>(xs, i, n). n - i)") auto

declare shift_up.simps [simp del] shift_down.simps [simp del]

lemma shift_up_stop [simp]: "\<not> k < i \<Longrightarrow> shift_up xs i k = xs"
  by (subst shift_up.simps) simp

lemma shift_down_stop [simp]: "\<not> Suc i < n \<Longrightarrow> shift_down xs i n = xs"
  by (subst shift_down.simps) simp

lemma length_shift_up [simp]: "length (shift_up xs i k) = length xs"
proof (induction xs i k rule: shift_up.induct)
  case (1 xs i k)
  then show ?case by (cases "k < i") (simp_all add: shift_up.simps [of xs i k])
qed

lemma length_shift_down [simp]: "length (shift_down xs i n) = length xs"
proof (induction xs i n rule: shift_down.induct)
  case (1 xs i n)
  then show ?case by (cases "Suc i < n") (simp_all add: shift_down.simps [of xs i n])
qed

lemma shift_up_form:
  "k \<le> n \<Longrightarrow> n < length xs \<Longrightarrow>
   shift_up xs n k = take (Suc k) xs @ drop k (take n xs) @ drop (Suc n) xs"
proof (induction xs n k rule: shift_up.induct)
  case (1 xs n k)
  show ?case
  proof (cases "k < n")
    case True
    let ?ys = "xs[n := xs ! (n - 1)]"
    have "shift_up xs n k = shift_up ?ys (n - 1) k"
      using True by (simp add: shift_up.simps [of xs n k])
    also have "\<dots> = take (Suc k) ?ys @ drop k (take (n - 1) ?ys) @ drop n ?ys"
      using "1.IH" [OF True] "1.prems" True by simp
    also have "drop n ?ys = xs ! (n - 1) # drop (Suc n) xs"
      using "1.prems" by (simp add: Cons_nth_drop_Suc [symmetric])
    also have "take (Suc k) ?ys = take (Suc k) xs"
      using True by simp
    also have "drop k (take (n - 1) ?ys) = drop k (take (n - 1) xs)"
      using True by simp
    finally have "shift_up xs n k =
        take (Suc k) xs @ (drop k (take (n - 1) xs) @ [xs ! (n - 1)]) @ drop (Suc n) xs"
      by simp
    moreover have "drop k (take (n - 1) xs) @ [xs ! (n - 1)] = drop k (take n xs)"
    proof -
      have "take n xs = take (n - 1) xs @ [xs ! (n - 1)]"
        using True "1.prems" take_Suc_conv_app_nth [of "n - 1" xs] by simp
      moreover have "k \<le> length (take (n - 1) xs)"
        using True "1.prems" by simp
      ultimately show ?thesis by simp
    qed
    ultimately show ?thesis by simp
  next
    case False
    with "1.prems" show ?thesis by simp
  qed
qed

lemma insert_slot [array_forms]:
  assumes "k \<le> n" and "n < length xs"
  shows "(shift_up xs n k)[k := x] = take k xs @ x # drop k (take n xs) @ drop (Suc n) xs"
proof -
  have "take (Suc k) xs = take k xs @ [xs ! k]"
    using assms by (simp add: take_Suc_conv_app_nth)
  then show ?thesis
    using assms by (simp add: shift_up_form list_update_append)
qed

lemma shift_down_form [array_forms]:
  "k < n \<Longrightarrow> n \<le> length xs \<Longrightarrow>
   shift_down xs k n = take k xs @ drop (Suc k) (take n xs) @ drop (n - 1) xs"
proof (induction xs k n rule: shift_down.induct)
  case (1 xs k n)
  show ?case
  proof (cases "Suc k < n")
    case True
    let ?ys = "xs[k := xs ! Suc k]"
    have "shift_down xs k n = shift_down ?ys (Suc k) n"
      using True by (simp add: shift_down.simps [of xs k n])
    also have "\<dots> = take (Suc k) ?ys @ drop (Suc (Suc k)) (take n ?ys) @ drop (n - 1) ?ys"
      using "1.IH" [OF True] "1.prems" True by simp
    also have "take (Suc k) ?ys = take k xs @ [xs ! Suc k]"
      using True "1.prems" by (simp add: take_Suc_conv_app_nth)
    also have "drop (n - 1) ?ys = drop (n - 1) xs"
      using True by simp
    also have "drop (Suc (Suc k)) (take n ?ys) = drop (Suc (Suc k)) (take n xs)"
      by (simp add: drop_take)
    finally have "shift_down xs k n =
        take k xs @ (xs ! Suc k # drop (Suc (Suc k)) (take n xs)) @ drop (n - 1) xs"
      by simp
    moreover have "xs ! Suc k # drop (Suc (Suc k)) (take n xs) = drop (Suc k) (take n xs)"
      using True "1.prems" Cons_nth_drop_Suc [of "Suc k" "take n xs"] by simp
    ultimately show ?thesis by simp
  next
    case False
    with "1.prems" have "n = Suc k" by simp
    with "1.prems" show ?thesis by simp
  qed
qed

lemma delete_slot [array_forms]:
  assumes "k < n" and "n \<le> length xs"
  shows "take (n - 1) (shift_down xs k n) = take k xs @ drop (Suc k) (take n xs)"
proof -
  have "n - 1 = k + (n - 1 - k)" using assms by simp
  then have "take (n - 1) xs = take k xs @ take (n - 1 - k) (drop k xs)"
    by (metis take_add)
  then show ?thesis
    using assms by (simp add: shift_down_form)
qed

section \<open>Sorted association lists\<close>

lemma sorted_without_nth:
  assumes "sorted xs"
  shows "sorted (take k xs @ drop (Suc k) xs)"
proof -
  have "\<forall>x \<in> set (take k xs). \<forall>y \<in> set (drop k xs). x \<le> y"
    using assms by (metis append_take_drop_id sorted_append)
  moreover have "set (drop (Suc k) xs) \<subseteq> set (drop k xs)"
    by (rule set_drop_subset_set_drop) simp
  ultimately show ?thesis
    using sorted_wrt_drop [OF assms] sorted_wrt_take [OF assms] by (auto simp: sorted_append)
qed

text \<open>
  A list sorted by a key is determined by its sublists of equal key.
\<close>

lemma sorted_key_eqI:
  assumes "sorted (map f xs)" and "sorted (map f ys)"
    and "\<And>k. filter (\<lambda>x. f x = k) xs = filter (\<lambda>x. f x = k) ys"
  shows "xs = ys"
  using assms
proof (induction xs arbitrary: ys)
  case Nil
  then have "filter (\<lambda>x. f x = f (hd ys)) ys = []" by (metis filter.simps(1))
  then show ?case by (cases ys) simp_all
next
  case (Cons x xs)
  have fx: "x # filter (\<lambda>z. f z = f x) xs = filter (\<lambda>z. f z = f x) ys"
    using Cons.prems(3) [of "f x"] by simp
  then have "x \<in> set (filter (\<lambda>z. f z = f x) ys)"
    by (metis list.set_intros(1))
  then have x: "x \<in> set ys" by simp
  then obtain y ys' where ys: "ys = y # ys'" by (cases ys) auto
  have "y \<in> set (filter (\<lambda>z. f z = f y) (x # xs))"
    using Cons.prems(3) [of "f y"] ys by simp
  then have "f x \<le> f y" using Cons.prems(1) by (auto split: if_splits)
  moreover have "f y \<le> f x" using Cons.prems(2) ys x by auto
  ultimately have eq: "f y = f x" by simp
  then have "y = x"
    using fx ys by simp
  moreover have "filter (\<lambda>z. f z = k) xs = filter (\<lambda>z. f z = k) ys'" for k
    using Cons.prems(3) [of k] ys \<open>y = x\<close> by (cases "f x = k") auto
  then have "xs = ys'"
    using Cons.IH [of ys'] Cons.prems(1,2) ys by simp
  ultimately show ?case using ys by simp
qed

lemma takeWhile_sorted_take:
  assumes "k \<le> length ps" and "\<And>i. i < k \<Longrightarrow> P (ps ! i)" and "k < length ps \<Longrightarrow> \<not> P (ps ! k)"
  shows "takeWhile P ps = take k ps" and "dropWhile P ps = drop k ps"
proof -
  have "ps = take k ps @ drop k ps" by simp
  moreover have all: "\<forall>x \<in> set (take k ps). P x"
    using assms(1,2) by (auto simp: in_set_conv_nth)
  moreover have nil: "takeWhile P (drop k ps) = []"
    using assms(3) by (cases "k < length ps") (auto simp: Cons_nth_drop_Suc [symmetric])
  ultimately show t: "takeWhile P ps = take k ps"
    by (metis append_Nil2 takeWhile_append2)
  then show "dropWhile P ps = drop k ps"
    using assms(1) by (simp add: dropWhile_eq_drop)
qed

end
