(* ===== verification/Hash_Table.thy ===== *)
theory Hash_Table
  imports Condor_Prelude "HOL-Library.Multiset"
begin

text \<open>
  The template \<open>HashTable\<close> of \<open>condor_utils/HashTable.h\<close>: chained buckets, growth at a load
  factor of 0.8, three policies for duplicate keys, and an iterator that lives in the table.
  The array of chains is a list of lists (\<open>ht\<close>), each chain a list of key and value pairs with
  the most recent insertion first. The iterator's \<open>currentItem\<close> pointer is the index of the
  item in the chain \<open>currentBucket\<close>, or \<open>None\<close> for the null pointer.

  The load factor test compares two doubles; it is written as \<open>5 * numElems \<ge> 4 * tableSize\<close>,
  which the division and the literal 0.8 decide alike for every table that fits in memory.

  \<open>dict\<close> is the interface of a table that rejects duplicate keys (a partial function);
  \<open>htab\<close> interprets it. The iterator lemmas show that a walk visits every entry once, also
  when the entry just visited is removed.
\<close>

datatype duplicateKeyBehavior =
  allowDuplicateKeys | rejectDuplicateKeys | updateDuplicateKeys

record ('k, 'v) HashTable =
  h_hashfcn :: "'k \<Rightarrow> nat"
  h_tableSize :: nat
  h_ht :: "('k \<times> 'v) list list"
  h_duplicateKeyBehavior :: duplicateKeyBehavior
  h_currentBucket :: int
  h_currentItem :: "nat option"
  h_numElems :: nat

section \<open>Operations\<close>

definition new_HashTable :: "('k \<Rightarrow> nat) \<Rightarrow> duplicateKeyBehavior \<Rightarrow> ('k, 'v) HashTable" where
  "new_HashTable hashF behavior =
     \<lparr>h_hashfcn = hashF, h_tableSize = 7, h_ht = replicate 7 [],
      h_duplicateKeyBehavior = behavior, h_currentBucket = -1, h_currentItem = None,
      h_numElems = 0\<rparr>"

definition bucket_of :: "('k, 'v) HashTable \<Rightarrow> 'k \<Rightarrow> nat" where
  "bucket_of h k = h_hashfcn h k mod h_tableSize h"

definition needs_resizing :: "('k, 'v) HashTable \<Rightarrow> bool" where
  "needs_resizing h \<longleftrightarrow> 5 * h_numElems h \<ge> 4 * h_tableSize h"

text \<open>Each item of the old chains, in order, becomes the first of its new chain.\<close>

definition rehash_item :: "('k \<Rightarrow> nat) \<Rightarrow> nat \<Rightarrow> 'k \<times> 'v \<Rightarrow> ('k \<times> 'v) list list \<Rightarrow> ('k \<times> 'v) list list" where
  "rehash_item f n e b = b[f (fst e) mod n := e # b ! (f (fst e) mod n)]"

definition resize_hash_table :: "int \<Rightarrow> ('k, 'v) HashTable \<Rightarrow> ('k, 'v) HashTable" where
  "resize_hash_table newsize h =
     (let n = (if newsize \<le> 0 then (h_tableSize h + 1) * 2 - 1 else nat newsize)
      in h\<lparr>h_ht := fold (rehash_item (h_hashfcn h) n) (concat (h_ht h)) (replicate n []),
           h_currentItem := None, h_currentBucket := -1, h_tableSize := n\<rparr>)"

definition addItem :: "'k \<Rightarrow> 'v \<Rightarrow> ('k, 'v) HashTable \<Rightarrow> ('k, 'v) HashTable" where
  "addItem index val h =
     (let idx = bucket_of h index;
          h1 = h\<lparr>h_ht := (h_ht h)[idx := (index, val) # h_ht h ! idx],
                 h_currentItem := (if h_currentBucket h = int idx
                                   then map_option Suc (h_currentItem h) else h_currentItem h),
                 h_numElems := h_numElems h + 1\<rparr>
      in if needs_resizing h1 then resize_hash_table (-1) h1 else h1)"

fun update_chain :: "'k \<Rightarrow> 'v \<Rightarrow> ('k \<times> 'v) list \<Rightarrow> ('k \<times> 'v) list" where
  "update_chain k v [] = []"
| "update_chain k v ((k', v') # c) = (if k' = k then (k', v) # c else (k', v') # update_chain k v c)"

definition in_chain :: "'k \<Rightarrow> ('k \<times> 'v) list \<Rightarrow> bool" where
  "in_chain k c \<longleftrightarrow> k \<in> fst ` set c"

definition hash_insert :: "'k \<Rightarrow> 'v \<Rightarrow> ('k, 'v) HashTable \<Rightarrow> int \<times> ('k, 'v) HashTable" where
  "hash_insert index val h =
     (let idx = bucket_of h index in
      if h_duplicateKeyBehavior h = rejectDuplicateKeys \<and> in_chain index (h_ht h ! idx) then (-1, h)
      else if h_duplicateKeyBehavior h = updateDuplicateKeys \<and> in_chain index (h_ht h ! idx)
      then (0, h\<lparr>h_ht := (h_ht h)[idx := update_chain index val (h_ht h ! idx)]\<rparr>)
      else (0, addItem index val h))"

text \<open>\<open>lookup\<close> returns -1 (here \<open>None\<close>) when the key is absent.\<close>

definition hash_lookup :: "('k, 'v) HashTable \<Rightarrow> 'k \<Rightarrow> 'v option" where
  "hash_lookup h index =
     (if h_numElems h = 0 then None else map_of (h_ht h ! bucket_of h index) index)"

text \<open>
  A table of pointers is also changed through the pointer a lookup returned; that writes the
  value of the first entry with the key.
\<close>

definition hash_write :: "'k \<Rightarrow> 'v \<Rightarrow> ('k, 'v) HashTable \<Rightarrow> ('k, 'v) HashTable" where
  "hash_write index val h =
     h\<lparr>h_ht := (h_ht h)[bucket_of h index := update_chain index val (h_ht h ! bucket_of h index)]\<rparr>"

fun find_pos :: "'k \<Rightarrow> ('k \<times> 'v) list \<Rightarrow> nat option" where
  "find_pos k [] = None"
| "find_pos k (e # c) = (if fst e = k then Some 0 else map_option Suc (find_pos k c))"

definition hash_remove :: "'k \<Rightarrow> ('k, 'v) HashTable \<Rightarrow> int \<times> ('k, 'v) HashTable" where
  "hash_remove index h =
     (let idx = bucket_of h index; c = h_ht h ! idx in
      case find_pos index c of
        None \<Rightarrow> (-1, h)
      | Some j \<Rightarrow>
          (0, h\<lparr>h_ht := (h_ht h)[idx := take j c @ drop (Suc j) c],
                h_currentBucket :=
                  (if h_currentBucket h = int idx \<and> h_currentItem h = Some j \<and> j = 0
                   then h_currentBucket h - 1 else h_currentBucket h),
                h_currentItem :=
                  (if h_currentBucket h = int idx then
                     (case h_currentItem h of
                        None \<Rightarrow> None
                      | Some i \<Rightarrow> if i = j \<and> j = 0 then None else if j \<le> i then Some (i - 1) else Some i)
                   else h_currentItem h),
                h_numElems := h_numElems h - 1\<rparr>))"

definition hash_clear :: "('k, 'v) HashTable \<Rightarrow> ('k, 'v) HashTable" where
  "hash_clear h = h\<lparr>h_ht := replicate (h_tableSize h) [], h_numElems := 0\<rparr>"

definition startIterations :: "('k, 'v) HashTable \<Rightarrow> ('k, 'v) HashTable" where
  "startIterations h = h\<lparr>h_currentBucket := -1, h_currentItem := None\<rparr>"

text \<open>The \<open>do\<close> loop that looks for the next non-empty chain.\<close>

function next_bucket :: "('k \<times> 'v) list list \<Rightarrow> nat \<Rightarrow> int \<Rightarrow> int" where
  "next_bucket ht n b =
     (if b + 1 \<ge> int n then -1
      else if ht ! nat (b + 1) \<noteq> [] then b + 1 else next_bucket ht n (b + 1))"
  by pat_completeness auto
termination
  by (relation "measure (\<lambda>(ht, n, b). nat (int n - b))") auto

declare next_bucket.simps [simp del]

definition iterate :: "('k, 'v) HashTable \<Rightarrow> ('k \<times> 'v) option \<times> ('k, 'v) HashTable" where
  "iterate h =
     (case h_currentItem h of
        Some j \<Rightarrow>
          if Suc j < length (h_ht h ! nat (h_currentBucket h))
          then (Some (h_ht h ! nat (h_currentBucket h) ! Suc j), h\<lparr>h_currentItem := Some (Suc j)\<rparr>)
          else (let b = next_bucket (h_ht h) (h_tableSize h) (h_currentBucket h) in
                if b = -1 then (None, h\<lparr>h_currentBucket := -1, h_currentItem := None\<rparr>)
                else (Some (hd (h_ht h ! nat b)), h\<lparr>h_currentBucket := b, h_currentItem := Some 0\<rparr>))
      | None \<Rightarrow>
          (let b = next_bucket (h_ht h) (h_tableSize h) (h_currentBucket h) in
           if b = -1 then (None, h\<lparr>h_currentBucket := -1, h_currentItem := None\<rparr>)
           else (Some (hd (h_ht h ! nat b)), h\<lparr>h_currentBucket := b, h_currentItem := Some 0\<rparr>)))"

section \<open>Invariant and abstraction\<close>

definition hash_entries :: "('k, 'v) HashTable \<Rightarrow> ('k \<times> 'v) list" where
  "hash_entries h = concat (h_ht h)"

definition hash_ok :: "('k, 'v) HashTable \<Rightarrow> bool" where
  "hash_ok h \<longleftrightarrow>
     0 < h_tableSize h \<and> length (h_ht h) = h_tableSize h \<and>
     (\<forall>i < h_tableSize h. \<forall>e \<in> set (h_ht h ! i). bucket_of h (fst e) = i) \<and>
     h_numElems h = length (hash_entries h) \<and> distinct (map fst (hash_entries h))"

lemma mset_concat_update:
  "i < length xss \<Longrightarrow> mset (concat (xss[i := ys])) + mset (xss ! i) = mset (concat xss) + mset ys"
proof (induction xss arbitrary: i)
  case (Cons xs xss)
  then show ?case by (cases i) (auto simp: ac_simps)
qed simp

lemma in_set_concat_nth: "x \<in> set (concat xss) \<longleftrightarrow> (\<exists>i < length xss. x \<in> set (xss ! i))"
  by (metis in_set_conv_nth set_concat UN_iff)

lemma bucket_of_less: "hash_ok h \<Longrightarrow> bucket_of h k < length (h_ht h)"
  by (simp add: hash_ok_def bucket_of_def)

lemma chain_iff_entries:
  assumes "hash_ok h"
  shows "(k, v) \<in> set (h_ht h ! bucket_of h k) \<longleftrightarrow> (k, v) \<in> set (hash_entries h)"
proof -
  have "i = bucket_of h k" if "i < length (h_ht h)" "(k, v) \<in> set (h_ht h ! i)" for i
    using assms that by (force simp: hash_ok_def)
  then show ?thesis
    using bucket_of_less [OF assms, of k] unfolding hash_entries_def in_set_concat_nth by blast
qed

lemma distinct_chain:
  assumes "hash_ok h" and "i < length (h_ht h)"
  shows "distinct (map fst (h_ht h ! i))"
proof -
  have "h_ht h = take i (h_ht h) @ h_ht h ! i # drop (Suc i) (h_ht h)"
    by (rule id_take_nth_drop [OF assms(2)])
  then have "hash_entries h = concat (take i (h_ht h)) @ h_ht h ! i @ concat (drop (Suc i) (h_ht h))"
    by (metis concat.simps(2) concat_append hash_entries_def)
  moreover have "distinct (map fst (hash_entries h))"
    using assms(1) by (simp add: hash_ok_def)
  ultimately show ?thesis by simp
qed

lemma hash_lookup_iff:
  assumes "hash_ok h"
  shows "hash_lookup h k = Some v \<longleftrightarrow> (k, v) \<in> set (hash_entries h)"
  using chain_iff_entries [OF assms, of k v] distinct_chain [OF assms bucket_of_less [OF assms, of k]]
    assms
  by (auto simp: hash_lookup_def hash_ok_def)

lemma hash_lookup_map_of:
  assumes "hash_ok h"
  shows "hash_lookup h = map_of (hash_entries h)"
proof
  fix k
  have "distinct (map fst (hash_entries h))" using assms by (simp add: hash_ok_def)
  then have "hash_lookup h k = Some v \<longleftrightarrow> map_of (hash_entries h) k = Some v" for v
    using hash_lookup_iff [OF assms] by simp
  then show "hash_lookup h k = map_of (hash_entries h) k"
    by (metis not_None_eq)
qed

lemma in_chain_iff:
  assumes "hash_ok h"
  shows "in_chain k (h_ht h ! bucket_of h k) \<longleftrightarrow> hash_lookup h k \<noteq> None"
proof -
  have "in_chain k (h_ht h ! bucket_of h k) \<longleftrightarrow> (\<exists>v. (k, v) \<in> set (h_ht h ! bucket_of h k))"
    by (force simp: in_chain_def)
  then show ?thesis
    unfolding chain_iff_entries [OF assms] hash_lookup_iff [OF assms, symmetric] by blast
qed

text \<open>Two tables whose entries agree up to order answer lookups alike.\<close>

lemma mset_entries_lookup:
  assumes "hash_ok h" and "mset (hash_entries h) = mset es"
  shows "hash_lookup h = map_of es" and "distinct (map fst es)"
proof -
  have "mset (map fst (hash_entries h)) = mset (map fst es)" using assms(2) by simp
  moreover have "distinct (map fst (hash_entries h))" using assms(1) by (simp add: hash_ok_def)
  ultimately show d: "distinct (map fst es)" by (metis mset_eq_imp_distinct_iff)
  with assms show "hash_lookup h = map_of es"
    by (simp add: hash_lookup_map_of hash_ok_def) (metis map_of_eqI map_of_eq_Some_iff
        mset_eq_setD set_map image_set not_None_eq)
qed

section \<open>Growth\<close>

definition chained :: "('k \<Rightarrow> nat) \<Rightarrow> nat \<Rightarrow> ('k \<times> 'v) list list \<Rightarrow> bool" where
  "chained f n b \<longleftrightarrow> length b = n \<and> (\<forall>i < n. \<forall>e \<in> set (b ! i). f (fst e) mod n = i)"

lemma hash_ok_chained:
  "hash_ok h \<longleftrightarrow> 0 < h_tableSize h \<and> chained (h_hashfcn h) (h_tableSize h) (h_ht h) \<and>
     h_numElems h = length (hash_entries h) \<and> distinct (map fst (hash_entries h))"
  by (auto simp: hash_ok_def chained_def bucket_of_def)

lemma chained_add:
  assumes "chained f n b" and "0 < n"
  shows "chained f n (rehash_item f n e b)"
    and "mset (concat (rehash_item f n e b)) = add_mset e (mset (concat b))"
proof -
  have lt: "f (fst e) mod n < length b" using assms by (simp add: chained_def)
  show "chained f n (rehash_item f n e b)"
    using assms lt by (auto simp: chained_def rehash_item_def nth_list_update)
  show "mset (concat (rehash_item f n e b)) = add_mset e (mset (concat b))"
    using mset_concat_update [OF lt, of "e # b ! (f (fst e) mod n)"] by (simp add: rehash_item_def)
qed

lemma chained_rehash:
  assumes "0 < n"
  shows "chained f n b \<Longrightarrow> chained f n (fold (rehash_item f n) es b) \<and>
    mset (concat (fold (rehash_item f n) es b)) = mset es + mset (concat b)"
proof (induction es arbitrary: b)
  case (Cons e es)
  then show ?case using Cons.IH [OF chained_add(1) [OF Cons.prems assms]] chained_add [OF Cons.prems assms]
    by simp
qed simp

lemma chained_empty: "chained f n (replicate n [])"
  by (simp add: chained_def)

lemma concat_replicate_Nil [simp]: "concat (replicate n []) = []"
  by (induction n) simp_all

lemma resize_entries:
  assumes "h_numElems h = length (hash_entries h)" and "distinct (map fst (hash_entries h))"
  shows "hash_ok (resize_hash_table (-1) h)"
    and "mset (hash_entries (resize_hash_table (-1) h)) = mset (hash_entries h)"
proof -
  let ?n = "(h_tableSize h + 1) * 2 - 1"
  let ?b = "fold (rehash_item (h_hashfcn h) ?n) (concat (h_ht h)) (replicate ?n [])"
  have n: "0 < ?n" by simp
  note c = chained_rehash [OF n chained_empty, of "h_hashfcn h" "concat (h_ht h)"]
  have e: "hash_entries (resize_hash_table (-1) h) = concat ?b"
    by (simp add: hash_entries_def resize_hash_table_def)
  show m: "mset (hash_entries (resize_hash_table (-1) h)) = mset (hash_entries h)"
    using c unfolding e by (simp add: hash_entries_def)
  then have "length (hash_entries (resize_hash_table (-1) h)) = length (hash_entries h)"
    and "distinct (map fst (hash_entries (resize_hash_table (-1) h)))"
    using assms(2) by (metis mset_eq_length, metis mset_eq_imp_distinct_iff mset_map)
  then show "hash_ok (resize_hash_table (-1) h)"
    using c assms(1) unfolding hash_ok_chained by (simp add: resize_hash_table_def Let_def)
qed

lemma addItem_ok:
  assumes "hash_ok h" and "hash_lookup h k = None"
  shows "hash_ok (addItem k v h)"
    and "mset (hash_entries (addItem k v h)) = add_mset (k, v) (mset (hash_entries h))"
proof -
  let ?i = "bucket_of h k"
  let ?ht = "rehash_item (h_hashfcn h) (h_tableSize h) (k, v) (h_ht h)"
  define h1 where "h1 = h\<lparr>h_ht := ?ht,
     h_currentItem := (if h_currentBucket h = int ?i
                       then map_option Suc (h_currentItem h) else h_currentItem h),
     h_numElems := h_numElems h + 1\<rparr>"
  have add: "addItem k v h = (if needs_resizing h1 then resize_hash_table (-1) h1 else h1)"
    by (simp add: addItem_def h1_def bucket_of_def rehash_item_def Let_def)
  have ok: "chained (h_hashfcn h) (h_tableSize h) (h_ht h)" "0 < h_tableSize h"
    using assms(1) by (simp_all add: hash_ok_chained)
  have m: "mset (hash_entries h1) = add_mset (k, v) (mset (hash_entries h))"
    using chained_add(2) [OF ok] by (simp add: hash_entries_def h1_def)
  have "k \<notin> fst ` set (hash_entries h)"
    using assms(2) hash_lookup_map_of [OF assms(1)] by (simp add: map_of_eq_None_iff)
  moreover have "mset (map fst (hash_entries h1)) = mset (k # map fst (hash_entries h))"
    using m by (simp add: mset_map)
  ultimately have d: "distinct (map fst (hash_entries h1))"
    using assms(1) by (simp add: hash_ok_def mset_eq_imp_distinct_iff [OF \<open>mset (map fst (hash_entries h1)) = _\<close>])
  have len: "h_numElems h1 = length (hash_entries h1)"
    using m assms(1) by (metis add_mset_add_single h1_def hash_ok_def size_mset size_single size_union
        HashTable.select_convs(7) HashTable.update_convs(7) HashTable.surjective)
  have "hash_ok h1"
    using chained_add(1) [OF ok] ok d len by (simp add: hash_ok_chained h1_def)
  then show "hash_ok (addItem k v h)"
    and "mset (hash_entries (addItem k v h)) = add_mset (k, v) (mset (hash_entries h))"
    using resize_entries [OF len d] m by (simp_all add: add)
qed

section \<open>The operations as a partial function\<close>

lemma new_HashTable_ok: "hash_ok (new_HashTable f b)"
  unfolding hash_ok_chained by (simp add: new_HashTable_def hash_entries_def chained_empty)

lemma new_HashTable_lookup [simp]: "hash_lookup (new_HashTable f b) = Map.empty"
  by (rule ext) (simp add: hash_lookup_def new_HashTable_def)

lemma insert_new:
  assumes "hash_ok h" and "hash_lookup h k = None"
  shows "hash_insert k v h = (0, addItem k v h)"
    and "hash_ok (addItem k v h)" and "hash_lookup (addItem k v h) = (hash_lookup h)(k \<mapsto> v)"
proof -
  show "hash_insert k v h = (0, addItem k v h)"
    using in_chain_iff [OF assms(1), of k] assms(2) by (simp add: hash_insert_def Let_def)
  show ok: "hash_ok (addItem k v h)" by (rule addItem_ok(1) [OF assms])
  have "mset (hash_entries (addItem k v h)) = mset ((k, v) # hash_entries h)"
    by (simp add: addItem_ok(2) [OF assms])
  from mset_entries_lookup(1) [OF ok this]
  show "hash_lookup (addItem k v h) = (hash_lookup h)(k \<mapsto> v)"
    by (simp add: hash_lookup_map_of [OF assms(1)])
qed

lemma insert_old:
  assumes "hash_ok h" and "hash_lookup h k \<noteq> None" and "h_duplicateKeyBehavior h = rejectDuplicateKeys"
  shows "hash_insert k v h = (-1, h)"
  using in_chain_iff [OF assms(1), of k] assms by (simp add: hash_insert_def Let_def)

lemma update_chain_keys [simp]: "map fst (update_chain k v c) = map fst c"
  by (induction k v c rule: update_chain.induct) auto

lemma update_chain_length [simp]: "length (update_chain k v c) = length c"
  by (induction k v c rule: update_chain.induct) auto

lemma map_of_update_chain:
  "k \<in> fst ` set c \<Longrightarrow> map_of (update_chain k v c) = (map_of c)(k \<mapsto> v)"
proof (induction k v c rule: update_chain.induct)
  case (2 k v k' v' c)
  then show ?case by (cases "k' = k") (auto simp: fun_eq_iff)
qed simp

lemma map_concat_update:
  assumes "map g ys = map g (xss ! i)"
  shows "map g (concat (xss[i := ys])) = map g (concat xss)"
proof (cases "i < length xss")
  case True
  have "map (map g) (xss[i := ys]) = map (map g) xss"
    by (metis assms list_update_id map_update)
  then show ?thesis by (metis map_concat)
qed (simp add: list_update_beyond)

text \<open>Writing through the pointer keeps the keys and replaces the value.\<close>

lemma hash_write_ok:
  assumes "hash_ok h" and "hash_lookup h k \<noteq> None"
  shows "hash_ok (hash_write k v h)" and "hash_lookup (hash_write k v h) = (hash_lookup h)(k \<mapsto> v)"
proof -
  let ?i = "bucket_of h k"
  let ?h = "hash_write k v h"
  have keys: "map fst (hash_entries ?h) = map fst (hash_entries h)"
    by (simp add: hash_entries_def hash_write_def map_concat_update)
  have c: "chained (h_hashfcn h) (h_tableSize h) (h_ht h)" using assms(1) by (simp add: hash_ok_chained)
  have "fst ` set (update_chain k v (h_ht h ! ?i)) = fst ` set (h_ht h ! ?i)"
    by (metis set_map update_chain_keys)
  then have "fst ` set (h_ht ?h ! i) = fst ` set (h_ht h ! i)" if "i < h_tableSize h" for i
    using bucket_of_less [OF assms(1), of k] that
    by (cases "i = ?i") (simp_all add: hash_write_def)
  moreover have "\<forall>i < h_tableSize h. \<forall>x \<in> fst ` set (h_ht h ! i). h_hashfcn h x mod h_tableSize h = i"
    using c by (simp add: chained_def)
  ultimately have "\<forall>i < h_tableSize h. \<forall>x \<in> fst ` set (h_ht ?h ! i). h_hashfcn h x mod h_tableSize h = i"
    by metis
  then have "chained (h_hashfcn h) (h_tableSize h) (h_ht ?h)"
    using c by (simp add: chained_def) (simp add: hash_write_def)
  moreover have "length (hash_entries ?h) = length (hash_entries h)"
    using keys by (metis length_map)
  ultimately show ok: "hash_ok ?h"
    using assms(1) keys unfolding hash_ok_chained by (simp add: hash_write_def)
  have "k \<in> fst ` set (h_ht h ! ?i)"
    using in_chain_iff [OF assms(1)] assms(2) by (simp add: in_chain_def)
  note up = map_of_update_chain [OF this]
  have ne: "h_numElems h \<noteq> 0" using assms(2) by (auto simp: hash_lookup_def split: if_splits)
  have other: "h_ht ?h ! bucket_of ?h x = (if bucket_of h x = ?i then update_chain k v (h_ht h ! ?i)
      else h_ht h ! bucket_of h x)" for x
    using bucket_of_less [OF assms(1)] by (simp add: hash_write_def bucket_of_def nth_list_update)
  show "hash_lookup ?h = (hash_lookup h)(k \<mapsto> v)"
  proof
    fix x
    show "hash_lookup ?h x = ((hash_lookup h)(k \<mapsto> v)) x"
      using ne up by (auto simp: hash_lookup_def other) (simp_all add: hash_write_def)
  qed
qed

lemma find_pos_Some:
  "find_pos k c = Some j \<Longrightarrow> j < length c \<and> fst (c ! j) = k"
  by (induction k c arbitrary: j rule: find_pos.induct) (auto split: if_splits)

lemma find_pos_None: "find_pos k c = None \<longleftrightarrow> k \<notin> fst ` set c"
  by (induction k c rule: find_pos.induct) auto

lemma mset_without_nth: "j < length c \<Longrightarrow> add_mset (c ! j) (mset (take j c @ drop (Suc j) c)) = mset c"
  by (metis id_take_nth_drop mset.simps(2) mset_append union_mset_add_mset_right)

lemma mset_cancel: "A + C = B + D \<Longrightarrow> C = add_mset x D \<Longrightarrow> add_mset x A = B"
  by simp

lemma remove_old:
  assumes "hash_ok h" and "hash_lookup h k = Some v"
  shows "fst (hash_remove k h) = 0"
    and "hash_ok (snd (hash_remove k h))"
    and "hash_lookup (snd (hash_remove k h)) = (hash_lookup h)(k := None)"
    and "add_mset (k, v) (mset (hash_entries (snd (hash_remove k h)))) = mset (hash_entries h)"
proof -
  let ?i = "bucket_of h k"
  let ?c = "h_ht h ! ?i"
  let ?h = "snd (hash_remove k h)"
  have kv: "(k, v) \<in> set ?c"
    using assms by (simp add: hash_lookup_iff chain_iff_entries)
  then have "find_pos k ?c \<noteq> None" unfolding find_pos_None by (metis fst_conv imageI)
  then obtain j where f: "find_pos k ?c = Some j" by blast
  note j = find_pos_Some [OF f]
  show "fst (hash_remove k h) = 0" by (simp add: hash_remove_def f Let_def)
  have ht: "h_ht ?h = (h_ht h)[?i := take j ?c @ drop (Suc j) ?c]"
    and fr: "h_hashfcn ?h = h_hashfcn h" "h_tableSize ?h = h_tableSize h"
      "h_numElems ?h = h_numElems h - 1"
    by (simp_all add: hash_remove_def f Let_def)
  have cj: "?c ! j = (k, v)"
    using j kv distinct_chain [OF assms(1) bucket_of_less [OF assms(1), of k]]
    by (metis eq_key_imp_eq_value nth_mem prod.collapse)
  have "mset (hash_entries ?h) + mset ?c = mset (hash_entries h) + mset (take j ?c @ drop (Suc j) ?c)"
    unfolding hash_entries_def ht by (rule mset_concat_update [OF bucket_of_less [OF assms(1)]])
  moreover have "mset ?c = add_mset (k, v) (mset (take j ?c @ drop (Suc j) ?c))"
    using mset_without_nth [of j ?c] j cj by simp
  ultimately show m: "add_mset (k, v) (mset (hash_entries ?h)) = mset (hash_entries h)"
    by (rule mset_cancel)
  then have mm: "mset ((k, v) # hash_entries ?h) = mset (hash_entries h)" by simp
  then have "mset (map fst ((k, v) # hash_entries ?h)) = mset (map fst (hash_entries h))"
    by (metis mset_map)
  then have d: "distinct (map fst ((k, v) # hash_entries ?h))"
    using assms(1) by (metis hash_ok_def mset_eq_imp_distinct_iff)
  have "chained (h_hashfcn h) (h_tableSize h) (h_ht ?h)"
  proof -
    have "chained (h_hashfcn h) (h_tableSize h) (h_ht h)" using assms(1) by (simp add: hash_ok_chained)
    moreover have "set (take j ?c @ drop (Suc j) ?c) \<subseteq> set ?c"
      by (auto dest: in_set_takeD in_set_dropD)
    then have "set (h_ht ?h ! i) \<subseteq> set (h_ht h ! i)" if "i < h_tableSize h" for i
      using bucket_of_less [OF assms(1), of k] by (cases "i = ?i") (simp_all add: ht)
    ultimately show ?thesis unfolding chained_def by (auto simp: ht)
  qed
  moreover have "Suc (length (hash_entries ?h)) = length (hash_entries h)"
    using mm by (metis length_Cons mset_eq_length)
  ultimately show ok: "hash_ok ?h"
    using assms(1) d unfolding hash_ok_chained by (simp add: fr)
  show "hash_lookup ?h = (hash_lookup h)(k := None)"
    using mset_entries_lookup(1) [OF assms(1), of "(k, v) # hash_entries ?h"] mm d
    by (auto simp: hash_lookup_map_of [OF ok] fun_eq_iff map_of_eq_None_iff)
qed

lemma remove_missing:
  assumes "hash_ok h" and "hash_lookup h k = None"
  shows "hash_remove k h = (-1, h)"
proof -
  have "find_pos k (h_ht h ! bucket_of h k) = None"
    using in_chain_iff [OF assms(1), of k] assms(2) by (simp add: find_pos_None in_chain_def)
  then show ?thesis by (simp add: hash_remove_def Let_def)
qed

lemma behavior_kept [frame_simps]:
  "h_duplicateKeyBehavior (addItem k v h) = h_duplicateKeyBehavior h"
  "h_duplicateKeyBehavior (snd (hash_remove k h)) = h_duplicateKeyBehavior h"
  "h_duplicateKeyBehavior (hash_write k v h) = h_duplicateKeyBehavior h"
  by (simp_all add: addItem_def resize_hash_table_def hash_remove_def hash_write_def Let_def
      split: option.splits)

section \<open>Iteration\<close>

text \<open>\<open>hash_rest\<close> is what the iterator has still to visit.\<close>

definition hash_rest :: "('k, 'v) HashTable \<Rightarrow> ('k \<times> 'v) list" where
  "hash_rest h =
     (case h_currentItem h of
        Some j \<Rightarrow> drop (Suc j) (h_ht h ! nat (h_currentBucket h))
      | None \<Rightarrow> []) @ concat (drop (nat (h_currentBucket h + 1)) (h_ht h))"

definition iter_ok :: "('k, 'v) HashTable \<Rightarrow> bool" where
  "iter_ok h \<longleftrightarrow> -1 \<le> h_currentBucket h \<and> h_currentBucket h < int (h_tableSize h) \<and>
     (\<forall>j. h_currentItem h = Some j \<longrightarrow>
        0 \<le> h_currentBucket h \<and> j < length (h_ht h ! nat (h_currentBucket h)))"

definition hash_current :: "('k, 'v) HashTable \<Rightarrow> ('k \<times> 'v) option" where
  "hash_current h = map_option (\<lambda>j. h_ht h ! nat (h_currentBucket h) ! j) (h_currentItem h)"

lemma next_bucket_range:
  "next_bucket ht n b = -1 \<or> b < next_bucket ht n b \<and> next_bucket ht n b < int n"
proof (induction ht n b rule: next_bucket.induct)
  case (1 ht n b)
  then show ?case by (auto simp: next_bucket.simps [of ht n b])
qed

lemma next_bucket_spec:
  "-1 \<le> b \<Longrightarrow> length ht = n \<Longrightarrow>
   (if next_bucket ht n b = -1 then concat (drop (nat (b + 1)) ht) = []
    else ht ! nat (next_bucket ht n b) \<noteq> [] \<and>
      concat (drop (nat (b + 1)) ht) = ht ! nat (next_bucket ht n b) @ concat (drop (nat (next_bucket ht n b + 1)) ht))"
proof (induction ht n b rule: next_bucket.induct)
  case (1 ht n b)
  show ?case
  proof (cases "int n \<le> b + 1")
    case True
    with "1.prems" show ?thesis by (simp add: next_bucket.simps [of ht n b])
  next
    case False
    then have d: "concat (drop (nat (b + 1)) ht) = ht ! nat (b + 1) @ concat (drop (nat (b + 1 + 1)) ht)"
    proof -
      have "nat (b + 1 + 1) = Suc (nat (b + 1))" "nat (b + 1) < length ht"
        using "1.prems" False by simp_all
      then show ?thesis by (metis concat.simps(2) Cons_nth_drop_Suc)
    qed
    show ?thesis
    proof (cases "ht ! nat (b + 1) = []")
      case True
      then have eq: "next_bucket ht n b = next_bucket ht n (b + 1)"
        using False by (simp add: next_bucket.simps [of ht n b])
      have d': "concat (drop (nat (b + 1)) ht) = concat (drop (nat (b + 1 + 1)) ht)"
        using d True by simp
      show ?thesis
        unfolding eq d' by (rule "1.IH") (use False True "1.prems" in simp_all)
    next
      case ne: False
      then have "next_bucket ht n b = b + 1"
        using False by (simp add: next_bucket.simps [of ht n b])
      with ne d "1.prems" show ?thesis by simp
    qed
  qed
qed

lemma iterate_table [frame_simps]:
  "h_ht (snd (iterate h)) = h_ht h" "h_tableSize (snd (iterate h)) = h_tableSize h"
  "h_hashfcn (snd (iterate h)) = h_hashfcn h" "h_numElems (snd (iterate h)) = h_numElems h"
  "h_duplicateKeyBehavior (snd (iterate h)) = h_duplicateKeyBehavior h"
  by (simp_all add: iterate_def Let_def split: option.splits)

lemma hash_ok_iterator:
  "hash_ok (h\<lparr>h_currentBucket := b, h_currentItem := i\<rparr>) = hash_ok h"
  "hash_ok (h\<lparr>h_currentItem := i\<rparr>) = hash_ok h" "hash_ok (h\<lparr>h_currentBucket := b\<rparr>) = hash_ok h"
  "hash_lookup (h\<lparr>h_currentBucket := b, h_currentItem := i\<rparr>) = hash_lookup h"
  "hash_lookup (h\<lparr>h_currentItem := i\<rparr>) = hash_lookup h"
  by (auto simp: hash_ok_def hash_entries_def bucket_of_def hash_lookup_def)

lemma iterate_next_chain:
  assumes "hash_ok h" and "iter_ok h" and "\<forall>j. h_currentItem h = Some j \<longrightarrow> \<not> Suc j < length (h_ht h ! nat (h_currentBucket h))"
  shows "case hash_rest h of [] \<Rightarrow> fst (iterate h) = None
    | e # es \<Rightarrow> fst (iterate h) = Some e \<and> hash_rest (snd (iterate h)) = es \<and>
        iter_ok (snd (iterate h)) \<and> hash_current (snd (iterate h)) = Some e"
proof -
  let ?b = "next_bucket (h_ht h) (h_tableSize h) (h_currentBucket h)"
  have it: "iterate h = (if ?b = -1 then (None, h\<lparr>h_currentBucket := -1, h_currentItem := None\<rparr>)
      else (Some (hd (h_ht h ! nat ?b)), h\<lparr>h_currentBucket := ?b, h_currentItem := Some 0\<rparr>))"
    using assms(3) by (simp add: iterate_def Let_def split: option.splits)
  have r: "hash_rest h = concat (drop (nat (h_currentBucket h + 1)) (h_ht h))"
    using assms(3) by (auto simp: hash_rest_def split: option.splits)
  have b: "-1 \<le> h_currentBucket h" "length (h_ht h) = h_tableSize h"
    using assms(1,2) by (simp_all add: iter_ok_def hash_ok_def)
  note nb = next_bucket_spec [OF b] next_bucket_range [of "h_ht h" "h_tableSize h" "h_currentBucket h"]
  show ?thesis
  proof (cases "?b = -1")
    case True
    with nb(1) r have "hash_rest h = []" by metis
    with True it show ?thesis by simp
  next
    case False
    with nb(1) obtain e c where ec: "h_ht h ! nat ?b = e # c" by (metis list.exhaust)
    with False nb r it b show ?thesis
      by (auto simp: hash_rest_def iter_ok_def hash_current_def)
  qed
qed

lemma iterate_spec:
  assumes "hash_ok h" and "iter_ok h"
  shows "case hash_rest h of [] \<Rightarrow> fst (iterate h) = None
    | e # es \<Rightarrow> fst (iterate h) = Some e \<and> hash_rest (snd (iterate h)) = es \<and>
        iter_ok (snd (iterate h)) \<and> hash_current (snd (iterate h)) = Some e"
proof (cases "\<exists>j. h_currentItem h = Some j \<and> Suc j < length (h_ht h ! nat (h_currentBucket h))")
  case True
  then obtain j where j: "h_currentItem h = Some j" "Suc j < length (h_ht h ! nat (h_currentBucket h))"
    by blast
  then have "drop (Suc j) (h_ht h ! nat (h_currentBucket h)) =
      h_ht h ! nat (h_currentBucket h) ! Suc j # drop (Suc (Suc j)) (h_ht h ! nat (h_currentBucket h))"
    by (simp add: Cons_nth_drop_Suc)
  with j assms(2) show ?thesis
    by (simp add: hash_rest_def iterate_def iter_ok_def hash_current_def)
next
  case False
  then show ?thesis using iterate_next_chain [OF assms] by blast
qed

lemma startIterations_rest [simp]: "hash_rest (startIterations h) = hash_entries h"
  by (simp add: hash_rest_def startIterations_def hash_entries_def)

lemma startIterations_ok: "hash_ok h \<Longrightarrow> hash_ok (startIterations h) \<and> iter_ok (startIterations h)"
  by (simp add: startIterations_def iter_ok_def hash_ok_iterator)

text \<open>
  Removing the entry the iterator stands on does not disturb the rest of the walk.
\<close>

lemma remove_current:
  assumes "hash_ok h" and "iter_ok h" and "hash_current h = Some (k, v)"
  shows "hash_rest (snd (hash_remove k h)) = hash_rest h" and "iter_ok (snd (hash_remove k h))"
proof -
  let ?i = "bucket_of h k"
  let ?c = "h_ht h ! ?i"
  from assms(3) obtain j where j: "h_currentItem h = Some j" "h_ht h ! nat (h_currentBucket h) ! j = (k, v)"
    by (auto simp: hash_current_def)
  with assms(2) have cb: "0 \<le> h_currentBucket h" "nat (h_currentBucket h) < h_tableSize h"
    "j < length (h_ht h ! nat (h_currentBucket h))"
    by (auto simp: iter_ok_def)
  with assms(1) j have i: "nat (h_currentBucket h) = ?i"
    by (metis fst_conv hash_ok_def nth_mem)
  then have ii: "h_currentBucket h = int ?i" using cb by simp
  have "k \<in> fst ` set ?c" using j cb i by (metis fst_conv imageI nth_mem)
  then obtain j' where f: "find_pos k ?c = Some j'" using find_pos_None [of k ?c] by blast
  have "j' = j"
    using find_pos_Some [OF f] j cb distinct_chain [OF assms(1) bucket_of_less [OF assms(1), of k]]
    unfolding i using nth_eq_iff_index_eq [of "map fst ?c" j' j] by simp
  note f = f [unfolded this]
  have lt: "?i < length (h_ht h)" by (rule bucket_of_less [OF assms(1)])
  have dr: "drop (Suc ?i) ((h_ht h)[?i := c]) = drop (Suc ?i) (h_ht h)" for c by simp
  have dr0: "concat (drop ?i ((h_ht h)[?i := c])) = c @ concat (drop (Suc ?i) (h_ht h))" for c
    using lt by (simp add: Cons_nth_drop_Suc [symmetric])
  have rm: "snd (hash_remove k h) = h\<lparr>h_ht := (h_ht h)[?i := take j ?c @ drop (Suc j) ?c],
      h_currentBucket := (if j = 0 then int ?i - 1 else int ?i),
      h_currentItem := (if j = 0 then None else Some (j - 1)), h_numElems := h_numElems h - 1\<rparr>"
    using f j(1) ii by (simp add: hash_remove_def Let_def)
  have jl: "j < length ?c" using cb i by simp
  have "nat (int ?i + 1) = Suc ?i" by simp
  then show "hash_rest (snd (hash_remove k h)) = hash_rest h"
    unfolding rm using j(1) dr0 lt jl by (cases j) (simp_all add: hash_rest_def ii)
  show "iter_ok (snd (hash_remove k h))"
    unfolding rm using lt jl assms(1) by (cases j) (auto simp: iter_ok_def hash_ok_def)
qed

definition chains_left :: "('k, 'v) HashTable \<Rightarrow> nat" where
  "chains_left h = nat (int (h_tableSize h) - h_currentBucket h)"

definition items_left :: "('k, 'v) HashTable \<Rightarrow> nat" where
  "items_left h = (case h_currentItem h of None \<Rightarrow> Suc (length (h_ht h ! nat (h_currentBucket h)))
     | Some j \<Rightarrow> length (h_ht h ! nat (h_currentBucket h)) - j)"

lemma iterate_decreases:
  assumes "iterate h = (Some e, h')"
  shows "chains_left h' < chains_left h \<or> chains_left h' = chains_left h \<and> items_left h' < items_left h"
  using next_bucket_range [of "h_ht h" "h_tableSize h" "h_currentBucket h"] assms
  by (auto simp: iterate_def Let_def chains_left_def items_left_def split: option.splits if_splits)

text \<open>
  The loop \<^verbatim>\<open>while ( table.iterate(k, v) != 0 ) { ... }\<close>, whose body changes a state.
\<close>

function hash_walk :: "('k \<Rightarrow> 'v \<Rightarrow> 's \<Rightarrow> 's) \<Rightarrow> ('k, 'v) HashTable \<Rightarrow> 's \<Rightarrow> 's \<times> ('k, 'v) HashTable" where
  "hash_walk body h s =
     (case iterate h of
        (None, h') \<Rightarrow> (s, h')
      | (Some (k, v), h') \<Rightarrow> hash_walk body h' (body k v s))"
  by pat_completeness auto
termination
  by (relation "measures [\<lambda>(body, h, s). chains_left h, \<lambda>(body, h, s). items_left h]")
    (auto dest: iterate_decreases [OF sym])

declare hash_walk.simps [simp del]

lemma hash_walk_rest:
  assumes "hash_ok h" and "iter_ok h"
  shows "fst (hash_walk body h s) = fold (\<lambda>(k, v). body k v) (hash_rest h) s"
  using assms
proof (induction "hash_rest h" arbitrary: h s)
  case Nil
  then have "fst (iterate h) = None" using iterate_spec [OF Nil.prems] by simp
  then show ?case
    using Nil.hyps by (cases "iterate h") (simp add: hash_walk.simps [of body h s])
next
  case (Cons e es)
  obtain k v where e: "e = (k, v)" by fastforce
  have it: "fst (iterate h) = Some e" "hash_rest (snd (iterate h)) = es" "iter_ok (snd (iterate h))"
    using iterate_spec [OF Cons.prems] Cons.hyps(2) by (simp_all split: list.splits)
  have "hash_ok (snd (iterate h))"
    using Cons.prems(1) by (simp add: hash_ok_def hash_entries_def bucket_of_def frame_simps)
  from Cons.hyps(1) [OF it(2) [symmetric] this it(3), of "body k v s"] it(1)
  have "fst (hash_walk body h s) = fold (\<lambda>(k, v). body k v) es (body k v s)"
    by (cases "iterate h") (use it(2) in \<open>simp add: e hash_walk.simps [of body h s]\<close>)
  then show ?case by (simp add: Cons.hyps(2) [symmetric] e)
qed

section \<open>The interface of a table with unique keys\<close>

locale dict =
  fixes new_d :: 'd
    and ins :: "'k \<Rightarrow> 'v \<Rightarrow> 'd \<Rightarrow> int \<times> 'd"
    and look :: "'d \<Rightarrow> 'k \<Rightarrow> 'v option"
    and set_at :: "'k \<Rightarrow> 'v \<Rightarrow> 'd \<Rightarrow> 'd"
    and rem :: "'k \<Rightarrow> 'd \<Rightarrow> int \<times> 'd"
    and ok :: "'d \<Rightarrow> bool"
  assumes new_dict: "ok new_d" "look new_d = Map.empty"
    and ins_new: "ok d \<Longrightarrow> look d k = None \<Longrightarrow>
      fst (ins k v d) = 0 \<and> ok (snd (ins k v d)) \<and> look (snd (ins k v d)) = (look d)(k \<mapsto> v)"
    and ins_old: "ok d \<Longrightarrow> look d k \<noteq> None \<Longrightarrow> ins k v d = (-1, d)"
    and set_old: "ok d \<Longrightarrow> look d k \<noteq> None \<Longrightarrow> ok (set_at k v d) \<and> look (set_at k v d) = (look d)(k \<mapsto> v)"
    and rem_old: "ok d \<Longrightarrow> look d k \<noteq> None \<Longrightarrow>
      fst (rem k d) = 0 \<and> ok (snd (rem k d)) \<and> look (snd (rem k d)) = (look d)(k := None)"
    and rem_missing: "ok d \<Longrightarrow> look d k = None \<Longrightarrow> rem k d = (-1, d)"
begin

text \<open>The entry of a key, created with a default when it is missing; then it can be set.\<close>

definition get_or_add :: "'k \<Rightarrow> 'v \<Rightarrow> 'd \<Rightarrow> 'v \<times> 'd" where
  "get_or_add k dflt d =
     (case look d k of Some v \<Rightarrow> (v, d) | None \<Rightarrow> (dflt, snd (ins k dflt d)))"

lemma get_or_add_fst: "fst (get_or_add k dflt d) = (case look d k of Some v \<Rightarrow> v | None \<Rightarrow> dflt)"
  by (simp add: get_or_add_def split: option.splits)

lemma get_or_add_set:
  assumes "ok d"
  shows "ok (set_at k v (snd (get_or_add k dflt d)))"
    and "look (set_at k v (snd (get_or_add k dflt d))) = (look d)(k \<mapsto> v)"
proof -
  let ?d = "snd (get_or_add k dflt d)"
  have "ok ?d \<and> look ?d = (look d)(k \<mapsto> fst (get_or_add k dflt d))"
  proof (cases "look d k")
    case None
    then show ?thesis using ins_new [OF assms None, of dflt] by (simp add: get_or_add_def)
  next
    case (Some w)
    then show ?thesis using assms by (simp add: get_or_add_def fun_upd_idem)
  qed
  then show "ok (set_at k v ?d)" and "look (set_at k v ?d) = (look d)(k \<mapsto> v)"
    using set_old [of ?d k v] by simp_all
qed

lemma rem_returns: "ok d \<Longrightarrow> fst (rem k d) = (if look d k = None then -1 else 0)"
  using rem_old rem_missing by (metis fst_conv)

lemma rem_look: "ok d \<Longrightarrow> ok (snd (rem k d)) \<and> look (snd (rem k d)) = (look d)(k := None)"
  by (metis fun_upd_idem rem_missing rem_old snd_conv)

end

definition reject_table :: "('k, 'v) HashTable \<Rightarrow> bool" where
  "reject_table h \<longleftrightarrow> hash_ok h \<and> h_duplicateKeyBehavior h = rejectDuplicateKeys"

interpretation htab: dict "new_HashTable f rejectDuplicateKeys" hash_insert hash_lookup hash_write hash_remove reject_table
  for f :: "'k \<Rightarrow> nat"
proof unfold_locales
  fix d :: "('k, 'v) HashTable" and k v
  show "fst (hash_insert k v d) = 0 \<and> reject_table (snd (hash_insert k v d)) \<and>
      hash_lookup (snd (hash_insert k v d)) = (hash_lookup d)(k \<mapsto> v)"
    if "reject_table d" "hash_lookup d k = None"
    using that insert_new [of d k v] by (simp add: reject_table_def frame_simps)
  show "fst (hash_remove k d) = 0 \<and> reject_table (snd (hash_remove k d)) \<and>
      hash_lookup (snd (hash_remove k d)) = (hash_lookup d)(k := None)"
    if "reject_table d" "hash_lookup d k \<noteq> None"
    using that remove_old [of d k] by (auto simp: reject_table_def frame_simps)
  show "reject_table (hash_write k v d) \<and> hash_lookup (hash_write k v d) = (hash_lookup d)(k \<mapsto> v)"
    if "reject_table d" "hash_lookup d k \<noteq> None"
    using that hash_write_ok [of d k v] by (simp add: reject_table_def frame_simps)
  show "reject_table (new_HashTable f rejectDuplicateKeys :: ('k, 'v) HashTable)"
    using new_HashTable_ok [of f rejectDuplicateKeys] by (simp add: reject_table_def new_HashTable_def)
qed (simp_all add: reject_table_def insert_old remove_missing)

section \<open>Emptying a table while walking it\<close>

text \<open>
  The loop \<^verbatim>\<open>while ( table.iterate(k, v) ) { table.remove(k); }\<close>. The fuel bounds the number of
  iterations; one more than the number of entries is enough.
\<close>

fun hash_drain :: "nat \<Rightarrow> ('k, 'v) HashTable \<Rightarrow> ('k, 'v) HashTable option" where
  "hash_drain 0 h = None"
| "hash_drain (Suc n) h =
     (case iterate h of
        (None, h') \<Rightarrow> Some h'
      | (Some (k, v), h') \<Rightarrow> hash_drain n (snd (hash_remove k h')))"

lemma hash_ok_iterate: "hash_ok h \<Longrightarrow> hash_ok (snd (iterate h))"
  by (simp add: hash_ok_def hash_entries_def bucket_of_def frame_simps)

lemma hash_drain_rest:
  assumes "hash_ok h" and "iter_ok h" and "mset (hash_entries h) = mset (hash_rest h)" and "length (hash_rest h) < n"
  shows "\<exists>h'. hash_drain n h = Some h' \<and> hash_ok h' \<and> hash_entries h' = []"
  using assms
proof (induction "hash_rest h" arbitrary: h n)
  case Nil
  then obtain m where n: "n = Suc m" by (metis gr0_conv_Suc list.size(3))
  have "fst (iterate h) = None" using iterate_spec [OF Nil.prems(1,2)] Nil.hyps by simp
  moreover have "hash_entries (snd (iterate h)) = []"
    using Nil.prems(3) Nil.hyps by (simp add: hash_entries_def frame_simps)
  ultimately show ?case
    using hash_ok_iterate [OF Nil.prems(1)] n by (cases "iterate h") auto
next
  case (Cons e es)
  obtain k v m where e: "e = (k, v)" and n: "n = Suc m" using Cons.prems(4) by (metis surj_pair not_less_zero not0_implies_Suc)
  let ?h = "snd (iterate h)" and ?r = "snd (hash_remove k (snd (iterate h)))"
  have it: "fst (iterate h) = Some (k, v)" "hash_rest ?h = es" "iter_ok ?h" "hash_current ?h = Some (k, v)"
    using iterate_spec [OF Cons.prems(1,2)] Cons.hyps(2) e by (simp_all split: list.splits)
  have ok: "hash_ok ?h" by (rule hash_ok_iterate [OF Cons.prems(1)])
  have ent: "mset (hash_entries ?h) = add_mset (k, v) (mset es)"
    using Cons.prems(3) by (simp add: hash_entries_def frame_simps Cons.hyps(2) [symmetric] e)
  then have "(k, v) \<in> set (hash_entries ?h)"
    by (metis set_mset_mset union_single_eq_member)
  then have "hash_lookup ?h k = Some v" by (simp add: hash_lookup_iff [OF ok])
  note rm = remove_old [OF ok this] and cur = remove_current [OF ok it(3,4)]
  have "mset (hash_entries ?r) = mset (hash_rest ?r)"
    using rm(4) ent cur(1) it(2) by simp
  moreover have "length (hash_rest ?r) < m"
    using Cons.prems(4) Cons.hyps(2) n cur(1) it(2) by (metis Suc_less_eq length_Cons)
  ultimately have "\<exists>h'. hash_drain m ?r = Some h' \<and> hash_ok h' \<and> hash_entries h' = []"
    using Cons.hyps(1) [of ?r m] rm(2) cur it(2) by simp
  then show ?case using it(1) n by (cases "iterate h") auto
qed

section \<open>Properties\<close>

text \<open>
  Walking a table visits every entry exactly once, in the order of the chains, whatever
  the body does with the values.
\<close>

theorem hash_walk_visits_all:
  assumes "hash_ok h"
  shows "fst (hash_walk body (startIterations h) s) = fold (\<lambda>(k, v). body k v) (hash_entries h) s \<and>
    distinct (map fst (hash_entries h)) \<and> hash_lookup h = map_of (hash_entries h)"
  using startIterations_ok [OF assms] assms hash_lookup_map_of [OF assms]
  by (simp add: hash_walk_rest hash_ok_def)

definition sample_table :: "(nat, nat) HashTable" where
  "sample_table = snd (hash_insert 3 4 (new_HashTable id rejectDuplicateKeys))"

lemma sample_table_ok: "reject_table sample_table"
proof -
  have "reject_table (new_HashTable id rejectDuplicateKeys :: (nat, nat) HashTable)"
    by (rule htab.new_dict(1))
  from htab.ins_new [OF this, of 3 4] show ?thesis by (simp add: sample_table_def)
qed

lemma sample_table_entries: "hash_entries sample_table = [(3, 4)]" "h_numElems sample_table = 1"
  by code_simp+

theorem hash_walk_visits_all_witness:
  "hash_ok sample_table \<and> fst (hash_walk (\<lambda>k v s. s + v) (startIterations sample_table) 1) = 5"
  using hash_walk_visits_all [of sample_table "\<lambda>k v s. s + v" 1] sample_table_ok
  by (simp add: sample_table_entries reject_table_def)

text \<open>
  Removing each entry as soon as the walk has reached it empties the table: no entry is
  skipped because the iterator stood on the one removed.
\<close>

theorem hash_drain_empties:
  assumes "hash_ok h"
  shows "\<exists>h'. hash_drain (Suc (h_numElems h)) (startIterations h) = Some h' \<and> hash_ok h' \<and> hash_lookup h' = Map.empty"
proof -
  have "mset (hash_entries (startIterations h)) = mset (hash_rest (startIterations h))"
    unfolding startIterations_rest by (simp add: hash_entries_def startIterations_def)
  moreover have "length (hash_rest (startIterations h)) < Suc (h_numElems h)"
    using assms by (simp add: hash_ok_def)
  ultimately obtain h' where h': "hash_drain (Suc (h_numElems h)) (startIterations h) = Some h'" "hash_ok h'" "hash_entries h' = []"
    using hash_drain_rest [of "startIterations h" "Suc (h_numElems h)"] startIterations_ok [OF assms] by blast
  then have "hash_lookup h' = Map.empty"
    unfolding hash_lookup_map_of [OF h'(2)] by simp
  with h' show ?thesis by blast
qed

theorem hash_drain_empties_witness:
  "hash_ok sample_table \<and>
   (\<exists>h'. hash_drain 2 (startIterations sample_table) = Some h' \<and> hash_ok h' \<and> hash_lookup h' = Map.empty)"
proof -
  have "hash_ok sample_table" using sample_table_ok by (simp add: reject_table_def)
  with hash_drain_empties [OF this] show ?thesis
    by (simp add: sample_table_entries numeral_2_eq_2 del: hash_drain.simps)
qed

text \<open>
  C14: The chained table that grows by rehashing behaves as a partial function under the
  operations DAGMan uses: an insertion of a new key, a rejected insertion, a removal.
\<close>

theorem hash_table_is_a_map:
  assumes "reject_table h"
  shows "hash_lookup (snd (hash_insert k v h)) = (if hash_lookup h k = None then (hash_lookup h)(k \<mapsto> v) else hash_lookup h) \<and>
    fst (hash_insert k v h) = (if hash_lookup h k = None then 0 else -1) \<and> reject_table (snd (hash_insert k v h)) \<and>
    hash_lookup (snd (hash_remove k h)) = (hash_lookup h)(k := None) \<and>
    fst (hash_remove k h) = (if hash_lookup h k = None then -1 else 0) \<and> reject_table (snd (hash_remove k h))"
proof (cases "hash_lookup h k = None")
  case True
  with htab.ins_new [OF assms True, of v] htab.rem_look [OF assms] htab.rem_returns [OF assms] show ?thesis by simp
next
  case False
  with htab.ins_old [OF assms False, of v] htab.rem_look [OF assms] htab.rem_returns [OF assms] assms
  show ?thesis by auto
qed

theorem hash_table_is_a_map_witness:
  "reject_table sample_table \<and> hash_lookup (snd (hash_insert 5 6 sample_table)) 5 = Some 6"
proof -
  have "hash_lookup sample_table 5 = None"
    using sample_table_ok by (simp add: hash_lookup_map_of reject_table_def sample_table_entries)
  then show ?thesis
    using hash_table_is_a_map [OF sample_table_ok, of 5 6] sample_table_ok by simp
qed

end
