(* ===== verification/My_String.thy ===== *)
theory My_String
  imports Condor_Prelude "HOL-Library.Word"
begin

text \<open>
  The operations of the class \<open>MyString\<close> (\<open>condor_utils/MyString.cpp\<close>) that DAGMan's
  algorithms rest on: hashing, searching, substrings, escaping, trimming and global
  replacement. A string is the list of its characters up to the terminating null, so a null
  \<open>Data\<close> pointer and an empty string are alike, as every function below treats them.

  Global replacement is shown equal to a left-to-right reference definition, escaping to be
  reversible, and trimming to remove exactly the leading and trailing blanks.
\<close>

section \<open>Searching\<close>

definition Hash :: "string \<Rightarrow> 32 word" where
  "Hash s = fold (\<lambda>c result. push_bit 5 result + result + word_of_nat (of_char c)) s 0"

definition MyStringHash :: "string \<Rightarrow> nat" where
  "MyStringHash s = unat (Hash s)"

text \<open>\<open>strchr\<close> and \<open>strstr\<close> of the C library, with the offset of the match.\<close>

fun strchr :: "string \<Rightarrow> char \<Rightarrow> nat option" where
  "strchr [] c = None"
| "strchr (x # xs) c = (if x = c then Some 0 else map_option Suc (strchr xs c))"

fun strstr :: "string \<Rightarrow> string \<Rightarrow> nat option" where
  "strstr [] p = (if p = [] then Some 0 else None)"
| "strstr (x # xs) p = (if take (length p) (x # xs) = p then Some 0 else map_option Suc (strstr xs p))"

definition FindChar :: "string \<Rightarrow> char \<Rightarrow> int \<Rightarrow> int" where
  "FindChar s c first_pos =
     (if first_pos \<ge> int (length s) \<or> first_pos < 0 then -1
      else case strchr (drop (nat first_pos) s) c of None \<Rightarrow> -1 | Some k \<Rightarrow> first_pos + int k)"

definition find_string :: "string \<Rightarrow> string \<Rightarrow> int \<Rightarrow> int" where
  "find_string s pszToFind iStartPos =
     (if pszToFind = '''' then 0
      else if iStartPos \<ge> int (length s) \<or> iStartPos < 0 then -1
      else case strstr (drop (nat iStartPos) s) pszToFind of None \<Rightarrow> -1 | Some k \<Rightarrow> iStartPos + int k)"

definition Substr :: "string \<Rightarrow> int \<Rightarrow> int \<Rightarrow> string" where
  "Substr s pos1 pos2 =
     (if s = '''' then ''''
      else
        let pos2 = (if pos2 \<ge> int (length s) then int (length s) - 1 else pos2);
            pos1 = (if pos1 < 0 then 0 else pos1)
        in if pos1 > pos2 then '''' else take (nat (pos2 - pos1 + 1)) (drop (nat pos1) s))"

section \<open>Rewriting\<close>

definition EscapeChars :: "string \<Rightarrow> string \<Rightarrow> char \<Rightarrow> string" where
  "EscapeChars s q esc = concat (map (\<lambda>c. if FindChar q c 0 \<ge> 0 then [esc, c] else [c]) s)"

text \<open>The loop that collects the matches, and the one that copies around them.\<close>

lemma find_string_progress:
  "p \<noteq> '''' \<Longrightarrow> find_string s p i \<noteq> -1 \<Longrightarrow> i \<le> find_string s p i"
  by (auto simp: find_string_def split: option.splits if_splits)

function find_matches :: "string \<Rightarrow> string \<Rightarrow> int \<Rightarrow> int list" where
  "find_matches s p iStartFromPos =
     (if p = '''' then []
      else if iStartFromPos \<le> int (length s) then
        (let m = find_string s p iStartFromPos in
         if m = -1 then [] else m # find_matches s p (m + int (length p)))
      else [])"
  by pat_completeness auto
termination
proof (relation "measure (\<lambda>(s, p, i). nat (int (length s) + 1 - i))")
  fix s p i m
  assume "p \<noteq> ''''" "i \<le> int (length s)" "m = find_string s p i" "m \<noteq> -1"
  then show "((s, p, m + int (length p)), s, p, i) \<in> measure (\<lambda>(s, p, i). nat (int (length s) + 1 - i))"
    using find_string_progress [of p s i] by (cases p) auto
qed simp

declare find_matches.simps [simp del]

fun copy_matches :: "string \<Rightarrow> nat \<Rightarrow> string \<Rightarrow> int \<Rightarrow> int list \<Rightarrow> string" where
  "copy_matches s iToReplaceLen w iPreviousEnd [] = drop (nat iPreviousEnd) s"
| "copy_matches s iToReplaceLen w iPreviousEnd (m # ms) =
     take (nat (m - iPreviousEnd)) (drop (nat iPreviousEnd) s) @ w @
     copy_matches s iToReplaceLen w (m + int iToReplaceLen) ms"

definition replaceString :: "string \<Rightarrow> string \<Rightarrow> int \<Rightarrow> string \<Rightarrow> bool \<times> string" where
  "replaceString pszToReplace pszReplaceWith iStartFromPos s =
     (if pszToReplace = '''' then (False, s)
      else case find_matches s pszToReplace iStartFromPos of
             [] \<Rightarrow> (False, s)
           | ms \<Rightarrow> (True, copy_matches s (length pszToReplace) pszReplaceWith 0 ms))"

definition chomp :: "string \<Rightarrow> bool \<times> string" where
  "chomp s =
     (if s = '''' then (False, s)
      else if last s = CHR 0x0A then
        (let s = butlast s in (True, if s \<noteq> '''' \<and> last s = CHR 0x0D then butlast s else s))
      else (False, s))"

definition isspace :: "char \<Rightarrow> bool" where
  "isspace c \<longleftrightarrow> c \<in> {CHR '' '', CHR 0x09, CHR 0x0A, CHR 0x0B, CHR 0x0C, CHR 0x0D}"

fun trim_begin :: "string \<Rightarrow> nat \<Rightarrow> nat \<Rightarrow> nat" where
  "trim_begin s b 0 = b"
| "trim_begin s b (Suc k) = (if isspace (s ! b) then trim_begin s (Suc b) k else b)"

function trim_end :: "string \<Rightarrow> int \<Rightarrow> int" where
  "trim_end s e = (if e \<ge> 0 \<and> isspace (s ! nat e) then trim_end s (e - 1) else e)"
  by pat_completeness auto
termination
  by (relation "measure (\<lambda>(s, e). nat (e + 1))") auto

declare trim_end.simps [simp del]

definition trim :: "string \<Rightarrow> string" where
  "trim s =
     (if s = '''' then s
      else
        let begin_pos = int (trim_begin s 0 (length s)); end_pos = trim_end s (int (length s) - 1)
        in if begin_pos \<noteq> 0 \<or> end_pos \<noteq> int (length s) - 1 then Substr s begin_pos end_pos else s)"

section \<open>Replacement against a reference\<close>

function replace_ref :: "string \<Rightarrow> string \<Rightarrow> string \<Rightarrow> string" where
  "replace_ref p w [] = []"
| "replace_ref p w (c # cs) =
     (if p \<noteq> [] \<and> take (length p) (c # cs) = p then w @ replace_ref p w (drop (length p) (c # cs))
      else c # replace_ref p w cs)"
  by pat_completeness auto
termination
  by (relation "measure (\<lambda>(p, w, s). length s)") (auto simp: length_greater_0_conv)

lemma replace_ref_strstr:
  assumes "p \<noteq> ''''"
  shows "strstr s p = None \<Longrightarrow> replace_ref p w s = s"
    and "strstr s p = Some k \<Longrightarrow> k + length p \<le> length s \<and>
      replace_ref p w s = take k s @ w @ replace_ref p w (drop (k + length p) s)"
proof -
  show "strstr s p = None \<Longrightarrow> replace_ref p w s = s"
    using assms by (induction s) (auto split: if_splits)
  show "strstr s p = Some k \<Longrightarrow> k + length p \<le> length s \<and>
      replace_ref p w s = take k s @ w @ replace_ref p w (drop (k + length p) s)"
    using assms
  proof (induction s arbitrary: k)
    case (Cons c cs)
    show ?case
    proof (cases "take (length p) (c # cs) = p")
      case True
      then have "length p \<le> length (c # cs)" by (metis length_take min.cobounded1)
      with True Cons.prems show ?thesis by simp
    next
      case False
      then obtain k' where "strstr cs p = Some k'" "k = Suc k'"
        using Cons.prems by auto
      with Cons.IH [of k'] False Cons.prems show ?thesis by simp
    qed
  qed simp
qed

lemma copy_find_matches:
  assumes "p \<noteq> ''''" and "0 \<le> i" and "i \<le> int (length s)"
  shows "copy_matches s (length p) w i (find_matches s p i) = replace_ref p w (drop (nat i) s)"
  using assms
proof (induction s p i rule: find_matches.induct)
  case (1 s p i)
  let ?m = "find_string s p i"
  show ?case
  proof (cases "?m = -1")
    case True
    then have "strstr (drop (nat i) s) p = None \<or> i = int (length s)"
      using "1.prems" by (auto simp: find_string_def split: if_splits option.splits)
    then show ?thesis
      using True "1.prems" replace_ref_strstr(1) [of p "drop (nat i) s"]
      by (auto simp: find_matches.simps [of s p i])
  next
    case False
    then obtain k where k: "strstr (drop (nat i) s) p = Some k" "?m = i + int k"
      using "1.prems" by (auto simp: find_string_def split: if_splits option.splits)
    note r = replace_ref_strstr(2) [OF "1.prems"(1) k(1), of w]
    have d: "nat (i + int k + int (length p)) = nat i + (k + length p)" using "1.prems" by simp
    have "copy_matches s (length p) w (?m + int (length p)) (find_matches s p (?m + int (length p))) =
        replace_ref p w (drop (nat (?m + int (length p))) s)"
    proof -
      have "nat i \<le> length s" using "1.prems" by simp
      moreover have "k + length p \<le> length s - nat i" using r by simp
      ultimately have "nat i + (k + length p) \<le> length s" by linarith
      then have "i + int k + int (length p) \<le> int (length s)" using "1.prems" by linarith
      then show ?thesis using "1.IH" "1.prems" False k by simp
    qed
    then show ?thesis
      unfolding find_matches.simps [of s p i] using False k(2) r d "1.prems"(1,3)
      by (simp only: Let_def if_False if_True copy_matches.simps drop_drop) (simp add: add.commute)
  qed
qed

lemma replaceString_ref:
  assumes "p \<noteq> ''''"
  shows "snd (replaceString p w 0 s) = replace_ref p w s"
    and "fst (replaceString p w 0 s) \<longleftrightarrow> strstr s p \<noteq> None"
proof -
  have c: "copy_matches s (length p) w 0 (find_matches s p 0) = replace_ref p w s"
    using copy_find_matches [OF assms, of 0 s w] by simp
  show "snd (replaceString p w 0 s) = replace_ref p w s"
    using c assms by (cases "find_matches s p 0") (simp_all add: replaceString_def)
  show "fst (replaceString p w 0 s) \<longleftrightarrow> strstr s p \<noteq> None"
  proof -
    have "fst (replaceString p w 0 s) \<longleftrightarrow> find_matches s p 0 \<noteq> []"
      using assms by (simp add: replaceString_def split: list.splits)
    also have "\<dots> \<longleftrightarrow> find_string s p 0 \<noteq> -1"
      using assms by (simp add: find_matches.simps [of s p 0] Let_def)
    also have "\<dots> \<longleftrightarrow> strstr s p \<noteq> None"
      using assms by (cases "s = []") (simp_all add: find_string_def split: option.splits)
    finally show ?thesis .
  qed
qed

section \<open>Escaping\<close>

fun unescape :: "char \<Rightarrow> string \<Rightarrow> string" where
  "unescape e [] = []"
| "unescape e [c] = [c]"
| "unescape e (c # d # cs) = (if c = e then d # unescape e cs else c # unescape e (d # cs))"

lemma FindChar_nonneg: "0 \<le> FindChar q c 0 \<longleftrightarrow> c \<in> set q"
proof -
  have "strchr q c = None \<longleftrightarrow> c \<notin> set q" by (induction q) auto
  then show ?thesis by (auto simp: FindChar_def split: option.splits)
qed

lemma unescape_EscapeChars:
  assumes "esc \<in> set q"
  shows "unescape esc (EscapeChars s q esc) = s"
proof (induction s)
  case (Cons c s)
  show ?case
  proof (cases "c \<in> set q")
    case True
    with Cons show ?thesis by (simp add: EscapeChars_def FindChar_nonneg)
  next
    case False
    with assms have "c \<noteq> esc" by auto
    then have "unescape esc (c # t) = c # unescape esc t" for t by (cases t) simp_all
    with Cons False show ?thesis by (simp add: EscapeChars_def FindChar_nonneg)
  qed
qed (simp add: EscapeChars_def)

section \<open>Trimming\<close>

lemma trim_begin_spec:
  "b + k = length s \<Longrightarrow> trim_begin s b k = b + length (takeWhile isspace (drop b s))"
proof (induction s b k rule: trim_begin.induct)
  case (2 s b k)
  then have "drop b s = s ! b # drop (Suc b) s" by (simp add: Cons_nth_drop_Suc)
  with 2 show ?case by simp
qed simp

lemma trim_end_spec:
  "-1 \<le> e \<Longrightarrow> e < int (length s) \<Longrightarrow>
   trim_end s e = e - int (length (takeWhile isspace (rev (take (nat (e + 1)) s))))"
proof (induction s e rule: trim_end.induct)
  case (1 s e)
  show ?case
  proof (cases "e = -1")
    case True
    then show ?thesis by (simp add: trim_end.simps [of s "-1"])
  next
    case False
    with "1.prems" have "nat (e + 1) = Suc (nat e)" "nat e < length s" "nat (e - 1 + 1) = nat e" by simp_all
    then have t: "rev (take (nat (e + 1)) s) = s ! nat e # rev (take (nat (e - 1 + 1)) s)"
      by (simp add: take_Suc_conv_app_nth)
    with False "1.prems" "1.IH" show ?thesis
      by (subst trim_end.simps) (simp only: t, auto)
  qed
qed

lemma takeWhile_rev_drop:
  assumes "dropWhile P s \<noteq> []"
  shows "takeWhile P (rev s) = takeWhile P (rev (dropWhile P s))"
proof -
  have "\<not> P (hd (dropWhile P s))" using hd_dropWhile [OF assms] .
  moreover have "hd (dropWhile P s) \<in> set (rev (dropWhile P s))" using assms by simp
  moreover have "rev s = rev (dropWhile P s) @ rev (takeWhile P s)"
    by (metis rev_append takeWhile_dropWhile_id)
  ultimately show ?thesis by (metis takeWhile_append1)
qed

lemma trim_ref: "trim s = rev (dropWhile isspace (rev (dropWhile isspace s)))"
proof -
  let ?d = "dropWhile isspace s"
  let ?B = "length (takeWhile isspace s)" and ?T = "length (takeWhile isspace (rev s))"
  have b: "trim_begin s 0 (length s) = ?B" using trim_begin_spec [of 0 "length s" s] by simp
  have e: "trim_end s (int (length s) - 1) = int (length s) - 1 - int ?T"
    using trim_end_spec [of "int (length s) - 1" s] by simp
  have dB: "?d = drop ?B s" by (rule dropWhile_eq_drop)
  have "Substr s (int ?B) (int (length s) - 1 - int ?T) = rev (dropWhile isspace (rev ?d))"
  proof (cases "?d = []")
    case True
    then have all: "\<forall>x \<in> set s. isspace x" by simp
    then have "takeWhile isspace s = s" "takeWhile isspace (rev s) = rev s" by (simp_all add: takeWhile_eq_all_conv)
    then have "?B = length s" "?T = length s" by (metis, metis length_rev)
    then show ?thesis using True by (simp only: Substr_def Let_def) simp
  next
    case False
    have T: "takeWhile isspace (rev s) = takeWhile isspace (rev ?d)" by (rule takeWhile_rev_drop [OF False])
    have "\<exists>x \<in> set (rev ?d). \<not> isspace x" using False hd_dropWhile [OF False] by (metis hd_in_set set_rev)
    then have "takeWhile isspace (rev ?d) \<noteq> rev ?d" by (metis takeWhile_eq_all_conv)
    then have "length (takeWhile isspace (rev ?d)) \<noteq> length (rev ?d)"
      by (metis order_refl take_all takeWhile_eq_take)
    then have "?T < length ?d"
      unfolding T using length_takeWhile_le [of isspace "rev ?d"] by simp
    moreover have "length ?d = length s - ?B" "?B \<le> length s"
      unfolding dB by (simp_all add: length_takeWhile_le)
    ultimately have lt: "?B + ?T < length s" by linarith
    then have pos: "int ?B \<le> int (length s) - 1 - int ?T" by linarith
    have n: "nat (int (length s) - 1 - int ?T - int ?B + 1) = length s - ?T - ?B" using lt by linarith
    have c: "(s = []) = False" "(int (length s) - 1 - int ?T \<ge> int (length s)) = False"
      "(int ?B < 0) = False" "(int ?B > int (length s) - 1 - int ?T) = False"
      using pos lt by auto
    have "Substr s (int ?B) (int (length s) - 1 - int ?T) = take (length s - ?T - ?B) (drop ?B s)"
      by (simp only: Substr_def Let_def c n if_False nat_int)
    also have "\<dots> = take (length ?d - ?T) ?d"
      unfolding dB by (simp add: add.commute)
    also have "\<dots> = rev (dropWhile isspace (rev ?d))"
      unfolding T by (simp add: dropWhile_eq_drop [of isspace "rev ?d"] rev_drop)
    finally show ?thesis .
  qed
  moreover have "s = rev (dropWhile isspace (rev ?d))" if "?B = 0" "?T = 0"
    using that by (simp add: dropWhile_eq_drop [of isspace "rev s"] dB)
  ultimately show ?thesis
    by (auto simp: trim_def Let_def b e)
qed

section \<open>Properties\<close>

text \<open>
  C34: Global replacement, which collects the offsets of all matches first and then copies the
  pieces between them, is the left-to-right replacement of non-overlapping occurrences, and it
  reports whether there was one.
\<close>

theorem replaceString_correct:
  assumes "p \<noteq> ''''"
  shows "replaceString p w 0 s = (strstr s p \<noteq> None, replace_ref p w s)"
  by (rule prod_eqI) (simp_all only: fst_conv snd_conv replaceString_ref [OF assms])

theorem replaceString_correct_witness:
  "replaceString ''$(JOB)'' ''A'' 0 ''x$(JOB)$(JOB).out'' = (True, ''xAA.out'')"
proof -
  have "strstr ''x$(JOB)$(JOB).out'' ''$(JOB)'' \<noteq> None"
    "replace_ref ''$(JOB)'' ''A'' ''x$(JOB)$(JOB).out'' = ''xAA.out''"
    by code_simp+
  then show ?thesis
    using replaceString_correct [of "''$(JOB)''" "''A''" "''x$(JOB)$(JOB).out''"] by (simp del: strstr.simps)
qed

text \<open>
  Escaping loses nothing: when the escape character is itself escaped, removing the escapes
  gives the string back.
\<close>

theorem EscapeChars_roundtrip:
  assumes "esc \<in> set q"
  shows "unescape esc (EscapeChars s q esc) = s"
  by (rule unescape_EscapeChars [OF assms])

theorem EscapeChars_roundtrip_witness:
  "CHR ''-'' \<in> set ''-,'' \<and> unescape (CHR ''-'') (EscapeChars ''a-,b'' ''-,'' (CHR ''-'')) = ''a-,b''"
  using EscapeChars_roundtrip [of "CHR ''-''" "''-,''" "''a-,b''"] by simp

text \<open>
  Trimming removes the leading and the trailing blanks and nothing else.
\<close>

theorem trim_correct: "trim s = rev (dropWhile isspace (rev (dropWhile isspace s)))"
  by (rule trim_ref)

end
