(* ===== verification/Throttle.thy ===== *)
theory Throttle
  imports Hash_Table My_String
begin

text \<open>
  Throttling by category, \<open>condor_dagman/throttle_by_category.{h,cpp}\<close>. A \<open>ThrottleInfo\<close>
  object is shared: the table of the \<open>ThrottleByCategory\<close> object and the nodes of a category
  point to it, and both change it. So the objects live in a heap, a list indexed by address,
  and the table maps a category name to an address. Objects are freed only with a splice
  that has handed its nodes over, so no address is used again.

  The lemmas: a throttle that was set is found again and no other category is affected;
  renaming the categories of a splice keeps every object, moves it to its new name, and cannot
  fail for the prefixes that parsing produces.
\<close>

section \<open>Objects and table\<close>

record ThrottleInfo =
  th_category :: string
  th_totalJobs :: int
  th_maxJobs :: int
  th_currentJobs :: int

type_synonym throttle_heap = "ThrottleInfo list"

definition noThrottleSetting :: int where
  "noThrottleSetting = -1"

definition isGlobal :: "ThrottleInfo \<Rightarrow> bool" where
  "isGlobal info \<longleftrightarrow> FindChar (th_category info) (CHR ''+'') 0 = 0"

definition isSet :: "ThrottleInfo \<Rightarrow> bool" where
  "isSet info \<longleftrightarrow> th_maxJobs info \<noteq> noThrottleSetting"

definition new_ThrottleInfo :: "string \<Rightarrow> int \<Rightarrow> ThrottleInfo" where
  "new_ThrottleInfo category maxJobs =
     \<lparr>th_category = category, th_totalJobs = 0, th_maxJobs = maxJobs, th_currentJobs = 0\<rparr>"

type_synonym throttles = "(string, nat) HashTable"

definition new_throttles :: throttles where
  "new_throttles = new_HashTable MyStringHash rejectDuplicateKeys"

section \<open>Operations\<close>

text \<open>Each operation takes and returns the table and the heap; a null name fails an assertion.\<close>

definition AddCategory :: "string option \<Rightarrow> int \<Rightarrow> throttles \<times> throttle_heap \<Rightarrow> (nat \<times> throttles \<times> throttle_heap) res" where
  "AddCategory category maxJobs s =
     (case category of
        None \<Rightarrow> Inl (ASSERT ''category != NULL'')
      | Some name \<Rightarrow>
          (let (t, hp) = s; info = length hp; hp = hp @ [new_ThrottleInfo name maxJobs] in
           case hash_insert name info t of (rc, t') \<Rightarrow>
             if rc \<noteq> 0 then Inl (EXCEPT ''HashTable error'') else Inr (info, t', hp)))"

definition SetThrottle :: "string option \<Rightarrow> int \<Rightarrow> throttles \<times> throttle_heap \<Rightarrow> (throttles \<times> throttle_heap) res" where
  "SetThrottle category maxJobs s =
     (case category of
        None \<Rightarrow> Inl (ASSERT ''category != NULL'')
      | Some name \<Rightarrow>
          (case hash_lookup (fst s) name of
             None \<Rightarrow> bindR (AddCategory category maxJobs s) (\<lambda>(info, s'). Inr s')
           | Some info \<Rightarrow> Inr (fst s, (snd s)[info := (snd s ! info)\<lparr>th_maxJobs := maxJobs\<rparr>])))"

definition GetThrottleInfo :: "string option \<Rightarrow> throttles \<Rightarrow> nat option res" where
  "GetThrottleInfo category t =
     (case category of
        None \<Rightarrow> Inl (ASSERT ''category != NULL'')
      | Some name \<Rightarrow> Inr (hash_lookup t name))"

definition prefix_body :: "string \<Rightarrow> string \<Rightarrow> nat \<Rightarrow> (throttles \<times> throttle_heap) res \<Rightarrow> (throttles \<times> throttle_heap) res" where
  "prefix_body prefix key info r =
     bindR r (\<lambda>(tmp, hp).
       let hp = (if \<not> isGlobal (hp ! info)
                 then hp[info := (hp ! info)\<lparr>th_category := prefix @ th_category (hp ! info)\<rparr>] else hp)
       in case hash_insert (th_category (hp ! info)) info tmp of (rc, tmp') \<Rightarrow>
            if rc \<noteq> 0 then Inl (EXCEPT ''HashTable error'') else Inr (tmp', hp))"

definition PrefixAllCategoryNames :: "string \<Rightarrow> throttles \<times> throttle_heap \<Rightarrow> (throttles \<times> throttle_heap) res" where
  "PrefixAllCategoryNames prefix s =
     (case hash_walk (prefix_body prefix) (startIterations (fst s)) (Inr (new_throttles, snd s)) of
        (r, t) \<Rightarrow> r)"

definition print_body :: "throttle_heap \<Rightarrow> string \<Rightarrow> nat \<Rightarrow> string list \<Rightarrow> string list" where
  "print_body hp key info out =
     (if isSet (hp ! info)
      then out @ [''MAXJOBS '' @ th_category (hp ! info) @ '' '' @ string_of_int (th_maxJobs (hp ! info))]
      else out)"

text \<open>The lines that are printed, without their line ends.\<close>

definition PrintThrottles :: "throttles \<times> throttle_heap \<Rightarrow> string list" where
  "PrintThrottles s = fst (hash_walk (print_body (snd s)) (startIterations (fst s)) [])"

section \<open>Invariant\<close>

text \<open>
  Every entry leads to an object of the heap with that name, so two names never share one.
\<close>

definition throttles_ok :: "throttles \<times> throttle_heap \<Rightarrow> bool" where
  "throttles_ok s \<longleftrightarrow> reject_table (fst s) \<and>
     (\<forall>name info. hash_lookup (fst s) name = Some info \<longrightarrow>
        info < length (snd s) \<and> th_category (snd s ! info) = name)"

lemma throttles_ok_new: "throttles_ok (new_throttles, hp)"
  using htab.new_dict(1) by (simp add: throttles_ok_def new_throttles_def)

lemma AddCategory_new:
  assumes "throttles_ok (t, hp)" and "hash_lookup t name = None"
  obtains t' where "AddCategory (Some name) m (t, hp) = Inr (length hp, t', hp @ [new_ThrottleInfo name m])"
    and "hash_lookup t' = (hash_lookup t)(name \<mapsto> length hp)"
    and "throttles_ok (t', hp @ [new_ThrottleInfo name m])"
proof -
  have r: "reject_table t" using assms(1) by (simp add: throttles_ok_def)
  obtain rc t' where i: "hash_insert name (length hp) t = (rc, t')" by fastforce
  with htab.ins_new [OF r assms(2), of "length hp"]
  have t': "rc = 0" "reject_table t'" "hash_lookup t' = (hash_lookup t)(name \<mapsto> length hp)" by simp_all
  moreover have "throttles_ok (t', hp @ [new_ThrottleInfo name m])"
  proof -
    have "info < length hp" "th_category (hp ! info) = n" if "hash_lookup t n = Some info" for n info
      using that assms(1) by (simp_all add: throttles_ok_def)
    then show ?thesis
      using t' by (simp add: throttles_ok_def nth_append new_ThrottleInfo_def less_Suc_eq)
  qed
  ultimately show ?thesis
    using that i by (simp add: AddCategory_def Let_def)
qed

lemma AddCategory_old:
  assumes "throttles_ok (t, hp)" and "hash_lookup t name \<noteq> None"
  shows "AddCategory (Some name) m (t, hp) = Inl (EXCEPT ''HashTable error'')"
  using assms htab.ins_old [of t name "length hp"] by (simp add: AddCategory_def throttles_ok_def Let_def)

definition throttle_of :: "throttles \<times> throttle_heap \<Rightarrow> string \<Rightarrow> ThrottleInfo option" where
  "throttle_of s name = map_option (\<lambda>i. snd s ! i) (hash_lookup (fst s) name)"

lemma throttle_of_update:
  assumes "throttles_ok (t, hp)" and "hash_lookup t name = Some i"
    and "th_category x = name"
  shows "throttles_ok (t, hp[i := x])" and "throttle_of (t, hp[i := x]) = (throttle_of (t, hp))(name \<mapsto> x)"
proof -
  have i: "i < length hp" using assms by (simp add: throttles_ok_def)
  have other: "hp[i := x] ! j = hp ! j" if "hash_lookup t n = Some j" "n \<noteq> name" for n j
    using assms that by (cases "j = i") (auto simp: throttles_ok_def)
  show "throttles_ok (t, hp[i := x])"
    using assms i other unfolding throttles_ok_def by (simp add: nth_list_update) metis
  show "throttle_of (t, hp[i := x]) = (throttle_of (t, hp))(name \<mapsto> x)"
    using assms(2) i other by (auto simp: throttle_of_def fun_eq_iff option.map_sel intro!: map_option_cong)
qed

section \<open>Renaming\<close>

definition renamed :: "string \<Rightarrow> string \<Rightarrow> string" where
  "renamed prefix name = (if name \<noteq> '''' \<and> hd name = CHR ''+'' then name else prefix @ name)"

definition splice_prefix :: "string \<Rightarrow> bool" where
  "splice_prefix prefix \<longleftrightarrow> prefix = '''' \<or> hd prefix \<noteq> CHR ''+''"

lemma isGlobal_iff: "isGlobal info \<longleftrightarrow> th_category info \<noteq> '''' \<and> hd (th_category info) = CHR ''+''"
  by (cases "th_category info") (auto simp: isGlobal_def FindChar_def split: option.splits)

lemma renamed_inj: "splice_prefix prefix \<Longrightarrow> renamed prefix a = renamed prefix b \<Longrightarrow> a = b"
  by (cases prefix) (auto simp: renamed_def splice_prefix_def split: if_splits)

lemma prefix_body_step:
  assumes "reject_table tmp" and "hash_lookup tmp (renamed prefix (th_category (hp ! i))) = None"
    and "i < length hp"
  obtains tmp' where "prefix_body prefix k i (Inr (tmp, hp)) =
      Inr (tmp', hp[i := (hp ! i)\<lparr>th_category := renamed prefix (th_category (hp ! i))\<rparr>])"
    and "reject_table tmp'"
    and "hash_lookup tmp' = (hash_lookup tmp)(renamed prefix (th_category (hp ! i)) \<mapsto> i)"
proof -
  let ?n = "renamed prefix (th_category (hp ! i))"
  let ?hp = "hp[i := (hp ! i)\<lparr>th_category := ?n\<rparr>]"
  have hp: "(if \<not> isGlobal (hp ! i) then hp[i := (hp ! i)\<lparr>th_category := prefix @ th_category (hp ! i)\<rparr>] else hp) = ?hp"
    by (simp add: isGlobal_iff renamed_def)
  have cat: "th_category (?hp ! i) = ?n" using assms(3) by simp
  obtain rc tmp' where i: "hash_insert ?n i tmp = (rc, tmp')" by fastforce
  with htab.ins_new [OF assms(1,2), of i] have "rc = 0" "reject_table tmp'"
    "hash_lookup tmp' = (hash_lookup tmp)(?n \<mapsto> i)" by simp_all
  with i show ?thesis
    by (intro that [of tmp']) (simp_all only: prefix_body_def bindR_Inr case_prod_conv Let_def hp cat, simp)
qed

lemma prefix_fold:
  assumes "splice_prefix prefix" and "reject_table tmp" and "distinct (map fst es)"
    and "\<forall>(k, i) \<in> set es. i < length hp \<and> th_category (hp ! i) = k \<and> hash_lookup tmp (renamed prefix k) = None"
  shows "\<exists>tmp' hp'. fold (\<lambda>(k, v). prefix_body prefix k v) es (Inr (tmp, hp)) = Inr (tmp', hp') \<and>
    reject_table tmp' \<and> length hp' = length hp \<and>
    (\<forall>n j. hash_lookup tmp' n = Some j \<longleftrightarrow>
       hash_lookup tmp n = Some j \<or> (\<exists>k. (k, j) \<in> set es \<and> n = renamed prefix k)) \<and>
    (\<forall>j. hp' ! j = (if j \<in> snd ` set es
       then (hp ! j)\<lparr>th_category := renamed prefix (th_category (hp ! j))\<rparr> else hp ! j))"
  using assms(2-4)
proof (induction es arbitrary: tmp hp)
  case Nil
  then show ?case by simp
next
  case (Cons e es)
  obtain k i where e: "e = (k, i)" by fastforce
  have i: "i < length hp" "th_category (hp ! i) = k" "hash_lookup tmp (renamed prefix k) = None"
    using Cons.prems(3) e by auto
  let ?hp = "hp[i := (hp ! i)\<lparr>th_category := renamed prefix k\<rparr>]"
  obtain tmp1 where step: "prefix_body prefix k i (Inr (tmp, hp)) = Inr (tmp1, ?hp)"
    and t1: "reject_table tmp1" "hash_lookup tmp1 = (hash_lookup tmp)(renamed prefix k \<mapsto> i)"
    using prefix_body_step [OF Cons.prems(1), of prefix hp i k] i by metis
  have rest: "k' \<noteq> k \<and> i' \<noteq> i \<and> i' < length hp \<and> th_category (hp ! i') = k' \<and>
      renamed prefix k' \<noteq> renamed prefix k \<and> hash_lookup tmp (renamed prefix k') = None"
    if "(k', i') \<in> set es" for k' i'
  proof -
    have ne: "k' \<noteq> k" using Cons.prems(2) e that by force
    moreover have "i' < length hp \<and> th_category (hp ! i') = k' \<and> hash_lookup tmp (renamed prefix k') = None"
      using Cons.prems(3) that by auto
    moreover have "i' \<noteq> i" using ne i(2) calculation(2) by auto
    ultimately show ?thesis using renamed_inj [OF assms(1)] by blast
  qed
  have "\<forall>(k', i') \<in> set es. i' < length ?hp \<and> th_category (?hp ! i') = k' \<and> hash_lookup tmp1 (renamed prefix k') = None"
    using rest by (force simp: t1(2))
  from Cons.IH [OF t1(1) _ this] Cons.prems(2) obtain tmp' hp' where
    f: "fold (\<lambda>(k, v). prefix_body prefix k v) es (Inr (tmp1, ?hp)) = Inr (tmp', hp')"
    and t': "reject_table tmp'" "length hp' = length ?hp"
    and l: "\<forall>n j. hash_lookup tmp' n = Some j \<longleftrightarrow>
       hash_lookup tmp1 n = Some j \<or> (\<exists>k. (k, j) \<in> set es \<and> n = renamed prefix k)"
    and h: "\<forall>j. hp' ! j = (if j \<in> snd ` set es
       then (?hp ! j)\<lparr>th_category := renamed prefix (th_category (?hp ! j))\<rparr> else ?hp ! j)"
    by auto
  have iout: "i \<notin> snd ` set es" using rest by force
  have "hp' ! j = (if j \<in> snd ` set (e # es)
       then (hp ! j)\<lparr>th_category := renamed prefix (th_category (hp ! j))\<rparr> else hp ! j)" for j
    using h iout i e by (cases "j = i") simp_all
  moreover have "hash_lookup tmp' n = Some j \<longleftrightarrow>
       hash_lookup tmp n = Some j \<or> (\<exists>k. (k, j) \<in> set (e # es) \<and> n = renamed prefix k)" for n j
    using l t1(2) i(3) e by auto
  ultimately show ?case
    using f t' step by (simp add: e)
qed

lemma PrefixAllCategoryNames_spec:
  assumes "throttles_ok (t, hp)" and "splice_prefix prefix"
  shows "\<exists>t' hp'. PrefixAllCategoryNames prefix (t, hp) = Inr (t', hp') \<and> throttles_ok (t', hp') \<and>
    (\<forall>n j. hash_lookup t' n = Some j \<longleftrightarrow> (\<exists>k. hash_lookup t k = Some j \<and> n = renamed prefix k)) \<and>
    (\<forall>k j. hash_lookup t k = Some j \<longrightarrow> hp' ! j = (hp ! j)\<lparr>th_category := renamed prefix k\<rparr>)"
proof -
  have r: "hash_ok t" using assms(1) by (simp add: throttles_ok_def reject_table_def)
  note e = hash_lookup_iff [OF r]
  have ok: "i < length hp \<and> th_category (hp ! i) = k" if "(k, i) \<in> set (hash_entries t)" for k i
    using assms(1) that by (simp add: throttles_ok_def e)
  have n: "reject_table new_throttles" "hash_lookup new_throttles = Map.empty"
    using htab.new_dict by (auto simp: new_throttles_def)
  have "\<exists>t' hp'. fold (\<lambda>(k, v). prefix_body prefix k v) (hash_entries t) (Inr (new_throttles, hp)) = Inr (t', hp') \<and>
    reject_table t' \<and> length hp' = length hp \<and>
    (\<forall>n j. hash_lookup t' n = Some j \<longleftrightarrow>
       hash_lookup new_throttles n = Some j \<or> (\<exists>k. (k, j) \<in> set (hash_entries t) \<and> n = renamed prefix k)) \<and>
    (\<forall>j. hp' ! j = (if j \<in> snd ` set (hash_entries t)
       then (hp ! j)\<lparr>th_category := renamed prefix (th_category (hp ! j))\<rparr> else hp ! j))"
    by (rule prefix_fold [OF assms(2) n(1)]) (use r ok n(2) in \<open>auto simp: hash_ok_def\<close>)
  then obtain t' hp' where f: "fold (\<lambda>(k, v). prefix_body prefix k v) (hash_entries t) (Inr (new_throttles, hp)) = Inr (t', hp')"
    and t': "reject_table t'" "length hp' = length hp"
    and l: "\<forall>n j. hash_lookup t' n = Some j \<longleftrightarrow> (\<exists>k. (k, j) \<in> set (hash_entries t) \<and> n = renamed prefix k)"
    and h: "\<forall>j. hp' ! j = (if j \<in> snd ` set (hash_entries t)
       then (hp ! j)\<lparr>th_category := renamed prefix (th_category (hp ! j))\<rparr> else hp ! j)"
    by (auto simp: n(2))
  have "PrefixAllCategoryNames prefix (t, hp) = Inr (t', hp')"
    using hash_walk_rest [of "startIterations t" "prefix_body prefix" "Inr (new_throttles, hp)"]
      startIterations_ok [OF r] f
    by (cases "hash_walk (prefix_body prefix) (startIterations t) (Inr (new_throttles, hp))")
      (simp add: PrefixAllCategoryNames_def)
  moreover have h': "hp' ! j = (hp ! j)\<lparr>th_category := renamed prefix k\<rparr>" if "(k, j) \<in> set (hash_entries t)" for k j
    using h ok [OF that] that by (auto simp: image_iff)
  moreover have "throttles_ok (t', hp')"
    using t' l h' ok by (auto simp: throttles_ok_def)
  ultimately show ?thesis
    using l h' unfolding e by blast
qed

section \<open>Properties\<close>

text \<open>
  Setting the throttle of a category always succeeds and is what a later lookup finds;
  the counters of the category and all other categories are left alone.
\<close>

theorem SetThrottle_roundtrip:
  assumes "throttles_ok (t, hp)"
  shows "\<exists>t' hp' i. SetThrottle (Some name) m (t, hp) = Inr (t', hp') \<and> throttles_ok (t', hp') \<and>
    GetThrottleInfo (Some name) t' = Inr (Some i) \<and>
    throttle_of (t', hp') = (throttle_of (t, hp))(name \<mapsto>
      (case throttle_of (t, hp) name of None \<Rightarrow> new_ThrottleInfo name m | Some x \<Rightarrow> x\<lparr>th_maxJobs := m\<rparr>))"
proof (cases "hash_lookup t name")
  case None
  obtain t' where t': "AddCategory (Some name) m (t, hp) = Inr (length hp, t', hp @ [new_ThrottleInfo name m])"
    "hash_lookup t' = (hash_lookup t)(name \<mapsto> length hp)" "throttles_ok (t', hp @ [new_ThrottleInfo name m])"
    using AddCategory_new [OF assms None] by metis
  have old: "j < length hp" if "hash_lookup t n = Some j" for n j
    using assms that by (simp add: throttles_ok_def)
  have "throttle_of (t', hp @ [new_ThrottleInfo name m]) = (throttle_of (t, hp))(name \<mapsto> new_ThrottleInfo name m)"
    using t'(2) old by (auto simp: throttle_of_def fun_eq_iff nth_append intro!: map_option_cong)
  with None t' show ?thesis
    by (simp add: SetThrottle_def GetThrottleInfo_def throttle_of_def [of "(t, hp)"])
next
  case (Some i)
  let ?x = "(hp ! i)\<lparr>th_maxJobs := m\<rparr>"
  have "th_category ?x = name" using assms Some by (simp add: throttles_ok_def)
  note u = throttle_of_update [OF assms Some this]
  with Some show ?thesis
    by (simp add: SetThrottle_def GetThrottleInfo_def throttle_of_def [of "(t, hp)"])
qed

theorem SetThrottle_roundtrip_witness:
  "throttles_ok (new_throttles, []) \<and>
   (\<exists>t' hp' i. SetThrottle (Some ''big'') 3 (new_throttles, []) = Inr (t', hp') \<and> throttles_ok (t', hp') \<and>
     GetThrottleInfo (Some ''big'') t' = Inr (Some i) \<and>
     throttle_of (t', hp') ''big'' = Some (new_ThrottleInfo ''big'' 3))"
proof -
  have "throttle_of (new_throttles, []) ''big'' = None" by (simp add: throttle_of_def new_throttles_def)
  then show ?thesis
    using SetThrottle_roundtrip [OF throttles_ok_new [of "[]"], of "''big''" 3] throttles_ok_new [of "[]"]
    by auto
qed



end
