(* ===== verification/User_Log.thy ===== *)
theory User_Log
  imports Condor_Prelude "HOL-Library.Word"
begin

text \<open>
  Job identifiers and user log events: \<open>condor_utils/condor_id.{h,cpp}\<close>, the hash function
  \<open>ReadMultipleUserLogs::hashFuncJobID\<close> of \<open>read_multiple_logs.cpp\<close>, and the part of
  \<open>condor_event.h\<close> that DAGMan reads. Reading and writing of log files is not modelled; an
  event is the object a log reader returns.

  \<open>CondorID::Compare\<close> is shown to be a linear order and is the instance of \<open>linorder\<close>;
  \<open>reverse_bits\<close>, which mixes the hash of an identifier, is shown to reverse a 32-bit word.
\<close>

unbundle bit_operations_syntax

section \<open>Job identifiers\<close>

datatype CondorID = CondorID (id_cluster: int) (id_proc: int) (id_subproc: int)

definition compare :: "int \<Rightarrow> int \<Rightarrow> int" where
  "compare a b = (if a = b then 0 else if a > b then 1 else -1)"

definition Compare :: "CondorID \<Rightarrow> CondorID \<Rightarrow> int" where
  "Compare a b =
     (let result = compare (id_cluster a) (id_cluster b);
          result = (if result = 0 then compare (id_proc a) (id_proc b) else result)
      in if result = 0 then compare (id_subproc a) (id_subproc b) else result)"

text \<open>A missing argument is a null pointer.\<close>

definition ServiceDataCompare :: "CondorID option \<Rightarrow> CondorID option \<Rightarrow> int" where
  "ServiceDataCompare lhs rhs =
     (case lhs of
        Some a \<Rightarrow> (case rhs of None \<Rightarrow> -1 | Some b \<Rightarrow> Compare a b)
      | None \<Rightarrow> (case rhs of None \<Rightarrow> 0 | Some b \<Rightarrow> -1))"

lemma Compare_zero [simp]: "Compare a b = 0 \<longleftrightarrow> a = b"
  by (cases a; cases b) (auto simp: Compare_def compare_def Let_def)

lemma Compare_cases:
  "Compare a b \<le> 0 \<longleftrightarrow> id_cluster a < id_cluster b \<or> id_cluster a = id_cluster b \<and>
     (id_proc a < id_proc b \<or> id_proc a = id_proc b \<and> id_subproc a \<le> id_subproc b)"
  by (auto simp: Compare_def compare_def Let_def)

lemma Compare_antisym: "Compare b a = - Compare a b"
  by (auto simp: Compare_def compare_def Let_def)

instantiation CondorID :: linorder
begin

definition less_eq_CondorID :: "CondorID \<Rightarrow> CondorID \<Rightarrow> bool" where
  "a \<le> b \<longleftrightarrow> Compare a b \<le> 0"

definition less_CondorID :: "CondorID \<Rightarrow> CondorID \<Rightarrow> bool" where
  "a < b \<longleftrightarrow> Compare a b < 0"

instance
proof
  fix a b c :: CondorID
  show "a < b \<longleftrightarrow> a \<le> b \<and> \<not> b \<le> a"
    using Compare_antisym [of a b] by (auto simp: less_eq_CondorID_def less_CondorID_def)
  show "a \<le> a" by (simp add: less_eq_CondorID_def Compare_cases)
  show "a \<le> c" if "a \<le> b" "b \<le> c"
    using that by (auto simp: less_eq_CondorID_def Compare_cases)
  show "a = b" if "a \<le> b" "b \<le> a"
    using that by (cases a; cases b) (auto simp: less_eq_CondorID_def Compare_cases)
  show "a \<le> b \<or> b \<le> a"
    by (auto simp: less_eq_CondorID_def Compare_cases)
qed

end

section \<open>Hash functions\<close>

text \<open>
  The products and the negation wrap at 32 bits; \<open>x\<close>, \<open>y\<close> and \<open>high_zeros\<close> are the variables
  of the loop.
\<close>

definition hashFuncJobID :: "CondorID \<Rightarrow> nat" where
  "hashFuncJobID key =
     (let result = (word_of_int (id_cluster key) * 29 XOR word_of_int (id_proc key) * 7 XOR
                    word_of_int (id_subproc key) :: 32 word)
      in unat (if sint result < 0 then - result else result))"

function reverse_loop :: "32 word \<Rightarrow> 32 word \<Rightarrow> nat \<Rightarrow> 32 word" where
  "reverse_loop x y high_zeros =
     (if x = 0 then push_bit high_zeros y
      else reverse_loop (drop_bit 1 x) (push_bit 1 y OR (x AND 1)) (high_zeros - 1))"
  by pat_completeness auto
termination
  by (relation "measure (\<lambda>(x, y, h). unat x)") (auto simp: drop_bit_eq_div unat_div unat_gt_0)

declare reverse_loop.simps [simp del]

definition reverse_bits :: "32 word \<Rightarrow> 32 word" where
  "reverse_bits x = reverse_loop (drop_bit 1 x) x 31"

definition HashFn :: "CondorID \<Rightarrow> 32 word" where
  "HashFn i =
     (let a = word_of_int (id_cluster i); b = word_of_int (id_proc i); c = word_of_int (id_subproc i);
          c = push_bit 16 c + drop_bit 16 c
      in a + reverse_bits b + c)"

lemma reverse_loop_bits:
  assumes "\<forall>j \<ge> h. \<not> bit x j" and "i < 32" and "h < 32"
  shows "bit (reverse_loop x y h) i \<longleftrightarrow> (if h \<le> i then bit y (i - h) else bit x (h - 1 - i))"
  using assms
proof (induction x y h rule: reverse_loop.induct)
  case (1 x y h)
  show ?case
  proof (cases "x = 0")
    case True
    then show ?thesis using "1.prems" by (auto simp: reverse_loop.simps [of 0] bit_push_bit_iff)
  next
    case False
    then obtain j where "bit x j" using bit_eq_iff [of x 0] by auto
    with "1.prems"(1) have h: "0 < h" by (metis gr0I le0)
    have "\<forall>j \<ge> h - 1. \<not> bit (drop_bit 1 x) j"
      using "1.prems"(1) h by (auto simp: bit_drop_bit_eq)
    with "1.IH" [OF False] "1.prems" h
    have "bit (reverse_loop x y h) i \<longleftrightarrow> (if h - 1 \<le> i then bit (push_bit 1 y OR (x AND 1)) (i - (h - 1))
        else bit (drop_bit 1 x) (h - 1 - 1 - i))"
      using False by (simp add: reverse_loop.simps [of x])
    also have "\<dots> \<longleftrightarrow> (if h \<le> i then bit y (i - h) else bit x (h - 1 - i))"
    proof -
      have b: "bit (push_bit 1 y OR (x AND 1)) k \<longleftrightarrow> (if k = 0 then bit x 0 else bit y (k - 1))"
        if "k < 32" for k
        using that by (auto simp: bit_or_iff bit_and_iff bit_1_iff bit_push_bit_iff simp del: push_bit_of_1 One_nat_def)
      have "i - (h - 1) < 32" using "1.prems"(2) by simp
      moreover have "Suc (h - 1 - 1 - i) = h - 1 - i" if "i < h - 1" using that by simp
      ultimately show ?thesis
        unfolding b [OF \<open>i - (h - 1) < 32\<close>] using h
        by (cases "i < h - 1"; cases "h \<le> i") (auto simp: bit_drop_bit_eq Suc_diff_le)
    qed
    finally show ?thesis .
  qed
qed

lemma reverse_bits_reverses:
  assumes "i < 32"
  shows "bit (reverse_bits x) i = bit x (31 - i)"
proof -
  have "\<forall>j \<ge> 31. \<not> bit (drop_bit 1 x) j"
    using bit_imp_le_length [of x] by (fastforce simp: bit_drop_bit_eq)
  moreover have "Suc (30 - i) = 31 - i" if "i < 31" using that by simp
  moreover have "i - 31 = 31 - i" if "31 \<le> i" using that assms by simp
  ultimately show ?thesis
    using reverse_loop_bits [of 31 "drop_bit 1 x" i x] assms
    by (cases "31 \<le> i") (simp_all add: reverse_bits_def bit_drop_bit_eq)
qed

section \<open>Events\<close>

datatype ULogEventNumber =
    ULOG_SUBMIT | ULOG_EXECUTE | ULOG_EXECUTABLE_ERROR | ULOG_CHECKPOINTED | ULOG_JOB_EVICTED
  | ULOG_JOB_TERMINATED | ULOG_IMAGE_SIZE | ULOG_SHADOW_EXCEPTION | ULOG_GENERIC | ULOG_JOB_ABORTED
  | ULOG_JOB_SUSPENDED | ULOG_JOB_UNSUSPENDED | ULOG_JOB_HELD | ULOG_JOB_RELEASED
  | ULOG_NODE_EXECUTE | ULOG_NODE_TERMINATED | ULOG_POST_SCRIPT_TERMINATED | ULOG_GLOBUS_SUBMIT
  | ULOG_GLOBUS_SUBMIT_FAILED | ULOG_GLOBUS_RESOURCE_UP | ULOG_GLOBUS_RESOURCE_DOWN
  | ULOG_REMOTE_ERROR | ULOG_JOB_DISCONNECTED | ULOG_JOB_RECONNECTED | ULOG_JOB_RECONNECT_FAILED
  | ULOG_GRID_RESOURCE_UP | ULOG_GRID_RESOURCE_DOWN | ULOG_GRID_SUBMIT | ULOG_JOB_AD_INFORMATION
  | ULOG_JOB_STATUS_UNKNOWN | ULOG_JOB_STATUS_KNOWN | ULOG_JOB_STAGE_IN | ULOG_JOB_STAGE_OUT
  | ULOG_ATTRIBUTE_UPDATE

datatype ULogEventOutcome = ULOG_OK | ULOG_NO_EVENT | ULOG_RD_ERROR | ULOG_MISSED_EVENT | ULOG_UNK_ERROR

text \<open>
  An event object: the header of every event, and the fields of the subclasses that DAGMan
  looks at (\<open>SubmitEvent::submitEventLogNotes\<close>, \<open>PostScriptTerminatedEvent::dagNodeName\<close>,
  and \<open>normal\<close>, \<open>returnValue\<close>, \<open>signalNumber\<close> of the two terminated events). A missing
  string is a null pointer.
\<close>

record ULogEvent =
  ev_eventNumber :: ULogEventNumber
  ev_cluster :: int
  ev_proc :: int
  ev_subproc :: int
  ev_submitEventLogNotes :: "string option"
  ev_dagNodeName :: "string option"
  ev_normal :: bool
  ev_returnValue :: int
  ev_signalNumber :: int

definition event_id :: "ULogEvent \<Rightarrow> CondorID" where
  "event_id e = CondorID (ev_cluster e) (ev_proc e) (ev_subproc e)"

definition make_event :: "ULogEventNumber \<Rightarrow> CondorID \<Rightarrow> ULogEvent" where
  "make_event n i =
     \<lparr>ev_eventNumber = n, ev_cluster = id_cluster i, ev_proc = id_proc i, ev_subproc = id_subproc i,
      ev_submitEventLogNotes = None, ev_dagNodeName = None, ev_normal = True, ev_returnValue = 0,
      ev_signalNumber = 0\<rparr>"

lemma event_id_make [simp]: "event_id (make_event n i) = i" "ev_eventNumber (make_event n i) = n"
  by (simp_all add: event_id_def make_event_def)

section \<open>Properties\<close>

text \<open>
  The bit reversal that mixes the process number into the hash of a job identifier is a
  reversal of the 32 bits, so distinct process numbers stay distinct.
\<close>

theorem reverse_bits_correct: "(\<forall>i < 32. bit (reverse_bits x) i = bit x (31 - i)) \<and> inj reverse_bits"
proof
  show "\<forall>i < 32. bit (reverse_bits x) i = bit x (31 - i)" by (simp add: reverse_bits_reverses)
  show "inj reverse_bits"
  proof (rule injI)
    fix a b :: "32 word"
    assume eq: "reverse_bits a = reverse_bits b"
    have "bit a i = bit b i" if "i < 32" for i
    proof -
      have "31 - i < 32" "31 - (31 - i) = i" using that by simp_all
      then show ?thesis
        using reverse_bits_reverses [of "31 - i" a] reverse_bits_reverses [of "31 - i" b] eq by simp
    qed
    then show "a = b" by (intro bit_word_eqI) simp
  qed
qed

theorem reverse_bits_correct_witness: "bit (reverse_bits 1) 31 = bit (1 :: 32 word) 0"
  using conjunct1 [OF reverse_bits_correct, of 1] by simp

text \<open>
  Comparing job identifiers is a total order with zero for equal identifiers only, so it is
  fit for the sorted containers it is used in.
\<close>

theorem Compare_total_order:
  "(Compare a b = 0 \<longleftrightarrow> a = b) \<and> Compare b a = - Compare a b \<and>
   (Compare a b \<le> 0 \<and> Compare b c \<le> 0 \<longrightarrow> Compare a c \<le> 0) \<and> Compare a b \<in> {-1, 0, 1}"
proof -
  have "Compare a b \<in> {-1, 0, 1}" by (simp add: Compare_def compare_def Let_def)
  moreover have "Compare a b \<le> 0 \<and> Compare b c \<le> 0 \<longrightarrow> Compare a c \<le> 0"
    using order_trans [of a b c] by (simp add: less_eq_CondorID_def)
  ultimately show ?thesis using Compare_antisym [of b a] by simp
qed

theorem Compare_total_order_witness:
  "Compare (CondorID 1 0 0) (CondorID 1 2 0) \<le> 0 \<and> Compare (CondorID 1 0 0) (CondorID 3 0 0) \<le> 0"
proof -
  have "Compare (CondorID 1 0 0) (CondorID 1 2 0) \<le> 0" "Compare (CondorID 1 2 0) (CondorID 3 0 0) \<le> 0"
    by code_simp+
  with Compare_total_order [of "CondorID 1 0 0" "CondorID 1 2 0" "CondorID 3 0 0"] show ?thesis by blast
qed

end
