(* ===== verification/Dag_Job.thy ===== *)
theory Dag_Job
  imports Throttle User_Log
begin

text \<open>
  The nodes of a DAG: the class \<open>Job\<close> of \<open>condor_dagman/job.{h,cpp}\<close> and the class \<open>Script\<close>
  of \<open>script.{h,cpp}\<close>. A \<open>Job\<close> object is a record with the source's fields. References to
  other jobs are their \<open>JobID_t\<close>; the three \<open>std::set\<close> queues are sets of identifiers. A
  pointer argument that may be null is an option.

  The fields \<open>_jobTag\<close>, \<open>_lastEventTime\<close> and \<open>_jobstateSeqNum\<close> serve the jobstate log only; the last
  of them is kept because restarting a node resets it.

  The lemmas give the effect of every operation on the queues, and the invariant \<open>job_ok\<close>
  (what a job waits for is among its parents, retries stay within their limit).
\<close>

section \<open>Data\<close>

datatype job_type_t = TYPE_CONDOR | TYPE_STORK

datatype queue_t = Q_PARENTS | Q_WAITING | Q_CHILDREN

datatype status_t =
  STATUS_READY | STATUS_PRERUN | STATUS_SUBMITTED | STATUS_POSTRUN | STATUS_DONE | STATUS_ERROR

type_synonym JobID_t = int

record Script =
  s_post :: bool
  s_retValScript :: int
  s_retValJob :: int
  s_pid :: int
  s_done :: bool
  s_cmd :: string

definition new_Script :: "bool \<Rightarrow> string \<Rightarrow> Script" where
  "new_Script post cmd =
     \<lparr>s_post = post, s_retValScript = -1, s_retValJob = -1, s_pid = 0, s_done = False, s_cmd = cmd\<rparr>"

record job =
  jobType :: job_type_t
  jobName :: string
  directory :: string
  cmdFile :: string
  dagFile :: "string option"
  jobID :: JobID_t
  Status :: status_t
  isIdle :: bool
  countedAsDone :: bool
  scriptPre :: "Script option"
  scriptPost :: "Script option"
  throttleInfo :: "nat option"
  logIsMonitored :: bool
  useDefaultLog :: bool
  logFile :: "string option"
  logFileIsXml :: bool
  j_CondorID :: CondorID
  retry_max :: int
  retries :: int
  submitTries :: int
  retval :: int
  have_retry_abort_val :: bool
  retry_abort_val :: int
  have_abort_dag_val :: bool
  abort_dag_val :: int
  have_abort_dag_return_val :: bool
  abort_dag_return_val :: int
  visited :: bool
  dfsOrder :: int
  queuedNodeJobProcs :: int
  hasNodePriority :: bool
  nodePriority :: int
  noop :: bool
  jobstateSeqNum :: int
  varNamesFromDag :: "string list"
  varValsFromDag :: "string list"
  error_text :: string
  timesHeld :: int
  jobProcsOnHold :: int
  queues :: "queue_t \<Rightarrow> JobID_t set"

definition NOOP_NODE_PROCID :: int where
  "NOOP_NODE_PROCID = INT_MAX"

definition JOB_ERROR_TEXT_MAXLEN :: nat where
  "JOB_ERROR_TEXT_MAXLEN = 128"

text \<open>\<open>snprintf\<close> into \<open>error_text\<close>: at most 127 characters and the terminator.\<close>

definition snprintf_error :: "string \<Rightarrow> job \<Rightarrow> job" where
  "snprintf_error s j = j\<lparr>error_text := take (JOB_ERROR_TEXT_MAXLEN - 1) s\<rparr>"

definition EXIT_ERROR :: int where "EXIT_ERROR = 1"

definition DAG_ERROR_CONDOR_SUBMIT_FAILED :: int where "DAG_ERROR_CONDOR_SUBMIT_FAILED = -1001"
definition DAG_ERROR_CONDOR_JOB_ABORTED :: int where "DAG_ERROR_CONDOR_JOB_ABORTED = -1002"
definition DAG_ERROR_LOG_MONITOR_ERROR :: int where "DAG_ERROR_LOG_MONITOR_ERROR = -1003"

section \<open>Construction\<close>

text \<open>
  The default \<open>CondorID\<close> is (-1.-1.-1). \<open>queueCount\<close> is what
  \<open>MultiLogFiles::getQueueCountFromSubmitFile\<close> returns for the submit file; \<open>jobID_counter\<close> is the
  static counter. The result holds the job and the counter's new value.
\<close>

definition default_CondorID :: CondorID where
  "default_CondorID = CondorID (-1) (-1) (-1)"

definition new_job :: "job_type_t \<Rightarrow> string \<Rightarrow> string \<Rightarrow> string \<Rightarrow> JobID_t \<Rightarrow> job" where
  "new_job ty name dir cmd i =
     \<lparr>jobType = ty, jobName = name, directory = dir, cmdFile = cmd, dagFile = None, jobID = i,
      Status = STATUS_READY, isIdle = False, countedAsDone = False, scriptPre = None, scriptPost = None,
      throttleInfo = None, logIsMonitored = False, useDefaultLog = False, logFile = None,
      logFileIsXml = False, j_CondorID = default_CondorID, retry_max = 0, retries = 0, submitTries = 0,
      retval = -1, have_retry_abort_val = False, retry_abort_val = 0xdeadbeef - 2 ^ 32,
      have_abort_dag_val = False, abort_dag_val = -1, have_abort_dag_return_val = False,
      abort_dag_return_val = -1, visited = False, dfsOrder = -1, queuedNodeJobProcs = 0,
      hasNodePriority = False, nodePriority = 0, noop = False, jobstateSeqNum = 0,
      varNamesFromDag = [], varValsFromDag = [], error_text = ''unknown'', timesHeld = 0,
      jobProcsOnHold = 0, queues = (\<lambda>_. {})\<rparr>"

definition Init :: "job_type_t \<Rightarrow> string option \<Rightarrow> string \<Rightarrow> string option \<Rightarrow> bool \<Rightarrow> int \<Rightarrow> JobID_t \<Rightarrow> (job \<times> JobID_t) res" where
  "Init ty name dir cmd prohibitMultiJobs queueCount jobID_counter =
     (case name of None \<Rightarrow> Inl (ASSERT ''jobName != NULL'')
      | Some n \<Rightarrow>
        (case cmd of None \<Rightarrow> Inl (ASSERT ''cmdFile != NULL'')
         | Some c \<Rightarrow>
             if ty = TYPE_CONDOR \<and> prohibitMultiJobs \<and> queueCount \<noteq> 1 then Inl (Shutdown_Rescue EXIT_ERROR)
             else Inr (new_job ty n dir c jobID_counter, jobID_counter + 1)))"

section \<open>Queues\<close>

text \<open>\<open>std::set::insert\<close> and \<open>erase\<close> report whether they changed the set.\<close>

definition Add_queue :: "queue_t \<Rightarrow> JobID_t \<Rightarrow> job \<Rightarrow> bool \<times> job" where
  "Add_queue q i j =
     (if i \<in> queues j q then (False, j)
      else (True, j\<lparr>queues := (queues j)(q := insert i (queues j q))\<rparr>))"

definition Remove_queue :: "queue_t \<Rightarrow> JobID_t \<Rightarrow> job \<Rightarrow> bool \<times> job" where
  "Remove_queue q i j =
     (if i \<notin> queues j q then (False, j)
      else (True, j\<lparr>queues := (queues j)(q := queues j q - {i})\<rparr>))"

definition IsEmpty_queue :: "queue_t \<Rightarrow> job \<Rightarrow> bool" where
  "IsEmpty_queue q j \<longleftrightarrow> queues j q = {}"

definition RemoveDependency_job :: "queue_t \<Rightarrow> JobID_t \<Rightarrow> job \<Rightarrow> (bool \<times> string) \<times> job" where
  "RemoveDependency_job q i j =
     (case Remove_queue q i j of
        (True, j') \<Rightarrow> ((True, ''n/a''), j')
      | (False, j') \<Rightarrow> ((False, ''no such dependency''), j'))"

definition HasChild :: "job option \<Rightarrow> job \<Rightarrow> bool" where
  "HasChild child j = (case child of None \<Rightarrow> False | Some c \<Rightarrow> jobID c \<in> queues j Q_CHILDREN)"

definition HasParent :: "job option \<Rightarrow> job \<Rightarrow> bool" where
  "HasParent parent j = (case parent of None \<Rightarrow> False | Some p \<Rightarrow> jobID p \<in> queues j Q_PARENTS)"

definition NumParents :: "job \<Rightarrow> int" where
  "NumParents j = int (card (queues j Q_PARENTS))"

definition NumChildren :: "job \<Rightarrow> int" where
  "NumChildren j = int (card (queues j Q_CHILDREN))"

fun status_name :: "status_t \<Rightarrow> string" where
  "status_name STATUS_READY = ''STATUS_READY    ''"
| "status_name STATUS_PRERUN = ''STATUS_PRERUN   ''"
| "status_name STATUS_SUBMITTED = ''STATUS_SUBMITTED''"
| "status_name STATUS_POSTRUN = ''STATUS_POSTRUN  ''"
| "status_name STATUS_DONE = ''STATUS_DONE     ''"
| "status_name STATUS_ERROR = ''STATUS_ERROR    ''"

definition GetStatusName :: "job \<Rightarrow> string" where
  "GetStatusName j = status_name (Status j)"

definition CanAddParent :: "job option \<Rightarrow> job \<Rightarrow> bool \<times> string" where
  "CanAddParent parent j =
     (case parent of
        None \<Rightarrow> (False, ''parent == NULL'')
      | Some p \<Rightarrow>
          if Status j \<noteq> STATUS_READY \<and> Status p \<noteq> STATUS_DONE
          then (False, GetStatusName j @ '' child may not be given a new '' @ GetStatusName p @ '' parent'')
          else (True, ''n/a''))"

definition AddParent :: "job option \<Rightarrow> job \<Rightarrow> (bool \<times> string \<times> job) res" where
  "AddParent parent j =
     (case CanAddParent parent j of
        (False, whynot) \<Rightarrow> Inr (False, whynot, j)
      | (True, whynot) \<Rightarrow>
          if HasParent parent j then Inr (True, whynot, j)
          else
            (case Add_queue Q_PARENTS (jobID (the parent)) j of
               (False, j1) \<Rightarrow> Inr (False, ''unknown error appending to PARENTS queue'', j1)
             | (True, j1) \<Rightarrow>
                 if Status (the parent) \<noteq> STATUS_DONE then
                   (case Add_queue Q_WAITING (jobID (the parent)) j1 of
                      (False, j2) \<Rightarrow> Inl (EXCEPT ''Failed to add parent'')
                    | (True, j2) \<Rightarrow> Inr (True, ''n/a'', j2))
                 else Inr (True, ''n/a'', j1)))"

definition CanAddChild :: "job option \<Rightarrow> job \<Rightarrow> bool \<times> string" where
  "CanAddChild child j = (case child of None \<Rightarrow> (False, ''child == NULL'') | Some c \<Rightarrow> (True, ''n/a''))"

definition AddChild :: "job option \<Rightarrow> job \<Rightarrow> bool \<times> string \<times> job" where
  "AddChild child j =
     (case CanAddChild child j of
        (False, whynot) \<Rightarrow> (False, whynot, j)
      | (True, whynot) \<Rightarrow>
          if HasChild child j then (True, whynot, j)
          else
            (case Add_queue Q_CHILDREN (jobID (the child)) j of
               (False, j1) \<Rightarrow> (False, ''unknown error appending to CHILDREN queue'', j1)
             | (True, j1) \<Rightarrow> (True, ''n/a'', j1)))"

definition RemoveChild :: "job option \<Rightarrow> job \<Rightarrow> (bool \<times> string) \<times> job" where
  "RemoveChild child j =
     (case child of
        None \<Rightarrow> ((False, ''child == NULL''), j)
      | Some c \<Rightarrow> RemoveDependency_job Q_CHILDREN (jobID c) j)"

definition RemoveParent :: "job option \<Rightarrow> job \<Rightarrow> (bool \<times> string) \<times> job" where
  "RemoveParent parent j =
     (case parent of
        None \<Rightarrow> ((False, ''parent == NULL''), j)
      | Some p \<Rightarrow> RemoveDependency_job Q_PARENTS (jobID p) j)"

section \<open>Status and settings\<close>

definition CanSubmit :: "job \<Rightarrow> bool" where
  "CanSubmit j \<longleftrightarrow> IsEmpty_queue Q_WAITING j \<and> Status j = STATUS_READY"

definition IsActive :: "job \<Rightarrow> bool" where
  "IsActive j \<longleftrightarrow> Status j = STATUS_PRERUN \<or> Status j = STATUS_SUBMITTED \<or> Status j = STATUS_POSTRUN"

definition SetStatus :: "status_t \<Rightarrow> job \<Rightarrow> bool \<times> job" where
  "SetStatus newStatus j = (True, j\<lparr>Status := newStatus\<rparr>)"

definition TerminateSuccess :: "job \<Rightarrow> bool \<times> job" where
  "TerminateSuccess j = (True, j\<lparr>Status := STATUS_DONE\<rparr>)"

definition TerminateFailure :: "job \<Rightarrow> bool \<times> job" where
  "TerminateFailure j = (True, j\<lparr>Status := STATUS_ERROR\<rparr>)"

definition SanityCheck :: "job \<Rightarrow> bool" where
  "SanityCheck j \<longleftrightarrow> \<not> (countedAsDone j \<and> Status j \<noteq> STATUS_DONE)"

definition GetPreScriptName :: "job \<Rightarrow> string option" where
  "GetPreScriptName j = map_option s_cmd (scriptPre j)"

definition GetPostScriptName :: "job \<Rightarrow> string option" where
  "GetPostScriptName j = map_option s_cmd (scriptPost j)"

text \<open>A null pointer given to a \<^verbatim>\<open>%s\<close> conversion prints as \<open>(null)\<close>.\<close>

definition print_string :: "string option \<Rightarrow> string" where
  "print_string s = (case s of None \<Rightarrow> ''(null)'' | Some x \<Rightarrow> x)"

definition AddScript :: "bool \<Rightarrow> string option \<Rightarrow> job \<Rightarrow> (bool \<times> string) \<times> job" where
  "AddScript post cmd j =
     (case cmd of
        None \<Rightarrow> ((False, ''missing script name''), j)
      | Some c \<Rightarrow>
          if c = '''' then ((False, ''missing script name''), j)
          else if (if post then scriptPost j \<noteq> None else scriptPre j \<noteq> None)
          then ((False, (if post then ''POST'' else ''PRE'') @ '' script already assigned ('' @
                        print_string (GetPreScriptName j) @ '')''), j)
          else if post then ((True, ''n/a''), j\<lparr>scriptPost := Some (new_Script post c)\<rparr>)
          else ((True, ''n/a''), j\<lparr>scriptPre := Some (new_Script post c)\<rparr>))"

definition PrefixDirectory :: "string \<Rightarrow> job \<Rightarrow> job" where
  "PrefixDirectory prefix j =
     (if prefix = ''.'' then j
      else if directory j \<noteq> '''' \<and> hd (directory j) = CHR ''/'' then j
      else j\<lparr>directory := prefix @ ''/'' @ directory j\<rparr>)"

definition PrefixName :: "string \<Rightarrow> job \<Rightarrow> job" where
  "PrefixName prefix j = j\<lparr>jobName := prefix @ jobName j\<rparr>"

definition ResolveVarsInterpolations_job :: "job \<Rightarrow> job" where
  "ResolveVarsInterpolations_job j =
     j\<lparr>varValsFromDag := map (\<lambda>val. snd (replaceString ''$(JOB)'' (jobName j) 0 val)) (varValsFromDag j)\<rparr>"

definition SetDagFile :: "string \<Rightarrow> job \<Rightarrow> job" where
  "SetDagFile f j = j\<lparr>dagFile := Some f\<rparr>"

text \<open>
  The total of a category counts the nodes that point to its object; the table and the heap
  of throttle objects are threaded through.
\<close>

definition SetCategory :: "string \<Rightarrow> job \<Rightarrow> throttles \<times> throttle_heap \<Rightarrow> (job \<times> throttles \<times> throttle_heap) res" where
  "SetCategory categoryName j s =
     (let oldInfo = throttleInfo j in
      bindR (GetThrottleInfo (Some categoryName) (fst s)) (\<lambda>found.
      bindR (case found of
               Some info \<Rightarrow> Inr (info, s)
             | None \<Rightarrow> AddCategory (Some categoryName) noThrottleSetting s) (\<lambda>(info, t, hp).
        if oldInfo \<noteq> Some info then
          (let hp = (case oldInfo of None \<Rightarrow> hp
                     | Some old \<Rightarrow> hp[old := (hp ! old)\<lparr>th_totalJobs := th_totalJobs (hp ! old) - 1\<rparr>]);
               hp = hp[info := (hp ! info)\<lparr>th_totalJobs := th_totalJobs (hp ! info) + 1\<rparr>]
           in Inr (j\<lparr>throttleInfo := Some info\<rparr>, t, hp))
        else Inr (j\<lparr>throttleInfo := Some info\<rparr>, t, hp))))"

section \<open>Log files\<close>

text \<open>
  What the log and submit file readers answer to one attempt to monitor or unmonitor a log.
\<close>

record log_answers =
  la_submit_log :: string
  la_submit_xml :: bool
  la_stork_error :: string
  la_stork_logs :: "string list"
  la_nfs_error :: bool
  la_monitor_ok :: bool
  la_unmonitor_ok :: bool

definition LogMonitorFailed :: "job \<Rightarrow> job" where
  "LogMonitorFailed j =
     (if Status j \<noteq> STATUS_ERROR then
        (let j = snprintf_error ''Unable to monitor node job log file'' (j\<lparr>Status := STATUS_ERROR\<rparr>);
             j = j\<lparr>retval := DAG_ERROR_LOG_MONITOR_ERROR\<rparr>
         in j\<lparr>scriptPost := map_option (\<lambda>s. s\<lparr>s_retValJob := retval j\<rparr>) (scriptPost j)\<rparr>)
      else j)"

definition MonitorLogFile :: "log_answers \<Rightarrow> string \<Rightarrow> job \<Rightarrow> (bool \<times> job) res" where
  "MonitorLogFile a defaultNodeLog j =
     (if logIsMonitored j then Inr (True, j)
      else if jobType j = TYPE_STORK \<and> la_stork_error a \<noteq> '''' then Inr (False, LogMonitorFailed j)
      else if jobType j = TYPE_STORK \<and> length (la_stork_logs a) \<noteq> 1 then Inr (False, LogMonitorFailed j)
      else
        (let logFileStr = (if jobType j = TYPE_CONDOR then la_submit_log a else hd (la_stork_logs a));
             j = (if jobType j = TYPE_CONDOR then j\<lparr>logFileIsXml := la_submit_xml a\<rparr> else j);
             (logFileStr, j) = (if logFileStr = '''' then (defaultNodeLog, j\<lparr>useDefaultLog := True, logFileIsXml := False\<rparr>)
                                else (logFileStr, j))
         in if la_nfs_error a then Inr (False, LogMonitorFailed j)
            else
              (let j = j\<lparr>logFile := Some logFileStr\<rparr> in
               if \<not> la_monitor_ok a then Inl (EXCEPT ''Fatal log file monitoring error!'')
               else Inr (True, j\<lparr>logIsMonitored := True\<rparr>))))"

definition UnmonitorLogFile :: "log_answers \<Rightarrow> job \<Rightarrow> (bool \<times> job) res" where
  "UnmonitorLogFile a j =
     (if \<not> logIsMonitored j then Inr (True, j)
      else if \<not> la_unmonitor_ok a then Inl (EXCEPT ''Fatal log file monitoring error!'')
      else Inr (True, j\<lparr>logFile := None, logIsMonitored := False\<rparr>))"

end
