(* ===== verification/Check_Events.thy ===== *)
theory Check_Events
  imports Hash_Table User_Log
begin

text \<open>
  The consistency checks on user log events, \<open>condor_utils/check_events.{h,cpp}\<close>. DAGMan runs
  \<open>CheckAnEvent\<close> on every event it reads and \<open>CheckAllJobs\<close> when it thinks it is done.

  The table \<open>jobHash\<close> is the concrete hash table, with the counters stored by value (each
  \<open>JobInfo\<close> object is reached through its table entry only). The error message and the
  result, reference arguments of the checks, are passed and returned as a pair.

  \<open>life_step\<close> is the specification: the life cycle of one job. With no bad event allowed the
  checks accept exactly the logs in which every job goes through that life cycle.
\<close>

section \<open>Settings and results\<close>

datatype check_event_result_t = EVENT_OKAY | EVENT_BAD_EVENT | EVENT_ERROR | EVENT_WARNING

definition ALLOW_NONE :: int where "ALLOW_NONE = 0"
definition ALLOW_ALMOST_ALL :: int where "ALLOW_ALMOST_ALL = 1"
definition ALLOW_TERM_ABORT :: int where "ALLOW_TERM_ABORT = 2"
definition ALLOW_RUN_AFTER_TERM :: int where "ALLOW_RUN_AFTER_TERM = 4"
definition ALLOW_GARBAGE :: int where "ALLOW_GARBAGE = 8"
definition ALLOW_EXEC_BEFORE_SUBMIT :: int where "ALLOW_EXEC_BEFORE_SUBMIT = 16"
definition ALLOW_DOUBLE_TERMINATE :: int where "ALLOW_DOUBLE_TERMINATE = 32"
definition ALLOW_DUPLICATE_EVENTS :: int where "ALLOW_DUPLICATE_EVENTS = 64"

definition AllowAlmostAll :: "int \<Rightarrow> bool" where
  "AllowAlmostAll allow \<longleftrightarrow> allow AND ALLOW_ALMOST_ALL \<noteq> 0"

definition AllowExtraAborts :: "int \<Rightarrow> bool" where
  "AllowExtraAborts allow \<longleftrightarrow> allow AND ALLOW_ALMOST_ALL \<noteq> 0 \<or> allow AND ALLOW_TERM_ABORT \<noteq> 0"

definition AllowExtraRuns :: "int \<Rightarrow> bool" where
  "AllowExtraRuns allow \<longleftrightarrow> allow AND ALLOW_RUN_AFTER_TERM \<noteq> 0"

definition AllowGarbage :: "int \<Rightarrow> bool" where
  "AllowGarbage allow \<longleftrightarrow> allow AND ALLOW_ALMOST_ALL \<noteq> 0 \<or> allow AND ALLOW_GARBAGE \<noteq> 0"

definition AllowExecSubmit :: "int \<Rightarrow> bool" where
  "AllowExecSubmit allow \<longleftrightarrow> allow AND ALLOW_ALMOST_ALL \<noteq> 0 \<or> allow AND ALLOW_EXEC_BEFORE_SUBMIT \<noteq> 0"

definition AllowDoubleTerm :: "int \<Rightarrow> bool" where
  "AllowDoubleTerm allow \<longleftrightarrow> allow AND ALLOW_ALMOST_ALL \<noteq> 0 \<or> allow AND ALLOW_DOUBLE_TERMINATE \<noteq> 0"

definition AllowDuplicates :: "int \<Rightarrow> bool" where
  "AllowDuplicates allow \<longleftrightarrow> allow AND ALLOW_ALMOST_ALL \<noteq> 0 \<or> allow AND ALLOW_DUPLICATE_EVENTS \<noteq> 0"

lemmas allow_defs = AllowAlmostAll_def AllowExtraAborts_def AllowExtraRuns_def AllowGarbage_def
  AllowExecSubmit_def AllowDoubleTerm_def AllowDuplicates_def

section \<open>State\<close>

record JobInfo =
  ji_submitCount :: int
  ji_errorCount :: int
  ji_abortCount :: int
  ji_termCount :: int
  ji_postScriptCount :: int

definition new_JobInfo :: JobInfo where
  "new_JobInfo = \<lparr>ji_submitCount = 0, ji_errorCount = 0, ji_abortCount = 0, ji_termCount = 0,
     ji_postScriptCount = 0\<rparr>"

definition TotalEndCount :: "JobInfo \<Rightarrow> int" where
  "TotalEndCount info = ji_abortCount info + ji_termCount info"

record CheckEvents =
  ce_jobHash :: "(CondorID, JobInfo) HashTable"
  ce_noSubmitId :: CondorID
  ce_allowEvents :: int

definition new_CheckEvents :: "int \<Rightarrow> CheckEvents" where
  "new_CheckEvents allowEventsSetting =
     \<lparr>ce_jobHash = new_HashTable hashFuncJobID rejectDuplicateKeys, ce_noSubmitId = CondorID (-1) 0 0,
      ce_allowEvents = allowEventsSetting\<rparr>"

definition SetAllowEvents :: "int \<Rightarrow> CheckEvents \<Rightarrow> CheckEvents" where
  "SetAllowEvents newAllowEvents ce = ce\<lparr>ce_allowEvents := newAllowEvents\<rparr>"

section \<open>The checks\<close>

type_synonym verdict = "string \<times> check_event_result_t"

definition bad_event_string :: "CondorID \<Rightarrow> string" where
  "bad_event_string i = ''BAD EVENT: job '' @ ''('' @ string_of_int (id_cluster i) @ ''.'' @
     string_of_int (id_proc i) @ ''.'' @ string_of_int (id_subproc i) @ '')''"

definition counted :: "string \<Rightarrow> string \<Rightarrow> int \<Rightarrow> string" where
  "counted idStr what n = idStr @ what @ '' ('' @ string_of_int n @ '')''"

definition CheckJobSubmit :: "int \<Rightarrow> string \<Rightarrow> JobInfo \<Rightarrow> verdict \<Rightarrow> verdict" where
  "CheckJobSubmit allow idStr info v =
     (let v = (if ji_submitCount info \<noteq> 1
               then (counted idStr '' submitted, submit count != 1'' (ji_submitCount info),
                     if AllowDuplicates allow then EVENT_BAD_EVENT else EVENT_ERROR) else v)
      in if TotalEndCount info \<noteq> 0
         then (counted idStr '' submitted, total end count != 0'' (TotalEndCount info),
               if AllowExecSubmit allow then EVENT_BAD_EVENT else EVENT_ERROR) else v)"

definition CheckJobExecute :: "int \<Rightarrow> string \<Rightarrow> JobInfo \<Rightarrow> verdict \<Rightarrow> verdict" where
  "CheckJobExecute allow idStr info v =
     (let v = (if ji_submitCount info < 1
               then (counted idStr '' executing, submit count < 1'' (ji_submitCount info),
                     if AllowExecSubmit allow \<or> AllowGarbage allow then EVENT_WARNING else EVENT_ERROR) else v)
      in if TotalEndCount info \<noteq> 0
         then (counted idStr '' executing, total end count != 0'' (TotalEndCount info),
               if AllowExtraRuns allow then EVENT_BAD_EVENT else EVENT_ERROR) else v)"

definition CheckJobEnd :: "int \<Rightarrow> string \<Rightarrow> JobInfo \<Rightarrow> verdict \<Rightarrow> verdict" where
  "CheckJobEnd allow idStr info v =
     (let v = (if ji_submitCount info < 1
               then (counted idStr '' ended, submit count < 1'' (ji_submitCount info),
                     if AllowExecSubmit allow \<or> (AllowGarbage allow \<and> ji_submitCount info \<le> 1)
                     then EVENT_WARNING else EVENT_ERROR) else v);
          v = (if TotalEndCount info \<noteq> 1
               then (counted idStr '' ended, total end count != 1'' (TotalEndCount info),
                     if AllowExtraAborts allow \<and> ji_abortCount info = 1 \<and> ji_termCount info = 1 then EVENT_BAD_EVENT
                     else if AllowDoubleTerm allow \<and> ji_termCount info = 2 then EVENT_BAD_EVENT
                     else if AllowExtraRuns allow then EVENT_BAD_EVENT
                     else if AllowDuplicates allow then EVENT_BAD_EVENT
                     else EVENT_ERROR) else v)
      in if ji_postScriptCount info \<noteq> 0
         then (counted idStr '' ended, post script count != 0'' (ji_postScriptCount info),
               if AllowDuplicates allow then EVENT_BAD_EVENT else EVENT_ERROR) else v)"

text \<open>A POST script that ran because every submit attempt failed.\<close>

definition post_without_submit :: "CondorID \<Rightarrow> CondorID \<Rightarrow> JobInfo \<Rightarrow> bool" where
  "post_without_submit noSubmitId i info \<longleftrightarrow>
     noSubmitId = i \<and> ji_submitCount info = 0 \<and> ji_termCount info = 0 \<and> ji_postScriptCount info \<ge> 1"

definition CheckPostTerm :: "int \<Rightarrow> CondorID \<Rightarrow> string \<Rightarrow> CondorID \<Rightarrow> JobInfo \<Rightarrow> verdict \<Rightarrow> verdict" where
  "CheckPostTerm allow noSubmitId idStr i info v =
     (if post_without_submit noSubmitId i info then v
      else
        let v = (if ji_submitCount info < 1
                 then (counted idStr '' post script ended, submit count < 1'' (ji_submitCount info),
                       if AllowDuplicates allow \<or> (AllowGarbage allow \<and> ji_submitCount info \<le> 1)
                       then EVENT_BAD_EVENT else EVENT_ERROR) else v);
            v = (if TotalEndCount info < 1
                 then (counted idStr '' post script ended, total end count < 1'' (TotalEndCount info),
                       if AllowAlmostAll allow then EVENT_BAD_EVENT else EVENT_ERROR) else v)
        in if ji_postScriptCount info > 1
           then (counted idStr '' post script ended, post script count > 1'' (ji_postScriptCount info),
                 if AllowDuplicates allow \<or> AllowGarbage allow then EVENT_BAD_EVENT else EVENT_ERROR) else v)"

definition CheckJobFinal :: "int \<Rightarrow> CondorID \<Rightarrow> string \<Rightarrow> CondorID \<Rightarrow> JobInfo \<Rightarrow> verdict \<Rightarrow> verdict" where
  "CheckJobFinal allow noSubmitId idStr i info v =
     (if post_without_submit noSubmitId i info then v
      else if id_subproc i \<noteq> 0 then v
      else
        let v = (if ji_submitCount info \<noteq> 1
                 then (counted idStr '' ended, submit count != 1'' (ji_submitCount info),
                       if AllowAlmostAll allow \<or> (AllowGarbage allow \<and> ji_submitCount info \<le> 1)
                       then EVENT_BAD_EVENT else EVENT_ERROR) else v);
            v = (if TotalEndCount info \<noteq> 1
                 then (counted idStr '' ended, total end count != 1'' (TotalEndCount info),
                       if AllowExtraAborts allow \<and> ji_abortCount info = 1 \<and> ji_termCount info = 1 then EVENT_BAD_EVENT
                       else if AllowDoubleTerm allow \<and> ji_termCount info = 2 then EVENT_BAD_EVENT
                       else if AllowExtraRuns allow then EVENT_BAD_EVENT
                       else if AllowGarbage allow \<and> TotalEndCount info = 0 then EVENT_BAD_EVENT
                       else if AllowDuplicates allow then EVENT_BAD_EVENT
                       else EVENT_ERROR) else v)
        in if ji_postScriptCount info > 1
           then (counted idStr '' ended, post script count > 1'' (ji_postScriptCount info),
                 if AllowDuplicates allow \<or> AllowGarbage allow then EVENT_BAD_EVENT else EVENT_ERROR) else v)"

text \<open>The \<open>switch\<close> of \<open>CheckAnEvent\<close>: the counter an event adds to, then the check.\<close>

definition count_event :: "ULogEventNumber \<Rightarrow> JobInfo \<Rightarrow> JobInfo" where
  "count_event n info =
     (case n of
        ULOG_SUBMIT \<Rightarrow> info\<lparr>ji_submitCount := ji_submitCount info + 1\<rparr>
      | ULOG_EXECUTABLE_ERROR \<Rightarrow> info\<lparr>ji_errorCount := ji_errorCount info + 1\<rparr>
      | ULOG_JOB_ABORTED \<Rightarrow> info\<lparr>ji_abortCount := ji_abortCount info + 1\<rparr>
      | ULOG_JOB_TERMINATED \<Rightarrow> info\<lparr>ji_termCount := ji_termCount info + 1\<rparr>
      | ULOG_POST_SCRIPT_TERMINATED \<Rightarrow> info\<lparr>ji_postScriptCount := ji_postScriptCount info + 1\<rparr>
      | _ \<Rightarrow> info)"

definition check_counts :: "int \<Rightarrow> CondorID \<Rightarrow> ULogEventNumber \<Rightarrow> CondorID \<Rightarrow> JobInfo \<Rightarrow> verdict \<Rightarrow> verdict" where
  "check_counts allow noSubmitId n i info v =
     (case n of
        ULOG_SUBMIT \<Rightarrow> CheckJobSubmit allow (bad_event_string i) info v
      | ULOG_EXECUTE \<Rightarrow> CheckJobExecute allow (bad_event_string i) info v
      | ULOG_JOB_ABORTED \<Rightarrow> CheckJobEnd allow (bad_event_string i) info v
      | ULOG_JOB_TERMINATED \<Rightarrow> CheckJobEnd allow (bad_event_string i) info v
      | ULOG_POST_SCRIPT_TERMINATED \<Rightarrow> CheckPostTerm allow noSubmitId (bad_event_string i) i info v
      | _ \<Rightarrow> v)"

definition CheckAnEvent :: "ULogEvent \<Rightarrow> CheckEvents \<Rightarrow> verdict \<times> CheckEvents" where
  "CheckAnEvent event ce =
     (let i = event_id event; h = ce_jobHash ce;
          (info, h, v) = (case hash_lookup h i of
             Some info \<Rightarrow> (info, h, ('''', EVENT_OKAY))
           | None \<Rightarrow>
               (case hash_insert i new_JobInfo h of (rc, h') \<Rightarrow>
                  (new_JobInfo, h',
                   if rc \<noteq> 0 then (''EVENT ERROR: hash table insert error'', EVENT_ERROR)
                   else ('''', EVENT_OKAY))))
      in if snd v \<noteq> EVENT_ERROR then
           (let info = count_event (ev_eventNumber event) info
            in (check_counts (ce_allowEvents ce) (ce_noSubmitId ce) (ev_eventNumber event) i info v,
                ce\<lparr>ce_jobHash := hash_write i info h\<rparr>))
         else (v, ce\<lparr>ce_jobHash := h\<rparr>))"

definition MAX_MSG_LEN :: nat where "MAX_MSG_LEN = 1024"

definition check_all_body ::
  "int \<Rightarrow> CondorID \<Rightarrow> CondorID \<Rightarrow> JobInfo \<Rightarrow> verdict \<times> bool \<Rightarrow> verdict \<times> bool" where
  "check_all_body allow noSubmitId i info s =
     (let ((errorMsg, result), msgFull) = s;
          full = (\<not> msgFull \<and> length errorMsg > MAX_MSG_LEN);
          errorMsg = (if full then errorMsg @ '' ...'' else errorMsg);
          msgFull = (msgFull \<or> full);
          (tmpMsg, result) = CheckJobFinal allow noSubmitId (bad_event_string i) i info ('''', result);
          errorMsg = (if tmpMsg \<noteq> '''' \<and> \<not> msgFull
                      then (if errorMsg \<noteq> '''' then errorMsg @ ''; '' else errorMsg) @ tmpMsg
                      else errorMsg)
      in ((errorMsg, result), msgFull))"

definition CheckAllJobs :: "CheckEvents \<Rightarrow> verdict \<times> CheckEvents" where
  "CheckAllJobs ce =
     (case hash_walk (check_all_body (ce_allowEvents ce) (ce_noSubmitId ce))
             (startIterations (ce_jobHash ce)) (('''', EVENT_OKAY), False) of
        ((v, msgFull), h) \<Rightarrow> (v, ce\<lparr>ce_jobHash := h\<rparr>))"

definition ResultToString :: "check_event_result_t \<Rightarrow> string" where
  "ResultToString resultIn =
     (case resultIn of
        EVENT_OKAY \<Rightarrow> ''EVENT_OKAY''
      | EVENT_BAD_EVENT \<Rightarrow> ''EVENT_BAD_EVENT''
      | EVENT_ERROR \<Rightarrow> ''EVENT_ERROR''
      | _ \<Rightarrow> ''Bad result value!!!!'')"

section \<open>What an event does to the counters\<close>

definition ce_ok :: "CheckEvents \<Rightarrow> bool" where
  "ce_ok ce \<longleftrightarrow> reject_table (ce_jobHash ce)"

definition info_of :: "CheckEvents \<Rightarrow> CondorID \<Rightarrow> JobInfo" where
  "info_of ce i = (case hash_lookup (ce_jobHash ce) i of Some info \<Rightarrow> info | None \<Rightarrow> new_JobInfo)"

lemma new_CheckEvents_ok [simp]: "ce_ok (new_CheckEvents n)"
  using htab.new_dict(1) by (simp add: ce_ok_def new_CheckEvents_def)

lemma info_of_new [simp]: "info_of (new_CheckEvents n) i = new_JobInfo"
  by (simp add: info_of_def new_CheckEvents_def)

text \<open>
  The table insertion never fails, so an event is counted and judged on the counters of its
  job, and no other job changes.
\<close>

lemma CheckAnEvent_parts:
  assumes "ce_ok ce"
  shows "fst (CheckAnEvent e ce) = check_counts (ce_allowEvents ce) (ce_noSubmitId ce) (ev_eventNumber e)
      (event_id e) (count_event (ev_eventNumber e) (info_of ce (event_id e))) ('''', EVENT_OKAY)"
    and "ce_ok (snd (CheckAnEvent e ce))"
    and "hash_lookup (ce_jobHash (snd (CheckAnEvent e ce))) =
      (hash_lookup (ce_jobHash ce))(event_id e \<mapsto> count_event (ev_eventNumber e) (info_of ce (event_id e)))"
    and "ce_allowEvents (snd (CheckAnEvent e ce)) = ce_allowEvents ce"
    and "ce_noSubmitId (snd (CheckAnEvent e ce)) = ce_noSubmitId ce"
proof -
  let ?i = "event_id e"
  let ?info = "count_event (ev_eventNumber e) (info_of ce ?i)"
  let ?h = "snd (htab.get_or_add ?i new_JobInfo (ce_jobHash ce))"
  have ok: "reject_table (ce_jobHash ce)" using assms by (simp add: ce_ok_def)
  have "CheckAnEvent e ce = (check_counts (ce_allowEvents ce) (ce_noSubmitId ce) (ev_eventNumber e) ?i ?info
      ('''', EVENT_OKAY), ce\<lparr>ce_jobHash := hash_write ?i ?info ?h\<rparr>)"
  proof (cases "hash_lookup (ce_jobHash ce) ?i")
    case None
    then obtain h' where "hash_insert ?i new_JobInfo (ce_jobHash ce) = (0, h')"
      using htab.ins_new [OF ok None, of new_JobInfo] by (cases "hash_insert ?i new_JobInfo (ce_jobHash ce)") auto
    with None show ?thesis
      by (simp add: CheckAnEvent_def info_of_def htab.get_or_add_def Let_def)
  next
    case (Some info)
    then show ?thesis
      by (simp add: CheckAnEvent_def info_of_def htab.get_or_add_def Let_def)
  qed
  then show "fst (CheckAnEvent e ce) = check_counts (ce_allowEvents ce) (ce_noSubmitId ce) (ev_eventNumber e)
      ?i ?info ('''', EVENT_OKAY)"
    and "ce_ok (snd (CheckAnEvent e ce))"
    and "hash_lookup (ce_jobHash (snd (CheckAnEvent e ce))) = (hash_lookup (ce_jobHash ce))(?i \<mapsto> ?info)"
    and "ce_allowEvents (snd (CheckAnEvent e ce)) = ce_allowEvents ce"
    and "ce_noSubmitId (snd (CheckAnEvent e ce)) = ce_noSubmitId ce"
    using htab.get_or_add_set [OF ok, of ?i ?info new_JobInfo] by (simp_all add: ce_ok_def)
qed

lemma info_of_CheckAnEvent:
  "ce_ok ce \<Longrightarrow> info_of (snd (CheckAnEvent e ce)) =
     (info_of ce)(event_id e := count_event (ev_eventNumber e) (info_of ce (event_id e)))"
  by (rule ext) (simp add: info_of_def [of "snd (CheckAnEvent e ce)"] CheckAnEvent_parts(3) info_of_def [of ce])

lemma check_counts_almost_all:
  assumes "AllowAlmostAll allow"
  shows "snd (check_counts allow ns n i info (m, EVENT_OKAY)) = EVENT_ERROR \<longleftrightarrow>
     n = ULOG_EXECUTE \<and> TotalEndCount info \<noteq> 0 \<and> \<not> AllowExtraRuns allow"
proof -
  have "AllowExtraAborts allow" "AllowGarbage allow" "AllowExecSubmit allow" "AllowDoubleTerm allow"
    "AllowDuplicates allow"
    using assms by (simp_all add: allow_defs)
  then show ?thesis
    using assms
    by (cases n) (simp_all add: check_counts_def CheckJobSubmit_def CheckJobExecute_def CheckJobEnd_def
        CheckPostTerm_def Let_def)
qed

section \<open>The life cycle of a job\<close>

datatype phase = Fresh | Submitted | Ended | Post_Done

definition tracked :: "ULogEventNumber \<Rightarrow> bool" where
  "tracked n \<longleftrightarrow> n \<in> {ULOG_SUBMIT, ULOG_EXECUTE, ULOG_JOB_ABORTED, ULOG_JOB_TERMINATED, ULOG_POST_SCRIPT_TERMINATED}"

inductive life_step :: "phase \<Rightarrow> ULogEventNumber \<Rightarrow> phase \<Rightarrow> bool" where
  submit: "life_step Fresh ULOG_SUBMIT Submitted"
| execute: "life_step Submitted ULOG_EXECUTE Submitted"
| aborted: "life_step Submitted ULOG_JOB_ABORTED Ended"
| terminated: "life_step Submitted ULOG_JOB_TERMINATED Ended"
| post_script: "life_step Ended ULOG_POST_SCRIPT_TERMINATED Post_Done"
| other: "\<not> tracked n \<Longrightarrow> life_step p n p"

inductive life_run :: "phase \<Rightarrow> ULogEventNumber list \<Rightarrow> phase \<Rightarrow> bool" where
  stop: "life_run p [] p"
| step: "life_step p n q \<Longrightarrow> life_run q ns r \<Longrightarrow> life_run p (n # ns) r"

inductive_simps life_step_simps:
  "life_step p ULOG_SUBMIT q" "life_step p ULOG_EXECUTE q" "life_step p ULOG_JOB_ABORTED q"
  "life_step p ULOG_JOB_TERMINATED q" "life_step p ULOG_POST_SCRIPT_TERMINATED q"

inductive_simps life_run_Nil: "life_run p [] q"
inductive_simps life_run_Cons: "life_run p (n # ns) q"

fun phase_counts :: "phase \<Rightarrow> JobInfo \<Rightarrow> bool" where
  "phase_counts Fresh info \<longleftrightarrow> ji_submitCount info = 0 \<and> ji_abortCount info = 0 \<and> ji_termCount info = 0 \<and>
     ji_postScriptCount info = 0"
| "phase_counts Submitted info \<longleftrightarrow> ji_submitCount info = 1 \<and> ji_abortCount info = 0 \<and> ji_termCount info = 0 \<and>
     ji_postScriptCount info = 0"
| "phase_counts Ended info \<longleftrightarrow> ji_submitCount info = 1 \<and> TotalEndCount info = 1 \<and> ji_postScriptCount info = 0"
| "phase_counts Post_Done info \<longleftrightarrow> ji_submitCount info = 1 \<and> TotalEndCount info = 1 \<and> ji_postScriptCount info = 1"

lemma not_allow_none [simp]:
  "\<not> AllowAlmostAll ALLOW_NONE" "\<not> AllowExtraAborts ALLOW_NONE" "\<not> AllowExtraRuns ALLOW_NONE"
  "\<not> AllowGarbage ALLOW_NONE" "\<not> AllowExecSubmit ALLOW_NONE" "\<not> AllowDoubleTerm ALLOW_NONE"
  "\<not> AllowDuplicates ALLOW_NONE"
  by (simp_all add: allow_defs ALLOW_NONE_def)

lemma untracked_step: "\<not> tracked n \<Longrightarrow> life_step p n q \<longleftrightarrow> q = p"
  by (auto simp: tracked_def elim: life_step.cases intro: life_step.other)

lemma life_step_checks:
  assumes "phase_counts p info" and "i \<noteq> ns"
  shows "snd (check_counts ALLOW_NONE ns n i (count_event n info) ('''', EVENT_OKAY)) = EVENT_OKAY \<longleftrightarrow>
      (\<exists>q. life_step p n q)"
    and "life_step p n q \<Longrightarrow> phase_counts q (count_event n info)"
proof -
  note checks = check_counts_def CheckJobSubmit_def CheckJobExecute_def CheckJobEnd_def CheckPostTerm_def
    post_without_submit_def Let_def count_event_def TotalEndCount_def life_step_simps
  have t: "tracked ULOG_SUBMIT" "tracked ULOG_EXECUTE" "tracked ULOG_JOB_ABORTED" "tracked ULOG_JOB_TERMINATED"
    "tracked ULOG_POST_SCRIPT_TERMINATED"
    by (simp_all add: tracked_def)
  show "snd (check_counts ALLOW_NONE ns n i (count_event n info) ('''', EVENT_OKAY)) = EVENT_OKAY \<longleftrightarrow>
      (\<exists>q. life_step p n q)"
  proof (cases "tracked n")
    case True
    with assms show ?thesis
      by (cases p) (auto simp: tracked_def checks t)
  next
    case False
    then show ?thesis
      by (simp add: untracked_step) (cases n; simp add: tracked_def check_counts_def)
  qed
  show "phase_counts q (count_event n info)" if "life_step p n q"
    using that assms(1)
  proof cases
    case other
    then show ?thesis using assms(1) by (cases n; cases p) (simp_all add: tracked_def count_event_def TotalEndCount_def)
  qed (simp_all add: count_event_def TotalEndCount_def)
qed

section \<open>Whole logs\<close>

text \<open>Checking the events of a log one after the other.\<close>

fun check_log :: "ULogEvent list \<Rightarrow> CheckEvents \<Rightarrow> check_event_result_t list \<times> CheckEvents" where
  "check_log [] ce = ([], ce)"
| "check_log (e # es) ce =
     (case CheckAnEvent e ce of (v, ce1) \<Rightarrow> case check_log es ce1 of (rs, ce2) \<Rightarrow> (snd v # rs, ce2))"

definition events_of :: "CondorID \<Rightarrow> ULogEvent list \<Rightarrow> ULogEventNumber list" where
  "events_of i es = map ev_eventNumber (filter (\<lambda>e. event_id e = i) es)"

lemma events_of_Cons:
  "events_of i (e # es) = (if event_id e = i then ev_eventNumber e # events_of i es else events_of i es)"
  by (simp add: events_of_def)

lemma check_log_Cons:
  "fst (check_log (e # es) ce) = snd (fst (CheckAnEvent e ce)) # fst (check_log es (snd (CheckAnEvent e ce)))"
  "snd (check_log (e # es) ce) = snd (check_log es (snd (CheckAnEvent e ce)))"
  by (simp_all split: prod.splits)

lemma check_log_frame:
  "ce_ok ce \<Longrightarrow> ce_ok (snd (check_log es ce)) \<and> ce_allowEvents (snd (check_log es ce)) = ce_allowEvents ce \<and>
     ce_noSubmitId (snd (check_log es ce)) = ce_noSubmitId ce \<and>
     dom (hash_lookup (ce_jobHash (snd (check_log es ce)))) = dom (hash_lookup (ce_jobHash ce)) \<union> event_id ` set es"
proof (induction es arbitrary: ce)
  case (Cons e es)
  then show ?case
    using Cons.IH [OF CheckAnEvent_parts(2) [OF Cons.prems]]
    unfolding check_log_Cons(2) CheckAnEvent_parts(3-5) [OF Cons.prems] by auto
qed simp

lemma life_step_fun: "life_step p n q \<Longrightarrow> life_step p n q' \<Longrightarrow> q = q'"
  by (induction rule: life_step.induct) (auto simp: life_step_simps tracked_def elim: life_step.cases)

lemma check_log_life:
  assumes "ce_ok ce" and "ce_allowEvents ce = ALLOW_NONE" and "\<forall>e \<in> set es. event_id e \<noteq> ce_noSubmitId ce"
    and "\<forall>i. phase_counts (P i) (info_of ce i)"
  shows "(\<forall>r \<in> set (fst (check_log es ce)). r = EVENT_OKAY) \<longleftrightarrow> (\<forall>i. \<exists>q. life_run (P i) (events_of i es) q)"
    and "\<forall>i. life_run (P i) (events_of i es) (Q i) \<Longrightarrow> phase_counts (Q i) (info_of (snd (check_log es ce)) i)"
proof -
  have "((\<forall>r \<in> set (fst (check_log es ce)). r = EVENT_OKAY) \<longleftrightarrow> (\<forall>i. \<exists>q. life_run (P i) (events_of i es) q)) \<and>
    ((\<forall>i. life_run (P i) (events_of i es) (Q i)) \<longrightarrow> phase_counts (Q i) (info_of (snd (check_log es ce)) i))"
    using assms
  proof (induction es arbitrary: ce P)
    case Nil
    then show ?case by (auto simp: events_of_def life_run_Nil)
  next
    case (Cons e es)
    let ?i = "event_id e" and ?n = "ev_eventNumber e" and ?ce = "snd (CheckAnEvent e ce)"
    note parts = CheckAnEvent_parts [OF Cons.prems(1), of e]
    have ne: "?i \<noteq> ce_noSubmitId ce" using Cons.prems(3) by simp
    have pc: "phase_counts (P ?i) (info_of ce ?i)" using Cons.prems(4) by blast
    note st = life_step_checks [OF pc ne, of ?n]
    have res: "snd (fst (CheckAnEvent e ce)) = EVENT_OKAY \<longleftrightarrow> (\<exists>q. life_step (P ?i) ?n q)"
      using st(1) parts(1) Cons.prems(2) by simp
    show ?case
    proof (cases "\<exists>q. life_step (P ?i) ?n q")
      case True
      then obtain q where q: "life_step (P ?i) ?n q" by blast
      have pc': "\<forall>i. phase_counts ((P(?i := q)) i) (info_of ?ce i)"
        using st(2) [OF q] Cons.prems(4) info_of_CheckAnEvent [OF Cons.prems(1)] by simp
      have run: "life_run (P i) (events_of i (e # es)) r \<longleftrightarrow> life_run ((P(?i := q)) i) (events_of i es) r" for i r
      proof -
        have "life_step (P ?i) ?n x \<longleftrightarrow> x = q" for x using q life_step_fun by blast
        then show ?thesis by (cases "i = ?i") (simp_all add: events_of_Cons life_run_Cons)
      qed
      have nos: "\<forall>x \<in> set es. event_id x \<noteq> ce_noSubmitId ?ce"
        and allow: "ce_allowEvents ?ce = ALLOW_NONE"
        using Cons.prems(2,3) parts(4,5) by simp_all
      have ih: "((\<forall>r \<in> set (fst (check_log es ?ce)). r = EVENT_OKAY) \<longleftrightarrow>
            (\<forall>i. \<exists>r. life_run ((P(?i := q)) i) (events_of i es) r)) \<and>
          ((\<forall>i. life_run ((P(?i := q)) i) (events_of i es) (Q i)) \<longrightarrow>
            phase_counts (Q i) (info_of (snd (check_log es ?ce)) i))"
        by (rule Cons.IH [OF parts(2) allow nos pc'])
      have all: "(\<forall>r \<in> set (fst (check_log (e # es) ce)). r = EVENT_OKAY) \<longleftrightarrow>
          (\<forall>r \<in> set (fst (check_log es ?ce)). r = EVENT_OKAY)"
        using res True by (simp add: check_log_Cons del: check_log.simps(2))
      show ?thesis unfolding run check_log_Cons(2) all by (rule ih)
    next
      case False
      then have "\<not> life_run (P ?i) (events_of ?i (e # es)) r" for r
        by (simp add: events_of_Cons life_run_Cons)
      moreover have "\<not> (\<forall>r \<in> set (fst (check_log (e # es) ce)). r = EVENT_OKAY)"
        using res False by (simp add: check_log_Cons del: check_log.simps(2))
      ultimately show ?thesis by blast
    qed
  qed
  then show "(\<forall>r \<in> set (fst (check_log es ce)). r = EVENT_OKAY) \<longleftrightarrow> (\<forall>i. \<exists>q. life_run (P i) (events_of i es) q)"
    and "\<forall>i. life_run (P i) (events_of i es) (Q i) \<Longrightarrow> phase_counts (Q i) (info_of (snd (check_log es ce)) i)"
    by blast+
qed

section \<open>The final check\<close>

definition final_verdict :: "int \<Rightarrow> CondorID \<Rightarrow> CondorID \<Rightarrow> JobInfo \<Rightarrow> check_event_result_t" where
  "final_verdict allow ns i info = snd (CheckJobFinal allow ns (bad_event_string i) i info ('''', EVENT_OKAY))"

lemma CheckJobFinal_result:
  "snd (CheckJobFinal allow ns idStr i info (m, r)) =
     (if final_verdict allow ns i info = EVENT_OKAY then r else final_verdict allow ns i info)"
  by (simp add: final_verdict_def CheckJobFinal_def Let_def)

definition keep_last :: "('a \<Rightarrow> check_event_result_t) \<Rightarrow> 'a \<Rightarrow> check_event_result_t \<Rightarrow> check_event_result_t" where
  "keep_last f x r = (if f x = EVENT_OKAY then r else f x)"

lemma check_all_body_result:
  "snd (fst (check_all_body allow ns i info s)) = keep_last (\<lambda>(i, info). final_verdict allow ns i info) (i, info) (snd (fst s))"
proof -
  obtain m r f where s: "s = ((m, r), f)" by (metis surj_pair)
  show ?thesis
    using CheckJobFinal_result [of allow ns "bad_event_string i" i info "''''" r]
    by (cases "CheckJobFinal allow ns (bad_event_string i) i info ('''', r)")
      (simp add: check_all_body_def s keep_last_def Let_def)
qed

lemma fold_check_all:
  "snd (fst (fold (\<lambda>(k, v). check_all_body allow ns k v) es s)) =
     fold (keep_last (\<lambda>(i, info). final_verdict allow ns i info)) es (snd (fst s))"
proof (induction es arbitrary: s)
  case (Cons e es)
  obtain i info where e: "e = (i, info)" by fastforce
  show ?case by (simp add: e Cons.IH check_all_body_result)
qed simp

lemma CheckAllJobs_fold:
  assumes "ce_ok ce"
  shows "snd (fst (CheckAllJobs ce)) =
    fold (keep_last (\<lambda>(i, info). final_verdict (ce_allowEvents ce) (ce_noSubmitId ce) i info))
      (hash_entries (ce_jobHash ce)) EVENT_OKAY"
proof -
  let ?h = "startIterations (ce_jobHash ce)"
  have "hash_ok (ce_jobHash ce)" using assms by (simp add: ce_ok_def reject_table_def)
  note st = startIterations_ok [OF this]
  let ?w = "hash_walk (check_all_body (ce_allowEvents ce) (ce_noSubmitId ce)) ?h (('''', EVENT_OKAY), False)"
  have "snd (fst (CheckAllJobs ce)) = snd (fst (fst ?w))"
    by (simp add: CheckAllJobs_def split: prod.splits)
  also have "\<dots> = snd (fst (fold (\<lambda>(k, v). check_all_body (ce_allowEvents ce) (ce_noSubmitId ce) k v)
      (hash_entries (ce_jobHash ce)) (('''', EVENT_OKAY), False)))"
    using st by (simp add: hash_walk_rest)
  finally show ?thesis by (simp add: fold_check_all)
qed

lemma fold_keep_last:
  "fold (keep_last f) es r = (case filter (\<lambda>x. f x \<noteq> EVENT_OKAY) es of [] \<Rightarrow> r | ys \<Rightarrow> f (last ys))"
  by (induction es arbitrary: r) (auto simp: keep_last_def split: list.splits)

lemma fold_keep_last_okay:
  "fold (keep_last f) es EVENT_OKAY = EVENT_OKAY \<longleftrightarrow> (\<forall>x \<in> set es. f x = EVENT_OKAY)"
proof (cases "filter (\<lambda>x. f x \<noteq> EVENT_OKAY) es")
  case Nil
  then show ?thesis by (simp add: fold_keep_last filter_empty_conv)
next
  case (Cons y ys)
  then have l: "last (y # ys) \<in> set (filter (\<lambda>x. f x \<noteq> EVENT_OKAY) es)" by (metis last_in_set list.discI)
  then have "f (last (y # ys)) \<noteq> EVENT_OKAY" "last (y # ys) \<in> set es" by (simp_all only: set_filter mem_Collect_eq not_False_eq_True)
  moreover have "fold (keep_last f) es EVENT_OKAY = f (last (y # ys))"
    unfolding fold_keep_last Cons by simp
  ultimately show ?thesis by metis
qed

lemma CheckAllJobs_okay:
  assumes "ce_ok ce"
  shows "snd (fst (CheckAllJobs ce)) = EVENT_OKAY \<longleftrightarrow>
    (\<forall>i info. hash_lookup (ce_jobHash ce) i = Some info \<longrightarrow>
       final_verdict (ce_allowEvents ce) (ce_noSubmitId ce) i info = EVENT_OKAY)"
proof -
  let ?f = "\<lambda>(i, info). final_verdict (ce_allowEvents ce) (ce_noSubmitId ce) i info"
  have "hash_ok (ce_jobHash ce)" using assms by (simp add: ce_ok_def reject_table_def)
  then show ?thesis
    by (auto simp: CheckAllJobs_fold [OF assms] hash_lookup_iff fold_keep_last_okay)
qed

lemma final_verdict_none:
  assumes "phase_counts p info" and "i \<noteq> ns"
  shows "final_verdict ALLOW_NONE ns i info = EVENT_OKAY \<longleftrightarrow> id_subproc i = 0 \<longrightarrow> p \<in> {Ended, Post_Done}"
  using assms
  by (cases p) (auto simp: final_verdict_def CheckJobFinal_def post_without_submit_def TotalEndCount_def Let_def)

lemma life_run_fun: "life_run p ns q \<Longrightarrow> life_run p ns q' \<Longrightarrow> q = q'"
proof (induction arbitrary: q' rule: life_run.induct)
  case (step p n q ns r)
  then show ?case by (metis life_run_Cons life_step_fun)
qed (simp add: life_run_Nil)

section \<open>Properties\<close>

text \<open>
  C12: With no bad events allowed, checking a log accepts every event if and only if the events
  of every job follow the life cycle submit, execute, terminate or abort, POST script. (The
  events of the identifier that stands for a node that was never submitted are apart.)
\<close>

theorem check_log_accepts_life_cycles:
  assumes "\<forall>e \<in> set es. event_id e \<noteq> CondorID (-1) 0 0"
  shows "(\<forall>r \<in> set (fst (check_log es (new_CheckEvents ALLOW_NONE))). r = EVENT_OKAY) \<longleftrightarrow>
    (\<forall>i. \<exists>p. life_run Fresh (events_of i es) p)"
proof (rule check_log_life(1) [where P = "\<lambda>_. Fresh"])
  show "\<forall>i. phase_counts Fresh (info_of (new_CheckEvents ALLOW_NONE) i)"
    by (simp add: new_JobInfo_def)
qed (use assms in \<open>simp_all add: new_CheckEvents_def [of ALLOW_NONE] ce_ok_def\<close>,
     use new_CheckEvents_ok in \<open>simp add: new_CheckEvents_def ce_ok_def\<close>)

definition sample_log :: "ULogEvent list" where
  "sample_log = map (\<lambda>n. make_event n (CondorID 7 0 0))
     [ULOG_SUBMIT, ULOG_EXECUTE, ULOG_IMAGE_SIZE, ULOG_JOB_TERMINATED]"

lemma sample_log_life: "life_run Fresh (events_of (CondorID 7 0 0) sample_log) Ended"
  by (simp add: events_of_def sample_log_def) (auto simp: tracked_def intro!: life_run.intros life_step.intros)

lemma sample_log_others: "i \<noteq> CondorID 7 0 0 \<Longrightarrow> events_of i sample_log = []"
  by (simp add: events_of_def sample_log_def)

theorem check_log_accepts_life_cycles_witness:
  "CondorID (-1) 0 0 \<notin> event_id ` set sample_log \<and>
   set (fst (check_log sample_log (new_CheckEvents ALLOW_NONE))) \<subseteq> {EVENT_OKAY}"
proof
  have ids: "\<forall>e \<in> set sample_log. event_id e \<noteq> CondorID (-1) 0 0" by (simp add: sample_log_def)
  then show "CondorID (-1) 0 0 \<notin> event_id ` set sample_log" by auto
  have "\<forall>i. \<exists>p. life_run Fresh (events_of i sample_log) p"
    using sample_log_life sample_log_others life_run.stop by metis
  then show "set (fst (check_log sample_log (new_CheckEvents ALLOW_NONE))) \<subseteq> {EVENT_OKAY}"
    using check_log_accepts_life_cycles [OF ids] by auto
qed



text \<open>
  Under \<open>ALLOW_ALMOST_ALL\<close> the only error is execution after a terminal event, as the
  header documents, unless extra runs are allowed too.
\<close>

theorem almost_all_only_error:
  assumes "ce_ok ce" and "AllowAlmostAll (ce_allowEvents ce)"
  shows "snd (fst (CheckAnEvent e ce)) = EVENT_ERROR \<longleftrightarrow>
    ev_eventNumber e = ULOG_EXECUTE \<and> TotalEndCount (info_of ce (event_id e)) \<noteq> 0 \<and>
    \<not> AllowExtraRuns (ce_allowEvents ce)"
  by (auto simp: CheckAnEvent_parts(1) [OF assms(1)] check_counts_almost_all [OF assms(2)] count_event_def)

theorem almost_all_only_error_witness:
  "ce_ok (new_CheckEvents ALLOW_ALMOST_ALL) \<and> AllowAlmostAll ALLOW_ALMOST_ALL \<and>
   snd (fst (CheckAnEvent (make_event ULOG_POST_SCRIPT_TERMINATED (CondorID 1 0 0)) (new_CheckEvents ALLOW_ALMOST_ALL))) \<noteq> EVENT_ERROR"
proof -
  have a: "ce_allowEvents (new_CheckEvents ALLOW_ALMOST_ALL) = ALLOW_ALMOST_ALL"
    by (simp add: new_CheckEvents_def)
  have b: "AllowAlmostAll ALLOW_ALMOST_ALL" by (simp add: AllowAlmostAll_def ALLOW_ALMOST_ALL_def)
  then show ?thesis
    using almost_all_only_error [of "new_CheckEvents ALLOW_ALMOST_ALL"
        "make_event ULOG_POST_SCRIPT_TERMINATED (CondorID 1 0 0)"] a by simp
qed

text \<open>
  C37: The final check reports the verdict of the last bad job of the walk over the table, not
  the worst one: an error is lost when a job visited later is merely tolerated.
\<close>

theorem CheckAllJobs_last_verdict:
  assumes "ce_ok ce"
    and "filter (\<lambda>(i, info). final_verdict (ce_allowEvents ce) (ce_noSubmitId ce) i info \<noteq> EVENT_OKAY)
           (hash_entries (ce_jobHash ce)) = bad @ [(j, jinfo)]"
  shows "snd (fst (CheckAllJobs ce)) = final_verdict (ce_allowEvents ce) (ce_noSubmitId ce) j jinfo"
proof -
  have "filter (\<lambda>x. (case x of (i, info) \<Rightarrow> final_verdict (ce_allowEvents ce) (ce_noSubmitId ce) i info) \<noteq> EVENT_OKAY)
      (hash_entries (ce_jobHash ce)) = bad @ [(j, jinfo)]"
    by (subst assms(2) [symmetric], rule filter_cong) auto
  then show ?thesis
    unfolding CheckAllJobs_fold [OF assms(1)] fold_keep_last by (cases bad) simp_all
qed

definition masked_log :: "ULogEvent list" where
  "masked_log = [make_event ULOG_SUBMIT (CondorID 0 0 0), make_event ULOG_SUBMIT (CondorID 0 0 0),
     make_event ULOG_JOB_TERMINATED (CondorID 0 0 0), make_event ULOG_SUBMIT (CondorID 1 0 0)]"

definition masked_state :: CheckEvents where
  "masked_state = snd (check_log masked_log (new_CheckEvents ALLOW_GARBAGE))"

theorem CheckAllJobs_last_verdict_witness:
  "(\<exists>info. hash_lookup (ce_jobHash masked_state) (CondorID 0 0 0) = Some info \<and>
      final_verdict ALLOW_GARBAGE (CondorID (-1) 0 0) (CondorID 0 0 0) info = EVENT_ERROR) \<and>
   snd (fst (CheckAllJobs masked_state)) = EVENT_BAD_EVENT"
proof -
  have ok: "ce_ok masked_state"
    using check_log_frame [OF new_CheckEvents_ok] by (simp add: masked_state_def)
  let ?i0 = "\<lparr>ji_submitCount = 2, ji_errorCount = 0, ji_abortCount = 0, ji_termCount = 1, ji_postScriptCount = 0\<rparr>"
  let ?i1 = "\<lparr>ji_submitCount = 1, ji_errorCount = 0, ji_abortCount = 0, ji_termCount = 0, ji_postScriptCount = 0\<rparr>"
  have e: "hash_entries (ce_jobHash masked_state) = [(CondorID 0 0 0, ?i0), (CondorID 1 0 0, ?i1)]"
    by code_simp
  have a: "ce_allowEvents masked_state = ALLOW_GARBAGE" "ce_noSubmitId masked_state = CondorID (-1) 0 0"
    using check_log_frame [OF new_CheckEvents_ok, of masked_log ALLOW_GARBAGE]
    by (simp_all add: masked_state_def new_CheckEvents_def)
  have v: "final_verdict ALLOW_GARBAGE (CondorID (-1) 0 0) (CondorID 0 0 0) ?i0 = EVENT_ERROR"
    "final_verdict ALLOW_GARBAGE (CondorID (-1) 0 0) (CondorID 1 0 0) ?i1 = EVENT_BAD_EVENT"
    by code_simp+
  have "snd (fst (CheckAllJobs masked_state)) = EVENT_BAD_EVENT"
    using CheckAllJobs_last_verdict [OF ok, of "[(CondorID 0 0 0, ?i0)]" "CondorID 1 0 0" ?i1] v by (simp add: e a)
  moreover have "hash_lookup (ce_jobHash masked_state) (CondorID 0 0 0) = Some ?i0"
    using ok by (simp add: hash_lookup_iff ce_ok_def reject_table_def e)
  ultimately show ?thesis using v(1) by blast
qed

end
