(* ===== verification/Bin_Search.thy ===== *)
theory Bin_Search
  imports Condor_Prelude
begin

text \<open>
  The template \<open>BinarySearch\<close> of \<open>condor_utils/binary_search.h\<close>, which the priority list of
  ready nodes uses. \<open>search_loop\<close> is the loop of \<open>Search\<close>, on the array and the C variables
  \<open>low\<close> and \<open>high\<close>; the result pairs the return value with the reference argument \<open>index\<close>.
  \<open>search_probes\<close> runs the same loop and lists the values of \<open>low\<close>, \<open>high\<close> and \<open>mid\<close> of
  each iteration, so that the array accesses and the arithmetic can be bounded.
\<close>

section \<open>The search loop\<close>

function search_loop :: "('a::linorder) list \<Rightarrow> 'a \<Rightarrow> int \<Rightarrow> int \<Rightarrow> bool \<times> int" where
  "search_loop arr key low high =
     (if low \<le> high then
        (let mid = low + (high - low) div 2; midVal = arr ! nat mid in
         if midVal < key then search_loop arr key (mid + 1) high
         else if midVal > key then search_loop arr key low (mid - 1)
         else (True, mid))
      else (False, low))"
  by pat_completeness auto
termination
  by (relation "measure (\<lambda>(arr, key, low, high). nat (high - low + 1))") auto

definition Search :: "('a::linorder) list \<Rightarrow> int \<Rightarrow> 'a \<Rightarrow> bool \<times> int" where
  "Search arr len key = search_loop arr key 0 (len - 1)"

function search_probes :: "('a::linorder) list \<Rightarrow> 'a \<Rightarrow> int \<Rightarrow> int \<Rightarrow> (int \<times> int \<times> int) list" where
  "search_probes arr key low high =
     (if low \<le> high then
        (let mid = low + (high - low) div 2; midVal = arr ! nat mid in
         (low, high, mid) #
         (if midVal < key then search_probes arr key (mid + 1) high
          else if midVal > key then search_probes arr key low (mid - 1)
          else []))
      else [])"
  by pat_completeness auto
termination
  by (relation "measure (\<lambda>(arr, key, low, high). nat (high - low + 1))") auto

declare search_loop.simps [simp del] search_probes.simps [simp del]

section \<open>Correctness\<close>

text \<open>
  The loop invariant: everything below \<open>low\<close> is smaller than the key and everything above
  \<open>high\<close>, up to the length of the used part, is larger.
\<close>

definition search_inv :: "('a::linorder) list \<Rightarrow> nat \<Rightarrow> 'a \<Rightarrow> int \<Rightarrow> int \<Rightarrow> bool" where
  "search_inv arr n key low high \<longleftrightarrow>
     0 \<le> low \<and> low \<le> high + 1 \<and> high < int n \<and>
     (\<forall>j. int j < low \<longrightarrow> arr ! j < key) \<and>
     (\<forall>j. high < int j \<and> j < n \<longrightarrow> key < arr ! j)"

definition search_spec :: "('a::linorder) list \<Rightarrow> nat \<Rightarrow> 'a \<Rightarrow> bool \<times> int \<Rightarrow> bool" where
  "search_spec arr n key r \<longleftrightarrow>
     0 \<le> snd r \<and> snd r \<le> int n \<and>
     (fst r \<longrightarrow> snd r < int n \<and> arr ! nat (snd r) = key) \<and>
     (\<not> fst r \<longrightarrow> (\<forall>j. int j < snd r \<longrightarrow> arr ! j < key) \<and>
                    (\<forall>j. snd r \<le> int j \<and> j < n \<longrightarrow> key < arr ! j))"

lemma search_spec_missing:
  assumes "search_spec arr n key (False, i)"
  shows "0 \<le> i" "i \<le> int n" "int j < i \<Longrightarrow> arr ! j < key" "i < int n \<Longrightarrow> key < arr ! nat i"
proof -
  have *: "0 \<le> i" "\<forall>j. i \<le> int j \<and> j < n \<longrightarrow> key < arr ! j"
    using assms by (simp_all add: search_spec_def)
  show "i < int n \<Longrightarrow> key < arr ! nat i"
    using * by (metis nat_less_iff order_refl nat_0_le)
qed (use assms in \<open>simp_all add: search_spec_def\<close>)

lemma sorted_take_nth_mono:
  assumes "sorted (take n arr)" "n \<le> length arr" "i \<le> j" "j < n"
  shows "arr ! i \<le> arr ! j"
proof -
  have "take n arr ! i \<le> take n arr ! j"
    using assms by (intro sorted_nth_mono) auto
  with assms show ?thesis by simp
qed

lemma search_inv_low:
  assumes inv: "search_inv arr n key low high" and srt: "sorted (take n arr)" "n \<le> length arr"
    and "low \<le> mid" "mid \<le> high" "arr ! nat mid < key"
  shows "search_inv arr n key (mid + 1) high"
proof -
  have "arr ! j < key" if "int j < mid + 1" for j
  proof -
    have "arr ! j \<le> arr ! nat mid"
      using that inv srt assms by (intro sorted_take_nth_mono) (auto simp: search_inv_def)
    with assms show ?thesis by simp
  qed
  with assms show ?thesis by (auto simp: search_inv_def)
qed

lemma search_inv_high:
  assumes inv: "search_inv arr n key low high" and srt: "sorted (take n arr)" "n \<le> length arr"
    and "low \<le> mid" "mid \<le> high" "key < arr ! nat mid"
  shows "search_inv arr n key low (mid - 1)"
proof -
  have "key < arr ! j" if "mid - 1 < int j" "j < n" for j
  proof -
    have "arr ! nat mid \<le> arr ! j"
      using that inv srt assms by (intro sorted_take_nth_mono) (auto simp: search_inv_def)
    with assms show ?thesis by simp
  qed
  with assms show ?thesis by (auto simp: search_inv_def)
qed

lemma search_mid_bounds:
  assumes "(low::int) \<le> high"
  shows "low \<le> low + (high - low) div 2" and "low + (high - low) div 2 \<le> high"
  using assms by linarith+

lemma search_loop_spec:
  "sorted (take n arr) \<Longrightarrow> n \<le> length arr \<Longrightarrow> search_inv arr n key low high \<Longrightarrow>
   search_spec arr n key (search_loop arr key low high)"
proof (induction arr key low high rule: search_loop.induct)
  case (1 arr key low high)
  show ?case
  proof (cases "low \<le> high")
    case True
    define mid where "mid = low + (high - low) div 2"
    have mid: "low \<le> mid" "mid \<le> high"
      using search_mid_bounds [OF True] by (simp_all add: mid_def)
    note IH = "1.IH" [OF True mid_def refl]
    have unfold: "search_loop arr key low high =
        (if arr ! nat mid < key then search_loop arr key (mid + 1) high
         else if key < arr ! nat mid then search_loop arr key low (mid - 1) else (True, mid))"
      using True by (simp add: search_loop.simps [of arr key low high] Let_def mid_def)
    consider (lt) "arr ! nat mid < key" | (gt) "key < arr ! nat mid" | (eq) "arr ! nat mid = key"
      by fastforce
    then show ?thesis
    proof cases
      case lt
      with IH(1) "1.prems" search_inv_low [OF "1.prems"(3,1,2) mid] unfold
      show ?thesis by simp
    next
      case gt
      with IH(2) "1.prems" search_inv_high [OF "1.prems"(3,1,2) mid] unfold less_not_sym [OF gt]
      show ?thesis by simp
    next
      case eq
      with unfold mid "1.prems" show ?thesis
        by (auto simp: search_inv_def search_spec_def)
    qed
  next
    case False
    with "1.prems" show ?thesis
      by (auto simp: search_loop.simps [of arr key low high] search_inv_def search_spec_def)
  qed
qed

lemma Search_spec:
  "sorted (take n arr) \<Longrightarrow> n \<le> length arr \<Longrightarrow> search_spec arr n key (Search arr (int n) key)"
  unfolding Search_def by (rule search_loop_spec) (auto simp: search_inv_def)

section \<open>Bounds\<close>

lemma search_probes_bounds:
  "0 \<le> low \<Longrightarrow> high < int n \<Longrightarrow> (l, h, m) \<in> set (search_probes arr key low high) \<Longrightarrow>
   0 \<le> l \<and> l \<le> m \<and> m \<le> h \<and> h < int n"
proof (induction arr key low high rule: search_probes.induct)
  case (1 arr key low high)
  show ?case
  proof (cases "low \<le> high")
    case True
    define mid where "mid = low + (high - low) div 2"
    have mid: "low \<le> mid" "mid \<le> high"
      using search_mid_bounds [OF True] by (simp_all add: mid_def)
    note IH = "1.IH" [OF True mid_def refl]
    have unfold: "search_probes arr key low high = (low, high, mid) #
        (if arr ! nat mid < key then search_probes arr key (mid + 1) high
         else if key < arr ! nat mid then search_probes arr key low (mid - 1) else [])"
      using True by (simp add: search_probes.simps [of arr key low high] Let_def mid_def)
    from "1.prems"(3) mid "1.prems"(1,2) IH show ?thesis
      unfolding unfold by (auto split: if_splits)
  next
    case False
    with "1.prems" show ?thesis by (simp add: search_probes.simps [of arr key low high])
  qed
qed

section \<open>Properties\<close>

text \<open>
  C35: Binary search on a sorted array finds the key if it is there, and otherwise the place
  where it would have to be inserted: everything before it is smaller, everything from it on
  is larger.
\<close>

theorem Search_correct:
  assumes "sorted (take n arr)" and "n \<le> length arr"
  shows "case Search arr (int n) key of (found, i) \<Rightarrow>
    0 \<le> i \<and> i \<le> int n \<and> (found \<longleftrightarrow> key \<in> set (take n arr)) \<and> (found \<longrightarrow> i < int n \<and> arr ! nat i = key) \<and>
    (\<not> found \<longrightarrow> (\<forall>j < n. (int j < i \<longrightarrow> arr ! j < key) \<and> (i \<le> int j \<longrightarrow> key < arr ! j)))"
proof -
  obtain found i where r: "Search arr (int n) key = (found, i)" by fastforce
  have s: "search_spec arr n key (found, i)" using Search_spec [OF assms, of key] r by simp
  have mem: "key \<in> set (take n arr) \<longleftrightarrow> (\<exists>j < n. arr ! j = key)"
    using assms(2) by (auto simp: in_set_conv_nth)
  have "found \<longleftrightarrow> key \<in> set (take n arr)"
  proof
    assume found
    with s have "nat i < n" "arr ! nat i = key" by (auto simp: search_spec_def)
    then show "key \<in> set (take n arr)" using mem by blast
  next
    assume "key \<in> set (take n arr)"
    then obtain j where j: "j < n" "arr ! j = key" using mem by blast
    show found
    proof (rule ccontr)
      assume "\<not> found"
      with s have "int j < i \<longrightarrow> arr ! j < key" "i \<le> int j \<and> j < n \<longrightarrow> key < arr ! j"
        by (simp_all add: search_spec_def)
      with j show False by (cases "int j < i") simp_all
    qed
  qed
  with s r show ?thesis by (auto simp: search_spec_def)
qed

theorem Search_correct_witness:
  "sorted (take 3 [1, 4, 9 :: int]) \<and> fst (Search [1, 4, 9 :: int] 3 4)"
  using Search_correct [of 3 "[1, 4, 9 :: int]" 4] by (auto split: prod.splits)



end
