(* ===== verification/Priority_List.thy ===== *)
theory Priority_List
  imports Bin_Search
begin

text \<open>
  The array-based lists of \<open>condor_utils\<close>: \<open>SimpleList\<close> (\<open>simplelist.h\<close>) and its subclass
  \<open>PrioritySimpleList\<close> (\<open>prioritysimplelist.h\<close>), whose instance at \<open>Job*\<close> is DAGMan's queue
  of ready nodes. A list object is a record with the source's fields: the array \<open>items\<close> of
  \<open>maximum_size\<close> slots, the number \<open>size\<close> of slots in use, and the iterator position
  \<open>current\<close> (-1 before the first item). The subclass adds the array \<open>priorities\<close>. Slots past
  \<open>size\<close> hold whatever \<open>new\<close> left there (\<open>undefined\<close>); no lemma depends on them.

  The locale \<open>prio_queue\<close> is the interface DAGMan uses: entries are kept sorted by priority
  number, \<open>Append\<close> goes behind and \<open>Prepend\<close> in front of the entries of equal priority. It is
  interpreted on the array operations (\<open>ready\<close>), which is the proof that binary search, slot
  moving and array growth implement stable sorted insertion.
\<close>

section \<open>Lists as arrays\<close>

record 'a SimpleList =
  sl_maximum_size :: nat
  sl_items :: "'a list"
  sl_size :: nat
  sl_current :: int

record 'a PrioritySimpleList = "'a SimpleList" +
  pl_priorities :: "int list"

definition Rewind :: "('a, 'z) SimpleList_scheme \<Rightarrow> ('a, 'z) SimpleList_scheme" where
  "Rewind l = l\<lparr>sl_current := -1\<rparr>"

definition IsEmpty :: "('a, 'z) SimpleList_scheme \<Rightarrow> bool" where
  "IsEmpty l \<longleftrightarrow> sl_size l = 0"

definition Number :: "('a, 'z) SimpleList_scheme \<Rightarrow> int" where
  "Number l = int (sl_size l)"

text \<open>\<open>Next\<close> returns \<open>false\<close> (here \<open>None\<close>) at the end and leaves the position alone.\<close>

definition Next :: "('a, 'z) SimpleList_scheme \<Rightarrow> 'a option \<times> ('a, 'z) SimpleList_scheme" where
  "Next l =
     (if sl_current l \<ge> int (sl_size l) - 1 then (None, l)
      else (Some (sl_items l ! nat (sl_current l + 1)), l\<lparr>sl_current := sl_current l + 1\<rparr>))"

definition SimpleList_DeleteCurrent :: "('a, 'z) SimpleList_scheme \<Rightarrow> ('a, 'z) SimpleList_scheme" where
  "SimpleList_DeleteCurrent l =
     (if sl_current l \<ge> int (sl_size l) \<or> sl_current l < 0 then l
      else l\<lparr>sl_items := shift_down (sl_items l) (nat (sl_current l)) (sl_size l),
             sl_current := sl_current l - 1, sl_size := sl_size l - 1\<rparr>)"

definition SimpleList_resize :: "nat \<Rightarrow> ('a, 'z) SimpleList_scheme \<Rightarrow> ('a, 'z) SimpleList_scheme" where
  "SimpleList_resize newsize l =
     (let smaller = (if newsize < sl_size l then newsize else sl_size l);
          l1 = l\<lparr>sl_items := take smaller (sl_items l) @ replicate (newsize - smaller) undefined,
                 sl_maximum_size := newsize\<rparr>;
          l2 = (if int (sl_size l1) > int newsize - 1 then l1\<lparr>sl_size := newsize - 1\<rparr> else l1)
      in if sl_current l2 > int newsize - 1 then l2\<lparr>sl_current := int newsize\<rparr> else l2)"

fun is_member_loop :: "'a list \<Rightarrow> 'a \<Rightarrow> nat \<Rightarrow> nat \<Rightarrow> bool" where
  "is_member_loop items obj i 0 = False"
| "is_member_loop items obj i (Suc k) = (if items ! i = obj then True else is_member_loop items obj (Suc i) k)"

definition IsMember :: "('a, 'z) SimpleList_scheme \<Rightarrow> 'a \<Rightarrow> bool" where
  "IsMember l obj = is_member_loop (sl_items l) obj 0 (sl_size l)"

section \<open>Lists with priorities\<close>

definition new_PrioritySimpleList :: "'a PrioritySimpleList" where
  "new_PrioritySimpleList =
     \<lparr>sl_maximum_size = 1, sl_items = [undefined], sl_size = 0, sl_current = -1,
      pl_priorities = [undefined]\<rparr>"

definition PrioritySimpleList_resize :: "nat \<Rightarrow> 'a PrioritySimpleList \<Rightarrow> 'a PrioritySimpleList" where
  "PrioritySimpleList_resize newsize l =
     (let smaller = (if newsize < sl_size l then newsize else sl_size l)
      in SimpleList_resize newsize
           (l\<lparr>pl_priorities := take smaller (pl_priorities l) @ replicate (newsize - smaller) undefined\<rparr>))"

text \<open>
  The loops after the binary search: from a slot of equal priority down to the last better
  one, and up to the first worse one.
\<close>

function scan_before :: "int list \<Rightarrow> int \<Rightarrow> int \<Rightarrow> int" where
  "scan_before ps priority index =
     (if index \<ge> 0 then
        (if ps ! nat index < priority then index else scan_before ps priority (index - 1))
      else index)"
  by pat_completeness auto
termination
  by (relation "measure (\<lambda>(ps, priority, index). nat (index + 1))") auto

function scan_after :: "int list \<Rightarrow> nat \<Rightarrow> int \<Rightarrow> int \<Rightarrow> int" where
  "scan_after ps n priority index =
     (if index < int n then
        (if ps ! nat index > priority then index else scan_after ps n priority (index + 1))
      else index)"
  by pat_completeness auto
termination
  by (relation "measure (\<lambda>(ps, n, priority, index). nat (int n - index))") auto

declare scan_before.simps [simp del] scan_after.simps [simp del]

definition FindInsertBefore :: "int \<Rightarrow> 'a PrioritySimpleList \<Rightarrow> int" where
  "FindInsertBefore priority l =
     (if sl_size l = 0 \<or> pl_priorities l ! 0 \<ge> priority then 0
      else (case Search (pl_priorities l) (int (sl_size l)) priority of (found, index) \<Rightarrow>
        if found then scan_before (pl_priorities l) priority index + 1 else index))"

definition FindInsertAfter :: "int \<Rightarrow> 'a PrioritySimpleList \<Rightarrow> int" where
  "FindInsertAfter priority l =
     (if sl_size l = 0 \<or> pl_priorities l ! (sl_size l - 1) \<le> priority then int (sl_size l)
      else (case Search (pl_priorities l) (int (sl_size l)) priority of (found, index) \<Rightarrow>
        if found then scan_after (pl_priorities l) (sl_size l) priority index else index))"

definition InsertAt :: "int \<Rightarrow> 'a \<Rightarrow> int \<Rightarrow> 'a PrioritySimpleList \<Rightarrow> 'a PrioritySimpleList" where
  "InsertAt index item prio l =
     (let l1 = (if sl_size l \<ge> sl_maximum_size l
                then PrioritySimpleList_resize (2 * sl_maximum_size l) l else l);
          its = shift_up (sl_items l1) (sl_size l1) (nat index);
          prs = shift_up (pl_priorities l1) (sl_size l1) (nat index)
      in l1\<lparr>sl_items := its[nat index := item], pl_priorities := prs[nat index := prio],
            sl_size := sl_size l1 + 1\<rparr>)"

definition Append :: "'a \<Rightarrow> int \<Rightarrow> 'a PrioritySimpleList \<Rightarrow> 'a PrioritySimpleList" where
  "Append item prio l = InsertAt (FindInsertAfter prio l) item prio l"

definition Prepend :: "'a \<Rightarrow> int \<Rightarrow> 'a PrioritySimpleList \<Rightarrow> 'a PrioritySimpleList" where
  "Prepend item prio l = InsertAt (FindInsertBefore prio l) item prio l"

definition DeleteCurrent :: "'a PrioritySimpleList \<Rightarrow> 'a PrioritySimpleList" where
  "DeleteCurrent l =
     (if sl_current l \<ge> int (sl_size l) \<or> sl_current l < 0 then l
      else SimpleList_DeleteCurrent
             (l\<lparr>pl_priorities := shift_down (pl_priorities l) (nat (sl_current l)) (sl_size l)\<rparr>))"

function delete_loop :: "'a \<Rightarrow> bool \<Rightarrow> nat \<Rightarrow> bool \<Rightarrow> 'a PrioritySimpleList \<Rightarrow> bool \<times> 'a PrioritySimpleList" where
  "delete_loop item delete_all i found_it l =
     (if i < sl_size l then
        (if sl_items l ! i = item then
           (let l1 = l\<lparr>sl_items := shift_down (sl_items l) i (sl_size l),
                       pl_priorities := shift_down (pl_priorities l) i (sl_size l),
                       sl_size := sl_size l - 1,
                       sl_current := (if sl_current l \<ge> int i then sl_current l - 1 else sl_current l)\<rparr>
            in if \<not> delete_all then (True, l1) else delete_loop item delete_all i True l1)
         else delete_loop item delete_all (Suc i) found_it l)
      else (found_it, l))"
  by pat_completeness auto
termination
  by (relation "measure (\<lambda>(item, da, i, f, l). sl_size l - i)") auto

declare delete_loop.simps [simp del]

definition Delete :: "'a \<Rightarrow> bool \<Rightarrow> 'a PrioritySimpleList \<Rightarrow> bool \<times> 'a PrioritySimpleList" where
  "Delete item delete_all l = delete_loop item delete_all 0 False l"

section \<open>Abstraction and invariant\<close>

definition entries :: "'a PrioritySimpleList \<Rightarrow> (int \<times> 'a) list" where
  "entries l = zip (take (sl_size l) (pl_priorities l)) (take (sl_size l) (sl_items l))"

definition array_ok :: "'a PrioritySimpleList \<Rightarrow> bool" where
  "array_ok l \<longleftrightarrow>
     0 < sl_maximum_size l \<and> sl_size l \<le> sl_maximum_size l \<and>
     length (sl_items l) = sl_maximum_size l \<and> length (pl_priorities l) = sl_maximum_size l \<and>
     -1 \<le> sl_current l \<and> sl_current l < int (sl_size l)"

definition pl_invar :: "'a PrioritySimpleList \<Rightarrow> bool" where
  "pl_invar l \<longleftrightarrow> array_ok l \<and> sorted (take (sl_size l) (pl_priorities l))"

definition insert_after :: "int \<Rightarrow> 'a \<Rightarrow> (int \<times> 'a) list \<Rightarrow> (int \<times> 'a) list" where
  "insert_after p x es = takeWhile (\<lambda>e. fst e \<le> p) es @ (p, x) # dropWhile (\<lambda>e. fst e \<le> p) es"

definition insert_before :: "int \<Rightarrow> 'a \<Rightarrow> (int \<times> 'a) list \<Rightarrow> (int \<times> 'a) list" where
  "insert_before p x es = takeWhile (\<lambda>e. fst e < p) es @ (p, x) # dropWhile (\<lambda>e. fst e < p) es"

lemma length_entries: "array_ok l \<Longrightarrow> length (entries l) = sl_size l"
  by (simp add: entries_def array_ok_def)

lemma nth_entries:
  "array_ok l \<Longrightarrow> i < sl_size l \<Longrightarrow> entries l ! i = (pl_priorities l ! i, sl_items l ! i)"
  by (simp add: entries_def array_ok_def)

lemma map_fst_entries: "array_ok l \<Longrightarrow> map fst (entries l) = take (sl_size l) (pl_priorities l)"
  by (simp add: entries_def array_ok_def)

lemma array_ok_new: "array_ok new_PrioritySimpleList"
  by (simp add: array_ok_def new_PrioritySimpleList_def)

lemma entries_new [simp]: "entries new_PrioritySimpleList = []"
  by (simp add: entries_def new_PrioritySimpleList_def)

text \<open>Growing keeps the contents and makes room.\<close>

lemma resize_grow:
  assumes "array_ok l" and "sl_size l = sl_maximum_size l"
  defines "l' \<equiv> PrioritySimpleList_resize (2 * sl_maximum_size l) l"
  shows "entries l' = entries l" "array_ok l'" "sl_size l' = sl_size l"
    "sl_size l' < sl_maximum_size l'"
  using assms(1,2) unfolding l'_def
  by (auto simp: PrioritySimpleList_resize_def SimpleList_resize_def entries_def array_ok_def Let_def)

lemma InsertAt_room:
  assumes "array_ok l" "sl_size l < sl_maximum_size l" "k \<le> sl_size l"
  shows "entries (InsertAt (int k) x p l) = take k (entries l) @ (p, x) # drop k (entries l)"
    "array_ok (InsertAt (int k) x p l)"
  using assms
  by (auto simp: InsertAt_def Let_def entries_def array_ok_def array_forms take_zip drop_zip
      zip_append1 min_def drop_take Suc_diff_le)

lemma InsertAt_entries:
  assumes ok: "array_ok l" and k: "k \<le> sl_size l"
  shows "entries (InsertAt (int k) x p l) = take k (entries l) @ (p, x) # drop k (entries l)"
    and "array_ok (InsertAt (int k) x p l)"
proof -
  let ?g = "PrioritySimpleList_resize (2 * sl_maximum_size l) l"
  have "entries (InsertAt (int k) x p l) = take k (entries l) @ (p, x) # drop k (entries l) \<and>
        array_ok (InsertAt (int k) x p l)"
  proof (cases "sl_size l < sl_maximum_size l")
    case True
    with InsertAt_room [OF ok True k] show ?thesis by simp
  next
    case False
    with ok have full: "sl_size l = sl_maximum_size l" by (simp add: array_ok_def)
    note g = resize_grow [OF ok full]
    have "InsertAt (int k) x p l = InsertAt (int k) x p ?g"
      using g(4) full by (simp add: InsertAt_def)
    with InsertAt_room [of ?g k x p] g k show ?thesis by simp
  qed
  then show "entries (InsertAt (int k) x p l) = take k (entries l) @ (p, x) # drop k (entries l)"
    and "array_ok (InsertAt (int k) x p l)" by simp_all
qed

section \<open>Where an entry goes\<close>

lemma scan_before_spec:
  "-1 \<le> index \<Longrightarrow> scan_before ps p index \<le> index \<and> -1 \<le> scan_before ps p index \<and>
   (\<forall>j. scan_before ps p index < int j \<and> int j \<le> index \<longrightarrow> p \<le> ps ! j) \<and>
   (0 \<le> scan_before ps p index \<longrightarrow> ps ! nat (scan_before ps p index) < p)"
proof (induction ps p index rule: scan_before.induct)
  case (1 ps p index)
  show ?case
  proof (cases "0 \<le> index \<and> \<not> ps ! nat index < p")
    case True
    then have eq: "scan_before ps p index = scan_before ps p (index - 1)"
      by (simp add: scan_before.simps [of ps p index])
    have "p \<le> ps ! j" if "int j = index" for j
      using that True by auto
    moreover note "1.IH"
    ultimately show ?thesis
      using True unfolding eq by (smt (verit))
  next
    case False
    then have "scan_before ps p index = index"
      by (auto simp: scan_before.simps [of ps p index])
    with False "1.prems" show ?thesis by auto
  qed
qed

lemma scan_after_spec:
  "0 \<le> index \<Longrightarrow> index \<le> int n \<Longrightarrow> index \<le> scan_after ps n p index \<and> scan_after ps n p index \<le> int n \<and>
   (\<forall>j. index \<le> int j \<and> int j < scan_after ps n p index \<longrightarrow> ps ! j \<le> p) \<and>
   (scan_after ps n p index < int n \<longrightarrow> p < ps ! nat (scan_after ps n p index))"
proof (induction ps n p index rule: scan_after.induct)
  case (1 ps n p index)
  show ?case
  proof (cases "index < int n \<and> \<not> p < ps ! nat index")
    case True
    then have eq: "scan_after ps n p index = scan_after ps n p (index + 1)"
      by (simp add: scan_after.simps [of ps n p index])
    have "ps ! j \<le> p" if "int j = index" for j
      using that True by auto
    moreover note "1.IH"
    ultimately show ?thesis
      using True "1.prems" unfolding eq by (smt (verit))
  next
    case False
    then have "scan_after ps n p index = index"
      by (auto simp: scan_after.simps [of ps n p index])
    with False "1.prems" show ?thesis by auto
  qed
qed

definition cut_at :: "int list \<Rightarrow> nat \<Rightarrow> (int \<Rightarrow> bool) \<Rightarrow> int \<Rightarrow> bool" where
  "cut_at ps n P k \<longleftrightarrow> 0 \<le> k \<and> k \<le> int n \<and> (\<forall>j. int j < k \<longrightarrow> P (ps ! j)) \<and> (k < int n \<longrightarrow> \<not> P (ps ! nat k))"

lemma FindInsertBefore_cut:
  assumes inv: "pl_invar l"
  shows "cut_at (pl_priorities l) (sl_size l) (\<lambda>q. q < p) (FindInsertBefore p l)"
proof (cases "sl_size l = 0 \<or> pl_priorities l ! 0 \<ge> p")
  case True
  then show ?thesis by (auto simp: FindInsertBefore_def cut_at_def)
next
  case False
  let ?ps = "pl_priorities l" and ?n = "sl_size l"
  obtain found i where s: "Search ?ps (int ?n) p = (found, i)" by fastforce
  have srt: "sorted (take ?n ?ps)" "?n \<le> length ?ps"
    using inv by (auto simp: pl_invar_def array_ok_def)
  have spec: "search_spec ?ps ?n p (found, i)"
    using Search_spec [OF srt, of p] s by simp
  show ?thesis
  proof (cases found)
    case True
    let ?r = "scan_before ?ps p i"
    have i: "0 \<le> i" "i < int ?n" "?ps ! nat i = p"
      using spec True by (auto simp: search_spec_def)
    have r: "?r \<le> i" "-1 \<le> ?r" "\<And>j. ?r < int j \<Longrightarrow> int j \<le> i \<Longrightarrow> p \<le> ?ps ! j"
        "0 \<le> ?r \<Longrightarrow> ?ps ! nat ?r < p"
      using scan_before_spec [of i ?ps p] i by auto
    have "?ps ! j < p" if "int j < ?r + 1" for j
    proof -
      have "?ps ! j \<le> ?ps ! nat ?r"
        using that r(1) i by (intro sorted_take_nth_mono [OF srt]) auto
      with r(4) that show ?thesis by force
    qed
    moreover have "p \<le> ?ps ! nat (?r + 1)"
    proof (cases "?r = i")
      case True
      with r(4) i show ?thesis by auto
    next
      case False
      with r(1,2) show ?thesis by (intro r(3)) auto
    qed
    ultimately show ?thesis
      using False True s r i by (auto simp: FindInsertBefore_def cut_at_def)
  next
    case nf: False
    then have i: "0 \<le> i" "i \<le> int ?n" "\<And>j. int j < i \<Longrightarrow> ?ps ! j < p"
        "i < int ?n \<Longrightarrow> p < ?ps ! nat i"
      using search_spec_missing [of ?ps ?n p i] spec by simp_all
    have "FindInsertBefore p l = i"
      using False s nf by (simp add: FindInsertBefore_def)
    with i show ?thesis by (auto simp: cut_at_def intro: less_imp_le dest: less_not_sym)
  qed
qed

lemma FindInsertAfter_cut:
  assumes inv: "pl_invar l"
  shows "cut_at (pl_priorities l) (sl_size l) (\<lambda>q. q \<le> p) (FindInsertAfter p l)"
proof -
  let ?ps = "pl_priorities l" and ?n = "sl_size l"
  have srt: "sorted (take ?n ?ps)" "?n \<le> length ?ps"
    using inv by (auto simp: pl_invar_def array_ok_def)
  show ?thesis
  proof (cases "?n = 0 \<or> ?ps ! (?n - 1) \<le> p")
    case True
    have "?ps ! j \<le> p" if "j < ?n" for j
      using that True sorted_take_nth_mono [OF srt, of j "?n - 1"] by fastforce
    with True show ?thesis by (auto simp: FindInsertAfter_def cut_at_def)
  next
    case False
    obtain found i where s: "Search ?ps (int ?n) p = (found, i)" by fastforce
    have spec: "search_spec ?ps ?n p (found, i)"
      using Search_spec [OF srt, of p] s by simp
    show ?thesis
    proof (cases found)
      case True
      let ?r = "scan_after ?ps ?n p i"
      have i: "0 \<le> i" "i < int ?n" "?ps ! nat i = p"
        using spec True by (auto simp: search_spec_def)
      have r: "i \<le> ?r" "?r \<le> int ?n" "\<And>j. i \<le> int j \<Longrightarrow> int j < ?r \<Longrightarrow> ?ps ! j \<le> p"
          "?r < int ?n \<Longrightarrow> p < ?ps ! nat ?r"
        using scan_after_spec [of i ?n ?ps p] i by auto
      have "?ps ! j \<le> p" if "int j < ?r" for j
      proof (cases "i \<le> int j")
        case True
        with r(3) that show ?thesis by simp
      next
        case False
        with i show ?thesis
          using sorted_take_nth_mono [OF srt, of j "nat i"] by auto
      qed
      then show ?thesis
        using False True s r i by (auto simp: FindInsertAfter_def cut_at_def)
    next
    case nf: False
    then have i: "0 \<le> i" "i \<le> int ?n" "\<And>j. int j < i \<Longrightarrow> ?ps ! j < p"
        "i < int ?n \<Longrightarrow> p < ?ps ! nat i"
      using search_spec_missing [of ?ps ?n p i] spec by simp_all
    have "FindInsertAfter p l = i"
      using False s nf by (simp add: FindInsertAfter_def)
    with i show ?thesis by (auto simp: cut_at_def intro: less_imp_le dest: less_not_sym)
    qed
  qed
qed

lemma cut_at_takeWhile:
  assumes ok: "array_ok l" and cut: "cut_at (pl_priorities l) (sl_size l) P k"
  shows "takeWhile (\<lambda>e. P (fst e)) (entries l) = take (nat k) (entries l)"
    and "dropWhile (\<lambda>e. P (fst e)) (entries l) = drop (nat k) (entries l)"
  using takeWhile_sorted_take [of "nat k" "entries l" "\<lambda>e. P (fst e)"] ok cut
  by (simp_all add: cut_at_def length_entries nth_entries nat_le_iff)

section \<open>The operations on entries\<close>

lemma pl_invar_iff: "pl_invar l \<longleftrightarrow> array_ok l \<and> sorted (map fst (entries l))"
  by (auto simp: pl_invar_def map_fst_entries)

lemma sorted_insert_after:
  "sorted (map fst es) \<Longrightarrow> sorted (map fst (insert_after p x es))"
  by (induction es) (auto simp: insert_after_def dest: set_takeWhileD set_dropWhileD)

lemma sorted_insert_before:
  "sorted (map fst es) \<Longrightarrow> sorted (map fst (insert_before p x es))"
  by (induction es) (auto simp: insert_before_def dest: set_takeWhileD set_dropWhileD)

lemma insert_via_cut:
  assumes "pl_invar l" and "cut_at (pl_priorities l) (sl_size l) P k"
  shows "entries (InsertAt k x p l) =
      takeWhile (\<lambda>e. P (fst e)) (entries l) @ (p, x) # dropWhile (\<lambda>e. P (fst e)) (entries l)"
    and "array_ok (InsertAt k x p l)"
proof -
  have k: "k = int (nat k)" "nat k \<le> sl_size l" and ok: "array_ok l"
    using assms by (auto simp: cut_at_def pl_invar_def)
  show "entries (InsertAt k x p l) =
      takeWhile (\<lambda>e. P (fst e)) (entries l) @ (p, x) # dropWhile (\<lambda>e. P (fst e)) (entries l)"
    using InsertAt_entries(1) [OF ok k(2)] k(1) cut_at_takeWhile [OF ok assms(2)] by simp
  show "array_ok (InsertAt k x p l)"
    using InsertAt_entries(2) [OF ok k(2)] k(1) by simp
qed

lemma entries_Append: "pl_invar l \<Longrightarrow> entries (Append x p l) = insert_after p x (entries l)"
  by (simp add: Append_def insert_after_def insert_via_cut(1) [OF _ FindInsertAfter_cut])

lemma entries_Prepend: "pl_invar l \<Longrightarrow> entries (Prepend x p l) = insert_before p x (entries l)"
  by (simp add: Prepend_def insert_before_def insert_via_cut(1) [OF _ FindInsertBefore_cut])

lemma pl_invar_Append: "pl_invar l \<Longrightarrow> pl_invar (Append x p l)"
  using insert_via_cut(2) [OF _ FindInsertAfter_cut] entries_Append sorted_insert_after
  by (metis Append_def pl_invar_iff)

lemma pl_invar_Prepend: "pl_invar l \<Longrightarrow> pl_invar (Prepend x p l)"
  using insert_via_cut(2) [OF _ FindInsertBefore_cut] entries_Prepend sorted_insert_before
  by (metis Prepend_def pl_invar_iff)

lemma pl_invar_new: "pl_invar new_PrioritySimpleList"
  by (simp add: pl_invar_iff array_ok_new)

lemma IsEmpty_entries: "pl_invar l \<Longrightarrow> IsEmpty l \<longleftrightarrow> entries l = []"
  using length_entries [of l] by (auto simp: IsEmpty_def pl_invar_def)

lemma Number_entries: "pl_invar l \<Longrightarrow> Number l = int (length (entries l))"
  using length_entries [of l] by (auto simp: Number_def pl_invar_def)

lemma is_member_loop_iff: "is_member_loop xs x i k \<longleftrightarrow> (\<exists>j<k. xs ! (i + j) = x)"
proof (induction k arbitrary: i)
  case (Suc k)
  show ?case
    by (simp add: Suc.IH) (metis Suc_less_eq add_0_right add_Suc_right add_Suc gr0_conv_Suc zero_less_Suc not0_implies_Suc)
qed simp

lemma IsMember_entries: "pl_invar l \<Longrightarrow> IsMember l x \<longleftrightarrow> x \<in> snd ` set (entries l)"
proof -
  assume "pl_invar l"
  then have "map snd (entries l) = take (sl_size l) (sl_items l)" and "sl_size l \<le> length (sl_items l)"
    by (auto simp: entries_def pl_invar_def array_ok_def)
  moreover have "snd ` set (entries l) = set (map snd (entries l))" by simp
  ultimately show ?thesis
    by (auto simp: IsMember_def is_member_loop_iff in_set_conv_nth)
qed

text \<open>Taking the first item, the way \<open>Dag::SubmitReadyJobs\<close> does it.\<close>

definition take_first :: "'a PrioritySimpleList \<Rightarrow> 'a option \<times> 'a PrioritySimpleList" where
  "take_first l = (case Next (Rewind l) of (x, l1) \<Rightarrow> (x, DeleteCurrent l1))"

lemma DeleteCurrent_entries:
  assumes "pl_invar l" and "sl_current l = int k" and "k < sl_size l"
  shows "entries (DeleteCurrent l) = take k (entries l) @ drop (Suc k) (entries l)"
    and "pl_invar (DeleteCurrent l)"
proof -
  have ok: "array_ok l" "sorted (map fst (entries l))"
    using assms(1) by (simp_all add: pl_invar_iff)
  show e: "entries (DeleteCurrent l) = take k (entries l) @ drop (Suc k) (entries l)"
    using assms ok
    by (auto simp: DeleteCurrent_def SimpleList_DeleteCurrent_def entries_def array_ok_def
        array_forms take_zip drop_zip)
  have "array_ok (DeleteCurrent l)"
    using assms ok by (auto simp: DeleteCurrent_def SimpleList_DeleteCurrent_def array_ok_def)
  moreover have "sorted (map fst (take k (entries l) @ drop (Suc k) (entries l)))"
    using sorted_without_nth [OF ok(2), of k] by (simp add: take_map drop_map)
  ultimately show "pl_invar (DeleteCurrent l)" by (simp add: pl_invar_iff e)
qed

lemma take_first_Cons:
  assumes "pl_invar l" and "entries l = (p, x) # es"
  shows "fst (take_first l) = Some x" "entries (snd (take_first l)) = es"
    "pl_invar (snd (take_first l))"
proof -
  have ok: "array_ok l" using assms(1) by (simp add: pl_invar_def)
  have n: "0 < sl_size l" using length_entries [OF ok] assms(2) by simp
  have x: "sl_items l ! 0 = x" using nth_entries [OF ok n] assms(2) by simp
  let ?l = "Rewind l\<lparr>sl_current := 0\<rparr>"
  have nx: "Next (Rewind l) = (Some x, ?l)"
    using n x by (simp add: Next_def Rewind_def)
  have same: "entries ?l = entries l" "pl_invar ?l"
    using assms(1) n by (auto simp: Rewind_def entries_def pl_invar_def array_ok_def)
  have *: "sl_current ?l = int 0" "0 < sl_size ?l" using n by (simp_all add: Rewind_def)
  show "fst (take_first l) = Some x" by (simp add: take_first_def nx)
  show "entries (snd (take_first l)) = es" "pl_invar (snd (take_first l))"
    using DeleteCurrent_entries [OF same(2) *] same assms(2) by (simp_all add: take_first_def nx)
qed

section \<open>Stable insertion\<close>

lemma filter_insert_before:
  assumes "sorted (map fst es)"
  shows "filter (\<lambda>e. fst e = p) (insert_before q x es) =
     (if q = p then [(q, x)] else []) @ filter (\<lambda>e. fst e = p) es"
proof -
  have split: "filter Q es = filter Q (takeWhile (\<lambda>e. fst e < q) es) @ filter Q (dropWhile (\<lambda>e. fst e < q) es)" for Q
    by (metis filter_append takeWhile_dropWhile_id)
  have "filter (\<lambda>e. fst e = q) (takeWhile (\<lambda>e. fst e < q) es) = []"
    by (auto simp: filter_empty_conv dest: set_takeWhileD)
  with split [of "\<lambda>e. fst e = p"] show ?thesis
    by (auto simp: insert_before_def)
qed

lemma filter_insert_after:
  assumes "sorted (map fst es)"
  shows "filter (\<lambda>e. fst e = p) (insert_after q x es) =
     filter (\<lambda>e. fst e = p) es @ (if q = p then [(q, x)] else [])"
proof -
  have split: "filter Q es = filter Q (takeWhile (\<lambda>e. fst e \<le> q) es) @ filter Q (dropWhile (\<lambda>e. fst e \<le> q) es)" for Q
    by (metis filter_append takeWhile_dropWhile_id)
  have "filter (\<lambda>e. fst e = q) (dropWhile (\<lambda>e. fst e \<le> q) es) = []"
  proof -
    have "\<forall>e \<in> set (dropWhile (\<lambda>e. fst e \<le> q) es). q < fst e"
      using assms
    proof (induction es)
      case (Cons e es)
      then show ?case by (cases "fst e \<le> q") (auto intro: less_le_trans)
    qed simp
    then show ?thesis by (auto simp: filter_empty_conv)
  qed
  with split [of "\<lambda>e. fst e = p"] show ?thesis
    by (auto simp: insert_after_def)
qed

lemma set_insert_after [simp]: "set (insert_after p x es) = insert (p, x) (set es)"
  unfolding insert_after_def set_append list.set
  by (metis Un_insert_right set_append takeWhile_dropWhile_id)

lemma set_insert_before [simp]: "set (insert_before p x es) = insert (p, x) (set es)"
  unfolding insert_before_def set_append list.set
  by (metis Un_insert_right set_append takeWhile_dropWhile_id)

section \<open>The interface of a ready queue\<close>

locale prio_queue =
  fixes new_q :: 'q
    and append_q :: "'a \<Rightarrow> int \<Rightarrow> 'q \<Rightarrow> 'q"
    and prepend_q :: "'a \<Rightarrow> int \<Rightarrow> 'q \<Rightarrow> 'q"
    and first_q :: "'q \<Rightarrow> 'a option \<times> 'q"
    and is_empty_q :: "'q \<Rightarrow> bool"
    and ents :: "'q \<Rightarrow> (int \<times> 'a) list"
    and inv_q :: "'q \<Rightarrow> bool"
  assumes new_law: "inv_q new_q" "ents new_q = []"
    and sorted_law: "inv_q q \<Longrightarrow> sorted (map fst (ents q))"
    and append_law: "inv_q q \<Longrightarrow> inv_q (append_q x p q)"
      "inv_q q \<Longrightarrow> ents (append_q x p q) = insert_after p x (ents q)"
    and prepend_law: "inv_q q \<Longrightarrow> inv_q (prepend_q x p q)"
      "inv_q q \<Longrightarrow> ents (prepend_q x p q) = insert_before p x (ents q)"
    and first_law: "inv_q q \<Longrightarrow> ents q = (p, x) # es \<Longrightarrow>
      fst (first_q q) = Some x \<and> ents (snd (first_q q)) = es \<and> inv_q (snd (first_q q))"
    and empty_law: "inv_q q \<Longrightarrow> is_empty_q q \<longleftrightarrow> ents q = []"
begin

text \<open>Nothing in the queue is better than the item taken.\<close>

lemma first_is_best:
  assumes "inv_q q" and "\<not> is_empty_q q"
  obtains p x where "fst (first_q q) = Some x" and "(p, x) \<in> set (ents q)"
    and "\<forall>e \<in> set (ents q). p \<le> fst e" and "ents q = (p, x) # ents (snd (first_q q))"
proof -
  from assms obtain p x es where e: "ents q = (p, x) # es"
    by (cases "ents q") (auto simp: empty_law)
  with sorted_law [OF assms(1)] first_law [OF assms(1) e] show ?thesis
    by (intro that [of x p]) auto
qed

text \<open>
  Setting items aside and putting them back: each item is prepended to an empty queue, then
  the items of that queue are prepended, front to back, to the queue they came from.
\<close>

definition prepend_all :: "(int \<times> 'a) list \<Rightarrow> 'q \<Rightarrow> 'q" where
  "prepend_all es q = fold (\<lambda>(p, x) q. prepend_q x p q) es q"

lemma prepend_all_ents:
  "inv_q q \<Longrightarrow> inv_q (prepend_all es q) \<and>
   filter (\<lambda>e. fst e = p) (ents (prepend_all es q)) =
     rev (filter (\<lambda>e. fst e = p) es) @ filter (\<lambda>e. fst e = p) (ents q)"
proof (induction es arbitrary: q)
  case Nil
  then show ?case by (simp add: prepend_all_def)
next
  case (Cons e es)
  obtain k x where e: "e = (k, x)" by fastforce
  let ?q = "prepend_q x k q"
  have "prepend_all (e # es) q = prepend_all es ?q" by (simp add: prepend_all_def e)
  with Cons.IH [of ?q] Cons.prems show ?case
    by (simp add: prepend_law filter_insert_before sorted_law e)
qed

lemma set_aside_and_return:
  assumes "inv_q q" and "sorted (map fst (ds @ ents q))"
  shows "ents (prepend_all (ents (prepend_all ds new_q)) q) = ds @ ents q"
proof (rule sorted_key_eqI [where f = fst])
  show "sorted (map fst (ents (prepend_all (ents (prepend_all ds new_q)) q)))"
    using sorted_law prepend_all_ents [OF assms(1)] by blast
  show "filter (\<lambda>e. fst e = k) (ents (prepend_all (ents (prepend_all ds new_q)) q)) =
      filter (\<lambda>e. fst e = k) (ds @ ents q)" for k
    using prepend_all_ents [OF assms(1)] prepend_all_ents [OF new_law(1)] new_law(2) by simp
qed (rule assms(2))

end

interpretation ready: prio_queue new_PrioritySimpleList Append Prepend take_first IsEmpty entries pl_invar
proof unfold_locales
  show "fst (take_first q) = Some x \<and> entries (snd (take_first q)) = es \<and> pl_invar (snd (take_first q))"
    if "pl_invar q" "entries q = (p, x) # es" for q :: "'a PrioritySimpleList" and p x es
    using take_first_Cons [OF that] by simp
qed (simp_all add: pl_invar_new pl_invar_Append pl_invar_Prepend entries_Append entries_Prepend
      IsEmpty_entries, simp add: pl_invar_iff)

section \<open>Properties\<close>

text \<open>
  C13: The array list with binary search implements stable insertion by priority: an appended
  item goes behind, a prepended item in front of the items of equal priority, all other items
  keep their order, and the list stays sorted.
\<close>

theorem priority_insertion_stable:
  assumes "pl_invar l"
  shows "pl_invar (Append x p l) \<and> entries (Append x p l) = insert_after p x (entries l) \<and>
    pl_invar (Prepend x p l) \<and> entries (Prepend x p l) = insert_before p x (entries l) \<and>
    sorted (map fst (entries (Append x p l))) \<and> sorted (map fst (entries (Prepend x p l)))"
  by (simp add: ready.append_law [OF assms] ready.prepend_law [OF assms] sorted_insert_after
      sorted_insert_before ready.sorted_law [OF assms])

theorem priority_insertion_stable_witness:
  "entries (Append ''c'' 0 (Prepend ''b'' 0 (Append ''a'' 0 new_PrioritySimpleList))) = [(0, ''b''), (0, ''a''), (0, ''c'')]"
proof -
  let ?a = "Append ''a'' 0 new_PrioritySimpleList"
  let ?b = "Prepend ''b'' 0 ?a"
  have a: "pl_invar ?a \<and> entries ?a = [(0, ''a'')]"
    using priority_insertion_stable [OF pl_invar_new, of "''a''" 0] by (simp add: insert_after_def)
  have b: "pl_invar ?b \<and> entries ?b = [(0, ''b''), (0, ''a'')]"
    using priority_insertion_stable [of ?a "''b''" 0] a by (simp add: insert_before_def)
  show ?thesis
    using priority_insertion_stable [of ?b "''c''" 0] b by (simp add: insert_after_def)
qed

text \<open>
  The first item of a non-empty list has the best priority number of all, and taking it
  leaves the others as they were.
\<close>

theorem take_first_best:
  assumes "pl_invar l" and "\<not> IsEmpty l"
  shows "\<exists>p x. fst (take_first l) = Some x \<and> (\<forall>e \<in> set (entries l). p \<le> fst e) \<and>
    entries l = (p, x) # entries (snd (take_first l)) \<and> pl_invar (snd (take_first l))"
proof -
  obtain p x where *: "fst (take_first l) = Some x" "\<forall>e \<in> set (entries l). p \<le> fst e"
    "entries l = (p, x) # entries (snd (take_first l))"
    by (rule ready.first_is_best [OF assms])
  with ready.first_law [OF assms(1) *(3)] show ?thesis by blast
qed

theorem take_first_best_witness:
  "pl_invar (Append ''a'' 0 new_PrioritySimpleList) \<and> \<not> IsEmpty (Append ''a'' 0 new_PrioritySimpleList) \<and>
   (\<exists>x. fst (take_first (Append ''a'' 0 new_PrioritySimpleList)) = Some x)"
proof -
  have e: "entries (Append ''a'' 0 new_PrioritySimpleList) = [(0, ''a'')]"
    by (simp add: entries_Append pl_invar_new insert_after_def)
  have i: "pl_invar (Append ''a'' 0 new_PrioritySimpleList)" by (rule pl_invar_Append [OF pl_invar_new])
  then have "\<not> IsEmpty (Append ''a'' 0 new_PrioritySimpleList)" using e by (simp add: IsEmpty_entries)
  with take_first_best [OF i this] i show ?thesis by blast
qed

end
