(* ===== verification/Ring_Queue.thy ===== *)
theory Ring_Queue
  imports Condor_Prelude
begin

text \<open>
  The template \<open>Queue\<close> of \<open>condor_utils/Queue.h\<close>: a ring buffer that doubles when it is full.
  DAGMan keeps the nodes whose submit event it has not seen yet in one of these, and each
  script queue keeps its deferred scripts in another. The fields are the source's; \<open>ht\<close> has
  \<open>tableSize\<close> slots, \<open>head\<close> is the next slot to write and \<open>tail\<close> the next one to read.

  \<open>fifo\<close> is the interface (a first-in first-out list); \<open>ringq\<close> interprets it.
\<close>

section \<open>The ring buffer\<close>

record 'a Queue =
  q_tableSize :: nat
  q_ht :: "'a list"
  q_length :: nat
  q_head :: nat
  q_tail :: nat
  q_compare :: "('a \<Rightarrow> 'a \<Rightarrow> int) option"

definition new_Queue :: "int \<Rightarrow> ('a \<Rightarrow> 'a \<Rightarrow> int) option \<Rightarrow> 'a Queue" where
  "new_Queue tableSz fn_ptr =
     (let n = (if tableSz > 0 then nat tableSz else 32)
      in \<lparr>q_tableSize = n, q_ht = replicate n undefined, q_length = 0, q_head = 0, q_tail = 0,
          q_compare = fn_ptr\<rparr>)"

definition queue_IsFull :: "'a Queue \<Rightarrow> bool" where
  "queue_IsFull q \<longleftrightarrow> q_length q = q_tableSize q"

definition queue_IsEmpty :: "'a Queue \<Rightarrow> bool" where
  "queue_IsEmpty q \<longleftrightarrow> q_length q = 0"

text \<open>
  The growing branch copies the slots from \<open>head\<close> on and then those before \<open>head\<close>.
\<close>

definition queue_grow :: "'a Queue \<Rightarrow> 'a Queue" where
  "queue_grow q =
     (let new_tableSize = q_tableSize q * 2
      in q\<lparr>q_ht := drop (q_head q) (take (q_tableSize q) (q_ht q)) @ take (q_head q) (q_ht q) @
                    replicate (new_tableSize - q_tableSize q) undefined,
           q_tail := 0, q_head := q_length q, q_tableSize := new_tableSize\<rparr>)"

definition enqueue :: "'a \<Rightarrow> 'a Queue \<Rightarrow> 'a Queue res" where
  "enqueue value q =
     bindR (if queue_IsFull q
            then (if q_head q = q_tail q then Inr (queue_grow q) else Inl (ASSERT ''head==tail''))
            else Inr q)
       (\<lambda>q. Inr (q\<lparr>q_ht := (q_ht q)[q_head q := value],
                   q_head := (q_head q + 1) mod q_tableSize q, q_length := q_length q + 1\<rparr>))"

text \<open>\<open>dequeue\<close> returns -1 (here \<open>None\<close>) on an empty queue.\<close>

definition dequeue :: "'a Queue \<Rightarrow> ('a \<times> 'a Queue) option" where
  "dequeue q =
     (if queue_IsEmpty q then None
      else Some (q_ht q ! q_tail q,
                 q\<lparr>q_tail := (q_tail q + 1) mod q_tableSize q, q_length := q_length q - 1\<rparr>))"

definition queue_clear :: "'a Queue \<Rightarrow> 'a Queue" where
  "queue_clear q = q\<lparr>q_length := 0, q_head := 0, q_tail := 0\<rparr>"

fun queue_member_loop :: "'a Queue \<Rightarrow> 'a \<Rightarrow> nat \<Rightarrow> nat \<Rightarrow> bool" where
  "queue_member_loop q v j 0 = False"
| "queue_member_loop q v j (Suc k) =
     (if (case q_compare q of Some f \<Rightarrow> f (q_ht q ! j) v = 0 | None \<Rightarrow> q_ht q ! j = v) then True
      else queue_member_loop q v ((j + 1) mod q_tableSize q) k)"

definition queue_IsMember :: "'a Queue \<Rightarrow> 'a \<Rightarrow> bool" where
  "queue_IsMember q v = queue_member_loop q v (q_tail q) (q_length q)"

section \<open>Abstraction to a list\<close>

definition queue_list :: "'a Queue \<Rightarrow> 'a list" where
  "queue_list q = map (\<lambda>i. q_ht q ! ((q_tail q + i) mod q_tableSize q)) [0..<q_length q]"

definition queue_invar :: "'a Queue \<Rightarrow> bool" where
  "queue_invar q \<longleftrightarrow>
     0 < q_tableSize q \<and> length (q_ht q) = q_tableSize q \<and> q_length q \<le> q_tableSize q \<and>
     q_tail q < q_tableSize q \<and> q_head q = (q_tail q + q_length q) mod q_tableSize q"

lemma queue_list_full:
  assumes "queue_invar q" and "q_length q = q_tableSize q"
  shows "queue_list q = drop (q_tail q) (q_ht q) @ take (q_tail q) (q_ht q)"
proof (rule nth_equalityI)
  show "length (queue_list q) = length (drop (q_tail q) (q_ht q) @ take (q_tail q) (q_ht q))"
    using assms by (auto simp: queue_list_def queue_invar_def)
  fix i assume "i < length (queue_list q)"
  then have i: "i < q_tableSize q" using assms by (simp add: queue_list_def)
  show "queue_list q ! i = (drop (q_tail q) (q_ht q) @ take (q_tail q) (q_ht q)) ! i"
    using assms i
    by (cases "q_tail q + i < q_tableSize q")
       (auto simp: queue_list_def queue_invar_def nth_append mod_if add.commute)
qed

lemma queue_grow_props:
  assumes inv: "queue_invar q" and full: "q_length q = q_tableSize q"
  shows "queue_invar (queue_grow q)" "queue_list (queue_grow q) = queue_list q"
    "\<not> queue_IsFull (queue_grow q)" "q_compare (queue_grow q) = q_compare q"
proof -
  have ht: "q_head q = q_tail q" "length (q_ht q) = q_tableSize q" "0 < q_tableSize q"
    "q_tail q < q_tableSize q"
    using inv full by (auto simp: queue_invar_def)
  then show "queue_invar (queue_grow q)" and "\<not> queue_IsFull (queue_grow q)"
    using full by (auto simp: queue_invar_def queue_grow_def queue_IsFull_def Let_def)
  have "queue_list (queue_grow q) = take (q_tableSize q) (q_ht (queue_grow q))"
  proof (rule nth_equalityI)
    show "length (queue_list (queue_grow q)) = length (take (q_tableSize q) (q_ht (queue_grow q)))"
      using ht full by (simp add: queue_list_def queue_grow_def Let_def)
  qed (use ht full in \<open>auto simp: queue_list_def queue_grow_def Let_def nth_append\<close>)
  also have "\<dots> = drop (q_tail q) (q_ht q) @ take (q_tail q) (q_ht q)"
    using ht by (simp add: queue_grow_def Let_def)
  finally show "queue_list (queue_grow q) = queue_list q"
    using queue_list_full [OF inv full] by simp
qed (simp add: queue_grow_def Let_def)

lemma enqueue_room:
  assumes "queue_invar q" and "\<not> queue_IsFull q"
  shows "\<exists>q'. enqueue x q = Inr q' \<and> queue_invar q' \<and> queue_list q' = queue_list q @ [x]"
proof -
  have b: "q_length q < q_tableSize q" "length (q_ht q) = q_tableSize q" "q_tail q < q_tableSize q"
    "q_head q = (q_tail q + q_length q) mod q_tableSize q"
    using assms by (auto simp: queue_invar_def queue_IsFull_def)
  let ?q = "q\<lparr>q_ht := (q_ht q)[q_head q := x],
              q_head := (q_head q + 1) mod q_tableSize q, q_length := q_length q + 1\<rparr>"
  have ne: "(q_tail q + i) mod q_tableSize q \<noteq> q_head q" if "i < q_length q" for i
  proof
    assume "(q_tail q + i) mod q_tableSize q = q_head q"
    then have "(q_tail q + q_length q) mod q_tableSize q = (q_tail q + i) mod q_tableSize q"
      using b by simp
    then have "q_tableSize q dvd q_length q - i"
      using that mod_eq_dvd_iff_nat [of "q_tail q + i" "q_tail q + q_length q" "q_tableSize q"] by simp
    with that b show False by (auto dest: dvd_imp_le)
  qed
  have "queue_list ?q = queue_list q @ [x]"
  proof -
    have "q_head q < length (q_ht q)" using b by simp
    then show ?thesis
      using b(4) [symmetric] not_sym [OF ne] by (simp add: queue_list_def)
  qed
  moreover have "queue_invar ?q"
    using b assms(1) by (auto simp: queue_invar_def mod_simps)
  ultimately show ?thesis
    using assms(2) by (simp add: enqueue_def)
qed

lemma enqueue_list:
  assumes "queue_invar q"
  shows "\<exists>q'. enqueue x q = Inr q' \<and> queue_invar q' \<and> queue_list q' = queue_list q @ [x]"
proof (cases "queue_IsFull q")
  case True
  then have full: "q_length q = q_tableSize q" by (simp add: queue_IsFull_def)
  note g = queue_grow_props [OF assms full]
  have "q_head q = q_tail q" using assms full by (auto simp: queue_invar_def)
  then have "enqueue x q = enqueue x (queue_grow q)"
    using True g(3) by (simp add: enqueue_def)
  with enqueue_room [OF g(1,3), of x] g(2) show ?thesis by simp
next
  case False
  with enqueue_room [OF assms] show ?thesis by simp
qed

lemma dequeue_list:
  assumes "queue_invar q"
  shows "queue_list q = [] \<Longrightarrow> dequeue q = None"
    "queue_list q = x # xs \<Longrightarrow> \<exists>q'. dequeue q = Some (x, q') \<and> queue_invar q' \<and> queue_list q' = xs"
proof -
  show "queue_list q = [] \<Longrightarrow> dequeue q = None"
    by (simp add: queue_list_def dequeue_def queue_IsEmpty_def)
  assume l: "queue_list q = x # xs"
  then have len: "q_length q = Suc (length xs)"
    by (metis length_Cons length_map length_upt minus_nat.diff_0 queue_list_def)
  let ?q = "q\<lparr>q_tail := (q_tail q + 1) mod q_tableSize q, q_length := q_length q - 1\<rparr>"
  have "queue_list q = q_ht q ! (q_tail q mod q_tableSize q) # queue_list ?q"
    unfolding queue_list_def len
    by (simp add: upt_rec [of 0] map_Suc_upt [symmetric] mod_simps add.assoc del: upt_Suc)
  moreover have "queue_invar ?q"
    using assms len by (auto simp: queue_invar_def mod_simps)
  ultimately show "\<exists>q'. dequeue q = Some (x, q') \<and> queue_invar q' \<and> queue_list q' = xs"
    using l len assms by (auto simp: dequeue_def queue_IsEmpty_def queue_invar_def)
qed

lemma queue_invar_new: "queue_invar (new_Queue n f)"
  by (auto simp: queue_invar_def new_Queue_def Let_def)

lemma queue_list_new [simp]: "queue_list (new_Queue n f) = []"
  by (simp add: queue_list_def new_Queue_def Let_def)

section \<open>The interface\<close>

locale fifo =
  fixes new_f :: 'q
    and enq :: "'a \<Rightarrow> 'q \<Rightarrow> 'q res"
    and deq :: "'q \<Rightarrow> ('a \<times> 'q) option"
    and contents :: "'q \<Rightarrow> 'a list"
    and inv_f :: "'q \<Rightarrow> bool"
  assumes new_law: "inv_f new_f" "contents new_f = []"
    and enq_law: "inv_f q \<Longrightarrow> \<exists>q'. enq x q = Inr q' \<and> inv_f q' \<and> contents q' = contents q @ [x]"
    and deq_nil_law: "inv_f q \<Longrightarrow> contents q = [] \<Longrightarrow> deq q = None"
    and deq_cons_law: "inv_f q \<Longrightarrow> contents q = x # xs \<Longrightarrow>
      \<exists>q'. deq q = Some (x, q') \<and> inv_f q' \<and> contents q' = xs"
begin

lemma enq_Inr: "inv_f q \<Longrightarrow> enq x q = Inr q' \<Longrightarrow> inv_f q' \<and> contents q' = contents q @ [x]"
  using enq_law [of q x] by auto

lemma enq_not_Inl: "inv_f q \<Longrightarrow> enq x q \<noteq> Inl e"
  using enq_law [of q x] by auto

lemma deq_Some:
  assumes "inv_f q" and "deq q = Some (x, q')"
  shows "inv_f q' \<and> contents q = x # contents q'"
  using assms deq_nil_law [of q] deq_cons_law [of q] by (cases "contents q") force+

lemma deq_None: "inv_f q \<Longrightarrow> deq q = None \<longleftrightarrow> contents q = []"
  using deq_nil_law [of q] deq_cons_law [of q] by (cases "contents q") force+

text \<open>Any number of items comes out in the order it went in.\<close>

lemma foldR_enq:
  "inv_f q \<Longrightarrow> \<exists>q'. foldR enq xs q = Inr q' \<and> inv_f q' \<and> contents q' = contents q @ xs"
proof (induction xs arbitrary: q)
  case (Cons x xs)
  then obtain q1 where q1: "enq x q = Inr q1" "inv_f q1" "contents q1 = contents q @ [x]"
    using enq_law by blast
  with Cons.IH [of q1] show ?case by auto
qed simp

end

interpretation ringq: fifo "new_Queue n f" enqueue dequeue queue_list queue_invar for n f
  by unfold_locales (simp_all add: queue_invar_new enqueue_list dequeue_list)

section \<open>Properties\<close>

text \<open>
  C16: The ring buffer is a first-in first-out queue across growth and wrap-around: any number
  of values can be added, they are kept in order behind those already there, and the value
  removed is the oldest.
\<close>

theorem queue_is_fifo:
  assumes "queue_invar q"
  shows "\<exists>q'. foldR enqueue xs q = Inr q' \<and> queue_invar q' \<and> queue_list q' = queue_list q @ xs \<and>
    (case queue_list q @ xs of
       [] \<Rightarrow> dequeue q' = None
     | y # ys \<Rightarrow> \<exists>q''. dequeue q' = Some (y, q'') \<and> queue_invar q'' \<and> queue_list q'' = ys)"
proof -
  obtain q' where q': "foldR enqueue xs q = Inr q'" "queue_invar q'" "queue_list q' = queue_list q @ xs"
    using ringq.foldR_enq [OF assms] by blast
  have "case queue_list q @ xs of
       [] \<Rightarrow> dequeue q' = None
     | y # ys \<Rightarrow> \<exists>q''. dequeue q' = Some (y, q'') \<and> queue_invar q'' \<and> queue_list q'' = ys"
    using ringq.deq_nil_law [OF q'(2)] ringq.deq_cons_law [OF q'(2)] q'(3) by (auto split: list.splits)
  with q' show ?thesis by blast
qed

theorem queue_is_fifo_witness:
  "\<exists>q'. foldR enqueue [1, 2, 3 :: nat] (new_Queue 2 None) = Inr q' \<and> queue_list q' = [1, 2, 3]"
proof -
  have "queue_invar (new_Queue 2 None :: nat Queue)" "queue_list (new_Queue 2 None :: nat Queue) = []"
    by (rule ringq.new_law)+
  then show ?thesis using queue_is_fifo [of "new_Queue 2 None" "[1, 2, 3 :: nat]"] by (simp del: foldR.simps) blast
qed

end
