(* ===== verification/Dag_State.thy ===== *)
theory Dag_State
  imports Dag_Job Check_Events Priority_List Ring_Queue
begin

text \<open>
  The class \<open>Dag\<close> of \<open>condor_dagman/dag.{h,cpp}\<close>: its state, and the operations that build and
  change the graph (\<open>Add\<close>, \<open>AddDependency\<close>, \<open>RemoveDependency\<close>, \<open>RemoveNode\<close>, the lookups, the
  splice operations). The running of the graph is in the theories that import this one.

  Job objects live in a memory \<open>d_nodes\<close>; the address of a job is its \<open>JobID_t\<close>, which is
  unique in the program, and a \<open>Job*\<close> is such an address. \<open>List<Job> _jobs\<close> is the list of
  addresses in order. The hash tables of nodes are partial functions; \<open>Hash_Table\<close> shows
  that the table class implements one. \<open>_readyQ\<close> and \<open>_submitQ\<close> are the array structures of
  \<open>Priority_List\<close> and \<open>Ring_Queue\<close>.

  What the code asks of the outside world (log files, processes, the submit command, the
  clock) is answered by the record \<open>env\<close>, whose fields are functions of \<open>d_tick\<close>, the number of
  questions asked so far: an arbitrary \<open>env\<close> is an arbitrary behaviour of the world. What the
  code does to the outside world is appended to \<open>d_trace\<close>.
\<close>

section \<open>The outside world\<close>

datatype action =
    A_submit JobID_t
  | A_spawn JobID_t bool string "string list"
  | A_condor_rm int
  | A_condor_rm_all int
  | A_write_rescue string string
  | A_rename string string
  | A_unlink_lock
  | A_create_lock
  | A_stork_rm int
  | A_write_event ULogEvent
  | A_kill int
  | A_sleep int

record spawn_answers =
  sa_cd_ok :: bool
  sa_pid :: int
  sa_back_ok :: bool

text \<open>The fields of \<^verbatim>\<open>struct tm\<close> that are printed.\<close>

record tm =
  tm_sec :: int
  tm_min :: int
  tm_hour :: int
  tm_mday :: int
  tm_mon :: int
  tm_year :: int

record env =
  e_time :: "nat \<Rightarrow> int"
  e_log :: "nat \<Rightarrow> log_answers"
  e_spawn :: "nat \<Rightarrow> spawn_answers"
  e_submit :: "nat \<Rightarrow> bool \<times> CondorID"
  e_cd_ok :: "nat \<Rightarrow> bool"
  e_write_ok :: "nat \<Rightarrow> bool"
  e_runSubmitDag :: "nat \<Rightarrow> int"
  e_has_log_file :: "nat \<Rightarrow> bool"
  e_logFileCount :: "nat \<Rightarrow> int"
  e_readEvent :: "nat \<Rightarrow> ULogEventOutcome \<times> ULogEvent option"
  e_exception_string :: "int \<Rightarrow> string"
  e_log_grown :: "nat \<Rightarrow> bool"
  e_access :: "nat \<Rightarrow> string \<Rightarrow> bool"
  e_fopen_ok :: "nat \<Rightarrow> bool"
  e_rename_ok :: "nat \<Rightarrow> string \<Rightarrow> bool"
  e_reset_retries :: "nat \<Rightarrow> bool"
  e_gmtime :: "nat \<Rightarrow> tm"
  e_lock_in_use :: "nat \<Rightarrow> bool"

section \<open>State\<close>

text \<open>A queued script is named by its job and whether it is the POST script.\<close>

type_synonym script_ref = "JobID_t \<times> bool"

record ScriptQ =
  sq_numScriptsRunning :: int
  sq_scriptPidTable :: "(int \<times> script_ref) list"
  sq_waitingQueue :: "script_ref Queue"
  sq_scriptDeferredCount :: int

definition new_ScriptQ :: ScriptQ where
  "new_ScriptQ = \<lparr>sq_numScriptsRunning = 0, sq_scriptPidTable = [], sq_waitingQueue = new_Queue 0 None,
     sq_scriptDeferredCount = 0\<rparr>"

record Dag =
  d_jobs :: "JobID_t list"
  d_nodes :: "JobID_t \<rightharpoonup> job"
  d_nodeNameHash :: "string \<rightharpoonup> JobID_t"
  d_nodeIDHash :: "JobID_t \<rightharpoonup> JobID_t"
  d_condorIDHash :: "int \<rightharpoonup> JobID_t"
  d_storkIDHash :: "int \<rightharpoonup> JobID_t"
  d_noopIDHash :: "int \<rightharpoonup> JobID_t"
  d_numNodesDone :: int
  d_numNodesFailed :: int
  d_numJobsSubmitted :: int
  d_maxJobsSubmitted :: int
  d_numIdleJobProcs :: int
  d_maxIdleJobProcs :: int
  d_numHeldJobProcs :: int
  d_allowLogError :: bool
  d_retrySubmitFirst :: bool
  d_retryNodeFirst :: bool
  d_preRunNodeCount :: int
  d_postRunNodeCount :: int
  d_checkCondorEvents :: CheckEvents
  d_checkStorkEvents :: CheckEvents
  d_maxJobsDeferredCount :: int
  d_maxIdleDeferredCount :: int
  d_catThrottleDeferredCount :: int
  d_submitDepthFirst :: bool
  d_defaultNodeLog :: string
  d_generateSubdagSubmits :: bool
  d_isSplice :: bool
  d_recoveryMaxfakeID :: int
  d_maxJobHolds :: int
  d_reject :: bool
  d_firstRejectLoc :: string
  d_directory :: string
  d_readyQ :: "JobID_t PrioritySimpleList"
  d_submitQ :: "JobID_t Queue"
  d_preScriptQ :: ScriptQ
  d_postScriptQ :: ScriptQ
  d_maxPreScripts :: int
  d_maxPostScripts :: int
  d_DFS_ORDER :: int
  d_nextSubmitTime :: int
  d_nextSubmitDelay :: int
  d_recovery :: bool
  d_abortOnScarySubmit :: bool
  d_catThrottles :: throttles
  d_heap :: throttle_heap
  d_splice_initial_nodes :: "JobID_t list"
  d_splice_final_nodes :: "JobID_t list"
  d_statusFileOutdated :: bool
  d_configFile :: "string option"
  d_statusFileName :: "string option"
  d_minStatusUpdateTime :: int
  d_jobstateLogFile :: "string option"
  d_subprocID :: int
  d_log_unk_count :: int
  d_ulog_rd_error_count :: int
  d_tick :: nat
  d_trace :: "action list"

text \<open>The command line settings the constructor receives.\<close>

record dag_config =
  c_maxJobsSubmitted :: int
  c_maxPreScripts :: int
  c_maxPostScripts :: int
  c_allowLogError :: bool
  c_maxIdleJobProcs :: int
  c_retrySubmitFirst :: bool
  c_retryNodeFirst :: bool
  c_submitDepthFirst :: bool
  c_defaultNodeLog :: string
  c_generateSubdagSubmits :: bool
  c_isSplice :: bool

definition new_Dag :: "dag_config \<Rightarrow> Dag" where
  "new_Dag c =
     \<lparr>d_jobs = [], d_nodes = Map.empty, d_nodeNameHash = Map.empty, d_nodeIDHash = Map.empty,
      d_condorIDHash = Map.empty, d_storkIDHash = Map.empty, d_noopIDHash = Map.empty,
      d_numNodesDone = 0, d_numNodesFailed = 0, d_numJobsSubmitted = 0,
      d_maxJobsSubmitted = c_maxJobsSubmitted c, d_numIdleJobProcs = 0,
      d_maxIdleJobProcs = c_maxIdleJobProcs c, d_numHeldJobProcs = 0,
      d_allowLogError = c_allowLogError c, d_retrySubmitFirst = c_retrySubmitFirst c,
      d_retryNodeFirst = c_retryNodeFirst c, d_preRunNodeCount = 0, d_postRunNodeCount = 0,
      d_checkCondorEvents = new_CheckEvents ALLOW_NONE, d_checkStorkEvents = new_CheckEvents ALLOW_NONE,
      d_maxJobsDeferredCount = 0, d_maxIdleDeferredCount = 0, d_catThrottleDeferredCount = 0,
      d_submitDepthFirst = c_submitDepthFirst c, d_defaultNodeLog = c_defaultNodeLog c,
      d_generateSubdagSubmits = c_generateSubdagSubmits c, d_isSplice = c_isSplice c,
      d_recoveryMaxfakeID = 0, d_maxJobHolds = 0, d_reject = False, d_firstRejectLoc = '''',
      d_directory = ''.'', d_readyQ = new_PrioritySimpleList, d_submitQ = new_Queue 0 None,
      d_preScriptQ = new_ScriptQ, d_postScriptQ = new_ScriptQ,
      d_maxPreScripts = c_maxPreScripts c, d_maxPostScripts = c_maxPostScripts c,
      d_DFS_ORDER = 0, d_nextSubmitTime = 0, d_nextSubmitDelay = 1, d_recovery = False,
      d_abortOnScarySubmit = True, d_catThrottles = new_throttles, d_heap = [],
      d_splice_initial_nodes = [], d_splice_final_nodes = [], d_statusFileOutdated = True,
      d_configFile = None, d_statusFileName = None, d_minStatusUpdateTime = 0, d_jobstateLogFile = None,
      d_subprocID = 0, d_log_unk_count = 0, d_ulog_rd_error_count = 0, d_tick = 0, d_trace = []\<rparr>"

section \<open>Memory\<close>

definition node_at :: "Dag \<Rightarrow> JobID_t \<Rightarrow> job" where
  "node_at d i = the (d_nodes d i)"

definition set_node :: "JobID_t \<Rightarrow> job \<Rightarrow> Dag \<Rightarrow> Dag" where
  "set_node i j d = d\<lparr>d_nodes := (d_nodes d)(i \<mapsto> j)\<rparr>"

definition upd_node :: "JobID_t \<Rightarrow> (job \<Rightarrow> job) \<Rightarrow> Dag \<Rightarrow> Dag" where
  "upd_node i f d = set_node i (f (node_at d i)) d"

definition act :: "action \<Rightarrow> Dag \<Rightarrow> Dag" where
  "act a d = d\<lparr>d_trace := d_trace d @ [a]\<rparr>"

definition ask :: "(nat \<Rightarrow> 'a) \<Rightarrow> Dag \<Rightarrow> 'a \<times> Dag" where
  "ask q d = (q (d_tick d), d\<lparr>d_tick := Suc (d_tick d)\<rparr>)"

section \<open>Counts\<close>

definition NumNodes :: "Dag \<Rightarrow> int" where
  "NumNodes d = int (length (d_jobs d))"

definition NumNodesReady :: "Dag \<Rightarrow> int" where
  "NumNodesReady d = Number (d_readyQ d)"

definition ScriptRunNodeCount :: "Dag \<Rightarrow> int" where
  "ScriptRunNodeCount d = d_preRunNodeCount d + d_postRunNodeCount d"

definition FinishedRunning :: "Dag \<Rightarrow> bool" where
  "FinishedRunning d \<longleftrightarrow> d_numJobsSubmitted d = 0 \<and> NumNodesReady d = 0 \<and> ScriptRunNodeCount d = 0"

definition DoneSuccess :: "Dag \<Rightarrow> bool" where
  "DoneSuccess d \<longleftrightarrow> d_numNodesDone d = NumNodes d"

definition DoneFailed :: "Dag \<Rightarrow> bool" where
  "DoneFailed d \<longleftrightarrow> FinishedRunning d \<and> d_numNodesFailed d > 0"

definition DoneCycle :: "Dag \<Rightarrow> bool" where
  "DoneCycle d \<longleftrightarrow> FinishedRunning d \<and> d_numNodesFailed d = 0"

section \<open>Identifiers\<close>

definition JobIsNoop :: "CondorID \<Rightarrow> bool" where
  "JobIsNoop i \<longleftrightarrow> id_cluster i = 0 \<and> id_proc i = NOOP_NODE_PROCID"

definition GetIndexID :: "CondorID \<Rightarrow> int" where
  "GetIndexID i = (if JobIsNoop i then id_subproc i else id_cluster i)"

text \<open>
  \<open>GetEventIDHash\<close> returns a pointer to one of three tables, selected by the job type or the
  log source (\<open>CONDORLOG\<close> and \<open>DAPLOG\<close> are the same numbers as the two types).
\<close>

definition GetEventIDHash :: "bool \<Rightarrow> job_type_t \<Rightarrow> Dag \<Rightarrow> (int \<rightharpoonup> JobID_t)" where
  "GetEventIDHash isNoop ty d =
     (if isNoop then d_noopIDHash d
      else case ty of TYPE_CONDOR \<Rightarrow> d_condorIDHash d | TYPE_STORK \<Rightarrow> d_storkIDHash d)"

definition set_EventIDHash :: "bool \<Rightarrow> job_type_t \<Rightarrow> (int \<rightharpoonup> JobID_t) \<Rightarrow> Dag \<Rightarrow> Dag" where
  "set_EventIDHash isNoop ty m d =
     (if isNoop then d\<lparr>d_noopIDHash := m\<rparr>
      else case ty of TYPE_CONDOR \<Rightarrow> d\<lparr>d_condorIDHash := m\<rparr> | TYPE_STORK \<Rightarrow> d\<lparr>d_storkIDHash := m\<rparr>)"

section \<open>Lookups\<close>

definition FindNodeByNodeID :: "JobID_t \<Rightarrow> Dag \<Rightarrow> JobID_t option res" where
  "FindNodeByNodeID i d =
     (case d_nodeIDHash d i of
        None \<Rightarrow> Inr None
      | Some p \<Rightarrow> if i \<noteq> jobID (node_at d p) then Inl (EXCEPT ''Searched for node ID'') else Inr (Some p))"

definition FindNodeByName :: "string option \<Rightarrow> Dag \<Rightarrow> JobID_t option res" where
  "FindNodeByName name d =
     (case name of
        None \<Rightarrow> Inr None
      | Some n \<Rightarrow>
          (case d_nodeNameHash d n of
             None \<Rightarrow> Inr None
           | Some p \<Rightarrow> if n \<noteq> jobName (node_at d p) then Inl (EXCEPT ''Searched for node'') else Inr (Some p)))"

definition NodeExists :: "string option \<Rightarrow> Dag \<Rightarrow> bool res" where
  "NodeExists name d = bindR (FindNodeByName name d) (\<lambda>p. Inr (p \<noteq> None))"

definition FindNodeByEventID :: "job_type_t \<Rightarrow> CondorID \<Rightarrow> Dag \<Rightarrow> JobID_t option res" where
  "FindNodeByEventID logsource condorID d =
     (if id_cluster condorID = -1 then Inr None
      else
        (let isNoop = JobIsNoop condorID in
         case GetEventIDHash isNoop logsource d (GetIndexID condorID) of
           None \<Rightarrow> Inr None
         | Some p \<Rightarrow>
             if id_cluster condorID \<noteq> id_cluster (j_CondorID (node_at d p)) \<and>
                id_cluster (j_CondorID (node_at d p)) \<noteq> id_cluster default_CondorID
             then Inl (EXCEPT ''Searched for node for cluster'')
             else if isNoop \<noteq> noop (node_at d p) then Inl (ASSERT ''isNoop == node->GetNoop()'')
             else Inr (Some p)))"

section \<open>Building the graph\<close>

text \<open>\<open>Add\<close> is given a freshly constructed job, which it stores at its address.\<close>

definition Dag_Add :: "job \<Rightarrow> Dag \<Rightarrow> Dag res" where
  "Dag_Add j d =
     (if d_nodeNameHash d (jobName j) \<noteq> None then Inl (ASSERT ''insertResult == 0'')
      else if d_nodeIDHash d (jobID j) \<noteq> None then Inl (ASSERT ''insertResult == 0'')
      else Inr (set_node (jobID j) j
             (d\<lparr>d_nodeNameHash := (d_nodeNameHash d)(jobName j \<mapsto> jobID j),
                d_nodeIDHash := (d_nodeIDHash d)(jobID j \<mapsto> jobID j),
                d_jobs := d_jobs d @ [jobID j]\<rparr>)))"

definition AddDependency :: "JobID_t option \<Rightarrow> JobID_t option \<Rightarrow> Dag \<Rightarrow> (bool \<times> Dag) res" where
  "AddDependency parent child d =
     (case (parent, child) of
        (Some p, Some c) \<Rightarrow>
          (case AddChild (Some (node_at d c)) (node_at d p) of (ok, whynot, pj) \<Rightarrow>
             if \<not> ok then Inr (False, d)
             else
               (let d = set_node p pj d in
                bindR (AddParent (Some (node_at d p)) (node_at d c)) (\<lambda>(ok, whynot, cj).
                  let d = set_node c cj d in
                  if \<not> ok then
                    (case RemoveChild (Some (node_at d c)) (node_at d p) of ((removed, whynot), pj) \<Rightarrow>
                       if \<not> removed then Inl (EXCEPT ''Fatal error attempting to add dependency'')
                       else Inr (False, set_node p pj d))
                  else Inr (True, d))))
      | _ \<Rightarrow> Inr (False, d))"

definition RemoveDependency :: "JobID_t option \<Rightarrow> JobID_t option \<Rightarrow> Dag \<Rightarrow> (bool \<times> string \<times> Dag) res" where
  "RemoveDependency parent child d =
     (case parent of None \<Rightarrow> Inr (False, ''parent == NULL'', d)
      | Some p \<Rightarrow>
        (case child of None \<Rightarrow> Inr (False, ''child == NULL'', d)
         | Some c \<Rightarrow>
             if \<not> HasChild (Some (node_at d c)) (node_at d p) then Inr (False, ''no such dependency'', d)
             else if \<not> HasParent (Some (node_at d p)) (node_at d c) then Inl (ASSERT ''child->HasParent( parent )'')
             else
               (case RemoveChild (Some (node_at d c)) (node_at d p) of ((ok, whynot), pj) \<Rightarrow>
                  if \<not> ok then Inr (False, whynot, d)
                  else
                    (let d = set_node p pj d in
                     if HasChild (Some (node_at d c)) (node_at d p) then Inl (ASSERT ''parent->HasChild( child ) == false'')
                     else
                       (case RemoveParent (Some (node_at d p)) (node_at d c) of ((ok, whynot), cj) \<Rightarrow>
                          if \<not> ok then Inl (ASSERT ''false'')
                          else
                            (let d = set_node c cj d in
                             if HasParent (Some (node_at d p)) (node_at d c)
                             then Inl (ASSERT ''child->HasParent( parent ) == false'')
                             else Inr (True, ''n/a'', d)))))))"

text \<open>
  The removal loop of \<open>RemoveNode\<close> over the ready queue deletes every occurrence of the node
  and goes on with the next item.
\<close>

function remove_ready_loop :: "JobID_t \<Rightarrow> bool \<Rightarrow> JobID_t PrioritySimpleList \<Rightarrow> bool \<times> JobID_t PrioritySimpleList" where
  "remove_ready_loop node removed q =
     (case Next q of
        (None, q1) \<Rightarrow> (removed, q1)
      | (Some candidate, q1) \<Rightarrow>
          if candidate = node then remove_ready_loop node True (DeleteCurrent q1)
          else remove_ready_loop node removed q1)"
  by pat_completeness auto
termination
  by (relation "measure (\<lambda>(node, removed, q). nat (int (sl_size q) - sl_current q))")
    (auto simp: Next_def DeleteCurrent_def SimpleList_DeleteCurrent_def split: if_splits)

declare remove_ready_loop.simps [simp del]

definition RemoveNode :: "string option \<Rightarrow> Dag \<Rightarrow> (bool \<times> string \<times> Dag) res" where
  "RemoveNode name d =
     (case name of
        None \<Rightarrow> Inr (False, ''name == NULL'', d)
      | Some _ \<Rightarrow>
        bindR (FindNodeByName name d) (\<lambda>found.
          case found of
            None \<Rightarrow> Inr (False, ''does not exist in DAG'', d)
          | Some node \<Rightarrow>
              (let j = node_at d node in
               if IsActive j then Inr (False, ''is active ('' @ GetStatusName j @ '')'', d)
               else if \<not> IsEmpty_queue Q_CHILDREN j \<or> \<not> IsEmpty_queue Q_PARENTS j
               then Inr (False, ''dependencies exist'', d)
               else
                 bindR
                   (if Status j = STATUS_DONE then
                      (if d_numNodesDone d - 1 \<ge> 0 then Inr (d\<lparr>d_numNodesDone := d_numNodesDone d - 1\<rparr>)
                       else Inl (ASSERT ''_numNodesDone >= 0''))
                    else if Status j = STATUS_ERROR then
                      (if d_numNodesFailed d - 1 \<ge> 0 then Inr (d\<lparr>d_numNodesFailed := d_numNodesFailed d - 1\<rparr>)
                       else Inl (ASSERT ''_numNodesFailed >= 0''))
                    else if IsMember (d_readyQ d) node then
                      (case remove_ready_loop node False (Rewind (d_readyQ d)) of (removed, q) \<Rightarrow>
                         if \<not> removed then Inl (ASSERT ''removed'')
                         else if IsMember q node then Inl (ASSERT ''!_readyQ->IsMember( node )'')
                         else Inr (d\<lparr>d_readyQ := q\<rparr>))
                    else Inr d)
                   (\<lambda>d. if node \<notin> set (d_jobs d) then Inl (ASSERT ''removed == true'')
                        else Inr (True, ''n/a'', d\<lparr>d_jobs := filter (\<lambda>x. x \<noteq> node) (d_jobs d)\<rparr>)))))"

definition SetReject :: "string \<Rightarrow> Dag \<Rightarrow> Dag" where
  "SetReject location d =
     (let d = (if d_firstRejectLoc d = '''' then d\<lparr>d_firstRejectLoc := location\<rparr> else d)
      in d\<lparr>d_reject := True\<rparr>)"

definition GetReject :: "Dag \<Rightarrow> string \<times> bool" where
  "GetReject d = (d_firstRejectLoc d, d_reject d)"

definition ParentListString :: "JobID_t \<Rightarrow> char \<Rightarrow> Dag \<Rightarrow> string res" where
  "ParentListString i delim d =
     foldR (\<lambda>q parents_str. bindR (FindNodeByNodeID q d) (\<lambda>parent.
        case parent of
          None \<Rightarrow> Inl (Crash ''parent->GetJobName()'')
        | Some p \<Rightarrow> Inr ((if parents_str = '''' then '''' else parents_str @ [delim]) @ jobName (node_at d p))))
       (sorted_list_of_set (queues (node_at d i) Q_PARENTS)) ''''"

section \<open>Splices\<close>

definition PropogateDirectoryToAllNodes :: "Dag \<Rightarrow> Dag" where
  "PropogateDirectoryToAllNodes d =
     (if d_directory d = ''.'' then d
      else (fold (\<lambda>i. upd_node i (PrefixDirectory (d_directory d))) (d_jobs d) d)\<lparr>d_directory := ''.''\<rparr>)"

definition reindex_name :: "JobID_t \<Rightarrow> Dag \<Rightarrow> Dag res" where
  "reindex_name i d =
     (if d_nodeNameHash d (jobName (node_at d i)) \<noteq> None then Inl (DC_Exit 1)
      else Inr (d\<lparr>d_nodeNameHash := (d_nodeNameHash d)(jobName (node_at d i) \<mapsto> i)\<rparr>))"

definition PrefixAllNodeNames :: "string \<Rightarrow> Dag \<Rightarrow> Dag res" where
  "PrefixAllNodeNames prefix d =
     (let d = fold (\<lambda>i. upd_node i (PrefixName prefix)) (d_jobs d) d;
          d = d\<lparr>d_nodeNameHash := Map.empty\<rparr>
      in foldR reindex_name (d_jobs d) d)"

definition record_one :: "JobID_t \<Rightarrow> Dag \<Rightarrow> Dag" where
  "record_one i d =
     (let d = (if NumParents (node_at d i) = 0 then d\<lparr>d_splice_initial_nodes := d_splice_initial_nodes d @ [i]\<rparr> else d)
      in if NumChildren (node_at d i) = 0 then d\<lparr>d_splice_final_nodes := d_splice_final_nodes d @ [i]\<rparr> else d)"

definition RecordInitialAndFinalNodes :: "Dag \<Rightarrow> Dag" where
  "RecordInitialAndFinalNodes d = fold record_one (d_jobs d) d"

text \<open>
  What a splice hands over: its nodes, its table of throttles (whose objects are in the one
  heap of the program) and its reject information.
\<close>

record OwnedMaterials =
  om_nodes :: "JobID_t list"
  om_throttles :: throttles
  om_reject :: bool
  om_firstRejectLoc :: string

definition RelinquishNodeOwnership :: "Dag \<Rightarrow> OwnedMaterials \<times> Dag" where
  "RelinquishNodeOwnership d =
     (\<lparr>om_nodes = d_jobs d, om_throttles = d_catThrottles d, om_reject = d_reject d,
       om_firstRejectLoc = d_firstRejectLoc d\<rparr>, d\<lparr>d_jobs := []\<rparr>)"

definition merge_throttle :: "string \<Rightarrow> nat \<Rightarrow> Dag res \<Rightarrow> Dag res" where
  "merge_throttle key spliceThrottle r =
     bindR r (\<lambda>d.
       let st = d_heap d ! spliceThrottle in
       bindR (GetThrottleInfo (Some (th_category st)) (d_catThrottles d)) (\<lambda>main.
         case main of
           Some m \<Rightarrow>
             if isSet (d_heap d ! m) \<and> th_maxJobs (d_heap d ! m) \<noteq> th_maxJobs st then Inr d
             else bindR (SetThrottle (Some (th_category st)) (th_maxJobs st) (d_catThrottles d, d_heap d))
                    (\<lambda>(t, hp). Inr (d\<lparr>d_catThrottles := t, d_heap := hp\<rparr>))
         | None \<Rightarrow> bindR (SetThrottle (Some (th_category st)) (th_maxJobs st) (d_catThrottles d, d_heap d))
                    (\<lambda>(t, hp). Inr (d\<lparr>d_catThrottles := t, d_heap := hp\<rparr>))))"

definition assume_initial_final :: "JobID_t \<Rightarrow> Dag \<Rightarrow> Dag" where
  "assume_initial_final i d =
     (if NumParents (node_at d i) = 0 then d\<lparr>d_splice_initial_nodes := d_splice_initial_nodes d @ [i]\<rparr>
      else if NumChildren (node_at d i) = 0 then d\<lparr>d_splice_final_nodes := d_splice_final_nodes d @ [i]\<rparr>
      else d)"

definition reset_category :: "JobID_t \<Rightarrow> Dag \<Rightarrow> Dag res" where
  "reset_category i d =
     (case throttleInfo (node_at d i) of
        None \<Rightarrow> Inr d
      | Some info \<Rightarrow>
          bindR (SetCategory (th_category (d_heap d ! info)) (node_at d i) (d_catThrottles d, d_heap d))
            (\<lambda>(j, t, hp). Inr (set_node i j (d\<lparr>d_catThrottles := t, d_heap := hp\<rparr>))))"

definition index_id :: "JobID_t \<Rightarrow> Dag \<Rightarrow> Dag res" where
  "index_id i d =
     (if d_nodeIDHash d (jobID (node_at d i)) \<noteq> None then Inl (DC_Exit 1)
      else Inr (d\<lparr>d_nodeIDHash := (d_nodeIDHash d)(jobID (node_at d i) \<mapsto> i)\<rparr>))"

definition AssumeOwnershipofNodes :: "OwnedMaterials \<Rightarrow> Dag \<Rightarrow> Dag res" where
  "AssumeOwnershipofNodes om d =
     bindR (fst (hash_walk merge_throttle (startIterations (om_throttles om)) (Inr d))) (\<lambda>d.
     let d = fold assume_initial_final (om_nodes om) d in
     bindR (foldR reset_category (om_nodes om) d) (\<lambda>d.
     let d = d\<lparr>d_jobs := d_jobs d @ om_nodes om\<rparr> in
     bindR (foldR reindex_name (om_nodes om) d) (\<lambda>d.
     bindR (foldR index_id (om_nodes om) d) (\<lambda>d.
       Inr (if om_reject om then SetReject (om_firstRejectLoc om) d else d)))))"

definition ResolveVarsInterpolations :: "Dag \<Rightarrow> Dag" where
  "ResolveVarsInterpolations d = fold (\<lambda>i. upd_node i ResolveVarsInterpolations_job) (d_jobs d) d"

definition check_throttle_cat :: "throttle_heap \<Rightarrow> string \<Rightarrow> nat \<Rightarrow> unit res \<Rightarrow> unit res" where
  "check_throttle_cat hp key info r =
     bindR r (\<lambda>_. if th_totalJobs (hp ! info) \<ge> 0 then Inr () else Inl (ASSERT ''info->_totalJobs >= 0''))"

definition CheckThrottleCats :: "Dag \<Rightarrow> Dag res" where
  "CheckThrottleCats d =
     (case hash_walk (check_throttle_cat (d_heap d)) (startIterations (d_catThrottles d)) (Inr ()) of
        (r, t) \<Rightarrow> bindR r (\<lambda>_. Inr (d\<lparr>d_catThrottles := t\<rparr>)))"

end
