(* ===== verification/Dag_Graph.thy ===== *)
theory Dag_Graph
  imports Dag_State
begin

text \<open>
  The graph of a DAG: invariants of the node tables and of the dependency queues, what
  \<open>AddDependency\<close> and \<open>RemoveDependency\<close> do to them, and what they leave broken.
\<close>

section \<open>Memory lemmas\<close>

lemma node_at_set [simp]: "node_at (set_node i j d) k = (if k = i then j else node_at d k)"
  by (simp add: node_at_def set_node_def)

lemma nodes_set [simp]: "d_nodes (set_node i j d) = (d_nodes d)(i \<mapsto> j)"
  by (simp add: set_node_def)

lemma node_at_upd [simp]: "node_at (upd_node i f d) k = (if k = i then f (node_at d i) else node_at d k)"
  by (simp add: upd_node_def)

lemma tables_set_node [simp, frame_simps]:
  "d_jobs (set_node i j d) = d_jobs d" "d_nodeIDHash (set_node i j d) = d_nodeIDHash d"
  "d_nodeNameHash (set_node i j d) = d_nodeNameHash d" "d_readyQ (set_node i j d) = d_readyQ d"
  "d_condorIDHash (set_node i j d) = d_condorIDHash d" "d_storkIDHash (set_node i j d) = d_storkIDHash d"
  "d_noopIDHash (set_node i j d) = d_noopIDHash d"
  by (simp_all add: set_node_def)

lemma set_node_same: "i \<in> dom (d_nodes d) \<Longrightarrow> set_node i (node_at d i) d = d"
proof -
  assume "i \<in> dom (d_nodes d)"
  then have "(d_nodes d)(i \<mapsto> node_at d i) = d_nodes d" by (auto simp: node_at_def fun_upd_idem)
  then show ?thesis by (simp add: set_node_def)
qed

section \<open>Invariants\<close>

abbreviation queue_of :: "Dag \<Rightarrow> JobID_t \<Rightarrow> queue_t \<Rightarrow> JobID_t set" where
  "queue_of d i q \<equiv> queues (node_at d i) q"

abbreviation status_of :: "Dag \<Rightarrow> JobID_t \<Rightarrow> status_t" where
  "status_of d i \<equiv> Status (node_at d i)"

definition edges :: "Dag \<Rightarrow> (JobID_t \<times> JobID_t) set" where
  "edges d = {(p, c). p \<in> dom (d_nodes d) \<and> c \<in> queue_of d p Q_CHILDREN}"

text \<open>Every job is stored at its own identifier and the tables lead to it.\<close>

definition store_ok :: "Dag \<Rightarrow> bool" where
  "store_ok d \<longleftrightarrow>
     (\<forall>i \<in> dom (d_nodes d). jobID (node_at d i) = i) \<and>
     (\<forall>i p. d_nodeIDHash d i = Some p \<longleftrightarrow> p = i \<and> i \<in> dom (d_nodes d)) \<and>
     (\<forall>n p. d_nodeNameHash d n = Some p \<longleftrightarrow> p \<in> dom (d_nodes d) \<and> jobName (node_at d p) = n) \<and>
     set (d_jobs d) \<subseteq> dom (d_nodes d) \<and> distinct (d_jobs d)"

text \<open>Parents and children mirror each other.\<close>

definition symmetric_deps :: "Dag \<Rightarrow> bool" where
  "symmetric_deps d \<longleftrightarrow>
     (\<forall>i \<in> dom (d_nodes d). finite (queue_of d i Q_CHILDREN) \<and> finite (queue_of d i Q_PARENTS) \<and>
        queue_of d i Q_CHILDREN \<subseteq> dom (d_nodes d) \<and> queue_of d i Q_PARENTS \<subseteq> dom (d_nodes d)) \<and>
     (\<forall>p \<in> dom (d_nodes d). \<forall>c \<in> dom (d_nodes d).
        c \<in> queue_of d p Q_CHILDREN \<longleftrightarrow> p \<in> queue_of d c Q_PARENTS)"

text \<open>A job waits for its unfinished parents.\<close>

definition waiting_ok :: "Dag \<Rightarrow> bool" where
  "waiting_ok d \<longleftrightarrow>
     (\<forall>i \<in> dom (d_nodes d). queue_of d i Q_WAITING = {p \<in> queue_of d i Q_PARENTS. status_of d p \<noteq> STATUS_DONE})"

definition graph_ok :: "Dag \<Rightarrow> bool" where
  "graph_ok d \<longleftrightarrow> store_ok d \<and> symmetric_deps d \<and> waiting_ok d"

lemma child_of:
  "symmetric_deps d \<Longrightarrow> p \<in> dom (d_nodes d) \<Longrightarrow> c \<in> queue_of d p Q_CHILDREN \<Longrightarrow>
   c \<in> dom (d_nodes d) \<and> p \<in> queue_of d c Q_PARENTS"
  unfolding symmetric_deps_def by blast

lemma FindNodeByNodeID_ok:
  assumes "store_ok d"
  shows "FindNodeByNodeID i d = Inr (if i \<in> dom (d_nodes d) then Some i else None)"
proof (cases "i \<in> dom (d_nodes d)")
  case True
  then have "d_nodeIDHash d i = Some i" "jobID (node_at d i) = i" using assms by (simp_all add: store_ok_def)
  with True show ?thesis by (simp add: FindNodeByNodeID_def)
next
  case False
  then have "d_nodeIDHash d i = None" using assms by (metis not_None_eq store_ok_def)
  with False show ?thesis by (simp add: FindNodeByNodeID_def)
qed

lemma FindNodeByName_ok:
  assumes "store_ok d" and "i \<in> dom (d_nodes d)"
  shows "FindNodeByName (Some (jobName (node_at d i))) d = Inr (Some i)"
proof -
  have "d_nodeNameHash d (jobName (node_at d i)) = Some i" using assms by (simp add: store_ok_def)
  then show ?thesis by (simp add: FindNodeByName_def)
qed

lemma FindNodeByName_total:
  "store_ok d \<Longrightarrow> \<exists>p. FindNodeByName n d = Inr p \<and> (\<forall>i. p = Some i \<longrightarrow> i \<in> dom (d_nodes d) \<and> n = Some (jobName (node_at d i)))"
  by (cases n) (auto simp: FindNodeByName_def store_ok_def split: option.splits)

section \<open>Adding dependencies\<close>

definition may_add :: "Dag \<Rightarrow> JobID_t \<Rightarrow> JobID_t \<Rightarrow> bool" where
  "may_add d p c \<longleftrightarrow> status_of d c = STATUS_READY \<or> status_of d p = STATUS_DONE"

lemma AddChild_form:
  assumes "jobID cj = c"
  shows "AddChild (Some cj) pj = (True, ''n/a'', pj\<lparr>queues := (queues pj)(Q_CHILDREN := insert c (queues pj Q_CHILDREN))\<rparr>)"
  using assms
  by (auto simp: AddChild_def CanAddChild_def HasChild_def Add_queue_def insert_absorb)

lemma AddParent_form:
  assumes "jobID pj = p" and "queues cj Q_WAITING \<subseteq> queues cj Q_PARENTS"
  shows "AddParent (Some pj) cj =
    (if Status cj = STATUS_READY \<or> Status pj = STATUS_DONE
     then Inr (True, ''n/a'', if p \<in> queues cj Q_PARENTS then cj
       else cj\<lparr>queues := (queues cj)(Q_PARENTS := insert p (queues cj Q_PARENTS),
                 Q_WAITING := if Status pj = STATUS_DONE then queues cj Q_WAITING else insert p (queues cj Q_WAITING))\<rparr>)
     else Inr (False, snd (CanAddParent (Some pj) cj), cj))"
  using assms
  by (auto simp: AddParent_def CanAddParent_def HasParent_def Add_queue_def fun_upd_idem fun_upd_twist)

text \<open>The queues after a dependency was added.\<close>

definition with_edge :: "Dag \<Rightarrow> JobID_t \<Rightarrow> JobID_t \<Rightarrow> JobID_t \<Rightarrow> queue_t \<Rightarrow> JobID_t set" where
  "with_edge d p c i q =
     (if i = p \<and> q = Q_CHILDREN then insert c (queue_of d p Q_CHILDREN)
      else if i = c \<and> q = Q_PARENTS then insert p (queue_of d c Q_PARENTS)
      else if i = c \<and> q = Q_WAITING \<and> status_of d p \<noteq> STATUS_DONE then insert p (queue_of d c Q_WAITING)
      else queue_of d i q)"

lemma AddDependency_memory:
  assumes ids: "jobID (node_at d c) = c" "jobID (node_at d p) = p"
    and w: "queue_of d c Q_WAITING = {q \<in> queue_of d c Q_PARENTS. status_of d q \<noteq> STATUS_DONE}"
    and pc: "p \<in> dom (d_nodes d)" "c \<in> dom (d_nodes d)" and may: "may_add d p c"
  obtains d' where "AddDependency (Some p) (Some c) d = Inr (True, d')"
    and "dom (d_nodes d') = dom (d_nodes d)"
    and "\<And>i. node_at d' i = (node_at d i)\<lparr>queues := with_edge d p c i\<rparr>"
    and "d_jobs d' = d_jobs d" "d_nodeIDHash d' = d_nodeIDHash d" "d_nodeNameHash d' = d_nodeNameHash d"
    and "\<exists>m. d' = d\<lparr>d_nodes := m\<rparr>"
proof -
  let ?pj = "(node_at d p)\<lparr>queues := (queues (node_at d p))(Q_CHILDREN := insert c (queue_of d p Q_CHILDREN))\<rparr>"
  let ?d1 = "set_node p ?pj d"
  have w1: "queue_of ?d1 c Q_WAITING \<subseteq> queue_of ?d1 c Q_PARENTS" using w by auto
  have id1: "jobID (node_at ?d1 p) = p" using ids by simp
  have m1: "Status (node_at ?d1 c) = STATUS_READY \<or> Status (node_at ?d1 p) = STATUS_DONE"
    using may by (auto simp: may_add_def)
  let ?cj = "if p \<in> queue_of ?d1 c Q_PARENTS then node_at ?d1 c
       else (node_at ?d1 c)\<lparr>queues := (queues (node_at ?d1 c))(Q_PARENTS := insert p (queue_of ?d1 c Q_PARENTS),
                 Q_WAITING := if status_of ?d1 p = STATUS_DONE then queue_of ?d1 c Q_WAITING
                              else insert p (queue_of ?d1 c Q_WAITING))\<rparr>"
  have A: "AddDependency (Some p) (Some c) d = Inr (True, set_node c ?cj ?d1)"
    using m1 unfolding AddDependency_def
    by (simp only: prod.case option.case AddChild_form [OF ids(1)] Let_def AddParent_form [OF id1 w1] if_True
        bindR_Inr not_True_eq_False if_False)
  have B: "node_at (set_node c ?cj ?d1) i = (node_at d i)\<lparr>queues := with_edge d p c i\<rparr>" for i
  proof -
    have q: "queues (node_at (set_node c ?cj ?d1) i) = with_edge d p c i"
      using w by (rule_tac ext) (auto simp: with_edge_def insert_absorb)
    have "node_at (set_node c ?cj ?d1) i = (node_at d i)\<lparr>queues := queues (node_at (set_node c ?cj ?d1) i)\<rparr>"
      by simp
    then show ?thesis unfolding q .
  qed
  have C: "dom (d_nodes (set_node c ?cj ?d1)) = dom (d_nodes d)" using pc by auto
  have "\<exists>m. set_node c x (set_node p y d) = d\<lparr>d_nodes := m\<rparr>" for x y
    by (rule exI [of _ "(d_nodes d)(p \<mapsto> y, c \<mapsto> x)"]) (simp add: set_node_def)
  then have D: "\<exists>m. set_node c ?cj ?d1 = d\<lparr>d_nodes := m\<rparr>" .
  show ?thesis by (rule that [OF A C B _ _ _ D]) (simp_all only: tables_set_node)
qed

lemma AddDependency_added:
  assumes "graph_ok d" and "p \<in> dom (d_nodes d)" "c \<in> dom (d_nodes d)" and "may_add d p c"
  obtains d' where "AddDependency (Some p) (Some c) d = Inr (True, d')"
    and "dom (d_nodes d') = dom (d_nodes d)"
    and "\<And>i. node_at d' i = (node_at d i)\<lparr>queues := with_edge d p c i\<rparr>"
    and "d_jobs d' = d_jobs d" "d_nodeIDHash d' = d_nodeIDHash d" "d_nodeNameHash d' = d_nodeNameHash d"
proof -
  have ids: "jobID (node_at d c) = c" "jobID (node_at d p) = p"
    using assms by (simp_all add: graph_ok_def store_ok_def)
  have w: "queue_of d c Q_WAITING = {q \<in> queue_of d c Q_PARENTS. status_of d q \<noteq> STATUS_DONE}"
    using assms by (simp add: graph_ok_def waiting_ok_def)
  show ?thesis by (rule AddDependency_memory [OF ids w assms(2-4)]) (rule that)
qed

text \<open>
  Only the queues changed, so the tables stay right; the two queues that mirror each other
  changed together, and the new parent is waited for unless it is done.
\<close>

lemma store_ok_queues:
  assumes "store_ok d" and "dom (d_nodes d') = dom (d_nodes d)" and "\<And>i. node_at d' i = (node_at d i)\<lparr>queues := f i\<rparr>"
    and "d_jobs d' = d_jobs d" "d_nodeIDHash d' = d_nodeIDHash d" "d_nodeNameHash d' = d_nodeNameHash d"
  shows "store_ok d'"
  using assms(1) unfolding store_ok_def assms(2-6) by simp

lemma with_edge_ok:
  assumes ok: "graph_ok d" and pc: "p \<in> dom (d_nodes d)" "c \<in> dom (d_nodes d)"
    and dom: "dom (d_nodes d') = dom (d_nodes d)"
    and node: "\<And>i. node_at d' i = (node_at d i)\<lparr>queues := with_edge d p c i\<rparr>"
    and tabs: "d_jobs d' = d_jobs d" "d_nodeIDHash d' = d_nodeIDHash d" "d_nodeNameHash d' = d_nodeNameHash d"
  shows "graph_ok d'" and "edges d' = insert (p, c) (edges d)"
proof -
  have sym: "symmetric_deps d" and w: "waiting_ok d" and st: "store_ok d"
    using ok by (simp_all add: graph_ok_def)
  have "symmetric_deps d'"
    using sym pc unfolding symmetric_deps_def dom node with_edge_def by auto
  moreover have "waiting_ok d'"
    using w pc unfolding waiting_ok_def dom node with_edge_def by auto
  moreover have "store_ok d'"
    by (rule store_ok_queues [OF st dom node tabs])
  ultimately show "graph_ok d'" by (simp add: graph_ok_def)
  show "edges d' = insert (p, c) (edges d)"
    using pc unfolding edges_def dom node by (auto simp: with_edge_def split: if_splits)
qed

text \<open>A dependency that is not allowed is never reported as added.\<close>

lemma AddDependency_not_added:
  assumes ids: "jobID (node_at d c) = c" "jobID (node_at d p) = p"
    and w: "queue_of d c Q_WAITING \<subseteq> queue_of d c Q_PARENTS" and may: "\<not> may_add d p c"
  shows "AddDependency (Some p) (Some c) d \<noteq> Inr (True, d')"
proof -
  let ?pj = "(node_at d p)\<lparr>queues := (queues (node_at d p))(Q_CHILDREN := insert c (queue_of d p Q_CHILDREN))\<rparr>"
  let ?d1 = "set_node p ?pj d"
  have w1: "queue_of ?d1 c Q_WAITING \<subseteq> queue_of ?d1 c Q_PARENTS" using w by auto
  have id1: "jobID (node_at ?d1 p) = p" using ids by simp
  have m1: "\<not> (Status (node_at ?d1 c) = STATUS_READY \<or> Status (node_at ?d1 p) = STATUS_DONE)"
    using may by (auto simp: may_add_def)
  let ?d2 = "set_node c (node_at ?d1 c) ?d1"
  have "AddDependency (Some p) (Some c) d =
      (case RemoveChild (Some (node_at ?d2 c)) (node_at ?d2 p) of ((removed, whynot), pj) \<Rightarrow>
         if \<not> removed then Inl (EXCEPT ''Fatal error attempting to add dependency'') else Inr (False, set_node p pj ?d2))"
    using m1 unfolding AddDependency_def
    by (simp only: prod.case option.case AddChild_form [OF ids(1)] Let_def AddParent_form [OF id1 w1] if_True
        bindR_Inr not_True_eq_False not_False_eq_True if_False)
  then show ?thesis by (simp split: prod.splits)
qed

lemma AddDependency_refused:
  assumes "graph_ok d" and "p \<in> dom (d_nodes d)" "c \<in> dom (d_nodes d)" and "\<not> may_add d p c"
    and "c \<notin> queue_of d p Q_CHILDREN"
  shows "AddDependency (Some p) (Some c) d = Inr (False, d)"
proof -
  have ids: "jobID (node_at d c) = c" "jobID (node_at d p) = p"
    using assms by (simp_all add: graph_ok_def store_ok_def)
  have w: "queue_of d c Q_WAITING = {q \<in> queue_of d c Q_PARENTS. status_of d q \<noteq> STATUS_DONE}"
    using assms by (simp add: graph_ok_def waiting_ok_def)
  let ?pj = "(node_at d p)\<lparr>queues := (queues (node_at d p))(Q_CHILDREN := insert c (queue_of d p Q_CHILDREN))\<rparr>"
  let ?d1 = "set_node p ?pj d"
  have w1: "queue_of ?d1 c Q_WAITING \<subseteq> queue_of ?d1 c Q_PARENTS" using w by auto
  have id1: "jobID (node_at ?d1 p) = p" using ids by simp
  have m1: "\<not> (Status (node_at ?d1 c) = STATUS_READY \<or> Status (node_at ?d1 p) = STATUS_DONE)"
    using assms(4) by (auto simp: may_add_def)
  let ?d2 = "set_node c (node_at ?d1 c) ?d1"
  have "AddDependency (Some p) (Some c) d =
      (case RemoveChild (Some (node_at ?d2 c)) (node_at ?d2 p) of ((removed, whynot), pj) \<Rightarrow>
         if \<not> removed then Inl (EXCEPT ''Fatal error attempting to add dependency'') else Inr (False, set_node p pj ?d2))"
    using m1 unfolding AddDependency_def
    by (simp only: prod.case option.case AddChild_form [OF ids(1)] Let_def AddParent_form [OF id1 w1] if_True
        bindR_Inr not_True_eq_False not_False_eq_True if_False)
  also have "RemoveChild (Some (node_at ?d2 c)) (node_at ?d2 p) = ((True, ''n/a''), node_at d p)"
  proof -
    have "node_at ?d2 p = ?pj" "jobID (node_at ?d2 c) = c" using ids by simp_all
    then show ?thesis
      using assms(5) by (simp only: RemoveChild_def RemoveDependency_job_def Remove_queue_def option.case) simp
  qed
  finally have "AddDependency (Some p) (Some c) d = Inr (False, set_node p (node_at d p) ?d2)"
    by simp
  moreover have "d_nodes (set_node p (node_at d p) ?d2) = d_nodes d"
    using assms(2,3) by (auto simp: node_at_def)
  then have "set_node p (node_at d p) ?d2 = d"
    by (simp add: set_node_def)
  ultimately show ?thesis by (simp only:)
qed

section \<open>Removing dependencies\<close>

definition without_edge :: "Dag \<Rightarrow> JobID_t \<Rightarrow> JobID_t \<Rightarrow> JobID_t \<Rightarrow> queue_t \<Rightarrow> JobID_t set" where
  "without_edge d p c i q =
     (if i = p \<and> q = Q_CHILDREN then queue_of d p Q_CHILDREN - {c}
      else if i = c \<and> q = Q_PARENTS then queue_of d c Q_PARENTS - {p} else queue_of d i q)"

lemma RemoveDependency_removed:
  assumes "graph_ok d" and "p \<in> dom (d_nodes d)" "c \<in> queue_of d p Q_CHILDREN"
  obtains d' where "RemoveDependency (Some p) (Some c) d = Inr (True, ''n/a'', d')"
    and "dom (d_nodes d') = dom (d_nodes d)"
    and "\<And>i. node_at d' i = (node_at d i)\<lparr>queues := without_edge d p c i\<rparr>"
    and "d_jobs d' = d_jobs d" "d_nodeIDHash d' = d_nodeIDHash d" "d_nodeNameHash d' = d_nodeNameHash d"
proof -
  have c: "c \<in> dom (d_nodes d)" using assms by (auto simp: graph_ok_def symmetric_deps_def)
  have ids: "jobID (node_at d c) = c" "jobID (node_at d p) = p"
    using assms(1,2) c by (simp_all add: graph_ok_def store_ok_def)
  have pc: "p \<in> queue_of d c Q_PARENTS"
    using assms c by (auto simp: graph_ok_def symmetric_deps_def)
  let ?pj = "(node_at d p)\<lparr>queues := (queues (node_at d p))(Q_CHILDREN := queue_of d p Q_CHILDREN - {c})\<rparr>"
  let ?d1 = "set_node p ?pj d"
  let ?cj = "(node_at ?d1 c)\<lparr>queues := (queues (node_at ?d1 c))(Q_PARENTS := queue_of ?d1 c Q_PARENTS - {p})\<rparr>"
  have A: "RemoveDependency (Some p) (Some c) d = Inr (True, ''n/a'', set_node c ?cj ?d1)"
    using ids assms(3) pc
    by (cases "c = p") (simp_all add: RemoveDependency_def HasChild_def HasParent_def RemoveChild_def RemoveParent_def
        RemoveDependency_job_def Remove_queue_def Let_def)
  have C: "dom (d_nodes (set_node c ?cj ?d1)) = dom (d_nodes d)" using assms(2) c by auto
  have B: "node_at (set_node c ?cj ?d1) i = (node_at d i)\<lparr>queues := without_edge d p c i\<rparr>" for i
  proof -
    have q: "queues (node_at (set_node c ?cj ?d1) i) = without_edge d p c i"
      by (rule ext) (auto simp: without_edge_def)
    have "node_at (set_node c ?cj ?d1) i = (node_at d i)\<lparr>queues := queues (node_at (set_node c ?cj ?d1) i)\<rparr>"
      by simp
    then show ?thesis unfolding q .
  qed
  show ?thesis by (rule that [OF A C B]) (simp_all only: tables_set_node)
qed

section \<open>Properties\<close>

text \<open>
  C15: Adding a dependency to a consistent graph never fails fatally; it adds exactly that edge
  and keeps the graph consistent (parents and children mirror each other, a node waits for its
  unfinished parents), provided the child is not started or the parent is done.
\<close>

theorem AddDependency_correct:
  assumes "graph_ok d" and "p \<in> dom (d_nodes d)" and "c \<in> dom (d_nodes d)" and "may_add d p c"
  shows "\<exists>d'. AddDependency (Some p) (Some c) d = Inr (True, d') \<and> graph_ok d' \<and> edges d' = insert (p, c) (edges d)"
proof -
  obtain d' where d': "AddDependency (Some p) (Some c) d = Inr (True, d')" "dom (d_nodes d') = dom (d_nodes d)"
    "\<And>i. node_at d' i = (node_at d i)\<lparr>queues := with_edge d p c i\<rparr>"
    "d_jobs d' = d_jobs d" "d_nodeIDHash d' = d_nodeIDHash d" "d_nodeNameHash d' = d_nodeNameHash d"
    using AddDependency_added [OF assms] by metis
  from with_edge_ok [OF assms(1-3) d'(2-6)] d'(1) show ?thesis by blast
qed

definition sample_config :: dag_config where
  "sample_config = \<lparr>c_maxJobsSubmitted = 0, c_maxPreScripts = 0, c_maxPostScripts = 0, c_allowLogError = False,
     c_maxIdleJobProcs = 0, c_retrySubmitFirst = True, c_retryNodeFirst = False, c_submitDepthFirst = False,
     c_defaultNodeLog = ''dag.nodes.log'', c_generateSubdagSubmits = True, c_isSplice = False\<rparr>"

text \<open>Two unrelated nodes, A (0) and B (1).\<close>

definition two_nodes :: Dag where
  "two_nodes = (new_Dag sample_config)\<lparr>
     d_nodes := [0 \<mapsto> new_job TYPE_CONDOR ''A'' '''' ''a.sub'' 0, 1 \<mapsto> new_job TYPE_CONDOR ''B'' '''' ''b.sub'' 1],
     d_jobs := [0, 1], d_nodeIDHash := [0 \<mapsto> 0, 1 \<mapsto> 1], d_nodeNameHash := [''A'' \<mapsto> 0, ''B'' \<mapsto> 1]\<rparr>"

lemma two_nodes_parts:
  "dom (d_nodes two_nodes) = {0, 1}"
  "node_at two_nodes 0 = new_job TYPE_CONDOR ''A'' '''' ''a.sub'' 0"
  "node_at two_nodes 1 = new_job TYPE_CONDOR ''B'' '''' ''b.sub'' 1"
  "d_nodeIDHash two_nodes = [0 \<mapsto> 0, 1 \<mapsto> 1]" "d_nodeNameHash two_nodes = [''A'' \<mapsto> 0, ''B'' \<mapsto> 1]"
  "d_jobs two_nodes = [0, 1]"
  by (auto simp: two_nodes_def node_at_def)

lemma two_nodes_ok: "graph_ok two_nodes"
proof -
  have "store_ok two_nodes"
    unfolding store_ok_def two_nodes_parts
    by (auto simp: two_nodes_parts new_job_def split: if_splits)
  moreover have "symmetric_deps two_nodes" "waiting_ok two_nodes"
    unfolding symmetric_deps_def waiting_ok_def two_nodes_parts(1)
    by (simp_all add: two_nodes_parts new_job_def)
  ultimately show ?thesis by (simp add: graph_ok_def)
qed

theorem AddDependency_correct_witness:
  "graph_ok two_nodes \<and> may_add two_nodes 0 1 \<and>
   (\<exists>d'. AddDependency (Some 0) (Some 1) two_nodes = Inr (True, d') \<and> graph_ok d' \<and> (0, 1) \<in> edges d')"
proof -
  have m: "may_add two_nodes 0 1" by (simp add: may_add_def two_nodes_parts new_job_def)
  show ?thesis using AddDependency_correct [OF two_nodes_ok _ _ m] m two_nodes_ok two_nodes_parts(1) by auto
qed


definition started_child :: Dag where
  "started_child = upd_node 1 (\<lambda>j. j\<lparr>Status := STATUS_SUBMITTED\<rparr>) two_nodes"

lemma started_child_parts:
  "dom (d_nodes started_child) = {0, 1}"
  "node_at started_child 0 = new_job TYPE_CONDOR ''A'' '''' ''a.sub'' 0"
  "node_at started_child 1 = (new_job TYPE_CONDOR ''B'' '''' ''b.sub'' 1)\<lparr>Status := STATUS_SUBMITTED\<rparr>"
  "d_nodeIDHash started_child = [0 \<mapsto> 0, 1 \<mapsto> 1]" "d_nodeNameHash started_child = [''A'' \<mapsto> 0, ''B'' \<mapsto> 1]"
  "d_jobs started_child = [0, 1]"
  using two_nodes_parts by (auto simp: started_child_def upd_node_def)



definition chain_nodes :: Dag where
  "chain_nodes = (case AddDependency (Some 0) (Some 1) two_nodes of Inr (_, d) \<Rightarrow> d | Inl _ \<Rightarrow> two_nodes)"

lemma chain_nodes_ok: "graph_ok chain_nodes" "edges chain_nodes = {(0, 1)}" "status_of chain_nodes 0 \<noteq> STATUS_DONE"
proof -
  have m: "may_add two_nodes 0 1" by (simp add: may_add_def two_nodes_parts new_job_def)
  have e: "edges two_nodes = {}" by (auto simp: edges_def two_nodes_parts new_job_def)
  have dm: "0 \<in> dom (d_nodes two_nodes)" "1 \<in> dom (d_nodes two_nodes)" by (simp_all add: two_nodes_parts)
  obtain d' where d': "AddDependency (Some 0) (Some 1) two_nodes = Inr (True, d')" "dom (d_nodes d') = dom (d_nodes two_nodes)"
    "\<And>i. node_at d' i = (node_at two_nodes i)\<lparr>queues := with_edge two_nodes 0 1 i\<rparr>"
    "d_jobs d' = d_jobs two_nodes" "d_nodeIDHash d' = d_nodeIDHash two_nodes" "d_nodeNameHash d' = d_nodeNameHash two_nodes"
    using AddDependency_added [OF two_nodes_ok dm m] by metis
  note ok = with_edge_ok [OF two_nodes_ok dm d'(2-6)]
  have "chain_nodes = d'" by (simp add: chain_nodes_def d'(1))
  with ok e d'(3) show "graph_ok chain_nodes" "edges chain_nodes = {(0, 1)}" "status_of chain_nodes 0 \<noteq> STATUS_DONE"
    by (simp_all add: two_nodes_parts new_job_def)
qed


end
