(* ===== verification/Dag_Script.thy ===== *)
theory Dag_Script
  imports Dag_Graph
begin

text \<open>
  PRE and POST scripts: the command line a script is started with and the starting of it
  (\<open>condor_dagman/script.cpp\<close>), and the queue that bounds how many scripts run at a time
  (\<open>scriptQ.cpp\<close>).

  A script that cannot be started is reported at once to the reaper of its DAG, and the reaper
  may restart the node and so run another script. The reaper is therefore an argument here
  (\<open>Run_with\<close>, \<open>ScriptReaper_with\<close>); \<open>Dag_Engine\<close> closes the loop.
\<close>

section \<open>C library\<close>

text \<open>
  The tokens \<open>strtok\<close> yields for a set of delimiters: maximal non-empty runs of other
  characters.
\<close>

function strtok_tokens :: "(char \<Rightarrow> bool) \<Rightarrow> string \<Rightarrow> string list" where
  "strtok_tokens delim s =
     (let s = dropWhile delim s in
      if s = [] then [] else takeWhile (\<lambda>c. \<not> delim c) s # strtok_tokens delim (dropWhile (\<lambda>c. \<not> delim c) s))"
  by pat_completeness auto
termination
proof (relation "measure (\<lambda>(delim, s). length s)", goal_cases)
  case (2 delim s x)
  from 2(2) obtain c cs where x: "x = c # cs" by (cases x) simp_all
  then have "\<not> delim c" using 2(1) hd_dropWhile [of delim s] by (metis list.distinct(1) list.sel(1))
  then have "length (dropWhile (\<lambda>c. \<not> delim c) x) < length x"
    using length_dropWhile_le [of "\<lambda>c. \<not> delim c" cs] x by (simp add: le_imp_less_Suc)
  also have "length x \<le> length s" using 2(1) length_dropWhile_le [of delim s] by simp
  finally show ?case by simp
qed simp

declare strtok_tokens.simps [simp del]

text \<open>\<open>tolower\<close> of the C locale, and \<open>strcasecmp(a, b) == 0\<close>.\<close>

definition tolower :: "char \<Rightarrow> char" where
  "tolower c = (if 65 \<le> (of_char c :: nat) \<and> (of_char c :: nat) \<le> 90 then char_of (of_char c + 32 :: nat) else c)"

definition strcaseeq :: "string \<Rightarrow> string \<Rightarrow> bool" where
  "strcaseeq a b \<longleftrightarrow> map tolower a = map tolower b"

text \<open>
  The wait status macros of Linux: the low seven bits hold the signal (127 marks a stopped
  process), the next byte the exit code.
\<close>

definition WTERMSIG :: "int \<Rightarrow> int" where
  "WTERMSIG status = status mod 128"

definition WIFSIGNALED :: "int \<Rightarrow> bool" where
  "WIFSIGNALED status \<longleftrightarrow> WTERMSIG status \<noteq> 0 \<and> WTERMSIG status \<noteq> 127"

definition WEXITSTATUS :: "int \<Rightarrow> int" where
  "WEXITSTATUS status = status div 256 mod 256"

section \<open>The command line\<close>

definition script_delim :: "char \<Rightarrow> bool" where
  "script_delim c \<longleftrightarrow> c = CHR '' '' \<or> c = CHR 0x09"

text \<open>One token of the command, with the macros replaced.\<close>

definition script_arg :: "job \<Rightarrow> Script \<Rightarrow> string \<Rightarrow> string" where
  "script_arg node s token =
     (if strcaseeq token ''$JOB'' then jobName node
      else if strcaseeq token ''$RETRY'' then string_of_int (retries node)
      else if strcaseeq token ''$MAX_RETRIES'' then string_of_int (retry_max node)
      else if strcaseeq token ''$JOBID'' then
        (if \<not> s_post s then token
         else string_of_int (id_cluster (j_CondorID node)) @ ''.'' @ string_of_int (id_proc (j_CondorID node)))
      else if strcaseeq token ''$RETURN'' then string_of_int (s_retValJob s)
      else token)"

definition script_args :: "job \<Rightarrow> Script \<Rightarrow> string list" where
  "script_args node s = map (script_arg node s) (strtok_tokens script_delim (s_cmd s))"

text \<open>
  \<open>Create_Process\<close> is given the buffer that \<open>strtok\<close> has cut: it ends after the first token
  and still begins with the delimiters before that token.
\<close>

definition script_program :: "Script \<Rightarrow> string" where
  "script_program s =
     takeWhile script_delim (s_cmd s) @ takeWhile (\<lambda>c. \<not> script_delim c) (dropWhile script_delim (s_cmd s))"

section \<open>Starting a script\<close>

definition get_script :: "script_ref \<Rightarrow> Dag \<Rightarrow> Script option" where
  "get_script s d = (if snd s then scriptPost (node_at d (fst s)) else scriptPre (node_at d (fst s)))"

definition upd_script :: "script_ref \<Rightarrow> (Script \<Rightarrow> Script) \<Rightarrow> Dag \<Rightarrow> Dag" where
  "upd_script s f d =
     upd_node (fst s)
       (\<lambda>j. if snd s then j\<lparr>scriptPost := map_option f (scriptPost j)\<rparr>
            else j\<lparr>scriptPre := map_option f (scriptPre j)\<rparr>) d"

text \<open>The result is the pid, 0 for a script that was not started.\<close>

definition BackgroundRun :: "env \<Rightarrow> script_ref \<Rightarrow> Dag \<Rightarrow> int \<times> Dag" where
  "BackgroundRun e s d =
     (case ask (e_spawn e) d of (a, d) \<Rightarrow>
        if \<not> sa_cd_ok a then (0, d)
        else
          (let node = node_at d (fst s); script = the (get_script s d);
               d = act (A_spawn (fst s) (snd s) (script_program script) (script_args node script)) d;
               d = upd_script s (\<lambda>x. x\<lparr>s_pid := sa_pid a\<rparr>) d
           in if \<not> sa_back_ok a then (0, d) else (sa_pid a, d)))"

section \<open>The script queue\<close>

definition get_sq :: "bool \<Rightarrow> Dag \<Rightarrow> ScriptQ" where
  "get_sq post d = (if post then d_postScriptQ d else d_preScriptQ d)"

definition upd_sq :: "bool \<Rightarrow> (ScriptQ \<Rightarrow> ScriptQ) \<Rightarrow> Dag \<Rightarrow> Dag" where
  "upd_sq post f d =
     (if post then d\<lparr>d_postScriptQ := f (d_postScriptQ d)\<rparr> else d\<lparr>d_preScriptQ := f (d_preScriptQ d)\<rparr>)"

definition maxScripts :: "bool \<Rightarrow> Dag \<Rightarrow> int" where
  "maxScripts post d = (if post then d_maxPostScripts d else d_maxPreScripts d)"

text \<open>
  A script that cannot be started is reaped at once with exit code 1 (status 256).
\<close>

definition Run_with :: "(string \<Rightarrow> int \<Rightarrow> Dag \<Rightarrow> Dag res) \<Rightarrow> env \<Rightarrow> script_ref \<Rightarrow> Dag \<Rightarrow> (int \<times> Dag) res" where
  "Run_with reaper e s d =
     (if get_script s d = None then Inl (Crash ''script->_post'')
      else
        (let post = snd s; q = get_sq post d in
         if maxScripts post d = 0 \<or> sq_numScriptsRunning q < maxScripts post d then
           (case BackgroundRun e s d of (pid, d) \<Rightarrow>
              if pid \<noteq> 0 then
                Inr (1, upd_sq post (\<lambda>q. q\<lparr>sq_numScriptsRunning := sq_numScriptsRunning q + 1,
                                         sq_scriptPidTable := (pid, s) # sq_scriptPidTable q\<rparr>) d)
              else bindR (reaper (jobName (node_at d (fst s))) 256 d) (\<lambda>d. Inr (0, d)))
         else
           bindR (enqueue s (sq_waitingQueue q)) (\<lambda>w.
             Inr (0, upd_sq post (\<lambda>q. q\<lparr>sq_scriptDeferredCount := sq_scriptDeferredCount q + 1,
                                      sq_waitingQueue := w\<rparr>) d))))"

text \<open>
  The pid table allows duplicate keys: an insertion goes in front, and a removal takes the
  entry a lookup finds.
\<close>

fun remove_pid :: "int \<Rightarrow> (int \<times> 'a) list \<Rightarrow> (int \<times> 'a) list" where
  "remove_pid pid [] = []"
| "remove_pid pid ((k, v) # t) = (if k = pid then t else (k, v) # remove_pid pid t)"

definition ScriptReaper_with ::
  "(string \<Rightarrow> int \<Rightarrow> Dag \<Rightarrow> Dag res) \<Rightarrow> env \<Rightarrow> bool \<Rightarrow> int \<Rightarrow> int \<Rightarrow> Dag \<Rightarrow> Dag res" where
  "ScriptReaper_with reaper e post pid status d =
     (case map_of (sq_scriptPidTable (get_sq post d)) pid of
        None \<Rightarrow> Inl (ASSERT ''script != NULL'')
      | Some s \<Rightarrow>
          (let d = upd_sq post (\<lambda>q. q\<lparr>sq_scriptPidTable := remove_pid pid (sq_scriptPidTable q),
                                    sq_numScriptsRunning := sq_numScriptsRunning q - 1\<rparr>) d in
           case get_script s d of
             None \<Rightarrow> Inl (Crash ''script->_pid'')
           | Some script \<Rightarrow>
               if pid \<noteq> s_pid script then Inl (EXCEPT ''Reaper pid does not match expected script pid'')
               else
                 (let d = upd_script s (\<lambda>x. x\<lparr>s_done := True\<rparr>) d in
                  bindR (reaper (jobName (node_at d (fst s))) status d) (\<lambda>d.
                    case dequeue (sq_waitingQueue (get_sq post d)) of
                      None \<Rightarrow> Inr d
                    | Some (next, w) \<Rightarrow>
                        bindR (Run_with reaper e next (upd_sq post (\<lambda>q. q\<lparr>sq_waitingQueue := w\<rparr>) d))
                          (\<lambda>(_, d). Inr d)))))"

end
