(* ===== verification/Dag_Engine.thy ===== *)
theory Dag_Engine
  imports Dag_Script
begin

text \<open>
  The running of a DAG (\<open>condor_dagman/dag.cpp\<close>): starting, restarting and finishing nodes, the
  reapers of PRE and POST scripts, and \<open>ScriptQ\<close> closed over them.

  \<open>StartNode\<close> may run a PRE script; when the script cannot be started the reaper is called at
  once, which may restart the node and so call \<open>StartNode\<close> again. The functions are written with
  the function they call as an argument (\<open>StartNode_with\<close>, \<open>PreScriptReaper_with\<close>,
  \<open>RestartNode_with\<close>), and \<open>StartNode_n\<close> ties them together, \<open>n\<close> bounding the depth of the calls:
  depth 0 is the end of the stack. \<open>StartNode\<close> gives one level for every retry the node has
  left and one for the first start; \<open>Dag_Start\<close> shows this is always enough.

  A \<open>Job*\<close> argument that a function asserts to be non-null is the address itself, because no
  caller passes a null pointer. Entries of the jobstate log are not modelled.
\<close>

section \<open>Aborting\<close>

definition CheckForDagAbort :: "JobID_t \<Rightarrow> Dag \<Rightarrow> Dag res" where
  "CheckForDagAbort i d =
     (let job = node_at d i in
      if have_abort_dag_val job \<and> retval job = abort_dag_val job then
        Inl (Shutdown_Rescue (if have_abort_dag_return_val job then abort_dag_return_val job else retval job))
      else Inr d)"

section \<open>Log files of nodes\<close>

definition monitor_log :: "env \<Rightarrow> JobID_t \<Rightarrow> Dag \<Rightarrow> (bool \<times> Dag) res" where
  "monitor_log e i d =
     (case ask (e_log e) d of (a, d) \<Rightarrow>
        bindR (MonitorLogFile a (d_defaultNodeLog d) (node_at d i)) (\<lambda>(ok, j). Inr (ok, set_node i j d)))"

definition unmonitor_log :: "env \<Rightarrow> JobID_t \<Rightarrow> Dag \<Rightarrow> Dag res" where
  "unmonitor_log e i d =
     (case ask (e_log e) d of (a, d) \<Rightarrow>
        bindR (UnmonitorLogFile a (node_at d i)) (\<lambda>(ok, j). Inr (set_node i j d)))"

section \<open>Starting and restarting nodes\<close>

definition StartNode_with :: "(script_ref \<Rightarrow> Dag \<Rightarrow> (int \<times> Dag) res) \<Rightarrow> JobID_t \<Rightarrow> bool \<Rightarrow> Dag \<Rightarrow> Dag res" where
  "StartNode_with run node isRetry d =
     (let j = node_at d node in
      if \<not> CanSubmit j then Inl (EXCEPT ''Node not ready to submit!'')
      else if d_isSplice d then Inl (ASSERT ''_isSplice == false'')
      else if scriptPre j \<noteq> None \<and> \<not> s_done (the (scriptPre j)) then
        (let d = upd_node node (\<lambda>j. j\<lparr>Status := STATUS_PRERUN\<rparr>) d;
             d = d\<lparr>d_preRunNodeCount := d_preRunNodeCount d + 1\<rparr>
         in bindR (run (node, False) d) (\<lambda>(_, d). Inr d))
      else if isRetry \<and> d_retryNodeFirst d then
        Inr (d\<lparr>d_readyQ := Prepend node (- nodePriority j) (d_readyQ d)\<rparr>)
      else if d_submitDepthFirst d then
        Inr (d\<lparr>d_readyQ := Prepend node (- nodePriority j) (d_readyQ d)\<rparr>)
      else Inr (d\<lparr>d_readyQ := Append node (- nodePriority j) (d_readyQ d)\<rparr>))"

text \<open>In recovery mode the identifier of the failed attempt is taken out of its table.\<close>

definition forget_retried_id :: "JobID_t \<Rightarrow> Dag \<Rightarrow> Dag res" where
  "forget_retried_id node d =
     (let j = node_at d node in
      if j_CondorID j \<noteq> default_CondorID then
        (let ht = GetEventIDHash (noop j) (jobType j) d; i = GetIndexID (j_CondorID j) in
         if ht i = None then Inl (EXCEPT ''Event ID hash table error!'')
         else Inr (set_EventIDHash (noop j) (jobType j) (ht(i := None)) d))
      else Inr d)"

definition RestartNode_with :: "(JobID_t \<Rightarrow> bool \<Rightarrow> Dag \<Rightarrow> Dag res) \<Rightarrow> env \<Rightarrow> JobID_t \<Rightarrow> bool \<Rightarrow> Dag \<Rightarrow> Dag res" where
  "RestartNode_with start e node recovery d =
     (let j = node_at d node in
      if Status j \<noteq> STATUS_ERROR then Inl (EXCEPT ''Node is not in ERROR state'')
      else if have_retry_abort_val j \<and> retval j = retry_abort_val j then
        Inr (d\<lparr>d_numNodesFailed := d_numNodesFailed d + 1\<rparr>)
      else
        (let j = j\<lparr>Status := STATUS_READY, retries := retries j + 1\<rparr> in
         if \<not> retries j \<le> retry_max j then Inl (ASSERT ''node->GetRetries() <= node->GetRetryMax()'')
         else
           (let j = j\<lparr>scriptPre := map_option (\<lambda>s. s\<lparr>s_done := False\<rparr>) (scriptPre j),
                      error_text := '''', jobstateSeqNum := 0\<rparr>;
                d = set_node node j d
            in if \<not> recovery then start node True d
               else
                 bindR (forget_retried_id node d)
                   (\<lambda>d. bindR (monitor_log e node (upd_node node (\<lambda>j. j\<lparr>j_CondorID := default_CondorID\<rparr>) d))
                          (\<lambda>(_, d). Inr d)))))"

text \<open>The text \<^verbatim>\<open>"%s (after %d node retries)"\<close>.\<close>

definition add_retries_text :: "job \<Rightarrow> job" where
  "add_retries_text j =
     snprintf_error (error_text j @ '' (after '' @ string_of_int (retries j) @ '' node retries)'') j"

definition push_ready :: "JobID_t \<Rightarrow> Dag \<Rightarrow> Dag" where
  "push_ready i d =
     (let p = - nodePriority (node_at d i) in
      if d_submitDepthFirst d then d\<lparr>d_readyQ := Prepend i p (d_readyQ d)\<rparr>
      else d\<lparr>d_readyQ := Append i p (d_readyQ d)\<rparr>)"

definition pre_failed :: "env \<Rightarrow> int \<Rightarrow> job \<Rightarrow> job" where
  "pre_failed e status j =
     (if WIFSIGNALED status then
        (snprintf_error (''PRE Script died on '' @ e_exception_string e status) j)
          \<lparr>retval := 0 - WTERMSIG status, Status := STATUS_ERROR\<rparr>
      else
        (snprintf_error (''PRE Script failed with status '' @ string_of_int (WEXITSTATUS status)) j)
          \<lparr>retval := WEXITSTATUS status, Status := STATUS_ERROR\<rparr>)"

definition PreScriptReaper_with ::
  "(JobID_t \<Rightarrow> bool \<Rightarrow> Dag \<Rightarrow> Dag res) \<Rightarrow> env \<Rightarrow> string \<Rightarrow> int \<Rightarrow> Dag \<Rightarrow> Dag res" where
  "PreScriptReaper_with restart e nodeName status d =
     bindR (FindNodeByName (Some nodeName) d) (\<lambda>found.
       case found of
         None \<Rightarrow> Inl (ASSERT ''job != NULL'')
       | Some job \<Rightarrow>
           if Status (node_at d job) \<noteq> STATUS_PRERUN then Inl (EXCEPT ''Error: node is not in PRERUN state'')
           else
             bindR
               (if WIFSIGNALED status \<or> WEXITSTATUS status \<noteq> 0 then
                  (let d = upd_node job (pre_failed e status) d;
                       d = d\<lparr>d_preRunNodeCount := d_preRunNodeCount d - 1\<rparr>
                   in if retries (node_at d job) < retry_max (node_at d job) then restart job False d
                      else
                        (let d = d\<lparr>d_numNodesFailed := d_numNodesFailed d + 1\<rparr> in
                         Inr (if retry_max (node_at d job) > 0 then upd_node job add_retries_text d else d)))
                else
                  (let d = upd_node job (\<lambda>j. j\<lparr>retval := 0, Status := STATUS_READY\<rparr>) d;
                       d = d\<lparr>d_preRunNodeCount := d_preRunNodeCount d - 1\<rparr>
                   in Inr (push_ready job d)))
               (CheckForDagAbort job))"

primrec StartNode_n :: "env \<Rightarrow> nat \<Rightarrow> JobID_t \<Rightarrow> bool \<Rightarrow> Dag \<Rightarrow> Dag res" where
  "StartNode_n e 0 = (\<lambda>node isRetry d. Inl (Crash ''stack overflow''))"
| "StartNode_n e (Suc n) =
     StartNode_with (Run_with (PreScriptReaper_with (RestartNode_with (StartNode_n e n) e) e) e)"

definition retries_left :: "JobID_t \<Rightarrow> Dag \<Rightarrow> nat" where
  "retries_left node d = nat (retry_max (node_at d node) - retries (node_at d node))"

definition StartNode :: "env \<Rightarrow> JobID_t \<Rightarrow> bool \<Rightarrow> Dag \<Rightarrow> Dag res" where
  "StartNode e node isRetry d = StartNode_n e (Suc (retries_left node d)) node isRetry d"

definition RestartNode :: "env \<Rightarrow> JobID_t \<Rightarrow> bool \<Rightarrow> Dag \<Rightarrow> Dag res" where
  "RestartNode e = RestartNode_with (StartNode e) e"

definition PreScriptReaper :: "env \<Rightarrow> string \<Rightarrow> int \<Rightarrow> Dag \<Rightarrow> Dag res" where
  "PreScriptReaper e = PreScriptReaper_with (RestartNode e) e"

section \<open>Finishing nodes\<close>

text \<open>
  The loop over the children follows the order of the \<open>std::set\<close>, which is ascending.
\<close>

definition report_to_child :: "env \<Rightarrow> JobID_t \<Rightarrow> bool \<Rightarrow> bool \<Rightarrow> JobID_t \<Rightarrow> Dag \<Rightarrow> Dag res" where
  "report_to_child e job recovery bootstrap q d =
     bindR (FindNodeByNodeID q d) (\<lambda>found.
       case found of
         None \<Rightarrow> Inl (ASSERT ''child != NULL'')
       | Some child \<Rightarrow>
           (let d = upd_node child (\<lambda>j. snd (Remove_queue Q_WAITING (jobID (node_at d job)) j)) d in
            if Status (node_at d child) = STATUS_READY \<and> IsEmpty_queue Q_WAITING (node_at d child) \<and> \<not> bootstrap then
              (if recovery then bindR (monitor_log e child d) (\<lambda>(_, d). Inr d)
               else StartNode e child False d)
            else Inr d))"

definition TerminateJob :: "env \<Rightarrow> JobID_t \<Rightarrow> bool \<Rightarrow> bool \<Rightarrow> Dag \<Rightarrow> Dag res" where
  "TerminateJob e job recovery bootstrap d =
     (if recovery \<and> bootstrap then Inl (ASSERT ''!(recovery && bootstrap)'')
      else
        (let d = upd_node job (\<lambda>j. snd (TerminateSuccess j)) d in
         if Status (node_at d job) \<noteq> STATUS_DONE then Inl (EXCEPT ''Node is not in DONE state'')
         else
           bindR
             (if \<not> countedAsDone (node_at d job) then
                (let d = upd_node job (\<lambda>j. j\<lparr>countedAsDone := True\<rparr>) (d\<lparr>d_numNodesDone := d_numNodesDone d + 1\<rparr>) in
                 if \<not> d_numNodesDone d \<le> NumNodes d then Inl (ASSERT ''_numNodesDone <= _jobs.Number()'')
                 else Inr d)
              else Inr d)
             (\<lambda>d. foldR (report_to_child e job recovery bootstrap)
                    (sorted_list_of_set (queues (node_at d job) Q_CHILDREN)) d)))"

definition MAX_SIGNAL :: int where "MAX_SIGNAL = 64"

text \<open>The message of a node whose POST script failed with no retries left.\<close>

definition post_error_message :: "int \<Rightarrow> ULogEvent \<Rightarrow> job \<Rightarrow> string" where
  "post_error_message mainJobRetval event j =
     (if mainJobRetval > 0 then ''Job exited with status '' @ string_of_int mainJobRetval @ '' and ''
      else if mainJobRetval < 0 \<and> mainJobRetval \<ge> - MAX_SIGNAL
      then ''Job died on signal '' @ string_of_int (0 - mainJobRetval) @ '' and ''
      else ''Job failed due to DAGMAN error '' @ string_of_int mainJobRetval @ '' and '') @
     (if ev_normal event then ''POST Script failed with status '' @ string_of_int (ev_returnValue event)
      else ''POST Script died on signal '' @ string_of_int (ev_signalNumber event)) @
     (if retry_max j > 0 then '' (after '' @ string_of_int (retries j) @ '' node retries)'' else '''')"

definition post_failed :: "ULogEvent \<Rightarrow> job \<Rightarrow> job" where
  "post_failed event j =
     (if ev_normal event then
        (snprintf_error (''POST script '' @ take 127 (''failed with status '' @ string_of_int (ev_returnValue event))) j)
          \<lparr>Status := STATUS_ERROR, retval := ev_returnValue event\<rparr>
      else
        (snprintf_error (''POST Script '' @ take 127 (''died on signal '' @ string_of_int (ev_signalNumber event))) j)
          \<lparr>Status := STATUS_ERROR, retval := 0 - ev_signalNumber event\<rparr>)"

definition ProcessPostTermEvent :: "env \<Rightarrow> ULogEvent \<Rightarrow> JobID_t \<Rightarrow> bool \<Rightarrow> Dag \<Rightarrow> Dag res" where
  "ProcessPostTermEvent e event job recovery d =
     bindR (unmonitor_log e job d) (\<lambda>d.
     bindR (if Status (node_at d job) = STATUS_POSTRUN then Inr (d\<lparr>d_postRunNodeCount := d_postRunNodeCount d - 1\<rparr>)
            else if recovery then Inr d else Inl (ASSERT ''recovery'')) (\<lambda>d.
     bindR
       (if \<not> (ev_normal event \<and> ev_returnValue event = 0) then
          (let mainJobRetval = retval (node_at d job);
               d = upd_node job (post_failed event) d
           in if retries (node_at d job) < retry_max (node_at d job) then RestartNode e job recovery d
              else Inr (upd_node job (\<lambda>j. snprintf_error (post_error_message mainJobRetval event j) j)
                          (d\<lparr>d_numNodesFailed := d_numNodesFailed d + 1\<rparr>)))
        else
          TerminateJob e job recovery False (upd_node job (\<lambda>j. j\<lparr>retval := 0\<rparr>) d))
       (CheckForDagAbort job)))"

section \<open>POST scripts\<close>

text \<open>
  The POST reaper writes an event with the identifier the log writer was initialised with; the
  node's status changes when that event is read back. For a Stork node it is handled at once.
\<close>

definition post_event :: "string \<Rightarrow> int \<Rightarrow> int \<Rightarrow> int \<Rightarrow> int \<Rightarrow> ULogEvent" where
  "post_event nodeName status cluster proc subproc =
     (let ev = (make_event ULOG_POST_SCRIPT_TERMINATED (CondorID cluster proc subproc))\<lparr>ev_dagNodeName := Some nodeName\<rparr>
      in if WIFSIGNALED status then ev\<lparr>ev_normal := False, ev_returnValue := -1, ev_signalNumber := status\<rparr>
         else ev\<lparr>ev_normal := True, ev_returnValue := WEXITSTATUS status, ev_signalNumber := -1\<rparr>)"

definition PostScriptReaper :: "env \<Rightarrow> string \<Rightarrow> int \<Rightarrow> Dag \<Rightarrow> Dag res" where
  "PostScriptReaper e nodeName status d =
     bindR (FindNodeByName (Some nodeName) d) (\<lambda>found.
       case found of
         None \<Rightarrow> Inl (ASSERT ''job != NULL'')
       | Some job \<Rightarrow>
           (let j = node_at d job; i = j_CondorID j in
            if Status j \<noteq> STATUS_POSTRUN then Inl (EXCEPT ''Node is not in POSTRUN state'')
            else if jobType j = TYPE_STORK then
              ProcessPostTermEvent e (post_event nodeName status (id_cluster i) (id_proc i) (id_subproc i)) job (d_recovery d) d
            else
              (let procID = if noop j then id_proc i else 0; subprocID = if noop j then id_subproc i else 0 in
               case ask (e_write_ok e) d of (ok, d) \<Rightarrow>
                 if \<not> ok then Inl (Shutdown_Rescue EXIT_ERROR)
                 else Inr (act (A_write_event (post_event nodeName status (id_cluster i) procID subprocID)) d))))"

section \<open>Script queues\<close>

definition script_reaper :: "env \<Rightarrow> bool \<Rightarrow> string \<Rightarrow> int \<Rightarrow> Dag \<Rightarrow> Dag res" where
  "script_reaper e post = (if post then PostScriptReaper e else PreScriptReaper e)"

definition ScriptQ_Run :: "env \<Rightarrow> script_ref \<Rightarrow> Dag \<Rightarrow> (int \<times> Dag) res" where
  "ScriptQ_Run e s = Run_with (script_reaper e (snd s)) e s"

definition ScriptReaper :: "env \<Rightarrow> bool \<Rightarrow> int \<Rightarrow> int \<Rightarrow> Dag \<Rightarrow> Dag res" where
  "ScriptReaper e post = ScriptReaper_with (script_reaper e post) e post"

end
