(* ===== verification/Dag_Events.thy ===== *)
theory Dag_Events
  imports Dag_Engine
begin

text \<open>
  What DAGMan does with the events of the user logs (\<open>condor_dagman/dag.cpp\<close>): finding the node
  of an event, checking the event, one handler per kind of event, the loop that reads events,
  and \<open>Bootstrap\<close>, which replays a log in recovery mode.
\<close>

section \<open>Counters\<close>

definition UpdateJobCounts :: "JobID_t \<Rightarrow> int \<Rightarrow> Dag \<Rightarrow> Dag res" where
  "UpdateJobCounts node change d =
     (let d = d\<lparr>d_numJobsSubmitted := d_numJobsSubmitted d + change\<rparr> in
      if \<not> d_numJobsSubmitted d \<ge> 0 then Inl (ASSERT ''_numJobsSubmitted >= 0'')
      else
        (case throttleInfo (node_at d node) of
           None \<Rightarrow> Inr d
         | Some t \<Rightarrow>
             (let info = d_heap d ! t; info = info\<lparr>th_currentJobs := th_currentJobs info + change\<rparr>;
                  d = d\<lparr>d_heap := (d_heap d)[t := info]\<rparr>
              in if \<not> th_currentJobs info \<ge> 0 then Inl (ASSERT ''_currentJobs >= 0'') else Inr d)))"

definition DecrementJobCounts :: "JobID_t \<Rightarrow> Dag \<Rightarrow> Dag res" where
  "DecrementJobCounts node d =
     (let d = upd_node node (\<lambda>j. j\<lparr>queuedNodeJobProcs := queuedNodeJobProcs j - 1\<rparr>) d in
      if \<not> queuedNodeJobProcs (node_at d node) \<ge> 0 then Inl (ASSERT ''node->_queuedNodeJobProcs >= 0'')
      else if queuedNodeJobProcs (node_at d node) = 0 then UpdateJobCounts node (-1) d
      else Inr d)"

section \<open>The end of job processes\<close>

definition RemoveBatchJob :: "JobID_t \<Rightarrow> Dag \<Rightarrow> Dag" where
  "RemoveBatchJob node d =
     (let j = node_at d node in
      case jobType j of
        TYPE_CONDOR \<Rightarrow> act (A_condor_rm (id_cluster (j_CondorID j))) d
      | TYPE_STORK \<Rightarrow> act (A_stork_rm (id_cluster (j_CondorID j))) d)"

definition ProcessJobProcEnd :: "env \<Rightarrow> JobID_t \<Rightarrow> bool \<Rightarrow> bool \<Rightarrow> Dag \<Rightarrow> Dag res" where
  "ProcessJobProcEnd e job recovery failed d =
     (if d_isSplice d then Inl (ASSERT ''_isSplice == false'')
      else
        bindR (if queuedNodeJobProcs (node_at d job) = 0 then unmonitor_log e job d else Inr d) (\<lambda>d.
          let j = node_at d job in
          if failed \<and> scriptPost j = None \<and> retries j < retry_max j then RestartNode e job recovery d
          else if failed \<and> scriptPost j = None then
            (let d = (if retry_max j > 0 then upd_node job add_retries_text d else d) in
             Inr (if queuedNodeJobProcs j = 0 then d\<lparr>d_numNodesFailed := d_numNodesFailed d + 1\<rparr> else d))
          else if queuedNodeJobProcs j = 0 then
            (if scriptPost j \<noteq> None then
               (let d = upd_node job (\<lambda>j. j\<lparr>Status := STATUS_POSTRUN\<rparr>) d;
                    d = d\<lparr>d_postRunNodeCount := d_postRunNodeCount d + 1\<rparr>
                in bindR (monitor_log e job d) (\<lambda>(_, d).
                     if \<not> recovery then bindR (ScriptQ_Run e (job, True) d) (\<lambda>(_, d). Inr d) else Inr d))
             else if Status j \<noteq> STATUS_ERROR then TerminateJob e job recovery False d
             else Inr d)
          else Inr d))"

text \<open>What the POST script is told of the job's return value.\<close>

definition tell_post_script :: "job \<Rightarrow> job" where
  "tell_post_script j = j\<lparr>scriptPost := map_option (\<lambda>s. s\<lparr>s_retValJob := retval j\<rparr>) (scriptPost j)\<rparr>"

definition proc_string :: "ULogEvent \<Rightarrow> string" where
  "proc_string ev =
     ''('' @ string_of_int (ev_cluster ev) @ ''.'' @ string_of_int (ev_proc ev) @ ''.'' @
     string_of_int (ev_subproc ev) @ '')''"

definition ProcessAbortEvent :: "env \<Rightarrow> ULogEvent \<Rightarrow> JobID_t \<Rightarrow> bool \<Rightarrow> Dag \<Rightarrow> Dag res" where
  "ProcessAbortEvent e event job recovery d =
     bindR (DecrementJobCounts job d) (\<lambda>d.
       let d = (if jobProcsOnHold (node_at d job) > 0 then
                  upd_node job (\<lambda>j. j\<lparr>jobProcsOnHold := jobProcsOnHold j - 1\<rparr>)
                    (d\<lparr>d_numHeldJobProcs := d_numHeldJobProcs d - 1\<rparr>)
                else d);
           d = (if Status (node_at d job) \<noteq> STATUS_ERROR then
                  (let d = upd_node job (\<lambda>j.
                         (snprintf_error (''Condor reported ULOG_JOB_ABORTED event for job proc '' @ proc_string event)
                            (j\<lparr>Status := STATUS_ERROR\<rparr>))\<lparr>retval := DAG_ERROR_CONDOR_JOB_ABORTED\<rparr>) d;
                       d = (if queuedNodeJobProcs (node_at d job) > 0 then RemoveBatchJob job d else d)
                   in upd_node job tell_post_script d)
                else d)
       in ProcessJobProcEnd e job recovery True d)"

definition term_failed :: "ULogEvent \<Rightarrow> job \<Rightarrow> job" where
  "term_failed event j =
     (if ev_normal event then
        tell_post_script
          ((snprintf_error (''Job proc '' @ proc_string event @ '' failed with status '' @
                            string_of_int (ev_returnValue event)) j)\<lparr>retval := ev_returnValue event\<rparr>)
      else
        tell_post_script
          ((snprintf_error (''Job proc '' @ proc_string event @ '' failed with signal '' @
                            string_of_int (ev_signalNumber event)) j)\<lparr>retval := 0 - ev_signalNumber event\<rparr>))"

definition ProcessTerminatedEvent :: "env \<Rightarrow> ULogEvent \<Rightarrow> JobID_t \<Rightarrow> bool \<Rightarrow> Dag \<Rightarrow> Dag res" where
  "ProcessTerminatedEvent e event job recovery d =
     bindR (DecrementJobCounts job d) (\<lambda>d.
       let failed = \<not> (ev_normal event \<and> ev_returnValue event = 0);
           d = (if Status (node_at d job) = STATUS_ERROR then d
                else if failed then
                  (let d = upd_node job (\<lambda>j. (term_failed event j)\<lparr>Status := STATUS_ERROR\<rparr>) d
                   in if queuedNodeJobProcs (node_at d job) > 0 then RemoveBatchJob job d else d)
                else upd_node job (\<lambda>j. tell_post_script (j\<lparr>retval := 0\<rparr>)) d)
       in bindR (if scriptPost (node_at d job) = None then CheckForDagAbort job d else Inr d)
            (ProcessJobProcEnd e job recovery failed))"

section \<open>The other events\<close>

definition ProcessSubmitEvent :: "env \<Rightarrow> JobID_t \<Rightarrow> bool \<Rightarrow> bool \<Rightarrow> Dag \<Rightarrow> Dag res" where
  "ProcessSubmitEvent e job recovery submitEventIsSane d =
     (let d = (if recovery \<and> JobIsNoop (j_CondorID (node_at d job)) then
                 d\<lparr>d_recoveryMaxfakeID := max (d_recoveryMaxfakeID d) (GetIndexID (j_CondorID (node_at d job)))\<rparr>
               else d) in
      if \<not> IsEmpty_queue Q_WAITING (node_at d job) then Inl (DC_Exit EXIT_ERROR)
      else
        (let fresh = (submitEventIsSane \<or> Status (node_at d job) \<noteq> STATUS_SUBMITTED);
             d = (if fresh then upd_node job (\<lambda>j. j\<lparr>queuedNodeJobProcs := queuedNodeJobProcs j + 1\<rparr>) d else d)
         in if recovery then
              bindR (if fresh \<and> queuedNodeJobProcs (node_at d job) = 1 then UpdateJobCounts job 1 d else Inr d)
                (\<lambda>d. Inr (upd_node job (\<lambda>j. j\<lparr>Status := STATUS_SUBMITTED\<rparr>) d))
            else
              (case ask (e_logFileCount e) d of (nlogs, d) \<Rightarrow>
                 if nlogs = 1 \<and> queuedNodeJobProcs (node_at d job) = 1 then
                   (case dequeue (d_submitQ d) of
                      None \<Rightarrow> Inr d
                    | Some (expectedJob, q) \<Rightarrow>
                        if job \<noteq> expectedJob then bindR (enqueue expectedJob q) (\<lambda>q. Inr (d\<lparr>d_submitQ := q\<rparr>))
                        else Inr (d\<lparr>d_submitQ := q\<rparr>))
                 else Inr d)))"

definition ProcessIsIdleEvent :: "JobID_t \<Rightarrow> Dag \<Rightarrow> Dag" where
  "ProcessIsIdleEvent job d =
     (if \<not> isIdle (node_at d job) then
        upd_node job (\<lambda>j. j\<lparr>isIdle := True\<rparr>) (d\<lparr>d_numIdleJobProcs := d_numIdleJobProcs d + 1\<rparr>)
      else d)"

definition ProcessNotIdleEvent :: "JobID_t \<Rightarrow> Dag \<Rightarrow> Dag" where
  "ProcessNotIdleEvent job d =
     (if isIdle (node_at d job) then
        upd_node job (\<lambda>j. j\<lparr>isIdle := False\<rparr>) (d\<lparr>d_numIdleJobProcs := d_numIdleJobProcs d - 1\<rparr>)
      else d)"

definition ProcessHeldEvent :: "JobID_t \<Rightarrow> Dag \<Rightarrow> Dag" where
  "ProcessHeldEvent job d =
     (let d = d\<lparr>d_numHeldJobProcs := d_numHeldJobProcs d + 1\<rparr>;
          d = upd_node job (\<lambda>j. j\<lparr>timesHeld := timesHeld j + 1, jobProcsOnHold := jobProcsOnHold j + 1\<rparr>) d
      in if d_maxJobHolds d > 0 \<and> timesHeld (node_at d job) \<ge> d_maxJobHolds d then RemoveBatchJob job d else d)"

definition ProcessReleasedEvent :: "JobID_t \<Rightarrow> Dag \<Rightarrow> Dag" where
  "ProcessReleasedEvent job d =
     upd_node job (\<lambda>j. j\<lparr>jobProcsOnHold := jobProcsOnHold j - 1\<rparr>)
       (d\<lparr>d_numHeldJobProcs := d_numHeldJobProcs d - 1\<rparr>)"

section \<open>Finding the node of an event\<close>

text \<open>
  \<^verbatim>\<open>sscanf(notes, "DAG Node: %1023s", nodeName)\<close>: white space of the format matches any amount of
  white space, and at most 1023 other characters are read.
\<close>

fun strip_prefix :: "string \<Rightarrow> string \<Rightarrow> string option" where
  "strip_prefix [] s = Some s"
| "strip_prefix (p # ps) [] = None"
| "strip_prefix (p # ps) (c # cs) = (if p = c then strip_prefix ps cs else None)"

definition sscanf_dag_node :: "string \<Rightarrow> string option" where
  "sscanf_dag_node notes =
     (case strip_prefix ''DAG'' notes of
        None \<Rightarrow> None
      | Some s \<Rightarrow>
          (case strip_prefix ''Node:'' (dropWhile isspace s) of
             None \<Rightarrow> None
           | Some s \<Rightarrow>
               (let name = take 1023 (takeWhile (\<lambda>c. \<not> isspace c) (dropWhile isspace s)) in
                if name = '''' then None else Some name)))"

definition SanityCheckSubmitEvent :: "CondorID \<Rightarrow> job \<Rightarrow> Dag \<Rightarrow> bool res" where
  "SanityCheckSubmitEvent condorID node d =
     (if j_CondorID node = default_CondorID then Inr True
      else if id_cluster condorID = id_cluster (j_CondorID node) then Inr True
      else if d_abortOnScarySubmit d then Inl (Shutdown_Rescue EXIT_ERROR)
      else Inr False)"

text \<open>The result: the node, whether a submit event is sane, and the state.\<close>

definition LogEventNodeLookup :: "job_type_t \<Rightarrow> ULogEvent \<Rightarrow> Dag \<Rightarrow> (JobID_t option \<times> bool \<times> Dag) res" where
  "LogEventNodeLookup logsource event d =
     (let condorID = event_id event in
      bindR (if ev_eventNumber event \<noteq> ULOG_SUBMIT then FindNodeByEventID logsource condorID d else Inr None) (\<lambda>found.
        if found \<noteq> None then Inr (found, False, d)
        else if ev_eventNumber event = ULOG_SUBMIT then
          (case ev_submitEventLogNotes event of
             None \<Rightarrow> Inr (None, False, d)
           | Some notes \<Rightarrow>
               (case sscanf_dag_node notes of
                  None \<Rightarrow> Inr (None, False, d)
                | Some nodeName \<Rightarrow>
                    bindR (FindNodeByName (Some nodeName) d) (\<lambda>found.
                      case found of
                        None \<Rightarrow> Inr (None, False, d)
                      | Some node \<Rightarrow>
                          bindR (SanityCheckSubmitEvent condorID (node_at d node) d) (\<lambda>sane.
                            let d = upd_node node (\<lambda>j. j\<lparr>j_CondorID := condorID\<rparr>) d;
                                isNoop = JobIsNoop condorID
                            in if isNoop \<noteq> noop (node_at d node) then Inl (ASSERT ''isNoop == node->GetNoop()'')
                               else
                                 (let i = GetIndexID condorID; ht = GetEventIDHash isNoop logsource d in
                                  case ht i of
                                    None \<Rightarrow> Inr (Some node, sane, set_EventIDHash isNoop logsource (ht(i \<mapsto> node)) d)
                                  | Some tmpNode \<Rightarrow>
                                      if tmpNode \<noteq> node then Inl (ASSERT ''tmpNode == node'')
                                      else Inr (Some node, sane, d))))))
        else if ev_eventNumber event = ULOG_POST_SCRIPT_TERMINATED \<and> ev_cluster event = -1 then
          bindR (FindNodeByName (ev_dagNodeName event) d) (\<lambda>node. Inr (node, False, d))
        else Inr (None, False, d)))"

text \<open>The result: whether the event is sane, and the value of \<open>*result\<close>.\<close>

definition EventSanityCheck :: "job_type_t \<Rightarrow> ULogEvent \<Rightarrow> bool \<Rightarrow> Dag \<Rightarrow> bool \<times> bool \<times> Dag" where
  "EventSanityCheck logsource event result d =
     (let (checkResult, d) =
        (case logsource of
           TYPE_CONDOR \<Rightarrow> (case CheckAnEvent event (d_checkCondorEvents d) of
                             ((_, r), c) \<Rightarrow> (r, d\<lparr>d_checkCondorEvents := c\<rparr>))
         | TYPE_STORK \<Rightarrow> (case CheckAnEvent event (d_checkStorkEvents d) of
                            ((_, r), c) \<Rightarrow> (r, d\<lparr>d_checkStorkEvents := c\<rparr>)))
      in case checkResult of
           EVENT_OKAY \<Rightarrow> (True, result, d)
         | EVENT_WARNING \<Rightarrow> (True, result, d)
         | EVENT_BAD_EVENT \<Rightarrow> (False, result, d)
         | EVENT_ERROR \<Rightarrow> (False, False, d))"

section \<open>Dispatch\<close>

definition dispatch_event :: "env \<Rightarrow> ULogEvent \<Rightarrow> JobID_t \<Rightarrow> bool \<Rightarrow> bool \<Rightarrow> Dag \<Rightarrow> Dag res" where
  "dispatch_event e event job recovery submitEventIsSane d =
     (case ev_eventNumber event of
        ULOG_JOB_ABORTED \<Rightarrow>
          bindR (ProcessAbortEvent e event job recovery d) (\<lambda>d. Inr (ProcessNotIdleEvent job d))
      | ULOG_JOB_TERMINATED \<Rightarrow>
          bindR (ProcessTerminatedEvent e event job recovery d) (\<lambda>d. Inr (ProcessNotIdleEvent job d))
      | ULOG_POST_SCRIPT_TERMINATED \<Rightarrow> ProcessPostTermEvent e event job recovery d
      | ULOG_SUBMIT \<Rightarrow>
          bindR (ProcessSubmitEvent e job recovery submitEventIsSane d) (\<lambda>d. Inr (ProcessIsIdleEvent job d))
      | ULOG_JOB_EVICTED \<Rightarrow> Inr (ProcessIsIdleEvent job d)
      | ULOG_JOB_SUSPENDED \<Rightarrow> Inr (ProcessIsIdleEvent job d)
      | ULOG_SHADOW_EXCEPTION \<Rightarrow> Inr (ProcessIsIdleEvent job d)
      | ULOG_JOB_HELD \<Rightarrow> Inr (ProcessIsIdleEvent job (ProcessHeldEvent job d))
      | ULOG_EXECUTE \<Rightarrow> Inr (ProcessNotIdleEvent job d)
      | ULOG_JOB_RELEASED \<Rightarrow> Inr (ProcessReleasedEvent job d)
      | _ \<Rightarrow> Inr d)"

text \<open>
  The result: the return value (false aborts the DAG), \<open>done\<close>, and the state. \<open>log_unk_count\<close> and
  \<open>ulog_rd_error_count\<close> are the function's static variables.
\<close>

definition ProcessOneEvent ::
  "env \<Rightarrow> job_type_t \<Rightarrow> ULogEventOutcome \<Rightarrow> ULogEvent option \<Rightarrow> bool \<Rightarrow> Dag \<Rightarrow> (bool \<times> bool \<times> Dag) res" where
  "ProcessOneEvent e logsource outcome event recovery d =
     (let d = (if outcome \<noteq> ULOG_UNK_ERROR then d\<lparr>d_log_unk_count := 0\<rparr> else d) in
      case outcome of
        ULOG_NO_EVENT \<Rightarrow> Inr (True, True, d)
      | ULOG_RD_ERROR \<Rightarrow>
          (let d = d\<lparr>d_ulog_rd_error_count := d_ulog_rd_error_count d + 1\<rparr>
           in Inr (\<not> d_ulog_rd_error_count d \<ge> 10, True, d))
      | ULOG_UNK_ERROR \<Rightarrow>
          (let d = d\<lparr>d_log_unk_count := d_log_unk_count d + 1\<rparr>
           in Inr (\<not> (recovery \<or> d_log_unk_count d \<ge> 5), True, d))
      | ULOG_OK \<Rightarrow>
          (case event of
             None \<Rightarrow> Inl (ASSERT ''event != NULL'')
           | Some ev \<Rightarrow>
               bindR (LogEventNodeLookup logsource ev d) (\<lambda>(found, submitEventIsSane, d).
                 case found of
                   None \<Rightarrow> Inr (True, False, d)
                 | Some job \<Rightarrow>
                     (case EventSanityCheck logsource ev True d of (sane, result, d) \<Rightarrow>
                        if \<not> sane then Inr (result, False, d)
                        else
                          bindR (dispatch_event e ev job recovery submitEventIsSane (d\<lparr>d_statusFileOutdated := True\<rparr>))
                            (\<lambda>d. Inr (result, False, d)))))
      | ULOG_MISSED_EVENT \<Rightarrow> Inr (True, False, d))"

text \<open>
  The reading loop ends when the log reader has no more events. \<open>None\<close> is a loop that never ends.
\<close>

partial_function (option) ProcessLogEvents ::
  "env \<Rightarrow> job_type_t \<Rightarrow> bool \<Rightarrow> bool \<Rightarrow> Dag \<Rightarrow> (bool \<times> Dag) res option" where
  "ProcessLogEvents e logsource recovery result d =
     (case ask (e_readEvent e) d of ((outcome, ev), d) \<Rightarrow>
        case ProcessOneEvent e logsource outcome ev recovery d of
          Inl x \<Rightarrow> Some (Inl x)
        | Inr (tmpResult, done, d) \<Rightarrow>
            if done then Some (Inr (result \<and> tmpResult, d))
            else ProcessLogEvents e logsource recovery (result \<and> tmpResult) d)"

declare ProcessLogEvents.simps [code]

section \<open>Bootstrap\<close>

definition terminate_done :: "env \<Rightarrow> JobID_t \<Rightarrow> Dag \<Rightarrow> Dag res" where
  "terminate_done e i d =
     (if Status (node_at d i) = STATUS_DONE then TerminateJob e i False True d else Inr d)"

definition start_ready :: "env \<Rightarrow> JobID_t \<Rightarrow> Dag \<Rightarrow> Dag res" where
  "start_ready e i d =
     (if Status (node_at d i) = STATUS_READY \<and> IsEmpty_queue Q_WAITING (node_at d i) then StartNode e i False d
      else Inr d)"

text \<open>The two loops of recovery mode stop at the first log file that cannot be monitored.\<close>

fun monitor_ready :: "env \<Rightarrow> JobID_t list \<Rightarrow> Dag \<Rightarrow> (bool \<times> Dag) res" where
  "monitor_ready e [] d = Inr (True, d)"
| "monitor_ready e (i # is) d =
     (if CanSubmit (node_at d i) then
        bindR (monitor_log e i d) (\<lambda>(ok, d). if \<not> ok then Inr (False, d) else monitor_ready e is d)
      else monitor_ready e is d)"

fun run_stuck_posts :: "env \<Rightarrow> JobID_t list \<Rightarrow> Dag \<Rightarrow> (bool \<times> Dag) res" where
  "run_stuck_posts e [] d = Inr (True, d)"
| "run_stuck_posts e (i # is) d =
     (if Status (node_at d i) = STATUS_POSTRUN then
        bindR (monitor_log e i d) (\<lambda>(ok, d).
          if \<not> ok then Inr (False, d)
          else bindR (ScriptQ_Run e (i, True) d) (\<lambda>(_, d). run_stuck_posts e is d))
      else run_stuck_posts e is d)"

text \<open>\<open>set_fake_condorID\<close> sets the static counter of \<open>dagman_submit.cpp\<close>.\<close>

definition set_fake_condorID :: "int \<Rightarrow> Dag \<Rightarrow> Dag" where
  "set_fake_condorID i d = d\<lparr>d_subprocID := i\<rparr>"

definition replay_log :: "env \<Rightarrow> job_type_t \<Rightarrow> Dag \<Rightarrow> (bool \<times> Dag) res option" where
  "replay_log e logsource d =
     (case ask (e_logFileCount e) d of (nlogs, d) \<Rightarrow>
        if nlogs > 0 then ProcessLogEvents e logsource True True d else Some (Inr (True, d)))"

text \<open>\<open>bindO\<close> sequences steps that may also run forever.\<close>

definition bindO :: "'a res option \<Rightarrow> ('a \<Rightarrow> 'b res option) \<Rightarrow> 'b res option" where
  "bindO r f = (case r of None \<Rightarrow> None | Some (Inl x) \<Rightarrow> Some (Inl x) | Some (Inr y) \<Rightarrow> f y)"

definition recover :: "env \<Rightarrow> Dag \<Rightarrow> (bool \<times> Dag) res option" where
  "recover e d =
     bindO (Some (monitor_ready e (d_jobs d) d)) (\<lambda>(ok, d).
       if \<not> ok then Some (Inr (False, d))
       else bindO (replay_log e TYPE_CONDOR d) (\<lambda>(ok, d).
         if \<not> ok then Some (Inr (False, d\<lparr>d_recovery := False\<rparr>))
         else bindO (replay_log e TYPE_STORK d) (\<lambda>(ok, d).
           if \<not> ok then Some (Inr (False, d\<lparr>d_recovery := False\<rparr>))
           else bindO (Some (run_stuck_posts e (d_jobs d) d)) (\<lambda>(ok, d).
             if \<not> ok then Some (Inr (False, d))
             else Some (Inr (True, (set_fake_condorID (d_recoveryMaxfakeID d) d)\<lparr>d_recovery := False\<rparr>))))))"

definition Bootstrap :: "env \<Rightarrow> bool \<Rightarrow> Dag \<Rightarrow> (bool \<times> Dag) res option" where
  "Bootstrap e recovery d =
     (if d_isSplice d then Some (Inl (ASSERT ''_isSplice == false''))
      else
        bindO (Some (foldR (terminate_done e) (d_jobs d) d)) (\<lambda>d.
        bindO (if recovery then recover e (d\<lparr>d_recovery := True\<rparr>) else Some (Inr (True, d))) (\<lambda>(ok, d).
          if \<not> ok then Some (Inr (False, d))
          else bindO (Some (foldR (start_ready e) (d_jobs d) d)) (\<lambda>d. Some (Inr (True, d))))))"

end
