(* ===== verification/Dag_Submit.thy ===== *)
theory Dag_Submit
  imports Dag_Events
begin

text \<open>
  Submitting nodes (\<open>SubmitReadyJobs\<close> and what it calls in \<open>condor_dagman/dag.cpp\<close>, and the
  submission of NOOP nodes in \<open>dagman_submit.cpp\<close>), removing what runs when DAGMan is removed,
  and the final check of the events. The submit commands themselves are answers of \<open>env\<close>.
\<close>

record Dagman =
  dm_submit_delay :: int
  dm_max_submit_attempts :: int
  dm_max_submits_per_interval :: int
  dm_DAGManJobId :: CondorID
  dm_paused :: bool
  dm_rescueFileToWrite :: "string option"
  dm_primaryDagFile :: string
  dm_multiDags :: bool
  dm_maxRescueDagNum :: int
  dm_startup_cycle_detect :: bool
  dm_dumpRescueDag :: bool
  dm_abortDuplicates :: bool
  dm_lockFileName :: string

datatype submit_result_t = SUBMIT_RESULT_OK | SUBMIT_RESULT_FAILED | SUBMIT_RESULT_NO_SUBMIT

section \<open>Submitting one node\<close>

definition noop_submit_event :: "CondorID \<Rightarrow> string \<Rightarrow> ULogEvent" where
  "noop_submit_event condorID DAGNodeName =
     (make_event ULOG_SUBMIT condorID)\<lparr>ev_submitEventLogNotes := Some (''DAG Node: '' @ DAGNodeName)\<rparr>"

definition noop_term_event :: "CondorID \<Rightarrow> ULogEvent" where
  "noop_term_event condorID =
     (make_event ULOG_JOB_TERMINATED condorID)\<lparr>ev_normal := True, ev_returnValue := 0, ev_signalNumber := 0\<rparr>"

text \<open>
  The identifier is the argument passed by reference; it is left alone when the directory
  cannot be entered.
\<close>

definition fake_condor_submit :: "env \<Rightarrow> CondorID \<Rightarrow> string \<Rightarrow> Dag \<Rightarrow> (bool \<times> CondorID \<times> Dag) res" where
  "fake_condor_submit e condorID DAGNodeName d =
     (case ask (e_cd_ok e) d of (ok, d) \<Rightarrow>
        if \<not> ok then Inr (False, condorID, d)
        else
          (let d = d\<lparr>d_subprocID := d_subprocID d + 1\<rparr>;
               condorID = CondorID 0 NOOP_NODE_PROCID (d_subprocID d)
           in case ask (e_write_ok e) d of (ok, d) \<Rightarrow>
                if \<not> ok then Inl (EXCEPT ''Error: writing dummy submit event for NOOP node failed!'')
                else
                  (let d = act (A_write_event (noop_submit_event condorID DAGNodeName)) d in
                   case ask (e_write_ok e) d of (ok, d) \<Rightarrow>
                     if \<not> ok then Inl (EXCEPT ''Error: writing dummy terminated event for NOOP node failed!'')
                     else Inr (True, condorID, act (A_write_event (noop_term_event condorID)) d))))"

text \<open>\<open>condor_submit\<close> and \<open>stork_submit\<close> run a command; they set the identifier when they succeed.\<close>

definition submit_command :: "env \<Rightarrow> JobID_t \<Rightarrow> CondorID \<Rightarrow> Dag \<Rightarrow> bool \<times> CondorID \<times> Dag" where
  "submit_command e node condorID d =
     (case ask (e_submit e) (act (A_submit node) d) of ((ok, i), d) \<Rightarrow> (ok, if ok then i else condorID, d))"

definition do_submit :: "env \<Rightarrow> JobID_t \<Rightarrow> CondorID \<Rightarrow> Dag \<Rightarrow> (bool \<times> CondorID \<times> Dag) res" where
  "do_submit e node condorID d =
     (let d = upd_node node (\<lambda>j. j\<lparr>submitTries := submitTries j + 1\<rparr>) d; j = node_at d node in
      if noop j then fake_condor_submit e condorID (jobName j) d
      else
        (case jobType j of
           TYPE_CONDOR \<Rightarrow> bindR (ParentListString node CHR '','' d) (\<lambda>_. Inr (submit_command e node condorID d))
         | TYPE_STORK \<Rightarrow> Inr (submit_command e node condorID d)))"

definition forget_old_id :: "JobID_t \<Rightarrow> CondorID \<Rightarrow> Dag \<Rightarrow> Dag res" where
  "forget_old_id node condorID d =
     (let j = node_at d node in
      bindR
        (if id_cluster (j_CondorID j) \<noteq> id_cluster default_CondorID then
           if JobIsNoop condorID \<noteq> noop j then Inl (ASSERT ''JobIsNoop( condorID ) == node->GetNoop()'')
           else
             (let ht = GetEventIDHash (noop j) (jobType j) d; i = GetIndexID (j_CondorID j) in
              if ht i = None then Inl (ASSERT ''removeResult == 0'')
              else Inr (set_EventIDHash (noop j) (jobType j) (ht(i := None)) d))
         else Inr d)
        (\<lambda>d. Inr (upd_node node (\<lambda>j. j\<lparr>j_CondorID := default_CondorID\<rparr>) d)))"

text \<open>A nested DAG has its submit file written first.\<close>

definition run_submit_dag :: "env \<Rightarrow> JobID_t \<Rightarrow> Dag \<Rightarrow> int \<times> Dag" where
  "run_submit_dag e node d =
     (let j = node_at d node in
      if jobType j = TYPE_CONDOR \<and> \<not> noop j \<and> dagFile j \<noteq> None \<and> d_generateSubdagSubmits d
      then ask (e_runSubmitDag e) d else (0, d))"

text \<open>The submit file of a Stork job must name a log file.\<close>

definition missing_log_file :: "env \<Rightarrow> JobID_t \<Rightarrow> Dag \<Rightarrow> bool \<times> Dag" where
  "missing_log_file e node d =
     (if \<not> d_allowLogError d \<and> jobType (node_at d node) = TYPE_STORK
      then (case ask (e_has_log_file e) d of (has_log, d) \<Rightarrow> (\<not> has_log, d)) else (False, d))"

definition no_log_error :: "job \<Rightarrow> job" where
  "no_log_error j =
     snprintf_error (''No 'log =' value found in submit file '' @ cmdFile j) (j\<lparr>Status := STATUS_ERROR\<rparr>)"

definition SubmitNodeJob ::
  "env \<Rightarrow> Dagman \<Rightarrow> JobID_t \<Rightarrow> CondorID \<Rightarrow> Dag \<Rightarrow> (submit_result_t \<times> CondorID \<times> Dag) res" where
  "SubmitNodeJob e dm node condorID d =
     bindR (forget_old_id node condorID d) (\<lambda>d.
       case run_submit_dag e node (if dm_submit_delay dm \<noteq> 0 then act (A_sleep (dm_submit_delay dm)) d else d) of (subdag, d) \<Rightarrow>
         if subdag \<noteq> 0 then Inr (SUBMIT_RESULT_NO_SUBMIT, condorID, d)
         else
           bindR (monitor_log e node d) (\<lambda>(ok, d).
             if \<not> ok then Inr (SUBMIT_RESULT_NO_SUBMIT, condorID, d)
             else
               (case missing_log_file e node d of (missing, d) \<Rightarrow>
                  if missing then
                    (let d = upd_node node no_log_error d
                     in Inr (SUBMIT_RESULT_NO_SUBMIT, condorID, d\<lparr>d_numNodesFailed := d_numNodesFailed d + 1\<rparr>))
                  else
                    bindR (do_submit e node condorID d) (\<lambda>(submit_success, condorID, d).
                      Inr (if submit_success then SUBMIT_RESULT_OK else SUBMIT_RESULT_FAILED, condorID, d)))))"

definition ProcessSuccessfulSubmit :: "JobID_t \<Rightarrow> CondorID \<Rightarrow> Dag \<Rightarrow> Dag res" where
  "ProcessSuccessfulSubmit node condorID d =
     bindR (enqueue node (d_submitQ d)) (\<lambda>q.
       let d = d\<lparr>d_nextSubmitTime := 0, d_nextSubmitDelay := 1, d_submitQ := q\<rparr>;
           d = upd_node node (\<lambda>j. j\<lparr>Status := STATUS_SUBMITTED\<rparr>) d
       in bindR (UpdateJobCounts node 1 d) (\<lambda>d.
            let d = upd_node node (\<lambda>j. j\<lparr>j_CondorID := condorID\<rparr>) d; j = node_at d node in
            if JobIsNoop (j_CondorID j) \<noteq> noop j then Inl (ASSERT ''JobIsNoop( node->_CondorID ) == node->GetNoop()'')
            else
              (let ht = GetEventIDHash (noop j) (jobType j) d; i = GetIndexID (j_CondorID j) in
               if ht i \<noteq> None then Inl (ASSERT ''insertResult == 0'')
               else Inr (set_EventIDHash (noop j) (jobType j) (ht(i \<mapsto> node)) d))))"

definition ProcessFailedSubmit :: "env \<Rightarrow> JobID_t \<Rightarrow> int \<Rightarrow> Dag \<Rightarrow> Dag res" where
  "ProcessFailedSubmit e node max_submit_attempts d =
     (if d_isSplice d then Inl (ASSERT ''_isSplice == false'')
      else
        (case ask (e_time e) d of (now, d) \<Rightarrow>
           let d = d\<lparr>d_nextSubmitTime := now + d_nextSubmitDelay d, d_nextSubmitDelay := d_nextSubmitDelay d * 2\<rparr> in
           bindR (unmonitor_log e node d) (\<lambda>d.
             if submitTries (node_at d node) \<ge> max_submit_attempts then
               (let d = d\<lparr>d_nextSubmitTime := 0, d_nextSubmitDelay := 1\<rparr>;
                    d = upd_node node (\<lambda>j. (snprintf_error ''Job submit failed'' j)\<lparr>retries := retry_max j\<rparr>) d
                in if scriptPost (node_at d node) \<noteq> None then
                     (let d = upd_node node (\<lambda>j. j\<lparr>Status := STATUS_POSTRUN,
                            scriptPost := map_option (\<lambda>s. s\<lparr>s_retValJob := DAG_ERROR_CONDOR_SUBMIT_FAILED\<rparr>) (scriptPost j)\<rparr>) d;
                          d = d\<lparr>d_postRunNodeCount := d_postRunNodeCount d + 1\<rparr>
                      in bindR (monitor_log e node d) (\<lambda>(_, d).
                         bindR (ScriptQ_Run e (node, True) d) (\<lambda>(_, d). Inr d)))
                   else Inr (upd_node node (\<lambda>j. j\<lparr>Status := STATUS_ERROR\<rparr>)
                          (d\<lparr>d_numNodesFailed := d_numNodesFailed d + 1\<rparr>)))
             else
               (let p = - nodePriority (node_at d node) in
                if d_retrySubmitFirst d then Inr (d\<lparr>d_readyQ := Prepend node p (d_readyQ d)\<rparr>)
                else Inr (d\<lparr>d_readyQ := Append node p (d_readyQ d)\<rparr>)))))"

section \<open>The submit cycle\<close>

text \<open>The three ways one turn of the loop ends: the loop is left, or it goes on.\<close>

datatype turn = Leave | Go_on

text \<open>The variables of the loop.\<close>

record submit_vars =
  v_deferredJobs :: "JobID_t PrioritySimpleList"
  v_numSubmitsThisCycle :: int
  v_didLogSleep :: bool

definition deferred_by_throttle :: "JobID_t \<Rightarrow> Dag \<Rightarrow> bool" where
  "deferred_by_throttle job d =
     (case throttleInfo (node_at d job) of
        None \<Rightarrow> False
      | Some t \<Rightarrow> isSet (d_heap d ! t) \<and> th_currentJobs (d_heap d ! t) \<ge> th_maxJobs (d_heap d ! t))"

definition submit_job :: "env \<Rightarrow> Dagman \<Rightarrow> JobID_t \<Rightarrow> submit_vars \<Rightarrow> Dag \<Rightarrow> (turn \<times> submit_vars \<times> Dag) res" where
  "submit_job e dm job v d =
     (let (v, d) = (if dm_submit_delay dm = 0 \<and> \<not> v_didLogSleep v
                    then (v\<lparr>v_didLogSleep := True\<rparr>, act (A_sleep 1) d) else (v, d))
      in bindR (SubmitNodeJob e dm job (CondorID 0 0 0) d) (\<lambda>(submit_result, condorID, d).
           case submit_result of
             SUBMIT_RESULT_OK \<Rightarrow>
               bindR (ProcessSuccessfulSubmit job condorID d) (\<lambda>d.
                 Inr (Go_on, v\<lparr>v_numSubmitsThisCycle := v_numSubmitsThisCycle v + 1\<rparr>, d))
           | SUBMIT_RESULT_FAILED \<Rightarrow>
               bindR (ProcessFailedSubmit e job (dm_max_submit_attempts dm) d) (\<lambda>d. Inr (Leave, v, d))
           | SUBMIT_RESULT_NO_SUBMIT \<Rightarrow> Inr (Go_on, v, d)))"

definition submit_turn :: "env \<Rightarrow> Dagman \<Rightarrow> submit_vars \<Rightarrow> Dag \<Rightarrow> (turn \<times> submit_vars \<times> Dag) res" where
  "submit_turn e dm v d =
     (if IsEmpty (d_readyQ d) then Inr (Leave, v, d)
      else if d_maxJobsSubmitted d \<noteq> 0 \<and> d_numJobsSubmitted d \<ge> d_maxJobsSubmitted d then
        Inr (Leave, v, d\<lparr>d_maxJobsDeferredCount := d_maxJobsDeferredCount d + Number (d_readyQ d)\<rparr>)
      else if d_maxIdleJobProcs d \<noteq> 0 \<and> d_numIdleJobProcs d \<ge> d_maxIdleJobProcs d then
        Inr (Leave, v, d\<lparr>d_maxIdleDeferredCount := d_maxIdleDeferredCount d + Number (d_readyQ d)\<rparr>)
      else
        (case take_first (d_readyQ d) of
           (None, q) \<Rightarrow> Inl (ASSERT ''job != NULL'')
         | (Some job, q) \<Rightarrow>
             (let d = d\<lparr>d_readyQ := q\<rparr> in
              if Status (node_at d job) \<noteq> STATUS_READY then Inl (EXCEPT ''Job status is not STATUS_READY'')
              else if deferred_by_throttle job d then
                Inr (Go_on, v\<lparr>v_deferredJobs := Prepend job (- nodePriority (node_at d job)) (v_deferredJobs v)\<rparr>,
                     d\<lparr>d_catThrottleDeferredCount := d_catThrottleDeferredCount d + 1\<rparr>)
              else submit_job e dm job v d)))"

text \<open>
  The loop removes one node from the ready queue in every turn it does not leave at, so it ends
  after at most as many turns as nodes are ready; \<open>n\<close> counts them.
\<close>

fun submit_loop :: "nat \<Rightarrow> env \<Rightarrow> Dagman \<Rightarrow> submit_vars \<Rightarrow> Dag \<Rightarrow> (submit_vars \<times> Dag) res option" where
  "submit_loop n e dm v d =
     (if \<not> v_numSubmitsThisCycle v < dm_max_submits_per_interval dm then Some (Inr (v, d))
      else
        (case submit_turn e dm v d of
           Inl x \<Rightarrow> Some (Inl x)
         | Inr (Leave, v, d) \<Rightarrow> Some (Inr (v, d))
         | Inr (Go_on, v, d) \<Rightarrow> (case n of 0 \<Rightarrow> None | Suc m \<Rightarrow> submit_loop m e dm v d)))"

declare submit_loop.simps [simp del]

text \<open>The deferred jobs, in the order of their list, go back to the front of the ready queue.\<close>

function return_deferred :: "JobID_t PrioritySimpleList \<Rightarrow> Dag \<Rightarrow> Dag" where
  "return_deferred q d =
     (case Next q of
        (None, q) \<Rightarrow> d
      | (Some job, q) \<Rightarrow>
          return_deferred q (d\<lparr>d_readyQ := Prepend job (- nodePriority (node_at d job)) (d_readyQ d)\<rparr>))"
  by pat_completeness auto
termination
  by (relation "measure (\<lambda>(q, d). nat (int (sl_size q) - sl_current q))")
    (auto simp: Next_def split: if_splits)

declare return_deferred.simps [simp del]

definition SubmitReadyJobs :: "env \<Rightarrow> Dagman \<Rightarrow> Dag \<Rightarrow> (int \<times> Dag) res option" where
  "SubmitReadyJobs e dm d =
     (let (now, d) = (if d_nextSubmitTime d \<noteq> 0 then ask (e_time e) d else (0, d)) in
      if d_nextSubmitTime d \<noteq> 0 \<and> now < d_nextSubmitTime d then Some (Inr (0, act (A_sleep 1) d))
      else
        bindO (submit_loop (nat (Number (d_readyQ d))) e dm
                 \<lparr>v_deferredJobs = new_PrioritySimpleList, v_numSubmitsThisCycle = 0, v_didLogSleep = False\<rparr> d)
          (\<lambda>(v, d). Some (Inr (v_numSubmitsThisCycle v, return_deferred (Rewind (v_deferredJobs v)) d))))"

section \<open>Removing and final checks\<close>

definition remove_stork :: "JobID_t \<Rightarrow> Dag \<Rightarrow> Dag" where
  "remove_stork i d =
     (let job = node_at d i in
      if jobType job = TYPE_STORK \<and> Status job = STATUS_SUBMITTED then act (A_stork_rm (id_cluster (j_CondorID job))) d
      else d)"

definition RemoveRunningJobs :: "Dagman \<Rightarrow> Dag \<Rightarrow> Dag" where
  "RemoveRunningJobs dm d =
     (let haveCondorJob = (\<exists>i \<in> set (d_jobs d). jobType (node_at d i) = TYPE_CONDOR);
          d = (if haveCondorJob then act (A_condor_rm_all (id_cluster (dm_DAGManJobId dm))) d else d)
      in fold remove_stork (d_jobs d) d)"

definition kill_script :: "JobID_t \<Rightarrow> Dag \<Rightarrow> Dag res" where
  "kill_script i d =
     (let job = node_at d i in
      if Status job = STATUS_PRERUN then
        (case scriptPre job of
           None \<Rightarrow> Inl (EXCEPT ''Node has no PRE script!'')
         | Some s \<Rightarrow> Inr (if s_pid s \<noteq> 0 then act (A_kill (s_pid s)) d else d))
      else if Status job = STATUS_POSTRUN then
        (case scriptPost job of
           None \<Rightarrow> Inl (EXCEPT ''Node has no POST script!'')
         | Some s \<Rightarrow> Inr (if s_pid s \<noteq> 0 then act (A_kill (s_pid s)) d else d))
      else Inr d)"

definition RemoveRunningScripts :: "Dag \<Rightarrow> Dag res" where
  "RemoveRunningScripts d = foldR kill_script (d_jobs d) d"

definition CheckAllJobs_dag :: "Dag \<Rightarrow> Dag res" where
  "CheckAllJobs_dag d =
     (case CheckAllJobs (d_checkCondorEvents d) of ((_, result), c) \<Rightarrow>
        if result = EVENT_ERROR then Inl (ASSERT ''false'')
        else
          (let d = d\<lparr>d_checkCondorEvents := c\<rparr> in
           case CheckAllJobs (d_checkStorkEvents d) of ((_, result), c) \<Rightarrow>
             if result = EVENT_ERROR then Inl (ASSERT ''false'') else Inr (d\<lparr>d_checkStorkEvents := c\<rparr>)))"

section \<open>A sample world\<close>

text \<open>A world where every command succeeds and the logs stay empty, and default settings.\<close>

definition sample_env :: env where
  "sample_env =
     \<lparr>e_time = (\<lambda>_. 1000),
      e_log = (\<lambda>_. \<lparr>la_submit_log = ''b.log'', la_submit_xml = False, la_stork_error = '''', la_stork_logs = [],
        la_nfs_error = False, la_monitor_ok = True, la_unmonitor_ok = True\<rparr>),
      e_spawn = (\<lambda>_. \<lparr>sa_cd_ok = True, sa_pid = 42, sa_back_ok = True\<rparr>),
      e_submit = (\<lambda>_. (True, CondorID 7 0 0)), e_cd_ok = (\<lambda>_. True), e_write_ok = (\<lambda>_. True),
      e_runSubmitDag = (\<lambda>_. 0), e_has_log_file = (\<lambda>_. True), e_logFileCount = (\<lambda>_. 0),
      e_readEvent = (\<lambda>_. (ULOG_NO_EVENT, None)), e_exception_string = (\<lambda>_. ''signal''),
      e_log_grown = (\<lambda>_. False), e_access = (\<lambda>_ _. False), e_fopen_ok = (\<lambda>_. True),
      e_rename_ok = (\<lambda>_ _. True), e_reset_retries = (\<lambda>_. True),
      e_gmtime = (\<lambda>_. \<lparr>tm_sec = 0, tm_min = 0, tm_hour = 12, tm_mday = 1, tm_mon = 0, tm_year = 111\<rparr>),
      e_lock_in_use = (\<lambda>_. False)\<rparr>"

definition sample_dm :: Dagman where
  "sample_dm = \<lparr>dm_submit_delay = 0, dm_max_submit_attempts = 6, dm_max_submits_per_interval = 5,
     dm_DAGManJobId = CondorID 1 0 0, dm_paused = False, dm_rescueFileToWrite = None, dm_primaryDagFile = ''d.dag'',
     dm_multiDags = False, dm_maxRescueDagNum = 100, dm_startup_cycle_detect = False, dm_dumpRescueDag = False,
     dm_abortDuplicates = True, dm_lockFileName = ''d.dag.lock''\<rparr>"

end
