(* ===== verification/Dag_Run.thy ===== *)
theory Dag_Run
  imports Dag_Submit
begin

text \<open>
  The invariant of a running DAG and its preservation by every operation of the engine, whatever
  the log files, the scripts and the submit commands answer.

  \<^item> \<open>run_ok\<close> is the invariant: the tables and the graph are consistent, a node stops waiting for
    a parent only when that parent has been counted as done, the ready queue is sorted and holds
    only nodes that wait for nothing, the count of done nodes is exact, retries stay within
    their limit, and the queues of scripts and submits are well formed.
  \<^item> \<open>grows g d\<close> says how a later state \<open>d\<close> relates to an earlier state \<open>g\<close>: same nodes and
    edges, waiting sets only shrink, done marks and retries are never taken back, time and
    trace go forward.
\<close>

section \<open>Definitions\<close>

definition node_kept :: "job \<Rightarrow> job \<Rightarrow> bool" where
  "node_kept j j' \<longleftrightarrow>
     jobID j' = jobID j \<and> jobName j' = jobName j \<and> retry_max j' = retry_max j \<and> nodePriority j' = nodePriority j \<and>
     queues j' Q_PARENTS = queues j Q_PARENTS \<and> queues j' Q_CHILDREN = queues j Q_CHILDREN \<and>
     queues j' Q_WAITING \<subseteq> queues j Q_WAITING \<and> (countedAsDone j \<longrightarrow> countedAsDone j') \<and> retries j \<le> retries j' \<and>
     (scriptPre j' = None \<longleftrightarrow> scriptPre j = None) \<and> (scriptPost j' = None \<longleftrightarrow> scriptPost j = None)"

definition grows :: "Dag \<Rightarrow> Dag \<Rightarrow> bool" where
  "grows g d \<longleftrightarrow>
     dom (d_nodes d) = dom (d_nodes g) \<and> d_jobs d = d_jobs g \<and> d_nodeIDHash d = d_nodeIDHash g \<and>
     d_nodeNameHash d = d_nodeNameHash g \<and> d_isSplice d = d_isSplice g \<and> d_tick g \<le> d_tick d \<and>
     d_maxPreScripts d = d_maxPreScripts g \<and> d_maxPostScripts d = d_maxPostScripts g \<and>
     (\<exists>t. d_trace d = d_trace g @ t) \<and> (\<forall>i \<in> dom (d_nodes g). node_kept (node_at g i) (node_at d i))"

definition ready_ok :: "Dag \<Rightarrow> bool" where
  "ready_ok d \<longleftrightarrow> pl_invar (d_readyQ d) \<and>
     (\<forall>i \<in> snd ` set (entries (d_readyQ d)). i \<in> dom (d_nodes d) \<and> queue_of d i Q_WAITING = {})"

definition done_before :: "Dag \<Rightarrow> bool" where
  "done_before d \<longleftrightarrow>
     (\<forall>i \<in> dom (d_nodes d). queue_of d i Q_WAITING \<subseteq> queue_of d i Q_PARENTS \<and>
        (\<forall>p \<in> queue_of d i Q_PARENTS - queue_of d i Q_WAITING. countedAsDone (node_at d p)))"

definition counts_ok :: "Dag \<Rightarrow> bool" where
  "counts_ok d \<longleftrightarrow> set (d_jobs d) = dom (d_nodes d) \<and>
     d_numNodesDone d = int (card {i \<in> set (d_jobs d). countedAsDone (node_at d i)}) \<and>
     (\<forall>i \<in> dom (d_nodes d). retries (node_at d i) \<le> retry_max (node_at d i))"

definition sq_ok :: "Dag \<Rightarrow> bool \<Rightarrow> ScriptQ \<Rightarrow> bool" where
  "sq_ok d post q \<longleftrightarrow> queue_invar (sq_waitingQueue q) \<and>
     (\<forall>s \<in> set (queue_list (sq_waitingQueue q)) \<union> snd ` set (sq_scriptPidTable q).
        fst s \<in> dom (d_nodes d) \<and> snd s = post \<and> (\<not> post \<longrightarrow> queue_of d (fst s) Q_WAITING = {}))"

definition ids_ok :: "Dag \<Rightarrow> bool" where
  "ids_ok d \<longleftrightarrow> ran (d_condorIDHash d) \<union> ran (d_storkIDHash d) \<union> ran (d_noopIDHash d) \<subseteq> dom (d_nodes d)"

text \<open>What was done so far: only nodes that wait for nothing were submitted, or had their PRE script started.\<close>

fun act_ok :: "(JobID_t \<rightharpoonup> job) \<Rightarrow> action \<Rightarrow> bool" where
  "act_ok m (A_submit i) \<longleftrightarrow> i \<in> dom m \<and> queues (the (m i)) Q_WAITING = {}"
| "act_ok m (A_spawn i post prog args) \<longleftrightarrow> i \<in> dom m \<and> (\<not> post \<longrightarrow> queues (the (m i)) Q_WAITING = {})"
| "act_ok m _ \<longleftrightarrow> True"

definition trace_ok :: "Dag \<Rightarrow> bool" where
  "trace_ok d \<longleftrightarrow> (\<forall>a \<in> set (d_trace d). act_ok (d_nodes d) a)"

definition run_ok :: "Dag \<Rightarrow> bool" where
  "run_ok d \<longleftrightarrow> store_ok d \<and> symmetric_deps d \<and> done_before d \<and> ready_ok d \<and> counts_ok d \<and> ids_ok d \<and>
     sq_ok d False (d_preScriptQ d) \<and> sq_ok d True (d_postScriptQ d) \<and> queue_invar (d_submitQ d) \<and> trace_ok d"

definition run_from :: "Dag \<Rightarrow> Dag \<Rightarrow> bool" where
  "run_from g d \<longleftrightarrow> grows g d \<and> run_ok d"

lemmas run_defs = run_from_def grows_def run_ok_def store_ok_def symmetric_deps_def done_before_def ready_ok_def
  counts_ok_def ids_ok_def sq_ok_def trace_ok_def

section \<open>Changes that leave the invariant alone\<close>

lemma node_at_frame [simp]:
  "node_at (d\<lparr>d_numNodesFailed := n\<rparr>) = node_at d" "node_at (d\<lparr>d_numJobsSubmitted := n\<rparr>) = node_at d"
  "node_at (d\<lparr>d_numIdleJobProcs := n\<rparr>) = node_at d" "node_at (d\<lparr>d_numHeldJobProcs := n\<rparr>) = node_at d"
  "node_at (d\<lparr>d_preRunNodeCount := n\<rparr>) = node_at d" "node_at (d\<lparr>d_postRunNodeCount := n\<rparr>) = node_at d"
  "node_at (d\<lparr>d_checkCondorEvents := c\<rparr>) = node_at d" "node_at (d\<lparr>d_checkStorkEvents := c\<rparr>) = node_at d"
  "node_at (d\<lparr>d_maxJobsDeferredCount := n\<rparr>) = node_at d" "node_at (d\<lparr>d_maxIdleDeferredCount := n\<rparr>) = node_at d"
  "node_at (d\<lparr>d_catThrottleDeferredCount := n\<rparr>) = node_at d" "node_at (d\<lparr>d_recoveryMaxfakeID := n\<rparr>) = node_at d"
  "node_at (d\<lparr>d_nextSubmitTime := n\<rparr>) = node_at d" "node_at (d\<lparr>d_nextSubmitDelay := n\<rparr>) = node_at d"
  "node_at (d\<lparr>d_recovery := b\<rparr>) = node_at d" "node_at (d\<lparr>d_heap := hp\<rparr>) = node_at d"
  "node_at (d\<lparr>d_statusFileOutdated := b\<rparr>) = node_at d" "node_at (d\<lparr>d_subprocID := n\<rparr>) = node_at d"
  "node_at (d\<lparr>d_log_unk_count := n\<rparr>) = node_at d" "node_at (d\<lparr>d_ulog_rd_error_count := n\<rparr>) = node_at d"
  "node_at (d\<lparr>d_readyQ := q\<rparr>) = node_at d" "node_at (d\<lparr>d_submitQ := sq\<rparr>) = node_at d"
  "node_at (d\<lparr>d_preScriptQ := s\<rparr>) = node_at d" "node_at (d\<lparr>d_postScriptQ := s\<rparr>) = node_at d"
  "node_at (d\<lparr>d_condorIDHash := m\<rparr>) = node_at d" "node_at (d\<lparr>d_storkIDHash := m\<rparr>) = node_at d"
  "node_at (d\<lparr>d_noopIDHash := m\<rparr>) = node_at d" "node_at (d\<lparr>d_numNodesDone := n\<rparr>) = node_at d"
  "node_at (d\<lparr>d_tick := k\<rparr>) = node_at d" "node_at (d\<lparr>d_trace := t\<rparr>) = node_at d"
  by (simp_all add: node_at_def fun_eq_iff)

lemma run_from_frame [simp, frame_simps]:
  "run_from g (d\<lparr>d_numNodesFailed := n\<rparr>) = run_from g d" "run_from g (d\<lparr>d_numJobsSubmitted := n\<rparr>) = run_from g d"
  "run_from g (d\<lparr>d_numIdleJobProcs := n\<rparr>) = run_from g d" "run_from g (d\<lparr>d_numHeldJobProcs := n\<rparr>) = run_from g d"
  "run_from g (d\<lparr>d_preRunNodeCount := n\<rparr>) = run_from g d" "run_from g (d\<lparr>d_postRunNodeCount := n\<rparr>) = run_from g d"
  "run_from g (d\<lparr>d_checkCondorEvents := c\<rparr>) = run_from g d" "run_from g (d\<lparr>d_checkStorkEvents := c\<rparr>) = run_from g d"
  "run_from g (d\<lparr>d_maxJobsDeferredCount := n\<rparr>) = run_from g d" "run_from g (d\<lparr>d_maxIdleDeferredCount := n\<rparr>) = run_from g d"
  "run_from g (d\<lparr>d_catThrottleDeferredCount := n\<rparr>) = run_from g d" "run_from g (d\<lparr>d_recoveryMaxfakeID := n\<rparr>) = run_from g d"
  "run_from g (d\<lparr>d_nextSubmitTime := n\<rparr>) = run_from g d" "run_from g (d\<lparr>d_nextSubmitDelay := n\<rparr>) = run_from g d"
  "run_from g (d\<lparr>d_recovery := b\<rparr>) = run_from g d" "run_from g (d\<lparr>d_heap := hp\<rparr>) = run_from g d"
  "run_from g (d\<lparr>d_statusFileOutdated := b\<rparr>) = run_from g d" "run_from g (d\<lparr>d_subprocID := n\<rparr>) = run_from g d"
  "run_from g (d\<lparr>d_log_unk_count := n\<rparr>) = run_from g d" "run_from g (d\<lparr>d_ulog_rd_error_count := n\<rparr>) = run_from g d"
  by (simp_all add: run_defs)

lemma run_ok_tick [simp]: "run_ok (d\<lparr>d_tick := k\<rparr>) = run_ok d"
  by (simp_all add: run_defs)

lemma run_ok_trace: "run_ok (d\<lparr>d_trace := t\<rparr>) \<longleftrightarrow> run_ok (d\<lparr>d_trace := []\<rparr>) \<and> trace_ok (d\<lparr>d_trace := t\<rparr>)"
  by (simp add: run_ok_def store_ok_def symmetric_deps_def done_before_def ready_ok_def counts_ok_def ids_ok_def sq_ok_def
      trace_ok_def)

lemma run_from_act [simp]: "run_from g d \<Longrightarrow> act_ok (d_nodes d) a \<Longrightarrow> run_from g (act a d)"
proof -
  assume a: "run_from g d" "act_ok (d_nodes d) a"
  then have "run_ok (d\<lparr>d_trace := d_trace d\<rparr>)" "trace_ok d" by (simp_all add: run_from_def run_ok_def)
  then have "run_ok (act a d)"
    using a(2) run_ok_trace [where d = d and t = "d_trace d"] unfolding act_def by (subst run_ok_trace) (simp add: trace_ok_def)
  moreover have "grows g (act a d)" using a(1) by (auto simp: run_from_def grows_def act_def simp del: domIff)
  ultimately show ?thesis by (simp add: run_from_def)
qed

lemma run_from_tick [simp]: "run_from g d \<Longrightarrow> run_from g (d\<lparr>d_tick := Suc (d_tick d)\<rparr>)"
  by (simp add: run_from_def grows_def)

lemma run_from_ask: "run_from g d \<Longrightarrow> ask q d = (a, d') \<Longrightarrow> run_from g d' \<and> node_at d' = node_at d \<and> d_nodes d' = d_nodes d"
  by (auto simp: ask_def)

lemma act_parts [simp]: "node_at (act a d) = node_at d" "d_nodes (act a d) = d_nodes d"
  by (simp_all add: act_def)

lemma run_from_self: "run_ok d \<Longrightarrow> run_from d d"
  by (auto simp: run_from_def grows_def node_kept_def)

lemma run_from_run_ok [dest]: "run_from g d \<Longrightarrow> run_ok d"
  by (simp add: run_from_def)

lemma run_ok_parts [dest]:
  "run_ok d \<Longrightarrow> store_ok d" "run_ok d \<Longrightarrow> symmetric_deps d" "run_ok d \<Longrightarrow> ready_ok d" "run_ok d \<Longrightarrow> counts_ok d"
  "run_ok d \<Longrightarrow> done_before d" "run_ok d \<Longrightarrow> ids_ok d"
  by (simp_all add: run_ok_def)

lemma node_kept_trans: "node_kept a b \<Longrightarrow> node_kept b c \<Longrightarrow> node_kept a c"
  by (auto simp: node_kept_def)

lemma run_from_trans: "run_from g d \<Longrightarrow> run_from d d' \<Longrightarrow> run_from g d'"
  unfolding run_from_def grows_def by (elim conjE exE) (simp, blast intro: node_kept_trans)

section \<open>Changes to one node\<close>

text \<open>A change of a node that does not touch its links, its done mark or its script slots.\<close>

definition same_links :: "job \<Rightarrow> job \<Rightarrow> bool" where
  "same_links j j' \<longleftrightarrow>
     jobID j' = jobID j \<and> jobName j' = jobName j \<and> retry_max j' = retry_max j \<and> nodePriority j' = nodePriority j \<and>
     queues j' = queues j \<and> countedAsDone j' = countedAsDone j \<and> retries j \<le> retries j' \<and>
     (retries j \<le> retry_max j \<longrightarrow> retries j' \<le> retry_max j) \<and>
     (scriptPre j' = None \<longleftrightarrow> scriptPre j = None) \<and> (scriptPost j' = None \<longleftrightarrow> scriptPost j = None)"

lemma trace_ok_mono:
  assumes "trace_ok d" and "d_trace d' = d_trace d" and "dom (d_nodes d') = dom (d_nodes d)"
    and "\<And>i. queue_of d' i Q_WAITING \<subseteq> queue_of d i Q_WAITING"
  shows "trace_ok d'"
proof -
  have "act_ok (d_nodes d) a \<Longrightarrow> act_ok (d_nodes d') a" for a
    using assms(3) assms(4) [unfolded node_at_def] by (cases a) (simp_all, blast+)
  then show ?thesis using assms(1,2) unfolding trace_ok_def by simp
qed

lemma run_from_set_node:
  assumes run: "run_from g d" and i: "i \<in> dom (d_nodes d)" and j: "same_links (node_at d i) j"
  shows "run_from g (set_node i j d)"
proof -
  let ?d = "set_node i j d"
  have dm: "dom (d_nodes ?d) = dom (d_nodes d)" using i by auto
  have same: "same_links (node_at d k) (node_at ?d k)" for k using j by (auto simp: same_links_def)
  have f: "jobID (node_at ?d k) = jobID (node_at d k)" "jobName (node_at ?d k) = jobName (node_at d k)"
    "queues (node_at ?d k) = queues (node_at d k)" "countedAsDone (node_at ?d k) = countedAsDone (node_at d k)"
    "retry_max (node_at ?d k) = retry_max (node_at d k)" for k
    using same [of k] by (simp_all add: same_links_def)
  have "node_kept (node_at g k) (node_at ?d k)" if "k \<in> dom (d_nodes g)" for k
  proof -
    have "node_kept (node_at g k) (node_at d k)" using run that by (simp add: run_from_def grows_def)
    then show ?thesis using same [of k] by (auto simp: node_kept_def same_links_def)
  qed
  moreover have "d_trace ?d = d_trace d" "d_tick ?d = d_tick d" "d_isSplice ?d = d_isSplice d"
    "d_maxPreScripts ?d = d_maxPreScripts d" "d_maxPostScripts ?d = d_maxPostScripts d" by (simp_all add: set_node_def)
  ultimately have "grows g ?d" using run i by (auto simp: run_from_def grows_def)
  moreover have "counts_ok ?d"
  proof -
    have c: "counts_ok d" using run by (simp add: run_from_def run_ok_def)
    have "d_numNodesDone ?d = d_numNodesDone d" by (simp add: set_node_def)
    moreover have "retries (node_at ?d k) \<le> retry_max (node_at d k)" if "k \<in> dom (d_nodes d)" for k
      using same [of k] c that by (auto simp: same_links_def counts_ok_def)
    ultimately show ?thesis using c by (simp only: counts_ok_def f dm tables_set_node) auto
  qed
  moreover have "d_preScriptQ ?d = d_preScriptQ d" "d_postScriptQ ?d = d_postScriptQ d" "d_submitQ ?d = d_submitQ d"
    by (simp_all add: set_node_def)
  moreover have tr: "trace_ok ?d" by (rule trace_ok_mono [of d]) (use run dm f in \<open>auto simp: run_from_def run_ok_def set_node_def simp del: domIff\<close>)
  ultimately show ?thesis
    using run tr unfolding run_from_def run_ok_def store_ok_def symmetric_deps_def done_before_def ready_ok_def
      ids_ok_def sq_ok_def by (simp only: f dm tables_set_node) auto
qed

lemma run_from_upd_node:
  "run_from g d \<Longrightarrow> i \<in> dom (d_nodes d) \<Longrightarrow> same_links (node_at d i) (f (node_at d i)) \<Longrightarrow> run_from g (upd_node i f d)"
  by (simp add: upd_node_def run_from_set_node)

lemma dom_upd_node [simp]: "i \<in> dom (d_nodes d) \<Longrightarrow> dom (d_nodes (upd_node i f d)) = dom (d_nodes d)"
  by (auto simp: upd_node_def)

section \<open>Changes to the queues and tables\<close>

lemma parts_frame [simp, frame_simps]:
  "grows g (d\<lparr>d_readyQ := q\<rparr>) = grows g d"
  "grows g (d\<lparr>d_submitQ := sq\<rparr>) = grows g d"
  "grows g (d\<lparr>d_preScriptQ := s\<rparr>) = grows g d"
  "grows g (d\<lparr>d_postScriptQ := s\<rparr>) = grows g d"
  "grows g (d\<lparr>d_condorIDHash := m\<rparr>) = grows g d"
  "grows g (d\<lparr>d_storkIDHash := m\<rparr>) = grows g d"
  "grows g (d\<lparr>d_noopIDHash := m\<rparr>) = grows g d"
  "store_ok (d\<lparr>d_readyQ := q\<rparr>) = store_ok d"
  "store_ok (d\<lparr>d_submitQ := sq\<rparr>) = store_ok d"
  "store_ok (d\<lparr>d_preScriptQ := s\<rparr>) = store_ok d"
  "store_ok (d\<lparr>d_postScriptQ := s\<rparr>) = store_ok d"
  "store_ok (d\<lparr>d_condorIDHash := m\<rparr>) = store_ok d"
  "store_ok (d\<lparr>d_storkIDHash := m\<rparr>) = store_ok d"
  "store_ok (d\<lparr>d_noopIDHash := m\<rparr>) = store_ok d"
  "symmetric_deps (d\<lparr>d_readyQ := q\<rparr>) = symmetric_deps d"
  "symmetric_deps (d\<lparr>d_submitQ := sq\<rparr>) = symmetric_deps d"
  "symmetric_deps (d\<lparr>d_preScriptQ := s\<rparr>) = symmetric_deps d"
  "symmetric_deps (d\<lparr>d_postScriptQ := s\<rparr>) = symmetric_deps d"
  "symmetric_deps (d\<lparr>d_condorIDHash := m\<rparr>) = symmetric_deps d"
  "symmetric_deps (d\<lparr>d_storkIDHash := m\<rparr>) = symmetric_deps d"
  "symmetric_deps (d\<lparr>d_noopIDHash := m\<rparr>) = symmetric_deps d"
  "done_before (d\<lparr>d_readyQ := q\<rparr>) = done_before d"
  "done_before (d\<lparr>d_submitQ := sq\<rparr>) = done_before d"
  "done_before (d\<lparr>d_preScriptQ := s\<rparr>) = done_before d"
  "done_before (d\<lparr>d_postScriptQ := s\<rparr>) = done_before d"
  "done_before (d\<lparr>d_condorIDHash := m\<rparr>) = done_before d"
  "done_before (d\<lparr>d_storkIDHash := m\<rparr>) = done_before d"
  "done_before (d\<lparr>d_noopIDHash := m\<rparr>) = done_before d"
  "counts_ok (d\<lparr>d_readyQ := q\<rparr>) = counts_ok d"
  "counts_ok (d\<lparr>d_submitQ := sq\<rparr>) = counts_ok d"
  "counts_ok (d\<lparr>d_preScriptQ := s\<rparr>) = counts_ok d"
  "counts_ok (d\<lparr>d_postScriptQ := s\<rparr>) = counts_ok d"
  "counts_ok (d\<lparr>d_condorIDHash := m\<rparr>) = counts_ok d"
  "counts_ok (d\<lparr>d_storkIDHash := m\<rparr>) = counts_ok d"
  "counts_ok (d\<lparr>d_noopIDHash := m\<rparr>) = counts_ok d"
  "ready_ok (d\<lparr>d_submitQ := sq\<rparr>) = ready_ok d"
  "ready_ok (d\<lparr>d_preScriptQ := s\<rparr>) = ready_ok d"
  "ready_ok (d\<lparr>d_postScriptQ := s\<rparr>) = ready_ok d"
  "ready_ok (d\<lparr>d_condorIDHash := m\<rparr>) = ready_ok d"
  "ready_ok (d\<lparr>d_storkIDHash := m\<rparr>) = ready_ok d"
  "ready_ok (d\<lparr>d_noopIDHash := m\<rparr>) = ready_ok d"
  "ids_ok (d\<lparr>d_readyQ := q\<rparr>) = ids_ok d"
  "ids_ok (d\<lparr>d_submitQ := sq\<rparr>) = ids_ok d"
  "ids_ok (d\<lparr>d_preScriptQ := s\<rparr>) = ids_ok d"
  "ids_ok (d\<lparr>d_postScriptQ := s\<rparr>) = ids_ok d"
  "sq_ok (d\<lparr>d_readyQ := q\<rparr>) = sq_ok d"
  "sq_ok (d\<lparr>d_submitQ := sq\<rparr>) = sq_ok d"
  "sq_ok (d\<lparr>d_preScriptQ := s\<rparr>) = sq_ok d"
  "sq_ok (d\<lparr>d_postScriptQ := s\<rparr>) = sq_ok d"
  "sq_ok (d\<lparr>d_condorIDHash := m\<rparr>) = sq_ok d"
  "sq_ok (d\<lparr>d_storkIDHash := m\<rparr>) = sq_ok d"
  "sq_ok (d\<lparr>d_noopIDHash := m\<rparr>) = sq_ok d"
  "trace_ok (d\<lparr>d_readyQ := q\<rparr>) = trace_ok d"
  "trace_ok (d\<lparr>d_submitQ := sq\<rparr>) = trace_ok d"
  "trace_ok (d\<lparr>d_preScriptQ := s\<rparr>) = trace_ok d"
  "trace_ok (d\<lparr>d_postScriptQ := s\<rparr>) = trace_ok d"
  "trace_ok (d\<lparr>d_condorIDHash := m\<rparr>) = trace_ok d"
  "trace_ok (d\<lparr>d_storkIDHash := m\<rparr>) = trace_ok d"
  "trace_ok (d\<lparr>d_noopIDHash := m\<rparr>) = trace_ok d"
  by (simp_all add: grows_def store_ok_def symmetric_deps_def done_before_def counts_ok_def ready_ok_def ids_ok_def
      sq_ok_def trace_ok_def fun_eq_iff)

lemma run_from_readyQ:
  assumes "run_from g d" and "pl_invar q"
    and "snd ` set (entries q) \<subseteq> insert i (snd ` set (entries (d_readyQ d)))"
    and "i \<in> dom (d_nodes d)" and "queue_of d i Q_WAITING = {}"
  shows "run_from g (d\<lparr>d_readyQ := q\<rparr>)"
proof -
  have "\<forall>k \<in> snd ` set (entries (d_readyQ d)). k \<in> dom (d_nodes d) \<and> queue_of d k Q_WAITING = {}"
    using assms(1) by (simp add: run_from_def run_ok_def ready_ok_def)
  then have "\<forall>k \<in> snd ` set (entries q). k \<in> dom (d_nodes d) \<and> queue_of d k Q_WAITING = {}"
    using assms(3-5) by blast
  then have "ready_ok (d\<lparr>d_readyQ := q\<rparr>)" using assms(2) by (simp add: ready_ok_def)
  then show ?thesis using assms(1) by (simp add: run_from_def run_ok_def)
qed

lemma run_from_push:
  assumes "run_from g d" and "i \<in> dom (d_nodes d)" and "queue_of d i Q_WAITING = {}"
  shows "run_from g (d\<lparr>d_readyQ := Append i p (d_readyQ d)\<rparr>)" "run_from g (d\<lparr>d_readyQ := Prepend i p (d_readyQ d)\<rparr>)"
proof -
  have q: "pl_invar (d_readyQ d)" using assms(1) by (simp add: run_from_def run_ok_def ready_ok_def)
  show "run_from g (d\<lparr>d_readyQ := Append i p (d_readyQ d)\<rparr>)" "run_from g (d\<lparr>d_readyQ := Prepend i p (d_readyQ d)\<rparr>)"
    using run_from_readyQ [OF assms(1) _ _ assms(2,3)] q
    by (simp_all add: pl_invar_Append pl_invar_Prepend entries_Append entries_Prepend)
qed

lemma run_from_push_ready:
  "run_from g d \<Longrightarrow> i \<in> dom (d_nodes d) \<Longrightarrow> queue_of d i Q_WAITING = {} \<Longrightarrow> run_from g (push_ready i d)"
  by (simp add: push_ready_def Let_def run_from_push)

lemma run_from_sq: "run_from g d \<Longrightarrow> sq_ok d post (f (get_sq post d)) \<Longrightarrow> run_from g (upd_sq post f d)"
  by (cases post) (simp_all add: run_from_def run_ok_def upd_sq_def get_sq_def)

lemma upd_sq_parts [simp]:
  "node_at (upd_sq post f d) = node_at d" "d_nodes (upd_sq post f d) = d_nodes d" "d_readyQ (upd_sq post f d) = d_readyQ d"
  "get_sq post (upd_sq post f d) = f (get_sq post d)"
  by (simp_all add: upd_sq_def get_sq_def)

lemma run_from_submitQ: "run_from g d \<Longrightarrow> queue_invar q \<Longrightarrow> run_from g (d\<lparr>d_submitQ := q\<rparr>)"
  by (simp add: run_from_def run_ok_def)

lemma run_from_EventIDHash:
  "run_from g d \<Longrightarrow> ran m \<subseteq> dom (d_nodes d) \<Longrightarrow> run_from g (set_EventIDHash b ty m d)"
  by (cases ty) (simp_all add: run_from_def run_ok_def set_EventIDHash_def ids_ok_def)

lemma EventIDHash_ran:
  "run_from g d \<Longrightarrow> ran (GetEventIDHash b ty d) \<subseteq> dom (d_nodes d)"
  by (cases ty) (auto simp: run_from_def run_ok_def ids_ok_def GetEventIDHash_def simp del: domIff)

lemma set_EventIDHash_parts [simp]:
  "node_at (set_EventIDHash b ty m d) = node_at d" "d_nodes (set_EventIDHash b ty m d) = d_nodes d"
  "d_readyQ (set_EventIDHash b ty m d) = d_readyQ d"
  by (cases ty; simp add: set_EventIDHash_def)+

lemma EventIDHash_forget:
  "run_from g d \<Longrightarrow> run_from g (set_EventIDHash b ty ((GetEventIDHash b ty d)(i := None)) d)"
proof (rule run_from_EventIDHash)
  assume "run_from g d"
  then show "ran ((GetEventIDHash b ty d)(i := None)) \<subseteq> dom (d_nodes d)"
    using EventIDHash_ran [of g d b ty] by (auto simp: ran_def split: if_splits)
qed

lemma EventIDHash_learn:
  "run_from g d \<Longrightarrow> n \<in> dom (d_nodes d) \<Longrightarrow> run_from g (set_EventIDHash b ty ((GetEventIDHash b ty d)(i \<mapsto> n)) d)"
proof (rule run_from_EventIDHash)
  assume "run_from g d" "n \<in> dom (d_nodes d)"
  then show "ran ((GetEventIDHash b ty d)(i \<mapsto> n)) \<subseteq> dom (d_nodes d)"
    using EventIDHash_ran [of g d b ty] by (auto simp: ran_def split: if_splits)
qed

section \<open>Finishing\<close>

text \<open>Counting a node as done.\<close>

lemma run_from_count_done:
  assumes run: "run_from g d" and i: "i \<in> dom (d_nodes d)" and c: "\<not> countedAsDone (node_at d i)"
  shows "run_from g (upd_node i (\<lambda>j. j\<lparr>countedAsDone := True\<rparr>) (d\<lparr>d_numNodesDone := d_numNodesDone d + 1\<rparr>))"
    (is "run_from g ?d")
proof -
  have dm: "dom (d_nodes ?d) = dom (d_nodes d)" using i by auto
  have n: "node_at ?d k = (if k = i then (node_at d i)\<lparr>countedAsDone := True\<rparr> else node_at d k)" for k by simp
  have f: "jobID (node_at ?d k) = jobID (node_at d k)" "jobName (node_at ?d k) = jobName (node_at d k)"
    "queues (node_at ?d k) = queues (node_at d k)" "retries (node_at ?d k) = retries (node_at d k)"
    "retry_max (node_at ?d k) = retry_max (node_at d k)"
    "countedAsDone (node_at ?d k) \<longleftrightarrow> k = i \<or> countedAsDone (node_at d k)" for k by simp_all
  have p: "d_jobs ?d = d_jobs d" "d_nodeIDHash ?d = d_nodeIDHash d" "d_nodeNameHash ?d = d_nodeNameHash d"
    "d_readyQ ?d = d_readyQ d" "d_condorIDHash ?d = d_condorIDHash d" "d_storkIDHash ?d = d_storkIDHash d"
    "d_noopIDHash ?d = d_noopIDHash d" "d_preScriptQ ?d = d_preScriptQ d" "d_postScriptQ ?d = d_postScriptQ d"
    "d_submitQ ?d = d_submitQ d" "d_numNodesDone ?d = d_numNodesDone d + 1" "d_trace ?d = d_trace d"
    "d_tick ?d = d_tick d" "d_isSplice ?d = d_isSplice d" "d_maxPreScripts ?d = d_maxPreScripts d"
    "d_maxPostScripts ?d = d_maxPostScripts d"
    by (simp_all add: upd_node_def set_node_def)
  have ok: "run_ok d" using run by auto
  have "node_kept (node_at g k) (node_at ?d k)" if "k \<in> dom (d_nodes g)" for k
  proof -
    have "node_kept (node_at g k) (node_at d k)" using run that by (simp add: run_from_def grows_def)
    then show ?thesis by (auto simp: node_kept_def)
  qed
  with run have "grows g ?d" unfolding run_from_def grows_def p dm by blast
  moreover have "counts_ok ?d"
  proof -
    have "{k \<in> set (d_jobs d). countedAsDone (node_at ?d k)} = insert i {k \<in> set (d_jobs d). countedAsDone (node_at d k)}"
      using i ok by (auto simp: run_ok_def counts_ok_def simp del: domIff)
    then have "card {k \<in> set (d_jobs d). countedAsDone (node_at ?d k)} =
        Suc (card {k \<in> set (d_jobs d). countedAsDone (node_at d k)})" using c by simp
    then show ?thesis using ok unfolding run_ok_def counts_ok_def f(4,5) p dm by (simp only: of_nat_Suc) simp
  qed
  moreover have "done_before ?d" using ok unfolding run_ok_def done_before_def f dm by blast
  moreover have "trace_ok ?d" by (rule trace_ok_mono [of d]) (use ok dm p f in \<open>auto simp: run_ok_def simp del: domIff\<close>)
  ultimately show ?thesis
    using ok unfolding run_from_def run_ok_def store_ok_def symmetric_deps_def ready_ok_def ids_ok_def sq_ok_def
    by (simp only: f(1-3) p dm) auto
qed

text \<open>A child stops waiting for a parent that is counted as done.\<close>

lemma run_from_stop_waiting:
  assumes run: "run_from g d" and i: "i \<in> dom (d_nodes d)" and c: "countedAsDone (node_at d p)"
  shows "run_from g (upd_node i (\<lambda>j. snd (Remove_queue Q_WAITING p j)) d)" (is "run_from g ?d")
proof -
  have dm: "dom (d_nodes ?d) = dom (d_nodes d)" using i by auto
  have w: "queues (node_at ?d k) = (if k = i then (queues (node_at d i))(Q_WAITING := queue_of d i Q_WAITING - {p}) else queues (node_at d k))" for k
    by (auto simp: Remove_queue_def fun_eq_iff)
  have q: "queue_of ?d k Q_PARENTS = queue_of d k Q_PARENTS" "queue_of ?d k Q_CHILDREN = queue_of d k Q_CHILDREN"
    "queue_of ?d k Q_WAITING = (if k = i then queue_of d k Q_WAITING - {p} else queue_of d k Q_WAITING)" for k
    unfolding w by simp_all
  have f: "jobID (node_at ?d k) = jobID (node_at d k)" "jobName (node_at ?d k) = jobName (node_at d k)"
    "retries (node_at ?d k) = retries (node_at d k)" "countedAsDone (node_at ?d k) = countedAsDone (node_at d k)"
    "retry_max (node_at ?d k) = retry_max (node_at d k)" for k by (simp_all add: Remove_queue_def)
  have t: "d_jobs ?d = d_jobs d" "d_nodeIDHash ?d = d_nodeIDHash d" "d_nodeNameHash ?d = d_nodeNameHash d"
    "d_readyQ ?d = d_readyQ d" "d_condorIDHash ?d = d_condorIDHash d" "d_storkIDHash ?d = d_storkIDHash d"
    "d_noopIDHash ?d = d_noopIDHash d" "d_preScriptQ ?d = d_preScriptQ d" "d_postScriptQ ?d = d_postScriptQ d"
    "d_submitQ ?d = d_submitQ d" "d_numNodesDone ?d = d_numNodesDone d" "d_trace ?d = d_trace d"
    "d_tick ?d = d_tick d" "d_isSplice ?d = d_isSplice d" "d_maxPreScripts ?d = d_maxPreScripts d"
    "d_maxPostScripts ?d = d_maxPostScripts d"
    by (simp_all add: upd_node_def set_node_def)
  have ok: "run_ok d" using run by auto
  have "node_kept (node_at g k) (node_at ?d k)" if "k \<in> dom (d_nodes g)" for k
  proof -
    have "node_kept (node_at g k) (node_at d k)" using run that by (simp add: run_from_def grows_def)
    then show ?thesis by (auto simp: node_kept_def Remove_queue_def)
  qed
  with run have "grows g ?d" unfolding run_from_def grows_def t dm by blast
  moreover have "done_before ?d" using ok c unfolding run_ok_def done_before_def f dm q by (auto simp del: domIff)
  moreover have "ready_ok ?d" using ok unfolding run_ok_def ready_ok_def dm q t by (auto simp del: domIff)
  moreover have "sq_ok d post sq \<Longrightarrow> sq_ok ?d post sq" for post sq unfolding sq_ok_def dm q by auto
  moreover have "trace_ok ?d"
    by (rule trace_ok_mono [of d]) (use ok in \<open>simp_all only: run_ok_def dm q t, auto simp del: domIff\<close>)
  ultimately show ?thesis
    using ok unfolding run_from_def run_ok_def store_ok_def symmetric_deps_def counts_ok_def ids_ok_def
    by (simp only: f q(1,2) t dm) auto
qed

section \<open>Starting and restarting\<close>

lemma run_from_dom: "run_from g d \<Longrightarrow> dom (d_nodes d) = dom (d_nodes g)"
  by (simp add: run_from_def grows_def)

lemma same_links_simple [simp]:
  "same_links j (j\<lparr>Status := x1\<rparr>)" "same_links j (j\<lparr>retval := x2\<rparr>)" "same_links j (j\<lparr>error_text := x3\<rparr>)"
  "same_links j (j\<lparr>isIdle := b\<rparr>)" "same_links j (j\<lparr>queuedNodeJobProcs := n\<rparr>)" "same_links j (j\<lparr>j_CondorID := c\<rparr>)"
  "same_links j (j\<lparr>timesHeld := n, jobProcsOnHold := m\<rparr>)" "same_links j (j\<lparr>jobProcsOnHold := n\<rparr>)"
  "same_links j (j\<lparr>submitTries := n\<rparr>)" "same_links j (snprintf_error s j)" "same_links j (add_retries_text j)"
  "same_links j (tell_post_script j)" "same_links j (LogMonitorFailed j)"
  "same_links j (j\<lparr>scriptPost := map_option f (scriptPost j)\<rparr>)" "same_links j (j\<lparr>scriptPre := map_option f (scriptPre j)\<rparr>)"
  by (simp_all add: same_links_def snprintf_error_def add_retries_text_def tell_post_script_def LogMonitorFailed_def Let_def)

lemma same_links_trans [trans]: "same_links a b \<Longrightarrow> same_links b c \<Longrightarrow> same_links a c"
  by (auto simp: same_links_def)

lemma MonitorLogFile_links: "MonitorLogFile a s j = Inr (ok, j') \<Longrightarrow> same_links j j'"
  by (auto simp: MonitorLogFile_def LogMonitorFailed_def snprintf_error_def same_links_def Let_def split: if_splits)

lemma UnmonitorLogFile_links: "UnmonitorLogFile a j = Inr (ok, j') \<Longrightarrow> same_links j j'"
  by (auto simp: UnmonitorLogFile_def same_links_def split: if_splits)

lemma monitor_log_keeps:
  assumes "run_from g d" and "i \<in> dom (d_nodes d)" and "monitor_log e i d = Inr (ok, d')"
  shows "run_from g d' \<and> queues (node_at d' i) = queues (node_at d i)"
proof -
  obtain a d1 where d1: "ask (e_log e) d = (a, d1)" by (cases "ask (e_log e) d")
  with assms(3) obtain j where j: "MonitorLogFile a (d_defaultNodeLog d1) (node_at d1 i) = Inr (ok, j)" "d' = set_node i j d1"
    by (auto simp: monitor_log_def)
  from run_from_ask [OF assms(1) d1] assms(2) MonitorLogFile_links [OF j(1)] show ?thesis
    by (auto simp: j(2) same_links_def intro: run_from_set_node)
qed

lemma unmonitor_log_keeps:
  assumes "run_from g d" and "i \<in> dom (d_nodes d)" and "unmonitor_log e i d = Inr d'"
  shows "run_from g d'"
proof -
  obtain a d1 where d1: "ask (e_log e) d = (a, d1)" by (cases "ask (e_log e) d")
  with assms(3) obtain ok j where j: "UnmonitorLogFile a (node_at d1 i) = Inr (ok, j)" "d' = set_node i j d1"
    by (auto simp: unmonitor_log_def)
  from run_from_ask [OF assms(1) d1] assms(2) UnmonitorLogFile_links [OF j(1)] show ?thesis
    by (auto simp: j(2) intro: run_from_set_node)
qed

lemma BackgroundRun_keeps:
  assumes "run_from g d" and "fst s \<in> dom (d_nodes d)" and "\<not> snd s \<Longrightarrow> queue_of d (fst s) Q_WAITING = {}"
    and "BackgroundRun e s d = (pid, d')"
  shows "run_from g d' \<and> dom (d_nodes d') = dom (d_nodes d) \<and> queues (node_at d' k) = queues (node_at d k)"
proof -
  obtain a d1 where d1: "ask (e_spawn e) d = (a, d1)" by (cases "ask (e_spawn e) d")
  note r = run_from_ask [OF assms(1) d1]
  let ?x = "A_spawn (fst s) (snd s) (script_program (the (get_script s d1))) (script_args (node_at d1 (fst s)) (the (get_script s d1)))"
  have x: "act_ok (d_nodes d1) ?x" using r assms(2,3) by (simp add: node_at_def)
  have "run_from g (upd_script s f (act ?x d1))" for f
    unfolding upd_script_def using run_from_act [OF conjunct1 [OF r] x] r assms(2) by (intro run_from_upd_node) simp_all
  moreover have "dom (d_nodes (upd_script s f (act ?x d1))) = dom (d_nodes d)" for f
    unfolding upd_script_def using r assms(2) by simp
  moreover have "queues (node_at (upd_script s f (act ?x d1)) k) = queues (node_at d k)" for f
    unfolding upd_script_def using r by simp
  moreover have "d' = d1 \<or> (\<exists>f. d' = upd_script s f (act ?x d1))"
    using assms(4) d1 by (auto simp: BackgroundRun_def Let_def split: if_splits)
  ultimately show ?thesis using r by (elim disjE exE) simp_all
qed

lemma run_from_sq_ok: "run_from g d \<Longrightarrow> sq_ok d post (get_sq post d)"
  by (simp add: run_from_def run_ok_def get_sq_def)

lemma sq_ok_push:
  "sq_ok d post q \<Longrightarrow> fst s \<in> dom (d_nodes d) \<Longrightarrow> snd s = post \<Longrightarrow> (\<not> post \<Longrightarrow> queue_of d (fst s) Q_WAITING = {}) \<Longrightarrow>
   sq_ok d post (q\<lparr>sq_numScriptsRunning := n, sq_scriptPidTable := (pid, s) # sq_scriptPidTable q\<rparr>)"
  by (simp add: sq_ok_def del: domIff)

lemma sq_ok_enqueue:
  assumes "sq_ok d post q" and "fst s \<in> dom (d_nodes d)" and "snd s = post" and "\<not> post \<Longrightarrow> queue_of d (fst s) Q_WAITING = {}"
    and "enqueue s (sq_waitingQueue q) = Inr w"
  shows "sq_ok d post (q\<lparr>sq_scriptDeferredCount := n, sq_waitingQueue := w\<rparr>)"
proof -
  have "queue_invar w \<and> queue_list w = queue_list (sq_waitingQueue q) @ [s]"
    using ringq.enq_Inr [OF _ assms(5)] assms(1) by (simp add: sq_ok_def)
  with assms(1-4) show ?thesis by (simp add: sq_ok_def del: domIff)
qed

lemma sq_ok_dequeue:
  assumes "sq_ok d post q" and "dequeue (sq_waitingQueue q) = Some (s, w)"
  shows "fst s \<in> dom (d_nodes d) \<and> snd s = post \<and> (\<not> post \<longrightarrow> queue_of d (fst s) Q_WAITING = {}) \<and>
    sq_ok d post (q\<lparr>sq_waitingQueue := w\<rparr>)"
proof -
  have "queue_invar w \<and> queue_list (sq_waitingQueue q) = s # queue_list w"
    using ringq.deq_Some [OF _ assms(2)] assms(1) by (simp add: sq_ok_def)
  with assms(1) show ?thesis by (simp add: sq_ok_def del: domIff)
qed

text \<open>What a reaper of PRE (or POST) scripts is called for: a node of the DAG that waits for nothing.\<close>

definition reaper_keeps :: "bool \<Rightarrow> (string \<Rightarrow> int \<Rightarrow> Dag \<Rightarrow> Dag res) \<Rightarrow> bool" where
  "reaper_keeps post reaper \<longleftrightarrow>
     (\<forall>g d d' i st. run_from g d \<longrightarrow> i \<in> dom (d_nodes d) \<longrightarrow> (\<not> post \<longrightarrow> queue_of d i Q_WAITING = {}) \<longrightarrow>
        reaper (jobName (node_at d i)) st d = Inr d' \<longrightarrow> run_from g d')"

lemma reaper_keepsD:
  "reaper_keeps post reaper \<Longrightarrow> reaper (jobName (node_at d i)) st d = Inr d' \<Longrightarrow> run_from g d \<Longrightarrow> i \<in> dom (d_nodes d) \<Longrightarrow>
   (\<not> post \<Longrightarrow> queue_of d i Q_WAITING = {}) \<Longrightarrow> run_from g d'"
  unfolding reaper_keeps_def by blast

lemma Run_with_keeps:
  assumes reaper: "reaper_keeps (snd s) reaper" and run: "run_from g d" and s: "fst s \<in> dom (d_nodes d)"
    and wait: "\<not> snd s \<Longrightarrow> queue_of d (fst s) Q_WAITING = {}"
    and res: "Run_with reaper e s d = Inr (r, d')"
  shows "run_from g d'"
proof (cases "maxScripts (snd s) d = 0 \<or> sq_numScriptsRunning (get_sq (snd s) d) < maxScripts (snd s) d")
  case True
  obtain pid d1 where d1: "BackgroundRun e s d = (pid, d1)" by (cases "BackgroundRun e s d")
  have b: "run_from g d1 \<and> dom (d_nodes d1) = dom (d_nodes d) \<and> queues (node_at d1 (fst s)) = queues (node_at d (fst s))"
    by (rule BackgroundRun_keeps [OF run s _ d1]) (rule wait)
  show ?thesis
  proof (cases "pid = 0")
    case True
    with res d1 \<open>maxScripts (snd s) d = 0 \<or> _\<close> have "reaper (jobName (node_at d1 (fst s))) 256 d1 = Inr d'"
      by (auto simp: Run_with_def Let_def split: if_splits)
    from reaper_keepsD [OF reaper this] b s wait show ?thesis by simp
  next
    case False
    with res d1 \<open>maxScripts (snd s) d = 0 \<or> _\<close>
    have d': "d' = upd_sq (snd s) (\<lambda>q. q\<lparr>sq_numScriptsRunning := sq_numScriptsRunning q + 1,
        sq_scriptPidTable := (pid, s) # sq_scriptPidTable q\<rparr>) d1"
      by (simp add: Run_with_def Let_def split: if_splits)
    have q: "sq_ok d1 (snd s) (get_sq (snd s) d1)" and s1: "fst s \<in> dom (d_nodes d1)"
      using run_from_sq_ok [OF conjunct1 [OF b]] b s by simp_all
    show ?thesis unfolding d' by (rule run_from_sq [OF conjunct1 [OF b]]) (rule sq_ok_push [OF q s1 refl], use b wait in simp)
  qed
next
  case False
  with res obtain w where w: "enqueue s (sq_waitingQueue (get_sq (snd s) d)) = Inr w"
    and d': "d' = upd_sq (snd s) (\<lambda>q. q\<lparr>sq_scriptDeferredCount := sq_scriptDeferredCount q + 1, sq_waitingQueue := w\<rparr>) d"
    by (auto simp: Run_with_def Let_def split: if_splits)
  show ?thesis unfolding d' by (rule run_from_sq [OF run]) (rule sq_ok_enqueue [OF run_from_sq_ok [OF run] s refl wait w])
qed

lemma StartNode_with_keeps:
  assumes r: "\<And>g d d' k. run_from g d \<Longrightarrow> node \<in> dom (d_nodes d) \<Longrightarrow> queue_of d node Q_WAITING = {} \<Longrightarrow> run_fn (node, False) d = Inr (k, d') \<Longrightarrow> run_from g d'"
    and run: "run_from g d" and i: "node \<in> dom (d_nodes d)" and res: "StartNode_with run_fn node isRetry d = Inr d'"
  shows "run_from g d'"
proof -
  have w: "queue_of d node Q_WAITING = {}" using res by (auto simp: StartNode_with_def Let_def CanSubmit_def IsEmpty_queue_def split: if_splits)
  let ?d1 = "(upd_node node (\<lambda>j. j\<lparr>Status := STATUS_PRERUN\<rparr>) d)\<lparr>d_preRunNodeCount := d_preRunNodeCount d + 1\<rparr>"
  have p: "d_preRunNodeCount (upd_node node f d) = d_preRunNodeCount d" for f by (simp add: upd_node_def set_node_def)
  have d1: "run_from g ?d1" "node \<in> dom (d_nodes ?d1)" "queue_of ?d1 node Q_WAITING = {}"
    using run i w by (simp_all add: run_from_upd_node)
  from res have "d' \<in> {d\<lparr>d_readyQ := Append node (- nodePriority (node_at d node)) (d_readyQ d)\<rparr>,
      d\<lparr>d_readyQ := Prepend node (- nodePriority (node_at d node)) (d_readyQ d)\<rparr>} \<or> (\<exists>k. run_fn (node, False) ?d1 = Inr (k, d'))"
    by (auto simp: StartNode_with_def Let_def p split: if_splits)
  then show ?thesis using r [OF d1] run_from_push [OF run i w] by auto
qed

lemma forget_retried_id_keeps:
  "run_from g d \<Longrightarrow> forget_retried_id node d = Inr d' \<Longrightarrow> run_from g d' \<and> node_at d' = node_at d \<and> d_nodes d' = d_nodes d"
  by (auto simp: forget_retried_id_def Let_def intro: EventIDHash_forget split: if_splits)

lemma RestartNode_with_keeps:
  assumes start: "\<And>g d d'. run_from g d \<Longrightarrow> node \<in> dom (d_nodes d) \<Longrightarrow> start node True d = Inr d' \<Longrightarrow> run_from g d'"
    and run: "run_from g d" and i: "node \<in> dom (d_nodes d)" and res: "RestartNode_with start e node recovery d = Inr d'"
  shows "run_from g d'"
proof (cases "have_retry_abort_val (node_at d node) \<and> retval (node_at d node) = retry_abort_val (node_at d node)")
  case True
  with res have "d' = d\<lparr>d_numNodesFailed := d_numNodesFailed d + 1\<rparr>"
    by (auto simp: RestartNode_with_def Let_def split: if_splits)
  with run show ?thesis by simp
next
  case False
  let ?j = "node_at d node"
  let ?j' = "?j\<lparr>Status := STATUS_READY, retries := retries ?j + 1, scriptPre := map_option (\<lambda>s. s\<lparr>s_done := False\<rparr>) (scriptPre ?j),
    error_text := '''', jobstateSeqNum := 0\<rparr>"
  let ?d1 = "set_node node ?j' d"
  have le: "retries ?j + 1 \<le> retry_max ?j" using False res by (auto simp: RestartNode_with_def Let_def split: if_splits)
  then have "same_links ?j ?j'" by (simp add: same_links_def)
  then have d1: "run_from g ?d1" "node \<in> dom (d_nodes ?d1)" using run_from_set_node [OF run i] i by auto
  show ?thesis
  proof (cases recovery)
    case False
    with res le \<open>\<not> (_ \<and> _)\<close> have "start node True ?d1 = Inr d'"
      by (auto simp: RestartNode_with_def Let_def split: if_splits)
    from start [OF d1 this] show ?thesis .
  next
    case True
    obtain d2 ok where d2: "forget_retried_id node ?d1 = Inr d2"
      "monitor_log e node (upd_node node (\<lambda>j. j\<lparr>j_CondorID := default_CondorID\<rparr>) d2) = Inr (ok, d')"
      using res le True \<open>\<not> (_ \<and> _)\<close> by (auto simp: RestartNode_with_def Let_def split: if_splits)
    from forget_retried_id_keeps [OF d1(1) d2(1)] d1(2) show ?thesis
      using monitor_log_keeps [OF _ _ d2(2)] by (simp add: run_from_upd_node)
  qed
qed

lemma CheckForDagAbort_keeps: "CheckForDagAbort i d = Inr d' \<Longrightarrow> d' = d"
  by (simp add: CheckForDagAbort_def Let_def split: if_splits)

lemma FindNodeByName_dom: "store_ok d \<Longrightarrow> FindNodeByName n d = Inr (Some i) \<Longrightarrow> i \<in> dom (d_nodes d)"
  using FindNodeByName_total [of d n] by auto

lemma same_links_post_pre [simp]: "same_links j (pre_failed e st j)" "same_links j (post_failed ev j)"
  by (simp_all add: pre_failed_def post_failed_def same_links_def snprintf_error_def)

lemma PreScriptReaper_with_keeps:
  assumes restart: "\<And>g d d' i. run_from g d \<Longrightarrow> i \<in> dom (d_nodes d) \<Longrightarrow> restart i False d = Inr d' \<Longrightarrow> run_from g d'"
    and run: "run_from g d" and dm: "i \<in> dom (d_nodes d)" and wait: "queue_of d i Q_WAITING = {}"
    and res: "PreScriptReaper_with restart e (jobName (node_at d i)) st d = Inr d'"
  shows "run_from g d'"
proof -
  have i: "FindNodeByName (Some (jobName (node_at d i))) d = Inr (Some i)" using FindNodeByName_ok [OF _ dm] run by blast
  let ?d1 = "(upd_node i (pre_failed e st) d)\<lparr>d_preRunNodeCount := d_preRunNodeCount d - 1\<rparr>"
  let ?d2 = "(upd_node i (\<lambda>j. j\<lparr>retval := 0, Status := STATUS_READY\<rparr>) d)\<lparr>d_preRunNodeCount := d_preRunNodeCount d - 1\<rparr>"
  have c: "d_preRunNodeCount (upd_node i f d) = d_preRunNodeCount d" for f by (simp add: upd_node_def set_node_def)
  have d1: "run_from g ?d1" "i \<in> dom (d_nodes ?d1)" using run dm by (simp_all add: run_from_upd_node)
  have "same_links j (j\<lparr>retval := 0, Status := STATUS_READY\<rparr>)" for j by (simp add: same_links_def)
  then have d2: "run_from g ?d2" "i \<in> dom (d_nodes ?d2)" "queue_of ?d2 i Q_WAITING = {}"
    using run dm wait by (simp_all add: run_from_upd_node)
  have "restart i False ?d1 = Inr d' \<or> d' = ?d1\<lparr>d_numNodesFailed := d_numNodesFailed ?d1 + 1\<rparr> \<or>
      d' = upd_node i add_retries_text (?d1\<lparr>d_numNodesFailed := d_numNodesFailed ?d1 + 1\<rparr>) \<or> d' = push_ready i ?d2"
    using res i by (auto simp: PreScriptReaper_with_def Let_def c dest!: CheckForDagAbort_keeps split: if_splits)
  then show ?thesis
    using restart [OF d1] run_from_push_ready [OF d2] d1
    by (elim disjE) (simp_all add: run_from_upd_node)
qed

lemma PreScriptReaper_with_reaps:
  assumes "\<And>g d d' i. run_from g d \<Longrightarrow> i \<in> dom (d_nodes d) \<Longrightarrow> restart i False d = Inr d' \<Longrightarrow> run_from g d'"
  shows "reaper_keeps False (PreScriptReaper_with restart e)"
  unfolding reaper_keeps_def
proof (intro allI impI)
  fix g d d' i st
  assume a: "run_from g d" "i \<in> dom (d_nodes d)" "\<not> False \<longrightarrow> queue_of d i Q_WAITING = {}"
    "PreScriptReaper_with restart e (jobName (node_at d i)) st d = Inr d'"
  then have "queue_of d i Q_WAITING = {}" by simp
  with assms a show "run_from g d'" by (intro PreScriptReaper_with_keeps [of restart g d i e st d'])
qed

lemma StartNode_n_keeps:
  "run_from g d \<Longrightarrow> i \<in> dom (d_nodes d) \<Longrightarrow> StartNode_n e n i r d = Inr d' \<Longrightarrow> run_from g d'"
proof (induction n arbitrary: g d d' i r)
  case (Suc n)
  let ?restart = "RestartNode_with (StartNode_n e n) e"
  have "run_from g d'" if "run_from g d" "i \<in> dom (d_nodes d)" "?restart i False d = Inr d'" for g d d' i
    using RestartNode_with_keeps [OF Suc.IH that] .
  then have reap: "reaper_keeps False (PreScriptReaper_with ?restart e)" by (rule PreScriptReaper_with_reaps)
  have "run_from g d'" if "run_from g d" "i \<in> dom (d_nodes d)" "queue_of d i Q_WAITING = {}"
    "Run_with (PreScriptReaper_with ?restart e) e (i, False) d = Inr (k, d')" for g d d' k
    using Run_with_keeps [of "(i, False)", OF _ that(1) _ _ that(4)] reap that(2,3) by simp
  from StartNode_with_keeps [OF this Suc.prems(1,2)] Suc.prems(3) show ?case by simp
qed simp

lemma StartNode_keeps:
  "run_from g d \<Longrightarrow> i \<in> dom (d_nodes d) \<Longrightarrow> StartNode e i r d = Inr d' \<Longrightarrow> run_from g d'"
  unfolding StartNode_def by (rule StartNode_n_keeps)

lemma RestartNode_keeps:
  "run_from g d \<Longrightarrow> i \<in> dom (d_nodes d) \<Longrightarrow> RestartNode e i rec d = Inr d' \<Longrightarrow> run_from g d'"
  unfolding RestartNode_def by (rule RestartNode_with_keeps [OF StartNode_keeps])

lemma PreScriptReaper_keeps: "reaper_keeps False (PreScriptReaper e)"
  unfolding PreScriptReaper_def by (rule PreScriptReaper_with_reaps) (rule RestartNode_keeps)

end
