(* ===== verification/Dag_Handlers.thy ===== *)
theory Dag_Handlers
  imports Dag_Run
begin

text \<open>
  Every handler of the engine keeps the invariant of a running DAG: finishing a node, the
  reapers, the handlers of log events, and the submit cycle.
\<close>

lemma upd_node_fields [simp, frame_simps]:
  "d_postRunNodeCount (upd_node i f d) = d_postRunNodeCount d" "d_preRunNodeCount (upd_node i f d) = d_preRunNodeCount d"
  "d_numNodesFailed (upd_node i f d) = d_numNodesFailed d" "d_numNodesDone (upd_node i f d) = d_numNodesDone d"
  "d_numJobsSubmitted (upd_node i f d) = d_numJobsSubmitted d" "d_isSplice (upd_node i f d) = d_isSplice d"
  "d_heap (upd_node i f d) = d_heap d" "d_readyQ (upd_node i f d) = d_readyQ d" "d_submitQ (upd_node i f d) = d_submitQ d"
  "d_tick (upd_node i f d) = d_tick d" "d_trace (upd_node i f d) = d_trace d" "d_jobs (upd_node i f d) = d_jobs d"
  "d_nodeNameHash (upd_node i f d) = d_nodeNameHash d" "d_nodeIDHash (upd_node i f d) = d_nodeIDHash d"
  "get_sq post (upd_node i f d) = get_sq post d" "maxScripts post (upd_node i f d) = maxScripts post d"
  "GetEventIDHash b ty (upd_node i f d) = GetEventIDHash b ty d"
  by (simp_all add: upd_node_def set_node_def get_sq_def maxScripts_def GetEventIDHash_def split: job_type_t.splits)

section \<open>Finishing nodes\<close>

lemma counted_mono: "run_from d d' \<Longrightarrow> i \<in> dom (d_nodes d) \<Longrightarrow> countedAsDone (node_at d i) \<Longrightarrow> countedAsDone (node_at d' i)"
  unfolding run_from_def grows_def node_kept_def by blast

lemma run_from_jobID: "run_from g d \<Longrightarrow> i \<in> dom (d_nodes d) \<Longrightarrow> jobID (node_at d i) = i"
  using run_from_run_ok [of g d] unfolding run_ok_def store_ok_def by blast

lemma report_to_child_keeps:
  assumes run: "run_from g d" and job: "job \<in> dom (d_nodes d)" "countedAsDone (node_at d job)"
    and res: "report_to_child e job rec boot q d = Inr d'"
  shows "run_from g d'"
proof -
  have st: "store_ok d" using run by blast
  have q: "q \<in> dom (d_nodes d)" using res by (auto simp: report_to_child_def FindNodeByNodeID_ok [OF st] split: if_splits)
  have jid: "jobID (node_at d job) = job" by (rule run_from_jobID [OF run job(1)])
  let ?d1 = "upd_node q (\<lambda>j. snd (Remove_queue Q_WAITING job j)) d"
  have d1: "run_from g ?d1" "q \<in> dom (d_nodes ?d1)" using run_from_stop_waiting [OF run q job(2)] q by auto
  from res q have "d' = ?d1 \<or> (\<exists>ok. monitor_log e q ?d1 = Inr (ok, d')) \<or> StartNode e q False ?d1 = Inr d'"
    by (auto simp: report_to_child_def FindNodeByNodeID_ok [OF st] jid Let_def split: if_splits)
  then show ?thesis using d1 monitor_log_keeps [OF d1] StartNode_keeps [OF d1] by blast
qed

lemma children_loop_keeps:
  assumes "run_from g d" and "job \<in> dom (d_nodes d)" and "countedAsDone (node_at d job)"
    and "foldR (report_to_child e job rec boot) qs d = Inr d'"
  shows "run_from g d'"
  using assms
proof (induction qs arbitrary: d)
  case (Cons q qs)
  then obtain d1 where d1: "report_to_child e job rec boot q d = Inr d1" "foldR (report_to_child e job rec boot) qs d1 = Inr d'"
    by auto
  have g: "run_from g d1" by (rule report_to_child_keeps [OF Cons.prems(1-3) d1(1)])
  have "run_from d d1"
    by (rule report_to_child_keeps [OF run_from_self Cons.prems(2,3) d1(1)]) (rule run_from_run_ok [OF Cons.prems(1)])
  then have "job \<in> dom (d_nodes d1)" "countedAsDone (node_at d1 job)"
    using counted_mono Cons.prems(2,3) run_from_dom by simp_all
  from Cons.IH [OF g this d1(2)] show ?case .
qed simp

lemma TerminateJob_keeps:
  assumes run: "run_from g d" and job: "job \<in> dom (d_nodes d)" and res: "TerminateJob e job rec boot d = Inr d'"
  shows "run_from g d'"
proof -
  let ?d1 = "upd_node job (\<lambda>j. snd (TerminateSuccess j)) d"
  let ?d2 = "upd_node job (\<lambda>j. j\<lparr>countedAsDone := True\<rparr>) (?d1\<lparr>d_numNodesDone := d_numNodesDone ?d1 + 1\<rparr>)"
  have d1: "run_from g ?d1" "job \<in> dom (d_nodes ?d1)" using run job by (simp_all add: run_from_upd_node TerminateSuccess_def)
  obtain d3 where d3: "d3 = (if countedAsDone (node_at ?d1 job) then ?d1 else ?d2)"
    "foldR (report_to_child e job rec boot) (sorted_list_of_set (queue_of d3 job Q_CHILDREN)) d3 = Inr d'"
    using res by (auto simp: TerminateJob_def TerminateSuccess_def Let_def split: if_splits)
  have "run_from g d3" using d3(1) d1 run_from_count_done [OF d1] by simp
  moreover have "job \<in> dom (d_nodes d3)" "countedAsDone (node_at d3 job)" using d3(1) d1(2) by simp_all
  ultimately show ?thesis by (rule children_loop_keeps [OF _ _ _ d3(2)])
qed

lemma ProcessPostTermEvent_keeps:
  assumes run: "run_from g d" and job: "job \<in> dom (d_nodes d)" and res: "ProcessPostTermEvent e ev job rec d = Inr d'"
  shows "run_from g d'"
proof -
  from res obtain d1 where d1: "unmonitor_log e job d = Inr d1" by (auto simp: ProcessPostTermEvent_def)
  have r1: "run_from g d1" by (rule unmonitor_log_keeps [OF run job d1])
  have j1: "job \<in> dom (d_nodes d1)" using r1 run job run_from_dom by simp
  let ?R = "\<lambda>d2. run_from g d2 \<and> job \<in> dom (d_nodes d2)"
  define d2 where "d2 = (if Status (node_at d1 job) = STATUS_POSTRUN then d1\<lparr>d_postRunNodeCount := d_postRunNodeCount d1 - 1\<rparr> else d1)"
  have r2: "?R d2" using r1 j1 by (simp add: d2_def)
  let ?d3 = "upd_node job (post_failed ev) d2" and ?d4 = "upd_node job (\<lambda>j. j\<lparr>retval := 0\<rparr>) d2"
  have r3: "?R ?d3" "?R ?d4" "?R (?d3\<lparr>d_numNodesFailed := d_numNodesFailed ?d3 + 1\<rparr>)"
    using r2 by (simp_all add: run_from_upd_node)
  have "RestartNode e job rec ?d3 = Inr d' \<or> TerminateJob e job rec False ?d4 = Inr d' \<or>
     d' = upd_node job (\<lambda>j. snprintf_error (post_error_message (retval (node_at d2 job)) ev j) j) (?d3\<lparr>d_numNodesFailed := d_numNodesFailed ?d3 + 1\<rparr>)"
    using res d1 by (auto simp: ProcessPostTermEvent_def Let_def d2_def dest!: CheckForDagAbort_keeps split: if_splits)
  then show ?thesis
  proof (elim disjE)
    assume "RestartNode e job rec ?d3 = Inr d'"
    then show ?thesis by (rule RestartNode_keeps [OF conjunct1 [OF r3(1)] conjunct2 [OF r3(1)]])
  next
    assume "TerminateJob e job rec False ?d4 = Inr d'"
    then show ?thesis by (rule TerminateJob_keeps [OF conjunct1 [OF r3(2)] conjunct2 [OF r3(2)]])
  qed (use r3(3) in \<open>simp add: run_from_upd_node\<close>)
qed

section \<open>Reapers\<close>

lemma PostScriptReaper_keeps: "reaper_keeps True (PostScriptReaper e)"
  unfolding reaper_keeps_def
proof (intro allI impI)
  fix g d d' i st
  assume run: "run_from g d" and i: "i \<in> dom (d_nodes d)"
    and res: "PostScriptReaper e (jobName (node_at d i)) st d = Inr d'"
  have f: "FindNodeByName (Some (jobName (node_at d i))) d = Inr (Some i)" using FindNodeByName_ok [OF _ i] run by blast
  obtain ok d1 where d1: "ask (e_write_ok e) d = (ok, d1)" by (cases "ask (e_write_ok e) d")
  have "(\<exists>ev. ProcessPostTermEvent e ev i (d_recovery d) d = Inr d') \<or> (\<exists>ev. d' = act (A_write_event ev) d1)"
    using res f d1 by (auto simp: PostScriptReaper_def Let_def split: if_splits)
  then show "run_from g d'" using ProcessPostTermEvent_keeps [OF run i] run_from_ask [OF run d1] by auto
qed

lemma script_reaper_keeps: "reaper_keeps post (script_reaper e post)"
  by (cases post) (simp_all add: script_reaper_def PostScriptReaper_keeps PreScriptReaper_keeps)

lemma ScriptQ_Run_keeps:
  assumes "run_from g d" and "i \<in> dom (d_nodes d)" and "ScriptQ_Run e (i, True) d = Inr (r, d')"
  shows "run_from g d'"
  using Run_with_keeps [OF _ assms(1) _ _ assms(3) [unfolded ScriptQ_Run_def]] assms(2) script_reaper_keeps by simp

lemma remove_pid_subset: "set (remove_pid pid t) \<subseteq> set t"
  by (induction t) (auto split: if_splits)

lemma ScriptReaper_keeps:
  assumes run: "run_from g d" and res: "ScriptReaper e post pid st d = Inr d'"
  shows "run_from g d'"
proof -
  from res obtain s where s: "map_of (sq_scriptPidTable (get_sq post d)) pid = Some s"
    by (auto simp: ScriptReaper_def ScriptReaper_with_def split: option.splits)
  let ?d1 = "upd_sq post (\<lambda>q. q\<lparr>sq_scriptPidTable := remove_pid pid (sq_scriptPidTable q),
      sq_numScriptsRunning := sq_numScriptsRunning q - 1\<rparr>) d"
  let ?d2 = "upd_script s (\<lambda>x. x\<lparr>s_done := True\<rparr>) ?d1"
  have q: "sq_ok d post (get_sq post d)" by (rule run_from_sq_ok [OF run])
  from s have "s \<in> snd ` set (sq_scriptPidTable (get_sq post d))" by (metis image_eqI map_of_SomeD snd_conv)
  with q have sd: "fst s \<in> dom (d_nodes d)" "\<not> post \<longrightarrow> queue_of d (fst s) Q_WAITING = {}" unfolding sq_ok_def by blast+
  have "sq_ok d post (get_sq post d\<lparr>sq_scriptPidTable := remove_pid pid (sq_scriptPidTable (get_sq post d)),
      sq_numScriptsRunning := n\<rparr>)" for n
    using q remove_pid_subset [of pid "sq_scriptPidTable (get_sq post d)"] unfolding sq_ok_def by (simp del: domIff) blast
  then have r1: "run_from g ?d1" by (intro run_from_sq [OF run])
  have r2: "run_from g ?d2" "fst s \<in> dom (d_nodes ?d2)" "queue_of ?d2 (fst s) Q_WAITING = queue_of d (fst s) Q_WAITING"
    unfolding upd_script_def using r1 sd by (auto intro!: run_from_upd_node)
  obtain d3 where d3: "script_reaper e post (jobName (node_at ?d2 (fst s))) st ?d2 = Inr d3"
    and rest: "(dequeue (sq_waitingQueue (get_sq post d3)) = None \<and> d' = d3) \<or> (\<exists>nxt w r.
      dequeue (sq_waitingQueue (get_sq post d3)) = Some (nxt, w) \<and>
      Run_with (script_reaper e post) e nxt (upd_sq post (\<lambda>q. q\<lparr>sq_waitingQueue := w\<rparr>) d3) = Inr (r, d'))"
    using res s by (auto simp: ScriptReaper_def ScriptReaper_with_def Let_def split: option.splits if_splits)
  have r3: "run_from g d3" by (rule reaper_keepsD [OF script_reaper_keeps d3 r2(1,2)]) (use r2(3) sd(2) in metis)
  from rest show ?thesis
  proof (elim disjE exE conjE)
    fix nxt w r
    assume dq: "dequeue (sq_waitingQueue (get_sq post d3)) = Some (nxt, w)"
      and rn: "Run_with (script_reaper e post) e nxt (upd_sq post (\<lambda>q. q\<lparr>sq_waitingQueue := w\<rparr>) d3) = Inr (r, d')"
    note n = sq_ok_dequeue [OF run_from_sq_ok [OF r3] dq]
    have "run_from g (upd_sq post (\<lambda>q. q\<lparr>sq_waitingQueue := w\<rparr>) d3)" by (rule run_from_sq [OF r3]) (use n in simp)
    from Run_with_keeps [OF _ this _ _ rn] n script_reaper_keeps show ?thesis by auto
  qed (use r3 in simp)
qed

section \<open>Log events\<close>

text \<open>Besides the state, most handlers only matter through the node they are called for.\<close>

abbreviation at :: "Dag \<Rightarrow> JobID_t \<Rightarrow> Dag \<Rightarrow> bool" where
  "at g i d \<equiv> run_from g d \<and> i \<in> dom (d_nodes d)"

lemma at_upd: "at g i d \<Longrightarrow> same_links (node_at d i) (f (node_at d i)) \<Longrightarrow> at g i (upd_node i f d)"
  by (simp add: run_from_upd_node)

lemma at_from: "at g i d \<Longrightarrow> run_from g d' \<Longrightarrow> at g i d'"
  using run_from_dom by blast

lemma UpdateJobCounts_keeps: "at g i d \<Longrightarrow> UpdateJobCounts node c d = Inr d' \<Longrightarrow> at g i d' \<and> node_at d' = node_at d"
  by (auto simp: UpdateJobCounts_def Let_def split: if_splits option.splits)

lemma DecrementJobCounts_keeps:
  assumes "at g i d" and "DecrementJobCounts i d = Inr d'"
  shows "at g i d'"
proof -
  let ?d1 = "upd_node i (\<lambda>j. j\<lparr>queuedNodeJobProcs := queuedNodeJobProcs j - 1\<rparr>) d"
  have "at g i ?d1" using assms(1) by (intro at_upd) simp_all
  moreover have "d' = ?d1 \<or> UpdateJobCounts i (-1) ?d1 = Inr d'"
    using assms(2) unfolding DecrementJobCounts_def Let_def by (simp split: if_splits)
  ultimately show ?thesis using UpdateJobCounts_keeps by blast
qed

lemma RemoveBatchJob_keeps: "at g i d \<Longrightarrow> at g i (RemoveBatchJob k d)"
  by (simp add: RemoveBatchJob_def Let_def split: job_type_t.splits)

lemma ProcessJobProcEnd_keeps:
  assumes at0: "at g job d" and res: "ProcessJobProcEnd e job rec failed d = Inr d'"
  shows "run_from g d'"
proof -
  from res obtain d1 where d1: "(if queuedNodeJobProcs (node_at d job) = 0 then unmonitor_log e job d else Inr d) = Inr d1"
    unfolding ProcessJobProcEnd_def by (auto split: if_splits)
  have a1: "at g job d1"
  proof (cases "queuedNodeJobProcs (node_at d job) = 0")
    case True
    with d1 have "unmonitor_log e job d = Inr d1" by simp
    from unmonitor_log_keeps [OF _ _ this] at0 show ?thesis by (intro at_from [OF at0]) simp
  qed (use d1 at0 in simp)
  let ?d2 = "upd_node job add_retries_text d1"
  let ?d3 = "(upd_node job (\<lambda>j. j\<lparr>Status := STATUS_POSTRUN\<rparr>) d1)\<lparr>d_postRunNodeCount := d_postRunNodeCount d1 + 1\<rparr>"
  have a2: "at g job ?d2" "at g job ?d3" using a1 by (simp_all add: run_from_upd_node)
  have "RestartNode e job rec d1 = Inr d' \<or> TerminateJob e job rec False d1 = Inr d' \<or>
      d' \<in> {d1, ?d2, d1\<lparr>d_numNodesFailed := d_numNodesFailed d1 + 1\<rparr>, ?d2\<lparr>d_numNodesFailed := d_numNodesFailed ?d2 + 1\<rparr>} \<or>
      (\<exists>ok d4. monitor_log e job ?d3 = Inr (ok, d4) \<and> (d' = d4 \<or> (\<exists>r. ScriptQ_Run e (job, True) d4 = Inr (r, d'))))"
    using res d1 unfolding ProcessJobProcEnd_def Let_def by (auto split: if_splits)
  then show ?thesis
  proof (elim disjE exE conjE)
    fix ok d4 r assume m: "monitor_log e job ?d3 = Inr (ok, d4)" and q: "ScriptQ_Run e (job, True) d4 = Inr (r, d')"
    have "at g job d4" using monitor_log_keeps [OF _ _ m] a2(2) at_from by blast
    then show ?thesis using ScriptQ_Run_keeps [OF _ _ q] by blast
  next
    fix ok d4 assume m: "monitor_log e job ?d3 = Inr (ok, d4)" and "d' = d4"
    then show ?thesis using monitor_log_keeps [OF _ _ m] a2(2) by blast
  next
    assume "RestartNode e job rec d1 = Inr d'"
    with a1 show ?thesis by (elim conjE) (rule RestartNode_keeps)
  next
    assume "TerminateJob e job rec False d1 = Inr d'"
    with a1 show ?thesis by (elim conjE) (rule TerminateJob_keeps)
  next
    assume "d' \<in> {d1, ?d2, d1\<lparr>d_numNodesFailed := d_numNodesFailed d1 + 1\<rparr>, ?d2\<lparr>d_numNodesFailed := d_numNodesFailed ?d2 + 1\<rparr>}"
    then show ?thesis using a1 a2 by (elim insertE) simp_all
  qed
qed

lemma at_if: "at g i d \<Longrightarrow> at g i d' \<Longrightarrow> at g i (if b then d else d')"
  by simp

lemma same_links_term_failed [simp]:
  "same_links j (term_failed ev j)" "same_links j ((term_failed ev j)\<lparr>Status := s\<rparr>)"
  "same_links j (tell_post_script (j\<lparr>retval := v\<rparr>))" "same_links j ((snprintf_error t (j\<lparr>Status := s\<rparr>))\<lparr>retval := v\<rparr>)"
  by (simp_all add: same_links_def term_failed_def tell_post_script_def snprintf_error_def)

lemma ProcessAbortEvent_keeps:
  assumes at0: "at g job d" and res: "ProcessAbortEvent e ev job rec d = Inr d'"
  shows "run_from g d'"
proof -
  from res obtain d1 where d1: "DecrementJobCounts job d = Inr d1" by (auto simp: ProcessAbortEvent_def)
  note a1 = DecrementJobCounts_keeps [OF at0 d1]
  define d2 where "d2 = (if jobProcsOnHold (node_at d1 job) > 0 then
      upd_node job (\<lambda>j. j\<lparr>jobProcsOnHold := jobProcsOnHold j - 1\<rparr>) (d1\<lparr>d_numHeldJobProcs := d_numHeldJobProcs d1 - 1\<rparr>) else d1)"
  have a2: "at g job d2" unfolding d2_def using a1 by (intro at_if at_upd) simp_all
  define d3 where "d3 = upd_node job (\<lambda>j. (snprintf_error (''Condor reported ULOG_JOB_ABORTED event for job proc '' @ proc_string ev)
      (j\<lparr>Status := STATUS_ERROR\<rparr>))\<lparr>retval := DAG_ERROR_CONDOR_JOB_ABORTED\<rparr>) d2"
  have a3: "at g job d3" unfolding d3_def using a2 by (intro at_upd) simp_all
  define d4 where "d4 = upd_node job tell_post_script (if queuedNodeJobProcs (node_at d3 job) > 0 then RemoveBatchJob job d3 else d3)"
  have a4: "at g job d4" unfolding d4_def using a3 by (intro at_upd at_if RemoveBatchJob_keeps) simp_all
  have "ProcessJobProcEnd e job rec True (if Status (node_at d2 job) \<noteq> STATUS_ERROR then d4 else d2) = Inr d'"
    using res d1 unfolding ProcessAbortEvent_def Let_def d4_def d3_def d2_def by simp
  moreover have "at g job (if Status (node_at d2 job) \<noteq> STATUS_ERROR then d4 else d2)" using a2 a4 by simp
  ultimately show ?thesis using ProcessJobProcEnd_keeps by blast
qed

lemma ProcessTerminatedEvent_keeps:
  assumes at0: "at g job d" and res: "ProcessTerminatedEvent e ev job rec d = Inr d'"
  shows "run_from g d'"
proof -
  from res obtain d1 where d1: "DecrementJobCounts job d = Inr d1" by (auto simp: ProcessTerminatedEvent_def)
  note a1 = DecrementJobCounts_keeps [OF at0 d1]
  let ?failed = "\<not> (ev_normal ev \<and> ev_returnValue ev = 0)"
  define d2 where "d2 = upd_node job (\<lambda>j. (term_failed ev j)\<lparr>Status := STATUS_ERROR\<rparr>) d1"
  have a2: "at g job d2" unfolding d2_def using a1 by (intro at_upd) simp_all
  define d3 where "d3 = (if Status (node_at d1 job) = STATUS_ERROR then d1
     else if ?failed then (if queuedNodeJobProcs (node_at d2 job) > 0 then RemoveBatchJob job d2 else d2)
     else upd_node job (\<lambda>j. tell_post_script (j\<lparr>retval := 0\<rparr>)) d1)"
  have a3: "at g job d3" unfolding d3_def using a1 a2 by (intro at_if at_upd RemoveBatchJob_keeps) simp_all
  have "bindR (if scriptPost (node_at d3 job) = None then CheckForDagAbort job d3 else Inr d3)
      (ProcessJobProcEnd e job rec ?failed) = Inr d'"
    using res d1 unfolding ProcessTerminatedEvent_def Let_def d3_def d2_def by simp
  then have "ProcessJobProcEnd e job rec ?failed d3 = Inr d'"
    by (auto split: if_splits dest: CheckForDagAbort_keeps)
  then show ?thesis using ProcessJobProcEnd_keeps [OF a3] by blast
qed

lemma ProcessSubmitEvent_keeps:
  assumes at0: "at g job d" and res: "ProcessSubmitEvent e job rec sane d = Inr d'"
  shows "at g job d'"
proof -
  define d1 where "d1 = (if rec \<and> JobIsNoop (j_CondorID (node_at d job)) then
      d\<lparr>d_recoveryMaxfakeID := max (d_recoveryMaxfakeID d) (GetIndexID (j_CondorID (node_at d job)))\<rparr> else d)"
  have a1: "at g job d1" unfolding d1_def using at0 by (intro at_if) simp_all
  let ?fresh = "sane \<or> Status (node_at d1 job) \<noteq> STATUS_SUBMITTED"
  define d2 where "d2 = (if ?fresh then upd_node job (\<lambda>j. j\<lparr>queuedNodeJobProcs := queuedNodeJobProcs j + 1\<rparr>) d1 else d1)"
  have a2: "at g job d2" unfolding d2_def using a1 by (intro at_if at_upd) simp_all
  show ?thesis
  proof (cases rec)
    case True
    then obtain d3 where "d3 = d2 \<or> UpdateJobCounts job 1 d2 = Inr d3" "d' = upd_node job (\<lambda>j. j\<lparr>Status := STATUS_SUBMITTED\<rparr>) d3"
      using res unfolding ProcessSubmitEvent_def Let_def d1_def [symmetric] d2_def [symmetric] by (auto split: if_splits)
    then show ?thesis using a2 UpdateJobCounts_keeps at_upd same_links_simple(1) by metis
  next
    case False
    obtain nlogs d3 where d3: "ask (e_logFileCount e) d2 = (nlogs, d3)" by (cases "ask (e_logFileCount e) d2")
    have a3: "at g job d3" using run_from_ask [OF conjunct1 [OF a2] d3] a2 by simp
    then have qi: "queue_invar (d_submitQ d3)" by (simp add: run_from_def run_ok_def)
    have "d' = d3 \<or> (\<exists>x q q'. dequeue (d_submitQ d3) = Some (x, q) \<and> (d' = d3\<lparr>d_submitQ := q\<rparr> \<or> enqueue x q = Inr q' \<and> d' = d3\<lparr>d_submitQ := q'\<rparr>))"
      using res False d3 unfolding ProcessSubmitEvent_def Let_def d1_def [symmetric] d2_def [symmetric]
      by (auto split: if_splits option.splits)
    then show ?thesis
    proof (elim disjE exE conjE)
      fix x q q' assume dq: "dequeue (d_submitQ d3) = Some (x, q)"
      have q: "queue_invar q" using ringq.deq_Some [OF qi dq] by simp
      { assume "d' = d3\<lparr>d_submitQ := q\<rparr>" then show ?thesis using a3 q by (simp add: run_from_submitQ) }
      assume "enqueue x q = Inr q'" "d' = d3\<lparr>d_submitQ := q'\<rparr>"
      then show ?thesis using a3 ringq.enq_Inr [OF q] by (simp add: run_from_submitQ)
    qed (use a3 in simp)
  qed
qed

lemma simple_events_keep:
  assumes "at g job d"
  shows "at g job (ProcessIsIdleEvent job d)" "at g job (ProcessNotIdleEvent job d)" "at g job (ProcessHeldEvent job d)"
    "at g job (ProcessReleasedEvent job d)"
  unfolding ProcessIsIdleEvent_def ProcessNotIdleEvent_def ProcessHeldEvent_def ProcessReleasedEvent_def Let_def
  using assms by (intro at_if at_upd RemoveBatchJob_keeps; simp)+

lemma dispatch_event_keeps:
  assumes a: "at g job d" and res: "dispatch_event e ev job rec sane d = Inr d'"
  shows "at g job d'"
proof -
  consider d1 where "ProcessAbortEvent e ev job rec d = Inr d1" "d' = ProcessNotIdleEvent job d1"
    | d1 where "ProcessTerminatedEvent e ev job rec d = Inr d1" "d' = ProcessNotIdleEvent job d1"
    | "ProcessPostTermEvent e ev job rec d = Inr d'"
    | d1 where "ProcessSubmitEvent e job rec sane d = Inr d1" "d' = ProcessIsIdleEvent job d1"
    | "d' \<in> {d, ProcessIsIdleEvent job d, ProcessNotIdleEvent job d, ProcessReleasedEvent job d, ProcessIsIdleEvent job (ProcessHeldEvent job d)}"
    using res unfolding dispatch_event_def by (auto split: ULogEventNumber.splits)
  then show ?thesis
  proof cases
    case 1
    then show ?thesis using simple_events_keep(2) [OF at_from [OF a]] ProcessAbortEvent_keeps [OF a] by blast
  next
    case 2
    then show ?thesis using simple_events_keep(2) [OF at_from [OF a]] ProcessTerminatedEvent_keeps [OF a] by blast
  next
    case 3
    then show ?thesis using a ProcessPostTermEvent_keeps by (intro at_from [OF a]) blast
  next
    case 4
    then show ?thesis using simple_events_keep(1) ProcessSubmitEvent_keeps [OF a] by blast
  next
    case 5
    then show ?thesis using a simple_events_keep(1) [OF simple_events_keep(3) [OF a]] simple_events_keep [OF a]
      by (elim insertE) simp_all
  qed
qed

end
