(* ===== verification/Dag_Steps.thy ===== *)
theory Dag_Steps
  imports Dag_Handlers
begin

text \<open>
  The three entry points of the engine keep the invariant of a running DAG: reading the user
  logs, reaping a script (in \<open>Dag_Handlers\<close>), and the submit cycle.
\<close>

section \<open>Finding the node of an event\<close>

lemma FindNodeByEventID_dom:
  assumes "run_from g d" and "FindNodeByEventID ls i d = Inr (Some p)"
  shows "p \<in> dom (d_nodes d)"
proof -
  have "GetEventIDHash (JobIsNoop i) ls d (GetIndexID i) = Some p"
    using assms(2) by (auto simp: FindNodeByEventID_def Let_def split: if_splits option.splits)
  then have "p \<in> ran (GetEventIDHash (JobIsNoop i) ls d)" by (rule ranI)
  then show ?thesis using EventIDHash_ran [OF assms(1)] by blast
qed

lemma submit_lookup_cases:
  assumes ev: "ev_eventNumber ev = ULOG_SUBMIT" and res: "LogEventNodeLookup ls ev d = Inr (found, sane, d')"
  obtains "found = None" "d' = d"
  | n p b where "FindNodeByName (Some n) d = Inr (Some p)" "found = Some p"
      "d' = upd_node p (\<lambda>j. j\<lparr>j_CondorID := event_id ev\<rparr>) d \<or>
       d' = set_EventIDHash b ls ((GetEventIDHash b ls (upd_node p (\<lambda>j. j\<lparr>j_CondorID := event_id ev\<rparr>) d))(GetIndexID (event_id ev) \<mapsto> p))
         (upd_node p (\<lambda>j. j\<lparr>j_CondorID := event_id ev\<rparr>) d)"
proof (cases "ev_submitEventLogNotes ev")
  case None
  then show ?thesis using that(1) res ev by (simp add: LogEventNodeLookup_def Let_def)
next
  case (Some nt)
  show ?thesis
  proof (cases "sscanf_dag_node nt")
    case None
    then show ?thesis using that(1) res ev Some by (simp add: LogEventNodeLookup_def Let_def)
  next
    case (Some n)
    note n = \<open>ev_submitEventLogNotes ev = Some nt\<close> Some
    show ?thesis
    proof (cases "FindNodeByName (Some n) d")
      case (Inl x)
      then show ?thesis using res ev n by (simp add: LogEventNodeLookup_def Let_def)
    next
      case (Inr f)
      show ?thesis
      proof (cases f)
        case None
        then show ?thesis using that(1) res ev n Inr by (simp add: LogEventNodeLookup_def Let_def)
      next
        case (Some p)
        let ?d1 = "upd_node p (\<lambda>j. j\<lparr>j_CondorID := event_id ev\<rparr>) d" and ?b = "JobIsNoop (event_id ev)"
        have "found = Some p" "d' = ?d1 \<or> d' = set_EventIDHash ?b ls ((GetEventIDHash ?b ls ?d1)(GetIndexID (event_id ev) \<mapsto> p)) ?d1"
          using res ev n Inr Some by (auto simp: LogEventNodeLookup_def Let_def split: if_splits option.splits)
        then show ?thesis using that(2) Inr Some by blast
      qed
    qed
  qed
qed

lemma other_lookup_cases:
  assumes ev: "ev_eventNumber ev \<noteq> ULOG_SUBMIT" and res: "LogEventNodeLookup ls ev d = Inr (found, sane, d')"
  shows "d' = d \<and> (found = None \<or> FindNodeByEventID ls (event_id ev) d = Inr found \<or> FindNodeByName (ev_dagNodeName ev) d = Inr found)"
  using assms by (auto simp: LogEventNodeLookup_def Let_def split: if_splits)

lemma LogEventNodeLookup_keeps:
  assumes run: "run_from g d" and res: "LogEventNodeLookup ls ev d = Inr (found, sane, d')"
  shows "run_from g d' \<and> (\<forall>i. found = Some i \<longrightarrow> i \<in> dom (d_nodes d'))"
proof (cases "ev_eventNumber ev = ULOG_SUBMIT")
  case True
  then show ?thesis
  proof (rule submit_lookup_cases [OF _ res])
    assume "found = None" "d' = d"
    then show ?thesis using run by simp
  next
    fix n p b
    let ?d1 = "upd_node p (\<lambda>j. j\<lparr>j_CondorID := event_id ev\<rparr>) d"
    assume p: "FindNodeByName (Some n) d = Inr (Some p)" "found = Some p"
      and d': "d' = ?d1 \<or> d' = set_EventIDHash b ls ((GetEventIDHash b ls ?d1)(GetIndexID (event_id ev) \<mapsto> p)) ?d1"
    have "at g p d" using FindNodeByName_dom [OF _ p(1)] run by blast
    then have a: "at g p ?d1" by (rule at_upd) simp
    have "at g p d'" using d'
    proof (elim disjE)
      assume d': "d' = set_EventIDHash b ls ((GetEventIDHash b ls ?d1)(GetIndexID (event_id ev) \<mapsto> p)) ?d1"
      show ?thesis unfolding d' set_EventIDHash_parts
        by (rule conjI [OF EventIDHash_learn [OF conjunct1 [OF a] conjunct2 [OF a]] conjunct2 [OF a]])
    qed (use a in simp)
    then show ?thesis using p(2) by simp
  qed
next
  case False
  note c = other_lookup_cases [OF False res]
  have "i \<in> dom (d_nodes d)" if "found = Some i" for i
    using c that FindNodeByEventID_dom [OF run] FindNodeByName_dom [of d] run by blast
  then show ?thesis using c run by simp
qed

lemma EventSanityCheck_keeps:
  assumes "run_from g d" and "EventSanityCheck ls ev r d = (s, r', d')"
  shows "run_from g d' \<and> d_nodes d' = d_nodes d"
proof -
  have "(\<exists>c. d' = d\<lparr>d_checkCondorEvents := c\<rparr>) \<or> (\<exists>c. d' = d\<lparr>d_checkStorkEvents := c\<rparr>)"
    using assms(2) unfolding EventSanityCheck_def by (cases ls) (auto split: check_event_result_t.splits prod.splits)
  then show ?thesis using assms(1) by (elim disjE exE) simp_all
qed

lemma ProcessOneEvent_ok:
  assumes "ProcessOneEvent e ls ULOG_OK ev rec d = Inr (ok, fin, d')"
  obtains v found sane d1 where "ev = Some v" "\<not> fin" "LogEventNodeLookup ls v (d\<lparr>d_log_unk_count := 0\<rparr>) = Inr (found, sane, d1)"
    "found = None \<and> ok \<and> d' = d1 \<or>
     (\<exists>job s d2. found = Some job \<and> EventSanityCheck ls v True d1 = (s, ok, d2) \<and>
        (d' = d2 \<or> dispatch_event e v job rec sane (d2\<lparr>d_statusFileOutdated := True\<rparr>) = Inr d'))"
proof (cases ev)
  case (Some v)
  with assms obtain found sane d1 where l: "LogEventNodeLookup ls v (d\<lparr>d_log_unk_count := 0\<rparr>) = Inr (found, sane, d1)"
    by (auto simp: ProcessOneEvent_def)
  obtain s r d2 where d2: "EventSanityCheck ls v True d1 = (s, r, d2)" by (cases "EventSanityCheck ls v True d1")
  have "found = None \<and> ok \<and> d' = d1 \<and> \<not> fin \<or>
     (\<exists>job. found = Some job \<and> r = ok \<and> \<not> fin \<and> (d' = d2 \<or> dispatch_event e v job rec sane (d2\<lparr>d_statusFileOutdated := True\<rparr>) = Inr d'))"
    using assms Some l d2 by (cases found) (auto simp: ProcessOneEvent_def split: if_splits)
  then show ?thesis using that [OF Some _ l] d2 by blast
qed (use assms in \<open>simp add: ProcessOneEvent_def\<close>)

lemma ProcessOneEvent_other:
  assumes "oc \<noteq> ULOG_OK" and "ProcessOneEvent e ls oc ev rec d = Inr (ok, fin, d')"
  shows "d' = (case oc of ULOG_RD_ERROR \<Rightarrow> d\<lparr>d_log_unk_count := 0, d_ulog_rd_error_count := d_ulog_rd_error_count d + 1\<rparr>
     | ULOG_UNK_ERROR \<Rightarrow> d\<lparr>d_log_unk_count := d_log_unk_count d + 1\<rparr> | _ \<Rightarrow> d\<lparr>d_log_unk_count := 0\<rparr>)"
  using assms unfolding ProcessOneEvent_def Let_def by (cases oc) simp_all

lemma ProcessOneEvent_keeps:
  assumes run: "run_from g d" and res: "ProcessOneEvent e ls oc ev rec d = Inr (ok, fin, d')"
  shows "run_from g d'"
proof (cases "oc = ULOG_OK")
  case False
  from ProcessOneEvent_other [OF this res] run show ?thesis by (simp split: ULogEventOutcome.splits)
next
  case True
  have run0: "run_from g (d\<lparr>d_log_unk_count := 0\<rparr>)" using run by simp
  from res [unfolded True] show ?thesis
  proof (rule ProcessOneEvent_ok)
    fix v found sane d1
    assume l: "LogEventNodeLookup ls v (d\<lparr>d_log_unk_count := 0\<rparr>) = Inr (found, sane, d1)"
      and c: "found = None \<and> ok \<and> d' = d1 \<or>
        (\<exists>job s d2. found = Some job \<and> EventSanityCheck ls v True d1 = (s, ok, d2) \<and>
          (d' = d2 \<or> dispatch_event e v job rec sane (d2\<lparr>d_statusFileOutdated := True\<rparr>) = Inr d'))"
    note k = LogEventNodeLookup_keeps [OF run0 l]
    from c show ?thesis
    proof (elim disjE exE conjE)
      fix job s d2 assume f: "found = Some job" and s: "EventSanityCheck ls v True d1 = (s, ok, d2)"
      have a: "at g job d2" using EventSanityCheck_keeps [OF conjunct1 [OF k] s] k f by simp
      { assume "d' = d2" then show ?thesis using a by simp }
      assume ds: "dispatch_event e v job rec sane (d2\<lparr>d_statusFileOutdated := True\<rparr>) = Inr d'"
      have "at g job (d2\<lparr>d_statusFileOutdated := True\<rparr>)" using a by simp
      from dispatch_event_keeps [OF this ds] show ?thesis by simp
    qed (use k in simp)
  qed
qed

section \<open>The reading loop\<close>

text \<open>By induction on the calls: when the loop returns, it has kept the invariant.\<close>

lemma ProcessLogEvents_keeps:
  assumes run: "run_from g d" and ret: "ProcessLogEvents e ls rec r d = Some y"
  shows "\<forall>ok d'. y = Inr (ok, d') \<longrightarrow> run_from g d'"
proof -
  have "run_from g d \<longrightarrow> (\<forall>ok d'. y = Inr (ok, d') \<longrightarrow> run_from g d')"
  proof (rule ProcessLogEvents.raw_induct [where P = "\<lambda>e ls rec r d y. run_from g d \<longrightarrow> (\<forall>ok d'. y = Inr (ok, d') \<longrightarrow> run_from g d')", OF _ ret])
    fix f e ls rec r d y
    assume IH: "\<And>e ls rec r d y. f e ls rec r d = Some y \<Longrightarrow> run_from g d \<longrightarrow> (\<forall>ok d'. y = Inr (ok, d') \<longrightarrow> run_from g d')"
      and eq: "(case ask (e_readEvent e) d of ((outcome, ev), d) \<Rightarrow>
        case ProcessOneEvent e ls outcome ev rec d of Inl x \<Rightarrow> Some (Inl x)
        | Inr (tmpResult, done, d) \<Rightarrow> if done then Some (Inr (r \<and> tmpResult, d)) else f e ls rec (r \<and> tmpResult) d) = Some y"
    show "run_from g d \<longrightarrow> (\<forall>ok d'. y = Inr (ok, d') \<longrightarrow> run_from g d')"
    proof (intro impI allI)
      fix ok d' assume run: "run_from g d" and y: "y = Inr (ok, d')"
      obtain oc v d1 where d1: "ask (e_readEvent e) d = ((oc, v), d1)" by (metis prod.exhaust)
      have r1: "run_from g d1" using run_from_ask [OF run d1] by simp
      obtain tr fin d2 where d2: "ProcessOneEvent e ls oc v rec d1 = Inr (tr, fin, d2)"
        using eq d1 y by (cases "ProcessOneEvent e ls oc v rec d1") auto
      have r2: "run_from g d2" by (rule ProcessOneEvent_keeps [OF r1 d2])
      show "run_from g d'"
      proof (cases fin)
        case True
        then show ?thesis using eq y d1 d2 r2 by simp
      next
        case False
        then have "f e ls rec (r \<and> tr) d2 = Some y" using eq d1 d2 by simp
        from IH [OF this] r2 y show ?thesis by simp
      qed
    qed
  qed
  with run show ?thesis by simp
qed

section \<open>Submitting one node\<close>

text \<open>A node that waits for nothing still waits for nothing later.\<close>

definition free :: "Dag \<Rightarrow> JobID_t \<Rightarrow> Dag \<Rightarrow> bool" where
  "free g i d \<longleftrightarrow> run_from g d \<and> i \<in> dom (d_nodes d) \<and> queue_of d i Q_WAITING = {}"

lemma free_from:
  assumes f: "free g i d" and g: "run_from g d'" and d: "run_from d d'"
  shows "free g i d'"
proof -
  have i: "i \<in> dom (d_nodes d)" "queue_of d i Q_WAITING = {}" using f by (simp_all add: free_def)
  have "node_kept (node_at d i) (node_at d' i)" using d i(1) unfolding run_from_def grows_def by blast
  then have "queue_of d' i Q_WAITING = {}" using i(2) by (simp add: node_kept_def)
  moreover have "i \<in> dom (d_nodes d')" using i(1) run_from_dom [OF d] by simp
  ultimately show ?thesis using g by (simp add: free_def)
qed

lemma freeD: "free g i d \<Longrightarrow> run_from g d" "free g i d \<Longrightarrow> i \<in> dom (d_nodes d)" "free g i d \<Longrightarrow> queue_of d i Q_WAITING = {}"
  by (simp_all add: free_def)

lemma free_frame [simp]:
  "free g i (d\<lparr>d_numNodesFailed := n\<rparr>) = free g i d" "free g i (d\<lparr>d_subprocID := n\<rparr>) = free g i d"
  "free g i (d\<lparr>d_nextSubmitTime := n\<rparr>) = free g i d" "free g i (d\<lparr>d_nextSubmitDelay := n\<rparr>) = free g i d"
  "free g i (d\<lparr>d_postRunNodeCount := n\<rparr>) = free g i d" "free g i (d\<lparr>d_catThrottleDeferredCount := n\<rparr>) = free g i d"
  "free g i (d\<lparr>d_numJobsSubmitted := n\<rparr>) = free g i d" "free g i (d\<lparr>d_heap := hp\<rparr>) = free g i d"
  by (simp_all add: free_def)

lemma forget_old_id_cases:
  assumes "forget_old_id i c d = Inr d'"
  shows "\<exists>d1. d' = upd_node i (\<lambda>j. j\<lparr>j_CondorID := default_CondorID\<rparr>) d1 \<and>
      (d1 = d \<or> (\<exists>b ty k. d1 = set_EventIDHash b ty ((GetEventIDHash b ty d)(k := None)) d))"
  using assms by (auto simp: forget_old_id_def Let_def split: if_splits)

lemma forget_old_id_keeps:
  assumes "free g i d" and "forget_old_id i c d = Inr d'"
  shows "free g i d'"
proof -
  have "free g i (upd_node i (\<lambda>j. j\<lparr>j_CondorID := default_CondorID\<rparr>) d1)" if "free g i d1" for d1
    using that by (simp add: free_def run_from_upd_node)
  moreover have "free g i (set_EventIDHash b ty ((GetEventIDHash b ty d)(k := None)) d)" for b ty k
    using assms(1) EventIDHash_forget [of g d b ty k] by (simp add: free_def)
  ultimately show ?thesis using forget_old_id_cases [OF assms(2)] assms(1) by (elim exE conjE disjE) simp_all
qed

lemma ask_keeps:
  assumes "free g i d" and "ask q d = (a, d')"
  shows "free g i d'"
  using run_from_ask [OF freeD(1) [OF assms(1)] assms(2)] assms(1) by (simp add: free_def)

lemma act_keeps: "free g i d \<Longrightarrow> act_ok (d_nodes d) a \<Longrightarrow> free g i (act a d)"
  by (simp add: free_def)

lemma upd_keeps:
  "free g i d \<Longrightarrow> same_links (node_at d i) (f (node_at d i)) \<Longrightarrow> free g i (upd_node i f d)"
  by (simp add: free_def run_from_upd_node) (simp add: same_links_def)

lemma fake_condor_submit_keeps:
  assumes "free g i d" and "fake_condor_submit e c n d = Inr (ok, c', d')"
  shows "free g i d'"
proof -
  obtain ok1 d1 where d1: "ask (e_cd_ok e) d = (ok1, d1)" by (cases "ask (e_cd_ok e) d")
  let ?d2 = "d1\<lparr>d_subprocID := d_subprocID d1 + 1\<rparr>"
  obtain ok2 d3 where d3: "ask (e_write_ok e) ?d2 = (ok2, d3)" by (cases "ask (e_write_ok e) ?d2")
  let ?d4 = "\<lambda>ev. act (A_write_event ev) d3"
  have f1: "free g i d1" by (rule ask_keeps [OF assms(1) d1])
  then have "free g i ?d2" by simp
  then have f3: "free g i d3" using d3 by (rule ask_keeps)
  have f4: "free g i (?d4 ev)" for ev by (rule act_keeps [OF f3]) simp
  have "d' = d1 \<or> (\<exists>ev ev' d5. ask (e_write_ok e) (?d4 ev) = (True, d5) \<and> d' = act (A_write_event ev') d5)"
    using assms(2) d1 d3 by (auto simp: fake_condor_submit_def Let_def split: if_splits prod.splits)
  then show ?thesis
  proof (elim disjE exE conjE)
    fix ev ev' d5 assume d5: "ask (e_write_ok e) (?d4 ev) = (True, d5)" and d': "d' = act (A_write_event ev') d5"
    show ?thesis unfolding d' by (rule act_keeps [OF ask_keeps [OF f4 d5]]) simp
  qed (use f1 in simp)
qed

lemma submit_command_keeps:
  assumes "free g i d" and "submit_command e i c d = (ok, c', d')"
  shows "free g i d'"
proof -
  have "free g i (act (A_submit i) d)" by (rule act_keeps [OF assms(1)]) (use freeD [OF assms(1)] in \<open>simp add: node_at_def\<close>)
  moreover obtain x where "ask (e_submit e) (act (A_submit i) d) = (x, d')"
    using assms(2) by (auto simp: submit_command_def split: prod.splits)
  ultimately show ?thesis by (rule ask_keeps)
qed

lemma do_submit_keeps:
  assumes "free g i d" and "do_submit e i c d = Inr (ok, c', d')"
  shows "free g i d'"
proof -
  let ?d1 = "upd_node i (\<lambda>j. j\<lparr>submitTries := submitTries j + 1\<rparr>) d"
  have f: "free g i ?d1" by (rule upd_keeps [OF assms(1)]) simp
  have "fake_condor_submit e c (jobName (node_at ?d1 i)) ?d1 = Inr (ok, c', d') \<or> submit_command e i c ?d1 = (ok, c', d')"
    using assms(2) by (auto simp: do_submit_def Let_def split: if_splits job_type_t.splits)
  then show ?thesis using fake_condor_submit_keeps [OF f] submit_command_keeps [OF f] by blast
qed

lemma monitor_log_free:
  assumes "free g i d" and "monitor_log e i d = Inr (ok, d')"
  shows "free g i d'"
proof -
  note m = monitor_log_keeps [OF freeD(1,2) [OF assms(1)] assms(2)]
  then have "run_from g d'" by simp
  moreover from this have "i \<in> dom (d_nodes d')" using run_from_dom freeD(1,2) [OF assms(1)] by blast
  ultimately show ?thesis using m freeD(3) [OF assms(1)] by (simp add: free_def)
qed

lemma ask_cases_keep:
  assumes "free g i d"
  shows "run_submit_dag e n d = (x, d1) \<Longrightarrow> free g i d1" "missing_log_file e n d = (y, d2) \<Longrightarrow> free g i d2"
  using assms by (auto simp: run_submit_dag_def missing_log_file_def Let_def dest: ask_keeps split: if_splits prod.splits)

lemma SubmitNodeJob_keeps:
  assumes f0: "free g i d" and res: "SubmitNodeJob e dm i c d = Inr (r, c', d')"
  shows "free g i d'"
proof -
  from res obtain d1 where d1: "forget_old_id i c d = Inr d1" by (auto simp: SubmitNodeJob_def)
  let ?d2 = "if dm_submit_delay dm \<noteq> 0 then act (A_sleep (dm_submit_delay dm)) d1 else d1"
  have f2: "free g i ?d2" using forget_old_id_keeps [OF f0 d1] act_keeps by simp
  obtain n d3 where d3: "run_submit_dag e i ?d2 = (n, d3)" by (cases "run_submit_dag e i ?d2")
  note f3 = ask_cases_keep(1) [OF f2 d3]
  show ?thesis
  proof (cases "n = 0")
    case True
    with res d1 d3 obtain ok d4 where d4: "monitor_log e i d3 = Inr (ok, d4)" by (auto simp: SubmitNodeJob_def)
    note f4 = monitor_log_free [OF f3 d4]
    obtain b d5 where d5: "missing_log_file e i d4 = (b, d5)" by (cases "missing_log_file e i d4")
    note f5 = ask_cases_keep(2) [OF f4 d5]
    have "d' = d4 \<or> d' = (upd_node i no_log_error d5)\<lparr>d_numNodesFailed := d_numNodesFailed d5 + 1\<rparr> \<or> (\<exists>s. do_submit e i c d5 = Inr (s, c', d'))"
      using True res d1 d3 d4 d5 by (auto simp: SubmitNodeJob_def Let_def split: if_splits)
    then show ?thesis
    proof (elim disjE exE)
      have "free g i (upd_node i no_log_error d5)" by (rule upd_keeps [OF f5]) (simp add: no_log_error_def same_links_def snprintf_error_def)
      moreover assume "d' = (upd_node i no_log_error d5)\<lparr>d_numNodesFailed := d_numNodesFailed d5 + 1\<rparr>"
      ultimately show ?thesis by simp
    qed (use f4 do_submit_keeps [OF f5] in simp_all)
  qed (use res d1 d3 f3 in \<open>simp add: SubmitNodeJob_def\<close>)
qed

lemma UpdateJobCounts_free: "free g i d \<Longrightarrow> UpdateJobCounts n c d = Inr d' \<Longrightarrow> free g i d'"
  by (auto simp: UpdateJobCounts_def Let_def split: if_splits option.splits)

lemma submitQ_keeps: "free g i d \<Longrightarrow> queue_invar q \<Longrightarrow> free g i (d\<lparr>d_submitQ := q\<rparr>)"
  by (simp add: free_def run_from_submitQ)

lemma ProcessSuccessfulSubmit_keeps:
  assumes f0: "free g i d" and res: "ProcessSuccessfulSubmit i c d = Inr d'"
  shows "free g i d'"
proof -
  from res obtain q where q: "enqueue i (d_submitQ d) = Inr q" by (auto simp: ProcessSuccessfulSubmit_def)
  have qi: "queue_invar (d_submitQ d)" using freeD(1) [OF f0] by (simp add: run_from_def run_ok_def)
  let ?d1 = "d\<lparr>d_nextSubmitTime := 0, d_nextSubmitDelay := 1, d_submitQ := q\<rparr>"
  have "free g i ?d1" using ringq.enq_Inr [OF qi q] f0 by (intro submitQ_keeps) simp_all
  then have f2: "free g i (upd_node i (\<lambda>j. j\<lparr>Status := STATUS_SUBMITTED\<rparr>) ?d1)" (is "free g i ?d2") by (rule upd_keeps) simp
  from res q obtain d3 where d3: "UpdateJobCounts i 1 ?d2 = Inr d3" by (auto simp: ProcessSuccessfulSubmit_def Let_def)
  let ?d4 = "upd_node i (\<lambda>j. j\<lparr>j_CondorID := c\<rparr>) d3"
  have f4: "free g i ?d4" by (rule upd_keeps [OF UpdateJobCounts_free [OF f2 d3]]) simp
  obtain b ty k where d': "d' = set_EventIDHash b ty ((GetEventIDHash b ty ?d4)(k \<mapsto> i)) ?d4"
    using res q d3 by (auto simp: ProcessSuccessfulSubmit_def Let_def split: if_splits)
  show ?thesis using EventIDHash_learn [OF freeD(1,2) [OF f4]] f4 by (simp add: d' free_def)
qed

lemma unmonitor_log_free:
  assumes "free g i d" and "unmonitor_log e i d = Inr d'"
  shows "free g i d'"
  by (rule free_from [OF assms(1)]) (use unmonitor_log_keeps [OF _ _ assms(2)] freeD [OF assms(1)] run_from_self in blast)+

lemma ProcessFailedSubmit_keeps:
  assumes f0: "free g i d" and res: "ProcessFailedSubmit e i m d = Inr d'"
  shows "run_from g d'"
proof -
  obtain now d1 where d1: "ask (e_time e) d = (now, d1)" by (cases "ask (e_time e) d")
  let ?d1 = "d1\<lparr>d_nextSubmitTime := now + d_nextSubmitDelay d1, d_nextSubmitDelay := d_nextSubmitDelay d1 * 2\<rparr>"
  have "free g i ?d1" using ask_keeps [OF f0 d1] by simp
  moreover from res d1 obtain d2 where d2: "unmonitor_log e i ?d1 = Inr d2"
    by (auto simp: ProcessFailedSubmit_def Let_def split: if_splits)
  ultimately have f2: "free g i d2" by (rule unmonitor_log_free)
  let ?d3 = "upd_node i (\<lambda>j. (snprintf_error ''Job submit failed'' j)\<lparr>retries := retry_max j\<rparr>) (d2\<lparr>d_nextSubmitTime := 0, d_nextSubmitDelay := 1\<rparr>)"
  have le: "retries (node_at d2 i) \<le> retry_max (node_at d2 i)"
    using freeD(1,2) [OF f2] unfolding run_from_def run_ok_def counts_ok_def by blast
  have f3: "free g i ?d3" using f2 le by (intro upd_keeps) (simp_all add: same_links_def snprintf_error_def)
  let ?d4 = "(upd_node i (\<lambda>j. j\<lparr>Status := STATUS_POSTRUN,
       scriptPost := map_option (\<lambda>s. s\<lparr>s_retValJob := DAG_ERROR_CONDOR_SUBMIT_FAILED\<rparr>) (scriptPost j)\<rparr>) ?d3)
     \<lparr>d_postRunNodeCount := d_postRunNodeCount ?d3 + 1\<rparr>"
  have f4: "free g i ?d4" unfolding free_frame by (rule upd_keeps [OF f3]) (simp add: same_links_def)
  have f5: "free g i (upd_node i (\<lambda>j. j\<lparr>Status := STATUS_ERROR\<rparr>) (?d3\<lparr>d_numNodesFailed := d_numNodesFailed ?d3 + 1\<rparr>))"
    by (rule upd_keeps) (use f3 in simp_all)
  let ?p = "- nodePriority (node_at d2 i)"
  have "d' \<in> {d2\<lparr>d_readyQ := Prepend i ?p (d_readyQ d2)\<rparr>, d2\<lparr>d_readyQ := Append i ?p (d_readyQ d2)\<rparr>,
       upd_node i (\<lambda>j. j\<lparr>Status := STATUS_ERROR\<rparr>) (?d3\<lparr>d_numNodesFailed := d_numNodesFailed ?d3 + 1\<rparr>)} \<or>
     (\<exists>ok d5 r. monitor_log e i ?d4 = Inr (ok, d5) \<and> ScriptQ_Run e (i, True) d5 = Inr (r, d'))"
    using res d1 d2 unfolding ProcessFailedSubmit_def by (auto simp: Let_def split: if_splits)
  then show ?thesis
  proof (elim disjE exE conjE)
    fix ok d5 r assume m: "monitor_log e i ?d4 = Inr (ok, d5)" and q: "ScriptQ_Run e (i, True) d5 = Inr (r, d')"
    show ?thesis by (rule ScriptQ_Run_keeps [OF freeD(1,2) [OF monitor_log_free [OF f4 m]] q])
  next
    assume "d' \<in> {d2\<lparr>d_readyQ := Prepend i ?p (d_readyQ d2)\<rparr>, d2\<lparr>d_readyQ := Append i ?p (d_readyQ d2)\<rparr>,
       upd_node i (\<lambda>j. j\<lparr>Status := STATUS_ERROR\<rparr>) (?d3\<lparr>d_numNodesFailed := d_numNodesFailed ?d3 + 1\<rparr>)}"
    then show ?thesis using run_from_push [OF freeD [OF f2]] freeD(1) [OF f5] by (elim insertE) simp_all
  qed
qed

section \<open>The submit cycle\<close>

text \<open>The nodes of a queue belong to the DAG and wait for nothing.\<close>

definition queue_free :: "Dag \<Rightarrow> JobID_t PrioritySimpleList \<Rightarrow> bool" where
  "queue_free d q \<longleftrightarrow> pl_invar q \<and> (\<forall>i \<in> snd ` set (entries q). i \<in> dom (d_nodes d) \<and> queue_of d i Q_WAITING = {})"

lemma ready_queue_free: "run_from g d \<Longrightarrow> queue_free d (d_readyQ d)"
  by (auto simp: run_from_def run_ok_def ready_ok_def queue_free_def simp del: domIff)

lemma queue_free_from: "queue_free d q \<Longrightarrow> run_from d d' \<Longrightarrow> queue_free d' q"
  unfolding queue_free_def using free_from [of d _ d d'] run_from_self [of d'] unfolding free_def
  by (metis (no_types, lifting) free_def free_from run_from_def run_from_dom grows_def node_kept_def subset_empty)

lemma run_from_take:
  assumes run: "run_from g d" and tf: "take_first (d_readyQ d) = (Some i, q)" and ne: "\<not> IsEmpty (d_readyQ d)"
  shows "free g i (d\<lparr>d_readyQ := q\<rparr>)" "Suc (length (entries q)) = length (entries (d_readyQ d))"
proof -
  have qf: "queue_free d (d_readyQ d)" by (rule ready_queue_free [OF run])
  then have inv: "pl_invar (d_readyQ d)" by (simp add: queue_free_def)
  obtain p x where e: "fst (take_first (d_readyQ d)) = Some x" "entries (d_readyQ d) = (p, x) # entries (snd (take_first (d_readyQ d)))"
    by (rule ready.first_is_best [OF inv ne])
  have q: "pl_invar q" "entries (d_readyQ d) = (p, i) # entries q"
    using ready.first_law [OF inv e(2)] e tf by simp_all
  then show "Suc (length (entries q)) = length (entries (d_readyQ d))" by simp
  have i: "i \<in> dom (d_nodes d)" "queue_of d i Q_WAITING = {}" using qf q(2) unfolding queue_free_def by auto
  have "run_from g (d\<lparr>d_readyQ := q\<rparr>)" by (rule run_from_readyQ [OF run q(1) _ i]) (use q(2) in auto)
  then show "free g i (d\<lparr>d_readyQ := q\<rparr>)" using i by (simp add: free_def)
qed

text \<open>Submitting a node touches neither the ready queue nor the counts that bound submission.\<close>

definition same_bounds :: "Dag \<Rightarrow> Dag \<Rightarrow> bool" where
  "same_bounds d d' \<longleftrightarrow>
     d_readyQ d' = d_readyQ d \<and> d_numJobsSubmitted d' = d_numJobsSubmitted d \<and> d_maxJobsSubmitted d' = d_maxJobsSubmitted d \<and>
     d_heap d' = d_heap d \<and> (\<forall>i. throttleInfo (node_at d' i) = throttleInfo (node_at d i))"

lemma same_bounds_refl [simp]: "same_bounds d d"
  by (simp add: same_bounds_def)

lemma same_bounds_trans [trans]: "same_bounds a b \<Longrightarrow> same_bounds b c \<Longrightarrow> same_bounds a c"
  by (simp add: same_bounds_def)

lemma same_bounds_act [simp]: "same_bounds d (act a d)"
  by (simp add: same_bounds_def act_def)

lemma same_bounds_ask: "ask q d = (a, d') \<Longrightarrow> same_bounds d d'"
  by (auto simp: same_bounds_def ask_def)

lemma same_bounds_upd: "(\<And>j. throttleInfo (f j) = throttleInfo j) \<Longrightarrow> same_bounds d (upd_node i f d)"
  by (simp add: same_bounds_def) (simp add: upd_node_def set_node_def)

lemma same_bounds_hash [simp]: "same_bounds d (set_EventIDHash b ty m d)"
  by (cases ty) (simp_all add: same_bounds_def set_EventIDHash_def)

lemma MonitorLogFile_throttle: "MonitorLogFile a s j = Inr (ok, j') \<Longrightarrow> throttleInfo j' = throttleInfo j"
  by (auto simp: MonitorLogFile_def LogMonitorFailed_def snprintf_error_def Let_def split: if_splits)

lemma monitor_log_bounds:
  assumes "monitor_log e i d = Inr (ok, d')"
  shows "same_bounds d d'"
proof -
  obtain a d1 where d1: "ask (e_log e) d = (a, d1)" by (cases "ask (e_log e) d")
  with assms obtain j where j: "MonitorLogFile a (d_defaultNodeLog d1) (node_at d1 i) = Inr (ok, j)" "d' = set_node i j d1"
    by (auto simp: monitor_log_def)
  have "same_bounds d1 d'" using MonitorLogFile_throttle [OF j(1)] by (simp add: same_bounds_def j(2)) (simp add: set_node_def)
  with same_bounds_ask [OF d1] show ?thesis by (rule same_bounds_trans)
qed

lemma forget_old_id_bounds:
  assumes "forget_old_id i c d = Inr d'"
  shows "same_bounds d d'"
proof -
  have "\<exists>d1. same_bounds d d1 \<and> d' = upd_node i (\<lambda>j. j\<lparr>j_CondorID := default_CondorID\<rparr>) d1"
    using forget_old_id_cases [OF assms] same_bounds_refl same_bounds_hash by blast
  then show ?thesis by (elim exE conjE) (simp, rule same_bounds_trans, assumption, rule same_bounds_upd, simp)
qed

lemma fake_condor_submit_bounds:
  assumes "fake_condor_submit e c n d = Inr (ok, c', d')"
  shows "same_bounds d d'"
proof -
  obtain ok1 d1 where d1: "ask (e_cd_ok e) d = (ok1, d1)" by (cases "ask (e_cd_ok e) d")
  let ?d2 = "d1\<lparr>d_subprocID := d_subprocID d1 + 1\<rparr>"
  obtain ok2 d3 where d3: "ask (e_write_ok e) ?d2 = (ok2, d3)" by (cases "ask (e_write_ok e) ?d2")
  have "same_bounds d1 ?d2" by (simp add: same_bounds_def)
  then have s: "same_bounds d d1" "same_bounds d d3"
    using same_bounds_ask [OF d1] same_bounds_ask [OF d3] same_bounds_trans [of d] by blast+
  have "d' = d1 \<or> (\<exists>ev ev' d5. ask (e_write_ok e) (act (A_write_event ev) d3) = (True, d5) \<and> d' = act (A_write_event ev') d5)"
    using assms d1 d3 by (auto simp: fake_condor_submit_def Let_def split: if_splits prod.splits)
  then show ?thesis
  proof (elim disjE exE conjE)
    fix ev ev' d5 assume d5: "ask (e_write_ok e) (act (A_write_event ev) d3) = (True, d5)" and d': "d' = act (A_write_event ev') d5"
    show ?thesis unfolding d'
      by (rule same_bounds_trans [OF s(2) same_bounds_trans [OF same_bounds_act same_bounds_trans [OF same_bounds_ask [OF d5] same_bounds_act]]])
  qed (use s(1) in simp)
qed

lemma do_submit_bounds:
  assumes "do_submit e i c d = Inr (ok, c', d')"
  shows "same_bounds d d'"
proof -
  let ?d1 = "upd_node i (\<lambda>j. j\<lparr>submitTries := submitTries j + 1\<rparr>) d"
  have d1: "same_bounds d ?d1" by (rule same_bounds_upd) simp
  have "fake_condor_submit e c (jobName (node_at ?d1 i)) ?d1 = Inr (ok, c', d') \<or> submit_command e i c ?d1 = (ok, c', d')"
    using assms by (auto simp: do_submit_def Let_def split: if_splits job_type_t.splits)
  then have "same_bounds ?d1 d'"
  proof (elim disjE)
    assume "submit_command e i c ?d1 = (ok, c', d')"
    then have "\<exists>x. ask (e_submit e) (act (A_submit i) ?d1) = (x, d')" by (auto simp: submit_command_def split: prod.splits)
    then show ?thesis by (elim exE) (rule same_bounds_trans [OF same_bounds_act same_bounds_ask])
  qed (rule fake_condor_submit_bounds)
  with d1 show ?thesis by (rule same_bounds_trans)
qed

lemma SubmitNodeJob_bounds:
  assumes res: "SubmitNodeJob e dm i c d = Inr (r, c', d')"
  shows "same_bounds d d'"
proof -
  from res obtain d1 where d1: "forget_old_id i c d = Inr d1" by (auto simp: SubmitNodeJob_def)
  let ?d2 = "if dm_submit_delay dm \<noteq> 0 then act (A_sleep (dm_submit_delay dm)) d1 else d1"
  obtain n d3 where d3: "run_submit_dag e i ?d2 = (n, d3)" by (cases "run_submit_dag e i ?d2")
  have "same_bounds d1 ?d2" by simp
  moreover have "same_bounds ?d2 d3" using d3 by (auto simp: run_submit_dag_def Let_def dest: same_bounds_ask split: if_splits)
  ultimately have s3: "same_bounds d d3" using forget_old_id_bounds [OF d1] same_bounds_trans by blast
  show ?thesis
  proof (cases "n = 0")
    case True
    with res d1 d3 obtain ok d4 where d4: "monitor_log e i d3 = Inr (ok, d4)" by (auto simp: SubmitNodeJob_def)
    obtain b d5 where d5: "missing_log_file e i d4 = (b, d5)" by (cases "missing_log_file e i d4")
    have "same_bounds d4 d5" using d5 by (auto simp: missing_log_file_def dest: same_bounds_ask split: if_splits prod.splits)
    then have s45: "same_bounds d d4" "same_bounds d d5" using s3 monitor_log_bounds [OF d4] same_bounds_trans by blast+
    have "d' = d4 \<or> d' = (upd_node i no_log_error d5)\<lparr>d_numNodesFailed := d_numNodesFailed d5 + 1\<rparr> \<or> (\<exists>s. do_submit e i c d5 = Inr (s, c', d'))"
      using True res d1 d3 d4 d5 by (auto simp: SubmitNodeJob_def Let_def split: if_splits)
    moreover have "same_bounds d5 ((upd_node i no_log_error d5)\<lparr>d_numNodesFailed := n\<rparr>)" for n
      using same_bounds_upd [of no_log_error d5 i] by (simp add: same_bounds_def no_log_error_def snprintf_error_def)
    ultimately show ?thesis using s45 do_submit_bounds same_bounds_trans by blast
  qed (use res d1 d3 s3 in \<open>simp add: SubmitNodeJob_def\<close>)
qed

lemma ProcessSuccessfulSubmit_readyQ:
  assumes "ProcessSuccessfulSubmit i c d = Inr d'"
  shows "d_readyQ d' = d_readyQ d"
  using assms by (auto simp: ProcessSuccessfulSubmit_def UpdateJobCounts_def Let_def split: if_splits option.splits)

text \<open>
  One turn of the loop keeps the invariant, and a turn after which the loop goes on has taken
  one node out of the ready queue.
\<close>

lemma submit_turn_cases:
  assumes run: "run_from g d" and res: "submit_turn e dm v d = Inr (t, v', d')"
  obtains "t = Leave" "v' = v"
    "d' = d \<or> d' = d\<lparr>d_maxJobsDeferredCount := d_maxJobsDeferredCount d + Number (d_readyQ d)\<rparr> \<or>
     d' = d\<lparr>d_maxIdleDeferredCount := d_maxIdleDeferredCount d + Number (d_readyQ d)\<rparr>"
  | i q where "take_first (d_readyQ d) = (Some i, q)" "\<not> IsEmpty (d_readyQ d)"
     "\<not> (d_maxJobsSubmitted d \<noteq> 0 \<and> d_numJobsSubmitted d \<ge> d_maxJobsSubmitted d)"
     "if deferred_by_throttle i (d\<lparr>d_readyQ := q\<rparr>)
      then t = Go_on \<and> v' = v\<lparr>v_deferredJobs := Prepend i (- nodePriority (node_at d i)) (v_deferredJobs v)\<rparr> \<and>
        d' = d\<lparr>d_readyQ := q, d_catThrottleDeferredCount := d_catThrottleDeferredCount d + 1\<rparr>
      else submit_job e dm i v (d\<lparr>d_readyQ := q\<rparr>) = Inr (t, v', d')"
proof (cases "IsEmpty (d_readyQ d) \<or> d_maxJobsSubmitted d \<noteq> 0 \<and> d_numJobsSubmitted d \<ge> d_maxJobsSubmitted d \<or>
    d_maxIdleJobProcs d \<noteq> 0 \<and> d_numIdleJobProcs d \<ge> d_maxIdleJobProcs d")
  case True
  then consider "IsEmpty (d_readyQ d)"
    | "\<not> IsEmpty (d_readyQ d)" "d_maxJobsSubmitted d \<noteq> 0 \<and> d_numJobsSubmitted d \<ge> d_maxJobsSubmitted d"
    | "\<not> IsEmpty (d_readyQ d)" "\<not> (d_maxJobsSubmitted d \<noteq> 0 \<and> d_numJobsSubmitted d \<ge> d_maxJobsSubmitted d)"
      "d_maxIdleJobProcs d \<noteq> 0 \<and> d_numIdleJobProcs d \<ge> d_maxIdleJobProcs d" by blast
  then show ?thesis
    by cases (rule that(1); use res in \<open>simp add: submit_turn_def split: if_splits\<close>)+
next
  case False
  have inv: "pl_invar (d_readyQ d)" using ready_queue_free [OF run] by (simp add: queue_free_def)
  obtain p x where x: "fst (take_first (d_readyQ d)) = Some x" by (rule ready.first_is_best [OF inv]) (use False in simp)
  obtain q where q: "take_first (d_readyQ d) = (Some x, q)" using x by (cases "take_first (d_readyQ d)") simp
  show ?thesis
    using that(2) [OF q] False res q by (simp add: submit_turn_def Let_def split: if_splits)
qed

lemma submit_job_cases:
  assumes "submit_job e dm i v d = Inr (t, v', d')"
  obtains b d1 r c d2 where "d1 = d \<or> d1 = act (A_sleep 1) d" "SubmitNodeJob e dm i (CondorID 0 0 0) d1 = Inr (r, c, d2)"
    "case r of
       SUBMIT_RESULT_OK \<Rightarrow> ProcessSuccessfulSubmit i c d2 = Inr d' \<and> t = Go_on \<and>
         v' = v\<lparr>v_didLogSleep := b, v_numSubmitsThisCycle := v_numSubmitsThisCycle v + 1\<rparr>
     | SUBMIT_RESULT_FAILED \<Rightarrow> ProcessFailedSubmit e i (dm_max_submit_attempts dm) d2 = Inr d' \<and> t = Leave \<and> v' = v\<lparr>v_didLogSleep := b\<rparr>
     | SUBMIT_RESULT_NO_SUBMIT \<Rightarrow> d' = d2 \<and> t = Go_on \<and> v' = v\<lparr>v_didLogSleep := b\<rparr>"
proof -
  let ?s = "dm_submit_delay dm = 0 \<and> \<not> v_didLogSleep v"
  define d1 where "d1 = (if ?s then act (A_sleep 1) d else d)"
  define v1 where "v1 = v\<lparr>v_didLogSleep := v_didLogSleep v \<or> ?s\<rparr>"
  have e: "(if ?s then (v\<lparr>v_didLogSleep := True\<rparr>, act (A_sleep 1) d) else (v, d)) = (v1, d1)"
    by (cases v) (auto simp: d1_def v1_def)
  obtain r c d2 where s: "SubmitNodeJob e dm i (CondorID 0 0 0) d1 = Inr (r, c, d2)"
    using assms unfolding submit_job_def Let_def e prod.case by auto
  show ?thesis
    by (rule that [of d1 r c d2 "v_didLogSleep v \<or> ?s"], simp add: d1_def, rule s)
      (use assms s in \<open>unfold submit_job_def Let_def e prod.case, auto simp: v1_def split: submit_result_t.splits\<close>)
qed

lemma submit_turn_keeps:
  assumes run: "run_from g d" and res: "submit_turn e dm v d = Inr (t, v', d')"
  shows "run_from g d' \<and> (t = Go_on \<longrightarrow> length (entries (d_readyQ d)) = Suc (length (entries (d_readyQ d'))))"
  using submit_turn_cases [OF run res]
proof cases
  case 1
  then show ?thesis using run by (elim disjE) simp_all
next
  case (2 i q)
  note t = run_from_take [OF run 2(1,2)]
  show ?thesis
  proof (cases "deferred_by_throttle i (d\<lparr>d_readyQ := q\<rparr>)")
    case True
    then show ?thesis using 2(4) t by (simp add: free_def)
  next
    case False
    with 2(4) have "submit_job e dm i v (d\<lparr>d_readyQ := q\<rparr>) = Inr (t, v', d')" by simp
    then show ?thesis
    proof (rule submit_job_cases)
      fix b d1 r c d2
      assume d1: "d1 = d\<lparr>d_readyQ := q\<rparr> \<or> d1 = act (A_sleep 1) (d\<lparr>d_readyQ := q\<rparr>)" and s: "SubmitNodeJob e dm i (CondorID 0 0 0) d1 = Inr (r, c, d2)"
        and r: "case r of
           SUBMIT_RESULT_OK \<Rightarrow> ProcessSuccessfulSubmit i c d2 = Inr d' \<and> t = Go_on \<and>
             v' = v\<lparr>v_didLogSleep := b, v_numSubmitsThisCycle := v_numSubmitsThisCycle v + 1\<rparr>
         | SUBMIT_RESULT_FAILED \<Rightarrow> ProcessFailedSubmit e i (dm_max_submit_attempts dm) d2 = Inr d' \<and> t = Leave \<and> v' = v\<lparr>v_didLogSleep := b\<rparr>
         | SUBMIT_RESULT_NO_SUBMIT \<Rightarrow> d' = d2 \<and> t = Go_on \<and> v' = v\<lparr>v_didLogSleep := b\<rparr>"
      have "free g i d1" using d1 t(1) act_keeps by (elim disjE) simp_all
      note f2 = SubmitNodeJob_keeps [OF this s]
      have q: "d_readyQ d2 = q" using SubmitNodeJob_bounds [OF s] d1 by (auto simp: same_bounds_def act_def)
      show ?thesis
        using r q t(2) freeD(1) [OF f2] ProcessFailedSubmit_keeps [OF f2, of e "dm_max_submit_attempts dm" d']
          ProcessSuccessfulSubmit_readyQ [of i c d2 d'] freeD(1) [OF ProcessSuccessfulSubmit_keeps [OF f2, of c d']]
        by (cases r) simp_all
    qed
  qed
qed

lemma submit_turn_deferred:
  assumes run: "run_from g d" and qf: "queue_free d (v_deferredJobs v)" and res: "submit_turn e dm v d = Inr (t, v', d')"
  shows "queue_free d' (v_deferredJobs v')"
proof -
  have dd: "run_from d d'" using submit_turn_keeps [OF run_from_self res] run by blast
  from submit_turn_cases [OF run res] show ?thesis
  proof cases
    case 1
    then show ?thesis using queue_free_from [OF qf dd] by simp
  next
    case (2 i q)
    have "free g i (d\<lparr>d_readyQ := q\<rparr>)" by (rule run_from_take(1) [OF run 2(1,2)])
    then have "i \<in> dom (d_nodes d) \<and> queue_of d i Q_WAITING = {}" by (simp add: free_def)
    then have qi: "queue_free d (Prepend i p (v_deferredJobs v))" for p
      using qf by (simp add: queue_free_def entries_Prepend pl_invar_Prepend)
    have "v_deferredJobs v' \<in> {v_deferredJobs v, Prepend i (- nodePriority (node_at d i)) (v_deferredJobs v)}"
    proof (cases "deferred_by_throttle i (d\<lparr>d_readyQ := q\<rparr>)")
      case True
      then show ?thesis using 2(4) by simp
    next
      case False
      with 2(4) have "submit_job e dm i v (d\<lparr>d_readyQ := q\<rparr>) = Inr (t, v', d')" by simp
      then show ?thesis by (rule submit_job_cases) (simp split: submit_result_t.splits)
    qed
    then show ?thesis using queue_free_from [OF qf dd] queue_free_from [OF qi dd] by auto
  qed
qed

lemma submit_loop_keeps:
  assumes "run_from g d" and "queue_free d (v_deferredJobs v)" and "submit_loop n e dm v d = Some (Inr (v', d'))"
  shows "run_from g d' \<and> queue_free d' (v_deferredJobs v')"
  using assms
proof (induction n arbitrary: v d)
  case (Suc n)
  show ?case
  proof (cases "submit_turn e dm v d")
    case (Inr x)
    then obtain t v1 d1 where t: "submit_turn e dm v d = Inr (t, v1, d1)" by (metis prod.exhaust)
    have k: "run_from g d1" "queue_free d1 (v_deferredJobs v1)"
      using submit_turn_keeps [OF Suc.prems(1) t] submit_turn_deferred [OF Suc.prems(1,2) t] by simp_all
    show ?thesis using Suc.prems k Suc.IH [OF k] t
      by (cases t) (auto simp: submit_loop.simps [of "Suc n"] split: if_splits)
  qed (use Suc.prems in \<open>auto simp: submit_loop.simps [of "Suc n"] split: if_splits\<close>)
next
  case 0
  show ?case
  proof (cases "submit_turn e dm v d")
    case (Inr x)
    then obtain t v1 d1 where t: "submit_turn e dm v d = Inr (t, v1, d1)" by (metis prod.exhaust)
    show ?thesis using 0 submit_turn_keeps [OF 0(1) t] submit_turn_deferred [OF 0(1,2) t] t
      by (cases t) (auto simp: submit_loop.simps [of 0] split: if_splits)
  qed (use 0 in \<open>auto simp: submit_loop.simps [of 0] split: if_splits\<close>)
qed

text \<open>The loop ends: at most as many turns as nodes are ready.\<close>

lemma submit_loop_ends:
  assumes "run_from g d" and "length (entries (d_readyQ d)) \<le> n"
  shows "submit_loop n e dm v d \<noteq> None"
  using assms
proof (induction n arbitrary: v d)
  case (Suc n)
  show ?case
  proof (cases "submit_turn e dm v d")
    case (Inr x)
    then obtain t v1 d1 where t: "submit_turn e dm v d = Inr (t, v1, d1)" by (metis prod.exhaust)
    note k = submit_turn_keeps [OF Suc.prems(1) t]
    show ?thesis using Suc.IH [of d1 v1] k Suc.prems(2) t by (cases t) (auto simp: submit_loop.simps [of "Suc n"])
  qed (simp add: submit_loop.simps [of "Suc n"])
next
  case 0
  have "pl_invar (d_readyQ d)" using ready_queue_free [OF 0(1)] by (simp add: queue_free_def)
  with 0(2) have "IsEmpty (d_readyQ d)" by (simp add: IsEmpty_entries)
  then show ?case by (simp add: submit_loop.simps [of 0] submit_turn_def)
qed

text \<open>Putting the deferred nodes back.\<close>

lemma return_deferred_keeps:
  assumes "run_from g d" and "-1 \<le> sl_current q" and "\<forall>k < sl_size q. free g (sl_items q ! k) d"
  shows "run_from g (return_deferred q d)"
  using assms
proof (induction q d rule: return_deferred.induct)
  case (1 q d)
  show ?case
  proof (cases "sl_current q + 1 < int (sl_size q)")
    case False
    then show ?thesis using 1(2) by (subst return_deferred.simps) (simp add: Next_def)
  next
    case True
    let ?k = "nat (sl_current q + 1)"
    let ?i = "sl_items q ! ?k"
    let ?d = "d\<lparr>d_readyQ := Prepend ?i (- nodePriority (node_at d ?i)) (d_readyQ d)\<rparr>"
    have n: "Next q = (Some ?i, q\<lparr>sl_current := sl_current q + 1\<rparr>)" using True by (simp add: Next_def)
    have "free g ?i d" using 1(4) True 1(3) by (simp add: nat_less_iff)
    then have d: "run_from g ?d" using run_from_push(2) [OF freeD] by blast
    have "free g (sl_items q ! k) ?d" if "k < sl_size q" for k using 1(4) that d by (simp add: free_def)
    then have "run_from g (return_deferred (q\<lparr>sl_current := sl_current q + 1\<rparr>) ?d)"
      using 1(3) d by (intro 1(1) [OF n [symmetric] refl]) simp_all
    then show ?thesis by (subst return_deferred.simps) (simp add: n)
  qed
qed

lemma queue_free_items:
  assumes "queue_free d q" and "run_from g d" and "k < sl_size q"
  shows "free g (sl_items q ! k) d"
proof -
  have "array_ok q" using assms(1) by (simp add: queue_free_def pl_invar_def)
  then have "snd (entries q ! k) = sl_items q ! k" "k < length (entries q)"
    using nth_entries [of q k] length_entries [of q] assms(3) by simp_all
  then have "sl_items q ! k \<in> snd ` set (entries q)" by (metis image_eqI nth_mem)
  then show ?thesis using assms(1,2) unfolding queue_free_def free_def by blast
qed

lemma SubmitReadyJobs_keeps:
  assumes run: "run_from g d" and res: "SubmitReadyJobs e dm d = Some (Inr (n, d'))"
  shows "run_from g d'"
proof -
  obtain now d1 where d1: "(if d_nextSubmitTime d \<noteq> 0 then ask (e_time e) d else (0, d)) = (now, d1)" by fastforce
  have r1: "run_from g d1" using d1 run run_from_ask [OF run, of "e_time e" now d1] by (auto split: if_splits)
  let ?v = "\<lparr>v_deferredJobs = new_PrioritySimpleList, v_numSubmitsThisCycle = 0, v_didLogSleep = False\<rparr>"
  have q0: "queue_free d1 (v_deferredJobs ?v)" by (simp add: queue_free_def pl_invar_new)
  have "d' = act (A_sleep 1) d1 \<or> (\<exists>v d2. submit_loop (nat (Number (d_readyQ d1))) e dm ?v d1 = Some (Inr (v, d2)) \<and>
      d' = return_deferred (Rewind (v_deferredJobs v)) d2)"
    using res d1 by (auto simp: SubmitReadyJobs_def Let_def bindO_def split: if_splits option.splits sum.splits)
  then show ?thesis
  proof (elim disjE exE conjE)
    fix v d2 assume l: "submit_loop (nat (Number (d_readyQ d1))) e dm ?v d1 = Some (Inr (v, d2))"
      and d': "d' = return_deferred (Rewind (v_deferredJobs v)) d2"
    note k = submit_loop_keeps [OF r1 q0 l]
    show ?thesis unfolding d'
      by (rule return_deferred_keeps) (use k queue_free_items [OF conjunct2 [OF k] conjunct1 [OF k]] in \<open>simp_all add: Rewind_def\<close>)
  qed (use r1 in simp)
qed

lemma SubmitReadyJobs_ends:
  assumes run: "run_from g d"
  shows "SubmitReadyJobs e dm d \<noteq> None"
proof -
  obtain now d1 where d1: "(if d_nextSubmitTime d \<noteq> 0 then ask (e_time e) d else (0, d)) = (now, d1)" by fastforce
  have r1: "run_from g d1" using d1 run run_from_ask [OF run, of "e_time e" now d1] by (auto split: if_splits)
  have "pl_invar (d_readyQ d1)" using ready_queue_free [OF r1] by (simp add: queue_free_def)
  then have "length (entries (d_readyQ d1)) \<le> nat (Number (d_readyQ d1))" by (simp add: Number_entries)
  from submit_loop_ends [OF r1 this, of e dm "\<lparr>v_deferredJobs = new_PrioritySimpleList, v_numSubmitsThisCycle = 0, v_didLogSleep = False\<rparr>"]
  show ?thesis
    by (auto simp: SubmitReadyJobs_def Let_def d1 bindO_def split: option.splits sum.splits)
qed

end
