(* ===== verification/Dag_Bounds.thy ===== *)
theory Dag_Bounds
  imports Dag_Steps
begin

text \<open>
  Frame conditions: which handlers leave the number of submitted jobs and the category throttles
  alone. They bound what one submit cycle can do.
\<close>

section \<open>Postconditions of fallible operations\<close>

definition ensures :: "('a \<Rightarrow> bool) \<Rightarrow> 'a res \<Rightarrow> bool" where
  "ensures P r \<longleftrightarrow> (\<forall>x. r = Inr x \<longrightarrow> P x)"

lemma ensuresD: "ensures P r \<Longrightarrow> r = Inr x \<Longrightarrow> P x"
  by (simp add: ensures_def)

lemma ensures_simps [simp]: "ensures P (Inl e)" "ensures P (Inr x) \<longleftrightarrow> P x"
  by (simp_all add: ensures_def)

lemma ensures_bind: "ensures Q r \<Longrightarrow> (\<And>x. Q x \<Longrightarrow> ensures P (f x)) \<Longrightarrow> ensures P (bindR r f)"
  by (cases r) simp_all

lemma ensures_if: "(b \<Longrightarrow> ensures P r) \<Longrightarrow> (\<not> b \<Longrightarrow> ensures P s) \<Longrightarrow> ensures P (if b then r else s)"
  by simp

lemma ensures_option:
  "(x = None \<Longrightarrow> ensures P r) \<Longrightarrow> (\<And>y. x = Some y \<Longrightarrow> ensures P (f y)) \<Longrightarrow> ensures P (case x of None \<Rightarrow> r | Some y \<Rightarrow> f y)"
  by (cases x) simp_all

lemma ensures_foldR: "I x \<Longrightarrow> (\<And>a y. I y \<Longrightarrow> ensures I (f a y)) \<Longrightarrow> ensures I (foldR f as x)"
  by (induction "as" arbitrary: x) (auto intro: ensures_bind)

section \<open>Operations that leave the job counts alone\<close>

definition same_jobs :: "Dag \<Rightarrow> Dag \<Rightarrow> bool" where
  "same_jobs d d' \<longleftrightarrow>
     d_numJobsSubmitted d' = d_numJobsSubmitted d \<and> d_maxJobsSubmitted d' = d_maxJobsSubmitted d \<and> d_heap d' = d_heap d"

lemma same_jobs_simps [simp]:
  "same_jobs g (d\<lparr>d_numNodesFailed := n\<rparr>) = same_jobs g d" "same_jobs g (d\<lparr>d_preRunNodeCount := n\<rparr>) = same_jobs g d"
  "same_jobs g (d\<lparr>d_postRunNodeCount := n\<rparr>) = same_jobs g d" "same_jobs g (d\<lparr>d_readyQ := q\<rparr>) = same_jobs g d"
  "same_jobs g (d\<lparr>d_numNodesDone := n\<rparr>) = same_jobs g d" "same_jobs g (d\<lparr>d_nextSubmitTime := n\<rparr>) = same_jobs g d"
  "same_jobs g (d\<lparr>d_nextSubmitDelay := n\<rparr>) = same_jobs g d" "same_jobs g (d\<lparr>d_tick := k\<rparr>) = same_jobs g d"
  "same_jobs g (upd_node i f d) = same_jobs g d" "same_jobs g (set_node i j d) = same_jobs g d"
  "same_jobs g (upd_sq p h d) = same_jobs g d" "same_jobs g (act a d) = same_jobs g d"
  "same_jobs g (set_EventIDHash b ty m d) = same_jobs g d" "same_jobs g (upd_script s u d) = same_jobs g d"
  by (cases ty; simp add: same_jobs_def upd_node_def set_node_def upd_sq_def act_def set_EventIDHash_def upd_script_def)+

lemma same_jobs_refl [simp]: "same_jobs d d"
  by (simp add: same_jobs_def)

lemma same_jobs_ask: "same_jobs g d \<Longrightarrow> ask q d = (a, d') \<Longrightarrow> same_jobs g d'"
  by (auto simp: ask_def)

lemma monitor_same: "same_jobs g d \<Longrightarrow> ensures (\<lambda>(_, d'). same_jobs g d') (monitor_log e i d)"
  unfolding monitor_log_def ask_def prod.case
  by (rule ensures_bind [where Q = "\<lambda>_. True"]) (simp_all add: ensures_def split: prod.splits)

lemma unmonitor_same: "same_jobs g d \<Longrightarrow> ensures (same_jobs g) (unmonitor_log e i d)"
  unfolding unmonitor_log_def ask_def prod.case
  by (rule ensures_bind [where Q = "\<lambda>_. True"]) (simp_all add: ensures_def split: prod.splits)

lemma abort_same: "same_jobs g d \<Longrightarrow> ensures (same_jobs g) (CheckForDagAbort i d)"
  by (simp add: CheckForDagAbort_def Let_def)

lemma BackgroundRun_same: "same_jobs g d \<Longrightarrow> same_jobs g (snd (BackgroundRun e s d))"
  by (simp add: BackgroundRun_def ask_def Let_def)

lemma Run_with_same:
  assumes reaper: "\<And>n st d. same_jobs g d \<Longrightarrow> ensures (same_jobs g) (reaper n st d)" and "same_jobs g d"
  shows "ensures (\<lambda>(_, d'). same_jobs g d') (Run_with reaper e s d)"
proof -
  obtain pid d1 where d1: "BackgroundRun e s d = (pid, d1)" by (cases "BackgroundRun e s d")
  have s1: "same_jobs g d1" using BackgroundRun_same [OF assms(2), of e s] d1 by simp
  have "ensures (\<lambda>(_, d'). same_jobs g d') (bindR (reaper n 256 d1) (\<lambda>d. Inr (0, d)))" for n
    by (rule ensures_bind [OF reaper [OF s1]]) simp
  moreover have "ensures (\<lambda>(_, d'). same_jobs g d') (bindR r (\<lambda>w. Inr (0, upd_sq (snd s) (f w) d)))" for r f
    by (rule ensures_bind [where Q = "\<lambda>_. True"]) (use assms(2) in \<open>simp_all add: ensures_def\<close>)
  ultimately show ?thesis using s1 unfolding Run_with_def Let_def d1 prod.case by (intro ensures_if) simp_all
qed

lemma StartNode_with_same:
  assumes "\<And>d. same_jobs g d \<Longrightarrow> ensures (\<lambda>(_, d'). same_jobs g d') (run (node, False) d)" and "same_jobs g d"
  shows "ensures (same_jobs g) (StartNode_with run node r d)"
proof -
  have "ensures (same_jobs g) (bindR (run (node, False) d1) (\<lambda>(_, d). Inr d))" if "same_jobs g d1" for d1
    by (rule ensures_bind [OF assms(1) [OF that]]) auto
  then show ?thesis unfolding StartNode_with_def Let_def using assms(2) by (intro ensures_if) simp_all
qed

lemma forget_retried_same: "same_jobs g d \<Longrightarrow> ensures (same_jobs g) (forget_retried_id i d)"
  by (simp add: forget_retried_id_def Let_def)

lemma RestartNode_with_same:
  assumes "\<And>d. same_jobs g d \<Longrightarrow> ensures (same_jobs g) (start node True d)" and "same_jobs g d"
  shows "ensures (same_jobs g) (RestartNode_with start e node rec d)"
proof -
  have "ensures (same_jobs g) (bindR (forget_retried_id node d1)
      (\<lambda>d. bindR (monitor_log e node (upd_node node f d)) (\<lambda>(_, d). Inr d)))" if "same_jobs g d1" for d1 f
    by (rule ensures_bind [OF forget_retried_same [OF that]], rule ensures_bind [OF monitor_same]) auto
  then show ?thesis unfolding RestartNode_with_def Let_def using assms by (intro ensures_if) simp_all
qed

lemma PreScriptReaper_with_same:
  assumes "\<And>i d. same_jobs g d \<Longrightarrow> ensures (same_jobs g) (restart i False d)" and "same_jobs g d"
  shows "ensures (same_jobs g) (PreScriptReaper_with restart e n st d)"
  unfolding PreScriptReaper_with_def
proof (rule ensures_bind [where Q = "\<lambda>_. True"], simp add: ensures_def, rule ensures_option, simp, rule ensures_if, simp)
  fix i
  show "ensures (same_jobs g) (bindR (if WIFSIGNALED st \<or> WEXITSTATUS st \<noteq> 0 then
      (let d = upd_node i (pre_failed e st) d; d = d\<lparr>d_preRunNodeCount := d_preRunNodeCount d - 1\<rparr>
       in if retries (node_at d i) < retry_max (node_at d i) then restart i False d
          else (let d = d\<lparr>d_numNodesFailed := d_numNodesFailed d + 1\<rparr> in
                Inr (if retry_max (node_at d i) > 0 then upd_node i add_retries_text d else d)))
      else (let d = upd_node i (\<lambda>j. j\<lparr>retval := 0, Status := STATUS_READY\<rparr>) d;
                d = d\<lparr>d_preRunNodeCount := d_preRunNodeCount d - 1\<rparr> in Inr (push_ready i d))) (CheckForDagAbort i))"
    by (rule ensures_bind [OF _ abort_same], unfold Let_def, intro ensures_if) (use assms in \<open>simp_all add: push_ready_def Let_def\<close>)
qed

lemma StartNode_n_same: "same_jobs g d \<Longrightarrow> ensures (same_jobs g) (StartNode_n e n i r d)"
proof (induction n arbitrary: i r d)
  case (Suc n)
  let ?restart = "RestartNode_with (StartNode_n e n) e"
  have a: "ensures (same_jobs g) (?restart i False d)" if "same_jobs g d" for i d
    by (rule RestartNode_with_same) (use that Suc.IH in simp_all)
  have b: "ensures (same_jobs g) (PreScriptReaper_with ?restart e nm st d)" if "same_jobs g d" for nm st d
    by (rule PreScriptReaper_with_same) (use that a in simp_all)
  have c: "ensures (\<lambda>(_, d'). same_jobs g d') (Run_with (PreScriptReaper_with ?restart e) e (i, False) d)" if "same_jobs g d" for d
    by (rule Run_with_same) (use that b in simp_all)
  show ?case unfolding StartNode_n.simps
    by (rule StartNode_with_same [OF _ Suc.prems], rule c)
qed simp

lemma StartNode_same: "same_jobs g d \<Longrightarrow> ensures (same_jobs g) (StartNode e i r d)"
  unfolding StartNode_def by (rule StartNode_n_same)

lemma RestartNode_same: "same_jobs g d \<Longrightarrow> ensures (same_jobs g) (RestartNode e i rec d)"
  unfolding RestartNode_def by (intro RestartNode_with_same StartNode_same)

lemma report_to_child_same: "same_jobs g d \<Longrightarrow> ensures (same_jobs g) (report_to_child e job rec boot q d)"
proof -
  assume d: "same_jobs g d"
  have m: "ensures (same_jobs g) (bindR (monitor_log e i d1) (\<lambda>(_, d). Inr d))" if "same_jobs g d1" for i d1
    by (rule ensures_bind [OF monitor_same [OF that]]) auto
  show ?thesis unfolding report_to_child_def Let_def
    by (rule ensures_bind [where Q = "\<lambda>_. True"], simp add: ensures_def, intro ensures_option ensures_if) (use d StartNode_same m in simp_all)
qed

lemma TerminateJob_same: "same_jobs g d \<Longrightarrow> ensures (same_jobs g) (TerminateJob e job rec boot d)"
  unfolding TerminateJob_def Let_def
  by (intro ensures_if, simp, simp, rule ensures_bind [where Q = "same_jobs g"]) (auto intro: ensures_foldR report_to_child_same)

lemma ProcessPostTermEvent_same: "same_jobs g d \<Longrightarrow> ensures (same_jobs g) (ProcessPostTermEvent e ev job rec d)"
  unfolding ProcessPostTermEvent_def Let_def
  by (rule ensures_bind [OF unmonitor_same], assumption, rule ensures_bind [where Q = "same_jobs g"], simp,
      rule ensures_bind [OF _ abort_same], intro ensures_if) (simp_all add: RestartNode_same TerminateJob_same)

lemma PostScriptReaper_same: "same_jobs g d \<Longrightarrow> ensures (same_jobs g) (PostScriptReaper e n st d)"
  unfolding PostScriptReaper_def Let_def ask_def prod.case
  by (rule ensures_bind [where Q = "\<lambda>_. True"], simp add: ensures_def, intro ensures_option ensures_if) (simp_all add: ProcessPostTermEvent_same)

lemma PreScriptReaper_same: "same_jobs g d \<Longrightarrow> ensures (same_jobs g) (PreScriptReaper e n st d)"
  unfolding PreScriptReaper_def by (intro PreScriptReaper_with_same RestartNode_same)

lemma ScriptQ_Run_same: "same_jobs g d \<Longrightarrow> ensures (\<lambda>(_, d'). same_jobs g d') (ScriptQ_Run e s d)"
  unfolding ScriptQ_Run_def script_reaper_def
  by (rule Run_with_same) (simp_all add: PostScriptReaper_same PreScriptReaper_same)

lemma ProcessFailedSubmit_same:
  assumes "same_jobs g d"
  shows "ensures (same_jobs g) (ProcessFailedSubmit e i m d)"
proof -
  have "ensures (same_jobs g) (bindR (monitor_log e i d1) (\<lambda>(_, d). bindR (ScriptQ_Run e (i, True) d) (\<lambda>(_, d). Inr d)))"
    if "same_jobs g d1" for d1
  proof (rule ensures_bind [OF monitor_same [OF that]])
    fix x :: "bool \<times> Dag" assume "case x of (_, d') \<Rightarrow> same_jobs g d'"
    then show "ensures (same_jobs g) (case x of (_, d) \<Rightarrow> bindR (ScriptQ_Run e (i, True) d) (\<lambda>(_, d). Inr d))"
      by (cases x) (auto intro: ensures_bind [OF ScriptQ_Run_same])
  qed
  then show ?thesis using assms unfolding ProcessFailedSubmit_def Let_def ask_def prod.case
    by (intro ensures_if ensures_bind [OF unmonitor_same]) simp_all
qed

section \<open>The bounds of one submit cycle\<close>

definition within_bounds :: "Dag \<Rightarrow> bool" where
  "within_bounds d \<longleftrightarrow> (d_maxJobsSubmitted d \<noteq> 0 \<longrightarrow> d_numJobsSubmitted d \<le> d_maxJobsSubmitted d) \<and>
     (\<forall>info \<in> set (d_heap d). isSet info \<longrightarrow> th_currentJobs info \<le> th_maxJobs info)"

lemma within_bounds_same: "same_jobs d d' \<Longrightarrow> within_bounds d' = within_bounds d"
  by (simp add: same_jobs_def within_bounds_def)

lemma same_bounds_jobs: "same_bounds d d' \<Longrightarrow> same_jobs d d'"
  by (simp add: same_bounds_def same_jobs_def)

lemma UpdateJobCounts_bounds:
  assumes "within_bounds d" and "\<not> (d_maxJobsSubmitted d \<noteq> 0 \<and> d_numJobsSubmitted d \<ge> d_maxJobsSubmitted d)"
    and "\<not> deferred_by_throttle i d" and "UpdateJobCounts i 1 d = Inr d'"
  shows "within_bounds d'"
proof (cases "throttleInfo (node_at d i)")
  case None
  with assms show ?thesis by (auto simp: UpdateJobCounts_def within_bounds_def Let_def split: if_splits)
next
  case (Some t)
  let ?info = "(d_heap d ! t)\<lparr>th_currentJobs := th_currentJobs (d_heap d ! t) + 1\<rparr>"
  have d': "d' = d\<lparr>d_numJobsSubmitted := d_numJobsSubmitted d + 1, d_heap := (d_heap d)[t := ?info]\<rparr>"
    using assms(4) Some by (simp add: UpdateJobCounts_def Let_def split: if_splits)
  have "isSet ?info \<longrightarrow> th_currentJobs ?info \<le> th_maxJobs ?info"
    using assms(3) Some by (auto simp: deferred_by_throttle_def isSet_def)
  then have "\<forall>info \<in> set ((d_heap d)[t := ?info]). isSet info \<longrightarrow> th_currentJobs info \<le> th_maxJobs info"
    using assms(1) set_update_subset_insert [of "d_heap d" t ?info] unfolding within_bounds_def by blast
  then show ?thesis using assms(2) by (auto simp: d' within_bounds_def)
qed

lemma ProcessSuccessfulSubmit_bounds:
  assumes "within_bounds d" and "\<not> (d_maxJobsSubmitted d \<noteq> 0 \<and> d_numJobsSubmitted d \<ge> d_maxJobsSubmitted d)"
    and "\<not> deferred_by_throttle i d" and "ProcessSuccessfulSubmit i c d = Inr d'"
  shows "within_bounds d'"
proof -
  from assms(4) obtain q where q: "enqueue i (d_submitQ d) = Inr q" by (auto simp: ProcessSuccessfulSubmit_def)
  let ?d2 = "upd_node i (\<lambda>j. j\<lparr>Status := STATUS_SUBMITTED\<rparr>) (d\<lparr>d_nextSubmitTime := 0, d_nextSubmitDelay := 1, d_submitQ := q\<rparr>)"
  have "d_maxJobsSubmitted ?d2 = d_maxJobsSubmitted d" by (simp add: upd_node_def set_node_def)
  then have s: "same_jobs d ?d2" by (simp add: same_jobs_def)
  from assms(4) q obtain d3 where d3: "UpdateJobCounts i 1 ?d2 = Inr d3" by (auto simp: ProcessSuccessfulSubmit_def Let_def)
  have "within_bounds d3"
    by (rule UpdateJobCounts_bounds [OF _ _ _ d3])
      (use s assms(1-3) within_bounds_same [OF s] in \<open>simp_all add: same_jobs_def deferred_by_throttle_def split: option.splits\<close>)
  moreover have "same_jobs d3 d'" using assms(4) q d3 by (auto simp: ProcessSuccessfulSubmit_def Let_def split: if_splits)
  ultimately show ?thesis using within_bounds_same by blast
qed

lemma submit_turn_bounds:
  assumes run: "run_from g d" and b: "within_bounds d" and res: "submit_turn e dm v d = Inr (t, v', d')"
  shows "within_bounds d' \<and> v_numSubmitsThisCycle v \<le> v_numSubmitsThisCycle v' \<and> v_numSubmitsThisCycle v' \<le> v_numSubmitsThisCycle v + 1"
  using submit_turn_cases [OF run res]
proof cases
  case 1
  then show ?thesis using b by (elim disjE) (simp_all add: within_bounds_def)
next
  case (2 i q)
  let ?d = "d\<lparr>d_readyQ := q\<rparr>"
  show ?thesis
  proof (cases "deferred_by_throttle i ?d")
    case True
    then show ?thesis using 2(4) b by (simp add: within_bounds_def)
  next
    case False
    with 2(4) have "submit_job e dm i v ?d = Inr (t, v', d')" by simp
    then show ?thesis
    proof (rule submit_job_cases)
      fix s d1 r c d2
      assume d1: "d1 = ?d \<or> d1 = act (A_sleep 1) ?d" and sn: "SubmitNodeJob e dm i (CondorID 0 0 0) d1 = Inr (r, c, d2)"
        and r: "case r of
           SUBMIT_RESULT_OK \<Rightarrow> ProcessSuccessfulSubmit i c d2 = Inr d' \<and> t = Go_on \<and>
             v' = v\<lparr>v_didLogSleep := s, v_numSubmitsThisCycle := v_numSubmitsThisCycle v + 1\<rparr>
         | SUBMIT_RESULT_FAILED \<Rightarrow> ProcessFailedSubmit e i (dm_max_submit_attempts dm) d2 = Inr d' \<and> t = Leave \<and> v' = v\<lparr>v_didLogSleep := s\<rparr>
         | SUBMIT_RESULT_NO_SUBMIT \<Rightarrow> d' = d2 \<and> t = Go_on \<and> v' = v\<lparr>v_didLogSleep := s\<rparr>"
      have "same_bounds ?d d2" using d1 SubmitNodeJob_bounds [OF sn] same_bounds_act same_bounds_trans by blast
      then have s2: "same_jobs d d2" "deferred_by_throttle i d2 = deferred_by_throttle i ?d"
        by (auto simp: same_bounds_def same_jobs_def deferred_by_throttle_def split: option.splits)
      note b2 = within_bounds_same [OF s2(1)]
      have "within_bounds d'"
      proof (cases r)
        case SUBMIT_RESULT_OK
        then show ?thesis using r b b2 s2 False 2(3)
          by (intro ProcessSuccessfulSubmit_bounds [of d2 i c d']) (simp_all add: same_jobs_def)
      next
        case SUBMIT_RESULT_FAILED
        then show ?thesis using r b b2 ensuresD [OF ProcessFailedSubmit_same [OF s2(1)], of e i _ d'] within_bounds_same by auto
      qed (use r b b2 in simp)
      then show ?thesis using r by (simp split: submit_result_t.splits)
    qed
  qed
qed

lemma submit_loop_bounds:
  assumes "run_from g d" and "within_bounds d" and "submit_loop n e dm v d = Some (Inr (v', d'))"
    and "v_numSubmitsThisCycle v \<le> max 0 (dm_max_submits_per_interval dm)"
  shows "within_bounds d' \<and> v_numSubmitsThisCycle v \<le> v_numSubmitsThisCycle v' \<and>
    v_numSubmitsThisCycle v' \<le> max 0 (dm_max_submits_per_interval dm)"
  using assms
proof (induction n arbitrary: v d)
  case (Suc n)
  show ?case
  proof (cases "v_numSubmitsThisCycle v < dm_max_submits_per_interval dm \<and> (\<exists>x. submit_turn e dm v d = Inr x)")
    case True
    then obtain t v1 d1 where t: "submit_turn e dm v d = Inr (t, v1, d1)" by (metis prod.exhaust)
    note k = submit_turn_bounds [OF Suc.prems(1,2) t]
    have r: "run_from g d1" using submit_turn_keeps [OF Suc.prems(1) t] by simp
    have le: "v_numSubmitsThisCycle v1 \<le> max 0 (dm_max_submits_per_interval dm)" using k True by auto
    show ?thesis
    proof (cases t)
      case Leave
      then show ?thesis using k le True t Suc.prems(3) by (simp add: submit_loop.simps [of "Suc n"])
    next
      case Go_on
      then have "submit_loop n e dm v1 d1 = Some (Inr (v', d'))" using t True Suc.prems(3) by (simp add: submit_loop.simps [of "Suc n"])
      from Suc.IH [OF r _ this le] k show ?thesis by simp
    qed
  qed (use Suc.prems in \<open>auto simp: submit_loop.simps [of "Suc n"] split: if_splits sum.splits\<close>)
next
  case 0
  show ?case
  proof (cases "v_numSubmitsThisCycle v < dm_max_submits_per_interval dm \<and> (\<exists>x. submit_turn e dm v d = Inr x)")
    case True
    then obtain t v1 d1 where t: "submit_turn e dm v d = Inr (t, v1, d1)" by (metis prod.exhaust)
    show ?thesis using submit_turn_bounds [OF 0(1,2) t] 0(3,4) True t by (cases t) (auto simp: submit_loop.simps [of 0])
  qed (use 0 in \<open>auto simp: submit_loop.simps [of 0] split: if_splits sum.splits\<close>)
qed

lemma return_deferred_same: "same_jobs d (return_deferred q d)"
proof (induction q d rule: return_deferred.induct)
  case (1 q d)
  show ?case
    by (subst return_deferred.simps)
      (use 1 in \<open>auto simp: same_jobs_def split: prod.splits option.splits\<close>)
qed

lemma SubmitReadyJobs_within_bounds:
  assumes run: "run_ok d" and b: "within_bounds d" and res: "SubmitReadyJobs e dm d = Some (Inr (n, d'))"
  shows "within_bounds d' \<and> 0 \<le> n \<and> n \<le> max 0 (dm_max_submits_per_interval dm)"
proof -
  obtain now d1 where d1: "(if d_nextSubmitTime d \<noteq> 0 then ask (e_time e) d else (0, d)) = (now, d1)" by fastforce
  have r1: "run_from d d1" using d1 run_from_self [OF run] run_from_ask [of d d "e_time e" now d1] by (auto split: if_splits)
  have "same_jobs d d1" using d1 same_jobs_ask [of d d "e_time e" now d1] by (auto split: if_splits)
  then have b1: "within_bounds d1" using b within_bounds_same by blast
  let ?v = "\<lparr>v_deferredJobs = new_PrioritySimpleList, v_numSubmitsThisCycle = 0, v_didLogSleep = False\<rparr>"
  have "(d' = act (A_sleep 1) d1 \<and> n = 0) \<or> (\<exists>v d2. submit_loop (nat (Number (d_readyQ d1))) e dm ?v d1 = Some (Inr (v, d2)) \<and>
      d' = return_deferred (Rewind (v_deferredJobs v)) d2 \<and> n = v_numSubmitsThisCycle v)"
    using res d1 by (auto simp: SubmitReadyJobs_def Let_def bindO_def split: if_splits option.splits sum.splits)
  then show ?thesis
  proof (elim disjE exE conjE)
    fix v d2 assume l: "submit_loop (nat (Number (d_readyQ d1))) e dm ?v d1 = Some (Inr (v, d2))"
      and d': "d' = return_deferred (Rewind (v_deferredJobs v)) d2" "n = v_numSubmitsThisCycle v"
    show ?thesis using submit_loop_bounds [OF r1 b1 l] within_bounds_same [OF return_deferred_same] by (simp add: d')
  qed (use b1 in \<open>simp add: within_bounds_def act_def\<close>)
qed

end
