(* ===== verification/Dag_Boot.thy ===== *)
theory Dag_Boot
  imports Dag_Bounds
begin

text \<open>
  From a freshly built DAG to a running one: \<open>Bootstrap\<close> establishes the invariant of \<open>Dag_Run\<close>,
  in normal mode and in recovery mode.
\<close>

section \<open>Freshly built DAGs\<close>

definition fresh_ok :: "Dag \<Rightarrow> bool" where
  "fresh_ok d \<longleftrightarrow> graph_ok d \<and> set (d_jobs d) = dom (d_nodes d) \<and>
     (\<forall>i \<in> dom (d_nodes d). \<not> countedAsDone (node_at d i) \<and> retries (node_at d i) \<le> retry_max (node_at d i)) \<and>
     d_numNodesDone d = 0 \<and> pl_invar (d_readyQ d) \<and> entries (d_readyQ d) = [] \<and>
     d_condorIDHash d = Map.empty \<and> d_storkIDHash d = Map.empty \<and> d_noopIDHash d = Map.empty \<and>
     d_preScriptQ d = new_ScriptQ \<and> d_postScriptQ d = new_ScriptQ \<and> d_submitQ d = new_Queue 0 None \<and> trace_ok d"

section \<open>Counting the nodes that are done already\<close>

definition count_done :: "JobID_t \<Rightarrow> Dag \<Rightarrow> Dag" where
  "count_done i d = upd_node i (\<lambda>j. j\<lparr>countedAsDone := True\<rparr>) (d\<lparr>d_numNodesDone := d_numNodesDone d + 1\<rparr>)"

lemma count_done_parts [simp]:
  "node_at (count_done i d) k = (if k = i then (node_at d i)\<lparr>countedAsDone := True\<rparr> else node_at d k)"
  "d_numNodesDone (count_done i d) = d_numNodesDone d + 1" "d_jobs (count_done i d) = d_jobs d"
  "i \<in> dom (d_nodes d) \<Longrightarrow> dom (d_nodes (count_done i d)) = dom (d_nodes d)"
  by (auto simp: count_done_def)

lemma count_done_graph: "i \<in> dom (d_nodes d) \<Longrightarrow> graph_ok (count_done i d) = graph_ok d"
proof -
  assume i: "i \<in> dom (d_nodes d)"
  have f: "jobID (node_at (count_done i d) k) = jobID (node_at d k)" "jobName (node_at (count_done i d) k) = jobName (node_at d k)"
    "queues (node_at (count_done i d) k) = queues (node_at d k)" "Status (node_at (count_done i d) k) = Status (node_at d k)" for k
    by simp_all
  have t: "d_nodeIDHash (count_done i d) = d_nodeIDHash d" "d_nodeNameHash (count_done i d) = d_nodeNameHash d"
    by (simp_all add: count_done_def)
  show ?thesis
    unfolding graph_ok_def store_ok_def symmetric_deps_def waiting_ok_def f t count_done_parts(3) count_done_parts(4) [OF i] ..
qed

lemma upd_node_same: "i \<in> dom (d_nodes d) \<Longrightarrow> f (node_at d i) = node_at d i \<Longrightarrow> upd_node i f d = d"
  by (simp add: upd_node_def set_node_same)

lemma report_to_child_boot:
  assumes g: "graph_ok d" and p: "p \<in> dom (d_nodes d)" "status_of d p = STATUS_DONE" and q: "q \<in> queue_of d p Q_CHILDREN"
  shows "report_to_child e p False True q d = Inr d"
proof -
  have st: "store_ok d" and sy: "symmetric_deps d" and w: "waiting_ok d" using g by (simp_all add: graph_ok_def)
  have qd: "q \<in> dom (d_nodes d)" using child_of [OF sy p(1) q] by simp
  have "p \<notin> queue_of d q Q_WAITING" using w qd p(2) by (simp add: waiting_ok_def)
  moreover have "jobID (node_at d p) = p" using st p(1) by (simp add: store_ok_def)
  ultimately have "upd_node q (\<lambda>j. snd (Remove_queue Q_WAITING (jobID (node_at d p)) j)) d = d"
    by (intro upd_node_same qd) (simp add: Remove_queue_def)
  then show ?thesis using qd by (simp add: report_to_child_def FindNodeByNodeID_ok [OF st])
qed

lemma foldR_unit: "(\<And>a. a \<in> set xs \<Longrightarrow> f a d = Inr d) \<Longrightarrow> foldR f xs d = Inr d"
  by (induction xs) simp_all

lemma TerminateJob_boot:
  assumes g: "graph_ok d" and i: "i \<in> dom (d_nodes d)" "status_of d i = STATUS_DONE" "\<not> countedAsDone (node_at d i)"
    and n: "d_numNodesDone d < NumNodes d"
  shows "TerminateJob e i False True d = Inr (count_done i d)"
proof -
  have u: "upd_node i (\<lambda>j. snd (TerminateSuccess j)) d = d"
    by (rule upd_node_same [OF i(1)]) (use i(2) in \<open>simp add: TerminateSuccess_def\<close>)
  let ?d = "count_done i d"
  have gd: "graph_ok ?d" using g count_done_graph [OF i(1)] by simp
  have "finite (queue_of ?d i Q_CHILDREN)" using g i(1) by (simp add: graph_ok_def symmetric_deps_def)
  then have "foldR (report_to_child e i False True) (sorted_list_of_set (queue_of ?d i Q_CHILDREN)) ?d = Inr ?d"
    using report_to_child_boot [OF gd, of i] i by (intro foldR_unit) simp
  then show ?thesis using i n by (simp add: TerminateJob_def u Let_def count_done_def NumNodes_def)
qed

lemma terminate_done_loop:
  assumes "graph_ok d" and "set is \<subseteq> dom (d_nodes d)" and "distinct is"
    and "\<forall>i \<in> set is. \<not> countedAsDone (node_at d i)" and "d_numNodesDone d + int (length is) \<le> NumNodes d"
  shows "foldR (terminate_done e) is d = Inr (fold count_done (filter (\<lambda>i. status_of d i = STATUS_DONE) is) d)"
  using assms
proof (induction "is" arbitrary: d)
  case (Cons i "is")
  have i: "i \<in> dom (d_nodes d)" using Cons.prems(2) by simp
  show ?case
  proof (cases "status_of d i = STATUS_DONE")
    case True
    have t: "terminate_done e i d = Inr (count_done i d)"
      using TerminateJob_boot [OF Cons.prems(1) i True] Cons.prems(4,5) True by (simp add: terminate_done_def)
    have "status_of (count_done i d) k = status_of d k" for k by simp
    moreover have "foldR (terminate_done e) is (count_done i d) =
        Inr (fold count_done (filter (\<lambda>k. status_of (count_done i d) k = STATUS_DONE) is) (count_done i d))"
      by (rule Cons.IH) (use Cons.prems i count_done_graph [OF i] in \<open>auto simp: NumNodes_def simp del: domIff\<close>)
    ultimately show ?thesis using t True by simp
  next
    case False
    then show ?thesis using Cons by (simp add: terminate_done_def)
  qed
qed simp

lemma fold_count_done:
  assumes "set is \<subseteq> dom (d_nodes d)" and "distinct is"
  shows "node_at (fold count_done is d) k = (if k \<in> set is then (node_at d k)\<lparr>countedAsDone := True\<rparr> else node_at d k)"
    "dom (d_nodes (fold count_done is d)) = dom (d_nodes d)"
    "d_numNodesDone (fold count_done is d) = d_numNodesDone d + int (length is)"
  using assms
proof (induction "is" arbitrary: d)
  case (Cons i "is")
  { case 1 then show ?case using Cons.IH(1) [of "count_done i d"] by (auto simp del: domIff) }
  { case 2 then show ?case using Cons.IH(2) [of "count_done i d"] by (simp del: domIff) }
  { case 3 then show ?case using Cons.IH(3) [of "count_done i d"] by (simp del: domIff) }
qed simp_all

lemma fold_count_done_frame: "\<exists>m n. fold count_done is d = d\<lparr>d_nodes := m, d_numNodesDone := n\<rparr>"
proof (induction "is" arbitrary: d)
  case Nil
  have "d = d\<lparr>d_nodes := d_nodes d, d_numNodesDone := d_numNodesDone d\<rparr>" by simp
  then show ?case unfolding fold_simps id_apply by blast
next
  case (Cons i "is")
  obtain m n where "fold count_done is (count_done i d) = (count_done i d)\<lparr>d_nodes := m, d_numNodesDone := n\<rparr>"
    using Cons.IH by blast
  then have "fold count_done (i # is) d = d\<lparr>d_nodes := m, d_numNodesDone := n\<rparr>"
    by (simp add: count_done_def [of i d] upd_node_def set_node_def)
  then show ?case by blast
qed

section \<open>The first loop of Bootstrap\<close>

definition booted :: "Dag \<Rightarrow> Dag" where
  "booted d = fold count_done (filter (\<lambda>i. status_of d i = STATUS_DONE) (d_jobs d)) d"

lemma empty_queues_ok [simp]: "sq_ok d post new_ScriptQ" "queue_invar (new_Queue 0 None)"
  using ringq.new_law by (simp_all add: sq_ok_def new_ScriptQ_def)

lemma booted_parts:
  assumes "fresh_ok d"
  shows "node_at (booted d) k = (if k \<in> dom (d_nodes d) \<and> status_of d k = STATUS_DONE then (node_at d k)\<lparr>countedAsDone := True\<rparr> else node_at d k)"
    "dom (d_nodes (booted d)) = dom (d_nodes d)"
    "d_numNodesDone (booted d) = int (card {i \<in> dom (d_nodes d). status_of d i = STATUS_DONE})"
    "\<exists>m n. booted d = d\<lparr>d_nodes := m, d_numNodesDone := n\<rparr>"
proof -
  let ?is = "filter (\<lambda>i. status_of d i = STATUS_DONE) (d_jobs d)"
  have s: "set ?is = {i \<in> dom (d_nodes d). status_of d i = STATUS_DONE}" using assms by (auto simp: fresh_ok_def)
  have di: "distinct ?is" and sub: "set ?is \<subseteq> dom (d_nodes d)" and z: "d_numNodesDone d = 0"
    using assms s by (auto simp: fresh_ok_def graph_ok_def store_ok_def)
  note f = fold_count_done [OF sub di]
  show "node_at (booted d) k = (if k \<in> dom (d_nodes d) \<and> status_of d k = STATUS_DONE then (node_at d k)\<lparr>countedAsDone := True\<rparr> else node_at d k)"
    using f(1) [of k] unfolding s by (simp add: booted_def)
  show "dom (d_nodes (booted d)) = dom (d_nodes d)" using f(2) by (simp add: booted_def)
  show "d_numNodesDone (booted d) = int (card {i \<in> dom (d_nodes d). status_of d i = STATUS_DONE})"
    using f(3) z distinct_card [OF di] unfolding s by (simp add: booted_def)
  show "\<exists>m n. booted d = d\<lparr>d_nodes := m, d_numNodesDone := n\<rparr>" unfolding booted_def by (rule fold_count_done_frame)
qed

lemma terminate_done_booted:
  assumes "fresh_ok d"
  shows "foldR (terminate_done e) (d_jobs d) d = Inr (booted d)"
  unfolding booted_def
  by (rule terminate_done_loop) (use assms in \<open>auto simp: fresh_ok_def NumNodes_def graph_ok_def store_ok_def\<close>)

lemma booted_run:
  assumes fr: "fresh_ok d"
  shows "run_from d (booted d)"
proof -
  let ?d = "booted d"
  have g: "graph_ok d" and jobs: "set (d_jobs d) = dom (d_nodes d)" using fr by (simp_all add: fresh_ok_def)
  note b = booted_parts(1,2) [OF fr]
  obtain m n where mn: "?d = d\<lparr>d_nodes := m, d_numNodesDone := n\<rparr>" using booted_parts(4) [OF fr] by blast
  have t: "d_jobs ?d = d_jobs d" "d_nodeIDHash ?d = d_nodeIDHash d" "d_nodeNameHash ?d = d_nodeNameHash d"
    "d_readyQ ?d = d_readyQ d" "d_condorIDHash ?d = d_condorIDHash d" "d_storkIDHash ?d = d_storkIDHash d"
    "d_noopIDHash ?d = d_noopIDHash d" "d_preScriptQ ?d = d_preScriptQ d" "d_postScriptQ ?d = d_postScriptQ d"
    "d_submitQ ?d = d_submitQ d" "d_trace ?d = d_trace d" "d_tick ?d = d_tick d" "d_isSplice ?d = d_isSplice d"
    "d_maxPreScripts ?d = d_maxPreScripts d" "d_maxPostScripts ?d = d_maxPostScripts d" by (simp_all add: mn)
  have f: "jobID (node_at ?d k) = jobID (node_at d k)" "jobName (node_at ?d k) = jobName (node_at d k)"
    "queues (node_at ?d k) = queues (node_at d k)" "retries (node_at ?d k) = retries (node_at d k)"
    "retry_max (node_at ?d k) = retry_max (node_at d k)" for k by (simp_all add: b(1))
  have c: "k \<in> dom (d_nodes d) \<Longrightarrow> countedAsDone (node_at ?d k) \<longleftrightarrow> status_of d k = STATUS_DONE" for k
    using fr by (simp add: b(1) fresh_ok_def)
  have st: "store_ok ?d" "symmetric_deps ?d"
    using g unfolding graph_ok_def store_ok_def symmetric_deps_def f t b(2) by blast+
  have "done_before ?d"
    using g c unfolding done_before_def graph_ok_def waiting_ok_def symmetric_deps_def f b(2) by blast
  moreover have "counts_ok ?d"
  proof -
    have "{i \<in> set (d_jobs d). countedAsDone (node_at ?d i)} = {i \<in> dom (d_nodes d). status_of d i = STATUS_DONE}"
      using c jobs by blast
    then show ?thesis using fr booted_parts(3) [OF fr] unfolding counts_ok_def t f b(2) by (simp add: fresh_ok_def)
  qed
  moreover have "ready_ok ?d" "ids_ok ?d" using fr by (simp_all add: ready_ok_def ids_ok_def fresh_ok_def t)
  moreover have "trace_ok ?d" by (rule trace_ok_mono [of d]) (use fr t b(2) f in \<open>simp_all add: fresh_ok_def\<close>)
  ultimately have "run_ok ?d" using st fr unfolding run_ok_def t by (simp add: fresh_ok_def)
  moreover have "grows d ?d" unfolding grows_def t b(2) by (auto simp: node_kept_def b(1))
  ultimately show ?thesis by (simp add: run_from_def)
qed

section \<open>Recovery and the start of the ready nodes\<close>

lemma monitor_ready_keeps:
  "run_from g d \<Longrightarrow> set is \<subseteq> dom (d_nodes d) \<Longrightarrow> monitor_ready e is d = Inr (ok, d') \<Longrightarrow> run_from g d'"
proof (induction "is" arbitrary: d)
  case (Cons i "is")
  show ?case
  proof (cases "CanSubmit (node_at d i)")
    case True
    with Cons.prems(3) obtain k d1 where m: "monitor_log e i d = Inr (k, d1)" by auto
    have r: "run_from g d1" using monitor_log_keeps [OF Cons.prems(1) _ m] Cons.prems(2) by simp
    then have "set is \<subseteq> dom (d_nodes d1)" using Cons.prems(1,2) run_from_dom by auto
    then show ?thesis using Cons.IH [OF r] Cons.prems(3) True m r by (simp split: if_splits)
  qed (use Cons in simp)
qed simp

lemma run_stuck_posts_keeps:
  "run_from g d \<Longrightarrow> set is \<subseteq> dom (d_nodes d) \<Longrightarrow> run_stuck_posts e is d = Inr (ok, d') \<Longrightarrow> run_from g d'"
proof (induction "is" arbitrary: d)
  case (Cons i "is")
  show ?case
  proof (cases "Status (node_at d i) = STATUS_POSTRUN")
    case True
    with Cons.prems(3) obtain k d1 where m: "monitor_log e i d = Inr (k, d1)" by auto
    have r: "run_from g d1" using monitor_log_keeps [OF Cons.prems(1) _ m] Cons.prems(2) by simp
    show ?thesis
    proof (cases k)
      case False
      then show ?thesis using Cons.prems(3) True m r by simp
    next
      case k: True
      then obtain n d2 where q: "ScriptQ_Run e (i, True) d1 = Inr (n, d2)" "run_stuck_posts e is d2 = Inr (ok, d')"
        using Cons.prems(3) True m by auto
      have "i \<in> dom (d_nodes d1)" using Cons.prems(1,2) r run_from_dom by simp
      then have r2: "run_from g d2" by (rule ScriptQ_Run_keeps [OF r _ q(1)])
      then have "set is \<subseteq> dom (d_nodes d2)" using Cons.prems(1,2) run_from_dom by simp
      from Cons.IH [OF r2 this q(2)] show ?thesis .
    qed
  qed (use Cons in simp)
qed simp

lemma replay_log_keeps:
  assumes "run_from g d" and "replay_log e ls d = Some (Inr (ok, d'))"
  shows "run_from g d'"
proof -
  obtain n d1 where a: "ask (e_logFileCount e) d = (n, d1)" by (cases "ask (e_logFileCount e) d")
  have r: "run_from g d1" using run_from_ask [OF assms(1) a] by simp
  have "d' = d1 \<or> ProcessLogEvents e ls True True d1 = Some (Inr (ok, d'))"
    using assms(2) a by (auto simp: replay_log_def split: if_splits)
  then show ?thesis using r ProcessLogEvents_keeps [OF r] by blast
qed

lemma bindO_InrE:
  assumes "bindO r f = Some (Inr y)"
  obtains x where "r = Some (Inr x)" "f x = Some (Inr y)"
  using assms by (auto simp: bindO_def split: option.splits sum.splits)

lemma run_from_jobs: "run_from g d \<Longrightarrow> set (d_jobs d) \<subseteq> dom (d_nodes d)"
  by (simp add: run_from_def run_ok_def store_ok_def)

lemma recover_keeps:
  assumes run: "run_from g d" and res: "recover e d = Some (Inr (ok, d'))"
  shows "run_from g d'"
  using res unfolding recover_def
proof (rule bindO_InrE)
  fix x assume x: "Some (monitor_ready e (d_jobs d) d) = Some (Inr x)"
    and y: "(case x of (ok, d) \<Rightarrow> if \<not> ok then Some (Inr (False, d))
       else bindO (replay_log e TYPE_CONDOR d) (\<lambda>(ok, d).
         if \<not> ok then Some (Inr (False, d\<lparr>d_recovery := False\<rparr>))
         else bindO (replay_log e TYPE_STORK d) (\<lambda>(ok, d).
           if \<not> ok then Some (Inr (False, d\<lparr>d_recovery := False\<rparr>))
           else bindO (Some (run_stuck_posts e (d_jobs d) d)) (\<lambda>(ok, d).
             if \<not> ok then Some (Inr (False, d))
             else Some (Inr (True, (set_fake_condorID (d_recoveryMaxfakeID d) d)\<lparr>d_recovery := False\<rparr>)))))) = Some (Inr (ok, d'))"
  obtain o1 d1 where x1: "x = (o1, d1)" by (cases x)
  have r1: "run_from g d1" using monitor_ready_keeps [OF run run_from_jobs [OF run]] x x1 by simp
  show ?thesis
  proof (cases o1)
    case True
    with y x1 obtain o2 d2 where l2: "replay_log e TYPE_CONDOR d1 = Some (Inr (o2, d2))"
      by (auto elim: bindO_InrE)
    have r2: "run_from g d2" by (rule replay_log_keeps [OF r1 l2])
    show ?thesis
    proof (cases o2)
      case o2: True
      with y x1 True l2 obtain o3 d3 where l3: "replay_log e TYPE_STORK d2 = Some (Inr (o3, d3))"
        by (auto simp: bindO_def [of "Some _"] elim: bindO_InrE)
      have r3: "run_from g d3" by (rule replay_log_keeps [OF r2 l3])
      show ?thesis
      proof (cases o3)
        case o3: True
        with y x1 True l2 o2 l3 obtain o4 d4 where l4: "run_stuck_posts e (d_jobs d3) d3 = Inr (o4, d4)"
          "d' = (if o4 then (set_fake_condorID (d_recoveryMaxfakeID d4) d4)\<lparr>d_recovery := False\<rparr> else d4)"
          by (auto simp: bindO_def split: sum.splits if_splits)
        have "run_from g d4" by (rule run_stuck_posts_keeps [OF r3 run_from_jobs [OF r3] l4(1)])
        then show ?thesis using l4(2) by (simp add: set_fake_condorID_def)
      qed (use y x1 True l2 o2 l3 r3 in \<open>auto simp: bindO_def\<close>)
    qed (use y x1 True l2 r2 in \<open>auto simp: bindO_def\<close>)
  qed (use y x1 r1 in simp)
qed

lemma start_ready_loop_keeps:
  "run_from g d \<Longrightarrow> set is \<subseteq> dom (d_nodes d) \<Longrightarrow> foldR (start_ready e) is d = Inr d' \<Longrightarrow> run_from g d'"
proof (induction "is" arbitrary: d)
  case (Cons i "is")
  from Cons.prems(3) obtain d1 where s: "start_ready e i d = Inr d1" "foldR (start_ready e) is d1 = Inr d'" by auto
  have "d1 = d \<or> StartNode e i False d = Inr d1" using s(1) by (simp add: start_ready_def split: if_splits)
  then have r: "run_from g d1" using Cons.prems(1,2) StartNode_keeps [of g d i] by (elim disjE) simp_all
  then have "set is \<subseteq> dom (d_nodes d1)" using Cons.prems(1,2) run_from_dom by simp
  from Cons.IH [OF r this s(2)] show ?case .
qed simp

lemma Bootstrap_run:
  assumes fr: "fresh_ok d" and res: "Bootstrap e rec d = Some (Inr (ok, d'))"
  shows "run_from d d'"
proof -
  have r1: "run_from d ((booted d)\<lparr>d_recovery := True\<rparr>)" using booted_run [OF fr] by simp
  from res have "bindO (if rec then recover e ((booted d)\<lparr>d_recovery := True\<rparr>) else Some (Inr (True, booted d))) (\<lambda>(ok, d).
      if \<not> ok then Some (Inr (False, d)) else bindO (Some (foldR (start_ready e) (d_jobs d) d)) (\<lambda>d. Some (Inr (True, d)))) = Some (Inr (ok, d'))"
    by (simp add: Bootstrap_def terminate_done_booted [OF fr] bindO_def [of "Some (Inr _)"] split: if_splits)
  then obtain o2 d2 where d2: "(if rec then recover e ((booted d)\<lparr>d_recovery := True\<rparr>) else Some (Inr (True, booted d))) = Some (Inr (o2, d2))"
    "(if \<not> o2 then Some (Inr (False, d2)) else bindO (Some (foldR (start_ready e) (d_jobs d2) d2)) (\<lambda>d. Some (Inr (True, d)))) = Some (Inr (ok, d'))"
    by (auto elim: bindO_InrE)
  have r2: "run_from d d2" using d2(1) booted_run [OF fr] recover_keeps [OF r1] by (simp split: if_splits)
  have "d' = d2 \<or> foldR (start_ready e) (d_jobs d2) d2 = Inr d'"
    using d2(2) by (auto simp: bindO_def split: if_splits sum.splits)
  then show ?thesis using r2 start_ready_loop_keeps [OF r2 run_from_jobs [OF r2]] by blast
qed

end
