(* ===== verification/Dag_Rescue.thy ===== *)
theory Dag_Rescue
  imports Dag_Submit
begin

text \<open>
  Rescue DAGs: the text \<open>Dag::WriteRescue\<close> writes, how rescue files are named, found and renamed
  (\<open>dagman_multi_dag.cpp\<close>). A written file is the action \<^const>\<open>A_write_rescue\<close> with its name and
  its text. Whether a file exists, can be opened or renamed is answered by \<open>env\<close>.
\<close>

section \<open>Names\<close>

text \<open>\<^verbatim>\<open>%.3d\<close> and \<^verbatim>\<open>%02d\<close>: zeros are put in front, behind a minus sign.\<close>

definition zero_padded :: "nat \<Rightarrow> nat \<Rightarrow> string" where
  "zero_padded w n = replicate (w - length (string_of_nat n)) CHR ''0'' @ string_of_nat n"

definition precision_3d :: "int \<Rightarrow> string" where
  "precision_3d i = (if i < 0 then ''-'' @ zero_padded 3 (nat (- i)) else zero_padded 3 (nat i))"

definition width_02d :: "int \<Rightarrow> string" where
  "width_02d i = (if i < 0 then ''-'' @ zero_padded 1 (nat (- i)) else zero_padded 2 (nat i))"

definition RescueDagName :: "string \<Rightarrow> bool \<Rightarrow> int \<Rightarrow> string res" where
  "RescueDagName primaryDagFile multiDags rescueDagNum =
     (if \<not> rescueDagNum \<ge> 1 then Inl (ASSERT ''rescueDagNum >= 1'')
      else Inr (primaryDagFile @ (if multiDags then ''_multi'' else '''') @ ''.rescue'' @ precision_3d rescueDagNum))"

definition find_last_body ::
  "env \<Rightarrow> string \<Rightarrow> bool \<Rightarrow> int \<Rightarrow> int \<times> Dag \<Rightarrow> (int \<times> Dag) res" where
  "find_last_body e primaryDagFile multiDags test s =
     (case s of (lastRescue, d) \<Rightarrow>
        bindR (RescueDagName primaryDagFile multiDags test) (\<lambda>testName.
          case ask (e_access e) d of (exists, d) \<Rightarrow> Inr (if exists testName then test else lastRescue, d)))"

definition FindLastRescueDagNum :: "env \<Rightarrow> string \<Rightarrow> bool \<Rightarrow> int \<Rightarrow> Dag \<Rightarrow> (int \<times> Dag) res" where
  "FindLastRescueDagNum e primaryDagFile multiDags maxRescueDagNum d =
     foldR (find_last_body e primaryDagFile multiDags) [1..maxRescueDagNum] (0, d)"

definition rename_body :: "env \<Rightarrow> string \<Rightarrow> bool \<Rightarrow> int \<Rightarrow> Dag \<Rightarrow> Dag res" where
  "rename_body e primaryDagFile multiDags rescueNum d =
     bindR (RescueDagName primaryDagFile multiDags rescueNum) (\<lambda>rescueDagName.
       case ask (e_rename_ok e) (act (A_rename rescueDagName (rescueDagName @ ''.old'')) d) of (ok, d) \<Rightarrow>
         if \<not> ok rescueDagName then Inl (EXCEPT ''Fatal error: unable to rename old rescue file'') else Inr d)"

definition RenameRescueDagsAfter :: "env \<Rightarrow> string \<Rightarrow> bool \<Rightarrow> int \<Rightarrow> int \<Rightarrow> Dag \<Rightarrow> Dag res" where
  "RenameRescueDagsAfter e primaryDagFile multiDags rescueDagNum maxRescueDagNum d =
     (if \<not> rescueDagNum \<ge> 0 then Inl (ASSERT ''rescueDagNum >= 0'')
      else
        bindR (FindLastRescueDagNum e primaryDagFile multiDags maxRescueDagNum d) (\<lambda>(lastToDelete, d).
          foldR (rename_body e primaryDagFile multiDags) [rescueDagNum + 1..lastToDelete] d))"

section \<open>The text\<close>

definition newline :: string where
  "newline = [CHR 0x0A]"

definition quote :: string where
  "quote = [CHR 0x22]"

definition rescue_created :: "tm \<Rightarrow> string" where
  "rescue_created t =
     ''# Created '' @ string_of_int (tm_mon t + 1) @ ''/'' @ string_of_int (tm_mday t) @ ''/'' @
     string_of_int (tm_year t + 1900) @ '' '' @ width_02d (tm_hour t) @ '':'' @ width_02d (tm_min t) @ '':'' @
     width_02d (tm_sec t) @ '' UTC'' @ newline"

definition rescue_header :: "bool \<Rightarrow> string \<Rightarrow> tm \<Rightarrow> Dag \<Rightarrow> string" where
  "rescue_header parseFailed dag_file t d =
     (if parseFailed then ''# '' @ quote @ ''Rescue'' @ quote @ '' DAG file, created after failure parsing'' @ newline
      else ''# Rescue DAG file, created after running'' @ newline) @
     ''#   the '' @ dag_file @ '' DAG file'' @ newline @ rescue_created t @ ''#'' @ newline @
     ''# Total number of Nodes: '' @ string_of_int (NumNodes d) @ newline @
     ''# Nodes premarked DONE: '' @ string_of_int (d_numNodesDone d) @ newline @
     ''# Nodes that failed: '' @ string_of_int (d_numNodesFailed d) @ newline @
     ''#   '' @ concat (map (\<lambda>i. if Status (node_at d i) = STATUS_ERROR then jobName (node_at d i) @ '','' else '''') (d_jobs d)) @
     ''<ENDLIST>'' @ newline @ newline @
     (if parseFailed then ''REJECT'' @ newline @ newline else '''') @
     (case d_configFile d of None \<Rightarrow> '''' | Some f \<Rightarrow> ''CONFIG '' @ f @ newline @ newline) @
     (case d_statusFileName d of None \<Rightarrow> '''' | Some f \<Rightarrow> ''NODE_STATUS_FILE '' @ f @ newline @ newline) @
     (case d_jobstateLogFile d of None \<Rightarrow> '''' | Some f \<Rightarrow> ''JOBSTATE_LOG '' @ f @ newline @ newline)"

definition rescue_job_line :: "job \<Rightarrow> string" where
  "rescue_job_line j =
     (case jobType j of
        TYPE_CONDOR \<Rightarrow> (case dagFile j of None \<Rightarrow> ''JOB'' | Some _ \<Rightarrow> ''SUBDAG EXTERNAL'')
      | TYPE_STORK \<Rightarrow> ''DATA'') @ '' '' @ jobName j @ '' '' @
     (case dagFile j of None \<Rightarrow> cmdFile j | Some f \<Rightarrow> f) @ '' '' @
     (if directory j \<noteq> '''' then ''DIR '' @ directory j @ '' '' else '''') @
     (if noop j then ''NOOP '' else '''') @
     (if Status j = STATUS_DONE then ''DONE'' else '''') @ newline"

definition rescue_script_lines :: "job \<Rightarrow> string" where
  "rescue_script_lines j =
     (case scriptPre j of None \<Rightarrow> '''' | Some s \<Rightarrow> ''SCRIPT PRE  '' @ jobName j @ '' '' @ s_cmd s @ newline) @
     (case scriptPost j of None \<Rightarrow> '''' | Some s \<Rightarrow> ''SCRIPT POST '' @ jobName j @ '' '' @ s_cmd s @ newline)"

definition rescue_retry_lines :: "bool \<Rightarrow> job \<Rightarrow> string res" where
  "rescue_retry_lines reset_retries j =
     (if retry_max j > 0 then
        (let retriesLeft = retry_max j - retries j;
             note =
               (if Status j = STATUS_ERROR \<and> retries j < retry_max j \<and> have_retry_abort_val j \<and> retval j = retry_abort_val j
                then ''# '' @ string_of_int (retries j) @ '' of '' @ string_of_int (retry_max j) @
                     '' retries performed; remaining attempts aborted after node returned '' @ string_of_int (retval j) @ newline
                else if \<not> reset_retries
                then ''# '' @ string_of_int (retries j) @ '' of '' @ string_of_int (retry_max j) @
                     '' retries already performed; '' @ string_of_int retriesLeft @ '' remaining'' @ newline
                else '''')
         in if \<not> retries j \<le> retry_max j then Inl (ASSERT ''job->retries <= job->retry_max'')
            else Inr (note @ ''RETRY '' @ jobName j @ '' '' @ string_of_int (if \<not> reset_retries then retriesLeft else retry_max j) @
                   (if have_retry_abort_val j then '' UNLESS-EXIT '' @ string_of_int (retry_abort_val j) else '''') @ newline))
      else Inr '''')"

text \<open>A value of a variable is written with its quotes and backslashes escaped.\<close>

definition rescue_escape :: "string \<Rightarrow> string" where
  "rescue_escape s =
     concat (map (\<lambda>c. if c = CHR 0x22 then [CHR 0x5C, CHR 0x22] else if c = CHR 0x5C then [CHR 0x5C, CHR 0x5C] else [c]) s)"

definition rescue_vars_line :: "job \<Rightarrow> string" where
  "rescue_vars_line j =
     (if varNamesFromDag j \<noteq> [] then
        ''VARS '' @ jobName j @
        concat (map (\<lambda>(name, val). '' '' @ name @ ''='' @ quote @ rescue_escape val @ quote) (zip (varNamesFromDag j) (varValsFromDag j))) @
        newline
      else '''')"

definition rescue_abort_line :: "job \<Rightarrow> string" where
  "rescue_abort_line j =
     (if have_abort_dag_val j then
        ''ABORT-DAG-ON '' @ jobName j @ '' '' @ string_of_int (abort_dag_val j) @
        (if have_abort_dag_return_val j then '' RETURN '' @ string_of_int (abort_dag_return_val j) else '''') @ newline
      else '''')"

definition rescue_node :: "bool \<Rightarrow> Dag \<Rightarrow> JobID_t \<Rightarrow> string res" where
  "rescue_node reset_retries d i =
     (let j = node_at d i in
      bindR (rescue_retry_lines reset_retries j) (\<lambda>retry_lines.
        Inr (rescue_job_line j @ rescue_script_lines j @ retry_lines @ rescue_vars_line j @ rescue_abort_line j @
             (if hasNodePriority j then ''PRIORITY '' @ jobName j @ '' '' @ string_of_int (nodePriority j) @ newline else '''') @
             (case throttleInfo j of None \<Rightarrow> ''''
              | Some t \<Rightarrow> ''CATEGORY '' @ jobName j @ '' '' @ th_category (d_heap d ! t) @ newline) @
             newline)))"

definition rescue_children :: "Dag \<Rightarrow> JobID_t \<Rightarrow> string res" where
  "rescue_children d i =
     (let j = node_at d i; queue = queues j Q_CHILDREN in
      if queue \<noteq> {} then
        bindR (foldR (\<lambda>q s. bindR (FindNodeByNodeID q d) (\<lambda>child.
                 case child of None \<Rightarrow> Inl (ASSERT ''child != NULL'') | Some c \<Rightarrow> Inr (s @ '' '' @ jobName (node_at d c))))
               (sorted_list_of_set queue) (''PARENT '' @ jobName j @ '' CHILD''))
          (\<lambda>s. Inr (s @ newline))
      else Inr '''')"

definition rescue_text :: "bool \<Rightarrow> string \<Rightarrow> bool \<Rightarrow> tm \<Rightarrow> Dag \<Rightarrow> string res" where
  "rescue_text parseFailed dag_file reset_retries t d =
     bindR (foldR (\<lambda>i s. bindR (rescue_node reset_retries d i) (\<lambda>n. Inr (s @ n))) (d_jobs d) (rescue_header parseFailed dag_file t d)) (\<lambda>s.
     bindR (foldR (\<lambda>i s. bindR (rescue_children d i) (\<lambda>n. Inr (s @ n))) (d_jobs d) (s @ newline)) (\<lambda>s.
       Inr (s @ concat (map (\<lambda>l. l @ newline) (PrintThrottles (d_catThrottles d, d_heap d))))))"

section \<open>Writing\<close>

definition WriteRescue :: "env \<Rightarrow> string \<Rightarrow> string \<Rightarrow> bool \<Rightarrow> Dag \<Rightarrow> Dag res" where
  "WriteRescue e rescue_file dag_file parseFailed d =
     (case ask (e_fopen_ok e) d of (ok, d) \<Rightarrow>
        if \<not> ok then Inr d
        else
          (case ask (e_reset_retries e) d of (reset, d) \<Rightarrow>
           case ask (e_gmtime e) d of (t, d) \<Rightarrow>
             bindR (rescue_text parseFailed dag_file reset t d) (\<lambda>s. Inr (act (A_write_rescue rescue_file s) d))))"

definition Rescue :: "env \<Rightarrow> string \<Rightarrow> bool \<Rightarrow> int \<Rightarrow> bool \<Rightarrow> Dag \<Rightarrow> Dag res" where
  "Rescue e dag_file multiDags maxRescueDagNum parseFailed d =
     (if parseFailed then WriteRescue e (dag_file @ ''.parse_failed'') dag_file parseFailed d
      else
        bindR (FindLastRescueDagNum e dag_file multiDags maxRescueDagNum d) (\<lambda>(lastRescue, d).
          let nextRescue = (if lastRescue + 1 > maxRescueDagNum then maxRescueDagNum else lastRescue + 1) in
          bindR (RescueDagName dag_file multiDags nextRescue) (\<lambda>rescueDagFile.
            WriteRescue e rescueDagFile dag_file parseFailed d)))"

end
