(* ===== verification/Dag_Cycle.thy ===== *)
theory Dag_Cycle
  imports Dag_Graph
begin

text \<open>
  Cycle detection, \<open>Dag::DFSVisit\<close> and \<open>Dag::isCycle\<close>. The recursion of \<open>DFSVisit\<close> has an
  explicit depth; running out of it is a stack overflow (\<open>Crash\<close>). \<open>isCycle\<close> allows a depth of
  one more than the number of nodes, and the theorem shows that this is enough: the search
  ends, and it reports a cycle if and only if there is one.

  The argument: a node is numbered after its children (post-order), so that the numbers
  decrease along every edge unless the search met a node that was still in progress, which
  needs a cycle; and a node that no root leads to keeps the number -1, which also needs one.
\<close>

section \<open>The search\<close>

fun DFSVisit :: "nat \<Rightarrow> JobID_t option \<Rightarrow> Dag \<Rightarrow> Dag res" where
  "DFSVisit depth None d = Inr d"
| "DFSVisit 0 (Some i) d = (if visited (node_at d i) then Inr d else Inl (Crash ''stack overflow''))"
| "DFSVisit (Suc depth) (Some i) d =
     (if visited (node_at d i) then Inr d
      else
        bindR (foldR (\<lambda>c d. bindR (FindNodeByNodeID c d) (\<lambda>child. DFSVisit depth child d))
                 (sorted_list_of_set (queues (node_at d i) Q_CHILDREN))
                 (upd_node i (\<lambda>j. j\<lparr>visited := True\<rparr>) d))
          (\<lambda>d. let d = d\<lparr>d_DFS_ORDER := d_DFS_ORDER d + 1\<rparr>
               in Inr (upd_node i (\<lambda>j. j\<lparr>dfsOrder := d_DFS_ORDER d\<rparr>) d)))"

definition visit_root :: "nat \<Rightarrow> JobID_t \<Rightarrow> Dag \<Rightarrow> Dag res" where
  "visit_root depth i d =
     (if \<not> visited (node_at d i) \<and> card (queues (node_at d i) Q_PARENTS) = 0
      then DFSVisit depth (Some i) d else Inr d)"

definition compare_child :: "Dag \<Rightarrow> JobID_t \<Rightarrow> JobID_t \<Rightarrow> bool \<Rightarrow> bool res" where
  "compare_child d i c cycle =
     bindR (FindNodeByNodeID c d) (\<lambda>child.
       case child of
         None \<Rightarrow> Inl (Crash ''child->_dfsOrder'')
       | Some p \<Rightarrow> Inr (if dfsOrder (node_at d p) \<ge> dfsOrder (node_at d i) then True else cycle))"

definition isCycle :: "Dag \<Rightarrow> (bool \<times> Dag) res" where
  "isCycle d =
     (let depth = Suc (length (d_jobs d)) in
      bindR (foldR (visit_root depth) (d_jobs d) (d\<lparr>d_DFS_ORDER := 0\<rparr>)) (\<lambda>d.
      bindR (foldR (\<lambda>i. foldR (compare_child d i) (sorted_list_of_set (queues (node_at d i) Q_CHILDREN)))
               (d_jobs d) False) (\<lambda>cycle.
        Inr (cycle, d))))"

section \<open>What the search changes\<close>

text \<open>Nothing but the marks and the numbers.\<close>

definition dfs_frame :: "Dag \<Rightarrow> Dag \<Rightarrow> bool" where
  "dfs_frame d d' \<longleftrightarrow>
     dom (d_nodes d') = dom (d_nodes d) \<and> d_jobs d' = d_jobs d \<and> d_nodeIDHash d' = d_nodeIDHash d \<and>
     d_nodeNameHash d' = d_nodeNameHash d \<and>
     (\<forall>i. queues (node_at d' i) = queues (node_at d i) \<and> Status (node_at d' i) = Status (node_at d i) \<and>
          jobID (node_at d' i) = jobID (node_at d i) \<and> jobName (node_at d' i) = jobName (node_at d i))"

lemma dfs_frame_refl [simp]: "dfs_frame d d"
  by (simp add: dfs_frame_def)

lemma dfs_frame_trans: "dfs_frame a b \<Longrightarrow> dfs_frame b c \<Longrightarrow> dfs_frame a c"
  by (simp add: dfs_frame_def)

lemma dfs_frame_edges: "dfs_frame d d' \<Longrightarrow> edges d' = edges d"
  by (auto simp: dfs_frame_def edges_def)

lemma dfs_frame_graph: "dfs_frame d d' \<Longrightarrow> graph_ok d \<Longrightarrow> graph_ok d'"
  by (simp add: dfs_frame_def graph_ok_def store_ok_def symmetric_deps_def waiting_ok_def)

lemma dfs_frame_steps:
  assumes "i \<in> dom (d_nodes d)"
  shows "dfs_frame d (upd_node i (\<lambda>j. j\<lparr>visited := True\<rparr>) d)"
    and "dfs_frame d (upd_node i (\<lambda>j. j\<lparr>dfsOrder := n\<rparr>) (d\<lparr>d_DFS_ORDER := m\<rparr>))"
proof -
  have n: "node_at (d\<lparr>d_DFS_ORDER := m\<rparr>) k = node_at d k" for k by (simp add: node_at_def)
  show "dfs_frame d (upd_node i (\<lambda>j. j\<lparr>visited := True\<rparr>) d)"
    using assms by (auto simp: dfs_frame_def upd_node_def)
  show "dfs_frame d (upd_node i (\<lambda>j. j\<lparr>dfsOrder := n\<rparr>) (d\<lparr>d_DFS_ORDER := m\<rparr>))"
    using assms by (auto simp: dfs_frame_def n upd_node_def set_node_def) (simp_all add: node_at_def n)
qed

section \<open>The invariant of the search\<close>

definition seen :: "Dag \<Rightarrow> JobID_t set" where
  "seen d = {i \<in> dom (d_nodes d). visited (node_at d i)}"

definition numbered :: "Dag \<Rightarrow> JobID_t set" where
  "numbered d = {i \<in> dom (d_nodes d). dfsOrder (node_at d i) \<noteq> -1}"

abbreviation order_of :: "Dag \<Rightarrow> JobID_t \<Rightarrow> int" where
  "order_of d i \<equiv> dfsOrder (node_at d i)"

definition dfs_inv :: "Dag \<Rightarrow> bool" where
  "dfs_inv d \<longleftrightarrow> 0 \<le> d_DFS_ORDER d \<and> numbered d \<subseteq> seen d \<and>
     (\<forall>i \<in> numbered d. 1 \<le> order_of d i \<and> order_of d i \<le> d_DFS_ORDER d) \<and>
     (\<forall>p c. (p, c) \<in> edges d \<and> p \<in> numbered d \<longrightarrow> c \<in> numbered d \<and> order_of d c < order_of d p)"

text \<open>What a completed call leaves: more nodes numbered, the same nodes in progress.\<close>

definition dfs_done :: "Dag \<Rightarrow> Dag \<Rightarrow> bool" where
  "dfs_done d d' \<longleftrightarrow> dfs_frame d d' \<and> dfs_inv d' \<and> seen d \<subseteq> seen d' \<and> numbered d \<subseteq> numbered d' \<and>
     seen d' - numbered d' = seen d - numbered d"

lemma dfs_done_refl: "dfs_inv d \<Longrightarrow> dfs_done d d"
  by (simp add: dfs_done_def)

lemma dfs_done_trans: "dfs_done a b \<Longrightarrow> dfs_done b c \<Longrightarrow> dfs_done a c"
  unfolding dfs_done_def using dfs_frame_trans by blast

lemma seen_dfs_steps:
  assumes "i \<in> dom (d_nodes d)"
  shows "seen (upd_node i (\<lambda>j. j\<lparr>visited := True\<rparr>) d) = insert i (seen d)"
    and "numbered (upd_node i (\<lambda>j. j\<lparr>visited := True\<rparr>) d) = numbered d"
    and "order_of (upd_node i (\<lambda>j. j\<lparr>visited := True\<rparr>) d) k = order_of d k"
    and "d_DFS_ORDER (upd_node i (\<lambda>j. j\<lparr>visited := True\<rparr>) d) = d_DFS_ORDER d"
  using assms by (auto simp: seen_def numbered_def upd_node_def set_node_def node_at_def)

lemma dfs_inv_mark:
  assumes "dfs_inv d" and "i \<in> dom (d_nodes d)"
  shows "dfs_inv (upd_node i (\<lambda>j. j\<lparr>visited := True\<rparr>) d)"
  using assms unfolding dfs_inv_def seen_dfs_steps [OF assms(2)] dfs_frame_edges [OF dfs_frame_steps(1) [OF assms(2)]]
  by blast

text \<open>Giving a node the next number, once all its children have theirs.\<close>

definition number_node :: "JobID_t \<Rightarrow> Dag \<Rightarrow> Dag" where
  "number_node i d = upd_node i (\<lambda>j. j\<lparr>dfsOrder := d_DFS_ORDER d + 1\<rparr>) (d\<lparr>d_DFS_ORDER := d_DFS_ORDER d + 1\<rparr>)"

lemma number_node_parts:
  assumes "i \<in> dom (d_nodes d)"
  shows "seen (number_node i d) = seen d" and "0 \<le> d_DFS_ORDER d \<Longrightarrow> numbered (number_node i d) = insert i (numbered d)"
    and "order_of (number_node i d) k = (if k = i then d_DFS_ORDER d + 1 else order_of d k)"
    and "d_DFS_ORDER (number_node i d) = d_DFS_ORDER d + 1" and "dfs_frame d (number_node i d)"
  using assms dfs_frame_steps(2) [OF assms]
  by (auto simp: number_node_def seen_def numbered_def upd_node_def set_node_def node_at_def)

lemma dfs_inv_number:
  assumes "dfs_inv d" and "i \<in> seen d" and "i \<notin> numbered d" and "\<forall>c. (i, c) \<in> edges d \<longrightarrow> c \<in> numbered d"
  shows "dfs_inv (number_node i d)"
proof -
  have i: "i \<in> dom (d_nodes d)" using assms(2) by (simp add: seen_def)
  note parts = number_node_parts [OF i]
  have "0 \<le> d_DFS_ORDER d" using assms(1) by (simp add: dfs_inv_def)
  note num = parts(2) [OF this]
  have e: "edges (number_node i d) = edges d" by (rule dfs_frame_edges [OF parts(5)])
  show ?thesis
    unfolding dfs_inv_def e parts(1,3,4) num
    using assms unfolding dfs_inv_def by (auto; fastforce)
qed

text \<open>
  Visiting the children one after the other, given what a visit of one child does. \<open>S\<close> are the
  nodes in progress; each of them has a path to every child.
\<close>

abbreviation visit_child :: "nat \<Rightarrow> JobID_t \<Rightarrow> Dag \<Rightarrow> Dag res" where
  "visit_child n \<equiv> \<lambda>c d. bindR (FindNodeByNodeID c d) (\<lambda>child. DFSVisit n child d)"

lemma visit_child_ok: "graph_ok d \<Longrightarrow> c \<in> dom (d_nodes d) \<Longrightarrow> visit_child n c d = DFSVisit n (Some c) d"
  by (simp add: FindNodeByNodeID_ok graph_ok_def)

lemma dfs_children:
  assumes visit: "\<And>c d1. dfs_frame d d1 \<Longrightarrow> dfs_inv d1 \<Longrightarrow> seen d1 - numbered d1 = S \<Longrightarrow> V \<subseteq> seen d1 \<Longrightarrow>
      c \<in> set cs \<Longrightarrow> \<exists>d'. DFSVisit n (Some c) d1 = Inr d' \<and> dfs_done d1 d' \<and> c \<in> numbered d'"
    and ok: "graph_ok d" and cs: "set cs \<subseteq> dom (d_nodes d)"
    and start: "dfs_frame d d0" "dfs_inv d0" "seen d0 - numbered d0 = S" "V \<subseteq> seen d0"
  shows "\<exists>d'. foldR (visit_child n) cs d0 = Inr d' \<and> dfs_done d0 d' \<and> set cs \<subseteq> numbered d'"
  using visit cs start
proof (induction cs arbitrary: d0)
  case Nil
  then show ?case by (simp add: dfs_done_refl)
next
  case (Cons c cs)
  obtain d2 where d2: "DFSVisit n (Some c) d0 = Inr d2" "dfs_done d0 d2" "c \<in> numbered d2"
    using Cons.prems(1) [OF Cons.prems(3-6), of c] by auto
  have "visit_child n c d0 = Inr d2"
    using visit_child_ok [OF dfs_frame_graph [OF Cons.prems(3) ok], of c] d2(1) Cons.prems(2,3)
    by (simp add: dfs_frame_def)
  moreover have "dfs_frame d d2" "dfs_inv d2" "seen d2 - numbered d2 = S" "V \<subseteq> seen d2"
    using d2(2) Cons.prems(3-6) dfs_frame_trans by (auto simp: dfs_done_def)
  then obtain d3 where d3: "foldR (visit_child n) cs d2 = Inr d3" "dfs_done d2 d3" "set cs \<subseteq> numbered d3"
    using Cons.IH [of d2] Cons.prems(1,2) by auto
  moreover have "c \<in> numbered d3" using d2(3) d3(2) by (auto simp: dfs_done_def)
  ultimately show ?case using dfs_done_trans [OF d2(2) d3(2)] by simp
qed

lemma DFSVisit_seen:
  assumes "i \<in> dom (d_nodes d)" and "visited (node_at d i)" and "acyclic (edges d)" and "dfs_inv d"
    and "\<forall>x \<in> seen d - numbered d. (x, i) \<in> (edges d)\<^sup>+"
  shows "DFSVisit depth (Some i) d = Inr d \<and> dfs_done d d \<and> i \<in> numbered d"
proof -
  have "i \<in> seen d" using assms(1,2) by (simp add: seen_def)
  moreover have "i \<notin> seen d - numbered d" using assms(3,5) by (meson acyclic_def)
  ultimately show ?thesis using assms dfs_done_refl by (cases depth) auto
qed

lemma finish_visit:
  assumes "i \<in> dom (d_nodes d)" and "i \<notin> seen d" and "dfs_inv d" and "graph_ok d"
    and d1: "dfs_done (upd_node i (\<lambda>j. j\<lparr>visited := True\<rparr>) d) d1" and "queues (node_at d i) Q_CHILDREN \<subseteq> numbered d1"
  shows "dfs_done d (number_node i d1) \<and> i \<in> numbered (number_node i d1)"
proof -
  note mark = seen_dfs_steps [OF assms(1)] and fr = dfs_frame_steps(1) [OF assms(1)]
  have nn: "i \<notin> numbered d" using assms(2,3) by (auto simp: dfs_inv_def)
  have f: "dfs_frame d d1" using d1 dfs_frame_trans [OF fr] by (simp add: dfs_done_def)
  have st: "seen d1 - numbered d1 = insert i (seen d - numbered d)"
    using d1 mark nn assms(2) by (auto simp: dfs_done_def)
  have i1: "i \<in> dom (d_nodes d1)" using f assms(1) by (simp add: dfs_frame_def)
  have v: "dfs_inv (number_node i d1)"
    using st d1 assms(6) dfs_frame_edges [OF f] by (intro dfs_inv_number) (auto simp: dfs_done_def edges_def)
  note parts = number_node_parts [OF i1]
  have "0 \<le> d_DFS_ORDER d1" using d1 by (simp add: dfs_done_def dfs_inv_def)
  note num = parts(2) [OF this]
  show ?thesis
    unfolding dfs_done_def num parts(1)
    using v dfs_frame_trans [OF f parts(5)] st d1 mark assms(2) nn by (auto simp: dfs_done_def)
qed

lemma DFSVisit_done:
  assumes "graph_ok d" and "acyclic (edges d)" and "finite (dom (d_nodes d))" and "i \<in> dom (d_nodes d)"
    and "dfs_inv d" and "\<forall>x \<in> seen d - numbered d. (x, i) \<in> (edges d)\<^sup>+"
    and "card (dom (d_nodes d) - seen d) \<le> depth"
  shows "\<exists>d'. DFSVisit depth (Some i) d = Inr d' \<and> dfs_done d d' \<and> i \<in> numbered d'"
  using assms
proof (induction depth arbitrary: i d)
  case 0
  then have "visited (node_at d i)" by (auto simp: seen_def)
  with DFSVisit_seen 0 show ?case by blast
next
  case (Suc n)
  show ?case
  proof (cases "visited (node_at d i)")
    case True
    with DFSVisit_seen Suc.prems show ?thesis by blast
  next
    case False
    let ?m = "upd_node i (\<lambda>j. j\<lparr>visited := True\<rparr>) d"
    let ?cs = "sorted_list_of_set (queues (node_at d i) Q_CHILDREN)"
    note i = Suc.prems(4)
    note mark = seen_dfs_steps [OF i] and fr = dfs_frame_steps(1) [OF i]
    have unseen: "i \<notin> seen d" "i \<notin> numbered d"
      using False Suc.prems(5) by (auto simp: seen_def dfs_inv_def)
    have cs: "set ?cs = queues (node_at d i) Q_CHILDREN" "set ?cs \<subseteq> dom (d_nodes d)"
      using Suc.prems(1) i by (auto simp: graph_ok_def symmetric_deps_def)
    have "\<exists>d1. foldR (visit_child n) ?cs ?m = Inr d1 \<and> dfs_done ?m d1 \<and> set ?cs \<subseteq> numbered d1"
    proof (rule dfs_children [where d = d and S = "insert i (seen d - numbered d)" and V = "insert i (seen d)"])
      fix c d1
      assume f: "dfs_frame d d1" and v: "dfs_inv d1" and s: "seen d1 - numbered d1 = insert i (seen d - numbered d)"
        and sub: "insert i (seen d) \<subseteq> seen d1" and c: "c \<in> set ?cs"
      have e: "edges d1 = edges d" and dom: "dom (d_nodes d1) = dom (d_nodes d)"
        using dfs_frame_edges [OF f] f by (simp_all add: dfs_frame_def)
      have cd: "c \<in> dom (d_nodes d)" using c cs(2) by blast
      have ic: "(i, c) \<in> edges d" using c cs i by (simp add: edges_def)
      have "\<forall>x \<in> seen d1 - numbered d1. (x, c) \<in> (edges d1)\<^sup>+"
        unfolding s e using ic Suc.prems(6) by (auto intro: trancl_into_trancl)
      moreover have "dom (d_nodes d1) - seen d1 \<subset> dom (d_nodes d) - seen d"
        using sub i unseen unfolding dom by blast
      then have "card (dom (d_nodes d1) - seen d1) < card (dom (d_nodes d) - seen d)"
        by (rule psubset_card_mono [rotated]) (use Suc.prems(3) in simp)
      ultimately show "\<exists>d'. DFSVisit n (Some c) d1 = Inr d' \<and> dfs_done d1 d' \<and> c \<in> numbered d'"
        using Suc.IH [OF dfs_frame_graph [OF f Suc.prems(1)], of c] v e dom Suc.prems(2,3,7) cd by auto
    qed (use Suc.prems(1) cs fr dfs_inv_mark [OF Suc.prems(5) i] mark unseen in auto)
    then obtain d1 where d1: "foldR (visit_child n) ?cs ?m = Inr d1" "dfs_done ?m d1" "set ?cs \<subseteq> numbered d1"
      by blast
    have "DFSVisit (Suc n) (Some i) d = Inr (number_node i d1)"
      using False d1(1) by (simp add: number_node_def Let_def)
    with finish_visit [OF i unseen(1) Suc.prems(5,1) d1(2)] d1(3) cs(1) show ?thesis by simp
  qed
qed

text \<open>With or without a cycle, the search comes back.\<close>

lemma DFSVisit_returns:
  assumes "graph_ok d" and "finite (dom (d_nodes d))" and "i \<in> dom (d_nodes d)"
    and "card (dom (d_nodes d) - seen d) \<le> depth"
  shows "\<exists>d'. DFSVisit depth (Some i) d = Inr d' \<and> dfs_frame d d' \<and> seen d \<subseteq> seen d'"
  using assms
proof (induction depth arbitrary: i d)
  case 0
  then have "visited (node_at d i)" by (auto simp: seen_def)
  then show ?case by simp
next
  case (Suc n)
  let ?m = "upd_node i (\<lambda>j. j\<lparr>visited := True\<rparr>) d"
  let ?cs = "sorted_list_of_set (queues (node_at d i) Q_CHILDREN)"
  note i = Suc.prems(3)
  note mark = seen_dfs_steps [OF i] and fr = dfs_frame_steps(1) [OF i]
  have cs: "set ?cs \<subseteq> dom (d_nodes d)"
    using Suc.prems(1) i by (auto simp: graph_ok_def symmetric_deps_def)
  have loop: "\<exists>d'. foldR (visit_child n) cs d1 = Inr d' \<and> dfs_frame d d' \<and> seen d1 \<subseteq> seen d'"
    if "set cs \<subseteq> dom (d_nodes d)" "dfs_frame d d1" "insert i (seen d) \<subseteq> seen d1" "i \<notin> seen d" for cs d1
    using that
  proof (induction cs arbitrary: d1)
    case (Cons c cs)
    have dom: "dom (d_nodes d1) = dom (d_nodes d)" and ok: "graph_ok d1"
      using Cons.prems(2) dfs_frame_graph Suc.prems(1) by (auto simp: dfs_frame_def)
    have "dom (d_nodes d1) - seen d1 \<subset> dom (d_nodes d) - seen d"
      using Cons.prems(3,4) i unfolding dom by blast
    then have "card (dom (d_nodes d1) - seen d1) < card (dom (d_nodes d) - seen d)"
      by (rule psubset_card_mono [rotated]) (use Suc.prems(2) in simp)
    then obtain d2 where d2: "DFSVisit n (Some c) d1 = Inr d2" "dfs_frame d1 d2" "seen d1 \<subseteq> seen d2"
      using Suc.IH [OF ok, of c] Suc.prems(2,4) Cons.prems(1) dom by auto
    obtain d3 where "foldR (visit_child n) cs d2 = Inr d3" "dfs_frame d d3" "seen d2 \<subseteq> seen d3"
      using Cons.IH [of d2] Cons.prems d2(2,3) dfs_frame_trans by (meson order_trans set_subset_Cons)
    then show ?case using visit_child_ok [OF ok, of c] Cons.prems(1) dom d2 by auto
  qed simp
  show ?case
  proof (cases "visited (node_at d i)")
    case False
    then have "i \<notin> seen d" by (simp add: seen_def)
    then obtain d1 where d1: "foldR (visit_child n) ?cs ?m = Inr d1" "dfs_frame d d1" "seen ?m \<subseteq> seen d1"
      using loop [of ?cs ?m] cs fr mark by auto
    have "i \<in> dom (d_nodes d1)" using d1(2) i by (simp add: dfs_frame_def)
    note parts = number_node_parts [OF this]
    have "DFSVisit (Suc n) (Some i) d = Inr (number_node i d1)"
      using False d1(1) by (simp add: number_node_def Let_def)
    then show ?thesis using parts(1,5) d1 mark(1) dfs_frame_trans by auto
  qed simp
qed

section \<open>The two loops of \<open>isCycle\<close>\<close>

lemma roots_return:
  assumes "graph_ok d" and "finite (dom (d_nodes d))" and "set xs \<subseteq> dom (d_nodes d)" and "card (dom (d_nodes d)) \<le> depth"
    and "dfs_frame d d1"
  shows "\<exists>d'. foldR (visit_root depth) xs d1 = Inr d' \<and> dfs_frame d d'"
  using assms(3,5)
proof (induction xs arbitrary: d1)
  case (Cons x xs)
  have dom: "dom (d_nodes d1) = dom (d_nodes d)" and ok: "graph_ok d1"
    using Cons.prems(2) dfs_frame_graph assms(1) by (auto simp: dfs_frame_def)
  have "card (dom (d_nodes d1) - seen d1) \<le> card (dom (d_nodes d))"
    unfolding dom by (rule card_mono) (use assms(2) in auto)
  then obtain d2 where "DFSVisit depth (Some x) d1 = Inr d2" "dfs_frame d1 d2"
    using DFSVisit_returns [OF ok, of x depth] assms(2,4) Cons.prems(1) dom by auto
  then have "\<exists>d2. visit_root depth x d1 = Inr d2 \<and> dfs_frame d d2"
    using Cons.prems(2) dfs_frame_trans by (auto simp: visit_root_def)
  with Cons show ?case by auto
qed simp

lemma roots_numbered:
  assumes "graph_ok d" and "acyclic (edges d)" and "finite (dom (d_nodes d))" and "set xs \<subseteq> dom (d_nodes d)"
    and "card (dom (d_nodes d)) \<le> depth" and "dfs_frame d d1" and "dfs_inv d1" and "seen d1 = numbered d1"
  shows "\<exists>d'. foldR (visit_root depth) xs d1 = Inr d' \<and> dfs_frame d d' \<and> dfs_inv d' \<and> numbered d1 \<subseteq> numbered d' \<and>
    {i \<in> set xs. queue_of d i Q_PARENTS = {}} \<subseteq> numbered d'"
  using assms(4,6-8)
proof (induction xs arbitrary: d1)
  case (Cons x xs)
  have dom: "dom (d_nodes d1) = dom (d_nodes d)" and ok: "graph_ok d1" and e: "edges d1 = edges d"
    using Cons.prems(2) dfs_frame_graph dfs_frame_edges assms(1) by (auto simp: dfs_frame_def)
  have "card (dom (d_nodes d1) - seen d1) \<le> card (dom (d_nodes d))"
    unfolding dom by (rule card_mono) (use assms(3) in auto)
  then obtain d2 where d2: "DFSVisit depth (Some x) d1 = Inr d2" "dfs_done d1 d2" "x \<in> numbered d2"
    using DFSVisit_done [OF ok, of x depth] assms(2,3,5) Cons.prems dom e by auto
  have "\<exists>d2. visit_root depth x d1 = Inr d2 \<and> dfs_frame d d2 \<and> dfs_inv d2 \<and> seen d2 = numbered d2 \<and>
      numbered d1 \<subseteq> numbered d2 \<and> (queue_of d x Q_PARENTS = {} \<longrightarrow> x \<in> numbered d2)"
  proof (cases "\<not> visited (node_at d1 x) \<and> card (queues (node_at d1 x) Q_PARENTS) = 0")
    case True
    have "seen d2 = numbered d2" using d2(2) Cons.prems(4) by (auto simp: dfs_done_def dfs_inv_def)
    with True d2 Cons.prems(2) dfs_frame_trans show ?thesis by (auto simp: visit_root_def dfs_done_def)
  next
    case False
    have "queues (node_at d1 x) = queues (node_at d x)" using Cons.prems(2) by (simp add: dfs_frame_def)
    with False have "queue_of d x Q_PARENTS = {} \<longrightarrow> x \<in> seen d1"
      using Cons.prems(1) dom by (auto simp: seen_def)
    moreover have "visit_root depth x d1 = Inr d1" using False by (auto simp: visit_root_def)
    ultimately show ?thesis using Cons.prems(2-4) by auto
  qed
  then obtain d2 where d2: "visit_root depth x d1 = Inr d2" "dfs_frame d d2" "dfs_inv d2" "seen d2 = numbered d2"
    "numbered d1 \<subseteq> numbered d2" "queue_of d x Q_PARENTS = {} \<longrightarrow> x \<in> numbered d2"
    by blast
  obtain d3 where d3: "foldR (visit_root depth) xs d2 = Inr d3" "dfs_frame d d3" "dfs_inv d3" "numbered d2 \<subseteq> numbered d3"
    "{i \<in> set xs. queue_of d i Q_PARENTS = {}} \<subseteq> numbered d3"
    using Cons.IH [OF _ d2(2-4)] Cons.prems(1) by auto
  then have "{i \<in> set (x # xs). queue_of d i Q_PARENTS = {}} \<subseteq> numbered d3" using d2(6) by auto
  moreover have "numbered d1 \<subseteq> numbered d3" using d2(5) d3(4) by blast
  moreover have "foldR (visit_root depth) (x # xs) d1 = Inr d3" using d2(1) d3(1) by simp
  ultimately show ?case using d3(2,3) by blast
qed simp

lemma compare_children:
  assumes "store_ok d" and "set cs \<subseteq> dom (d_nodes d)"
  shows "foldR (compare_child d i) cs b = Inr (b \<or> (\<exists>c \<in> set cs. order_of d i \<le> order_of d c))"
  using assms(2)
proof (induction cs arbitrary: b)
  case (Cons c cs)
  then have "compare_child d i c b = Inr (if order_of d i \<le> order_of d c then True else b)"
    using FindNodeByNodeID_ok [OF assms(1), of c] by (auto simp: compare_child_def)
  with Cons show ?case by auto
qed simp

lemma compare_all:
  assumes "graph_ok d" and "set xs \<subseteq> dom (d_nodes d)"
  shows "foldR (\<lambda>i. foldR (compare_child d i) (sorted_list_of_set (queue_of d i Q_CHILDREN))) xs b =
    Inr (b \<or> (\<exists>i \<in> set xs. \<exists>c \<in> queue_of d i Q_CHILDREN. order_of d i \<le> order_of d c))"
  using assms(2)
proof (induction xs arbitrary: b)
  case (Cons x xs)
  have "finite (queue_of d x Q_CHILDREN)" "queue_of d x Q_CHILDREN \<subseteq> dom (d_nodes d)"
    using assms(1) Cons.prems by (auto simp: graph_ok_def symmetric_deps_def)
  then have "foldR (compare_child d x) (sorted_list_of_set (queue_of d x Q_CHILDREN)) b =
      Inr (b \<or> (\<exists>c \<in> queue_of d x Q_CHILDREN. order_of d x \<le> order_of d c))"
    using compare_children [of d "sorted_list_of_set (queue_of d x Q_CHILDREN)" x b] assms(1)
    by (simp add: graph_ok_def)
  with Cons show ?case by auto
qed simp

text \<open>In a finite graph without cycles every node has a root above it.\<close>

lemma closed_from_roots:
  assumes "finite (dom (d_nodes d))" and "symmetric_deps d" and "acyclic (edges d)"
    and "{i \<in> dom (d_nodes d). queue_of d i Q_PARENTS = {}} \<subseteq> N" and "\<forall>p c. (p, c) \<in> edges d \<and> p \<in> N \<longrightarrow> c \<in> N"
  shows "dom (d_nodes d) \<subseteq> N"
proof
  have "edges d \<subseteq> dom (d_nodes d) \<times> dom (d_nodes d)"
    using child_of [OF assms(2)] by (auto simp: edges_def)
  then have "finite (edges d)" using assms(1) by (meson finite_SigmaI finite_subset)
  then have "wf (edges d)" by (rule finite_acyclic_wf [OF _ assms(3)])
  fix i assume "i \<in> dom (d_nodes d)"
  with \<open>wf (edges d)\<close> show "i \<in> N"
  proof (induction i rule: wf_induct_rule)
    case (less i)
    show ?case
    proof (cases "queue_of d i Q_PARENTS = {}")
      case False
      then obtain p where p: "p \<in> queue_of d i Q_PARENTS" by blast
      then have "p \<in> dom (d_nodes d)" "(p, i) \<in> edges d"
        using assms(2) less.prems unfolding symmetric_deps_def edges_def by blast+
      with less assms(5) show ?thesis by blast
    qed (use less.prems assms(4) in blast)
  qed
qed

section \<open>Properties\<close>

definition fresh_marks :: "Dag \<Rightarrow> bool" where
  "fresh_marks d \<longleftrightarrow> set (d_jobs d) = dom (d_nodes d) \<and>
     (\<forall>i \<in> dom (d_nodes d). \<not> visited (node_at d i) \<and> dfsOrder (node_at d i) = -1)"

lemma fresh_marks_start:
  assumes "fresh_marks d" and "graph_ok d"
  shows "dfs_frame d (d\<lparr>d_DFS_ORDER := 0\<rparr>)" "dfs_inv (d\<lparr>d_DFS_ORDER := 0\<rparr>)"
    "seen (d\<lparr>d_DFS_ORDER := 0\<rparr>) = numbered (d\<lparr>d_DFS_ORDER := 0\<rparr>)" "numbered (d\<lparr>d_DFS_ORDER := 0\<rparr>) = {}"
proof -
  have n: "node_at (d\<lparr>d_DFS_ORDER := m\<rparr>) k = node_at d k" for m k by (simp add: node_at_def)
  show "dfs_frame d (d\<lparr>d_DFS_ORDER := 0\<rparr>)" by (simp add: dfs_frame_def n)
  show e: "numbered (d\<lparr>d_DFS_ORDER := 0\<rparr>) = {}" "seen (d\<lparr>d_DFS_ORDER := 0\<rparr>) = numbered (d\<lparr>d_DFS_ORDER := 0\<rparr>)"
    using assms(1) by (auto simp: numbered_def seen_def fresh_marks_def n)
  then show "dfs_inv (d\<lparr>d_DFS_ORDER := 0\<rparr>)" by (simp add: dfs_inv_def)
qed

text \<open>
  C11: Cycle detection always ends, on every consistent graph whose nodes were not marked
  before, and reports a cycle if and only if the graph has one. The depth of the recursion
  never exceeds the number of nodes.
\<close>

theorem isCycle_correct:
  assumes "graph_ok d" and "fresh_marks d"
  shows "\<exists>d'. isCycle d = Inr (\<not> acyclic (edges d), d') \<and> graph_ok d' \<and> edges d' = edges d"
proof -
  let ?n = "Suc (length (d_jobs d))" and ?d0 = "d\<lparr>d_DFS_ORDER := 0\<rparr>"
  note start = fresh_marks_start [OF assms(2,1)]
  have jobs: "set (d_jobs d) = dom (d_nodes d)" using assms(2) by (simp add: fresh_marks_def)
  then have fin: "finite (dom (d_nodes d))" by (metis List.finite_set)
  have "card (dom (d_nodes d)) \<le> ?n" using card_length [of "d_jobs d"] by (simp add: jobs)
  note ret = roots_return [OF assms(1) fin _ this start(1), of "d_jobs d"]
    and num = roots_numbered [OF assms(1) _ fin _ this start(1-3), of "d_jobs d"]
  obtain d1 where d1: "foldR (visit_root ?n) (d_jobs d) ?d0 = Inr d1" "dfs_frame d d1" using ret jobs by auto
  have ok: "graph_ok d1" and e: "edges d1 = edges d" and fr: "d_jobs d1 = d_jobs d" "dom (d_nodes d1) = dom (d_nodes d)"
    using d1(2) dfs_frame_graph assms(1) dfs_frame_edges by (auto simp: dfs_frame_def)
  have "isCycle d = Inr (\<exists>i \<in> set (d_jobs d1). \<exists>c \<in> queue_of d1 i Q_CHILDREN. order_of d1 i \<le> order_of d1 c, d1)"
    using d1(1) compare_all [OF ok, of "d_jobs d1" False] fr jobs by (simp add: isCycle_def Let_def)
  also have "(\<exists>i \<in> set (d_jobs d1). \<exists>c \<in> queue_of d1 i Q_CHILDREN. order_of d1 i \<le> order_of d1 c) \<longleftrightarrow>
      (\<exists>(p, c) \<in> edges d. order_of d1 p \<le> order_of d1 c)"
    unfolding e [symmetric] using fr jobs by (auto simp: edges_def)
  also have "\<dots> \<longleftrightarrow> \<not> acyclic (edges d)"
  proof
    assume cyc: "\<not> acyclic (edges d)"
    show "\<exists>(p, c) \<in> edges d. order_of d1 p \<le> order_of d1 c"
    proof (rule ccontr)
      assume none: "\<not> (\<exists>(p, c) \<in> edges d. order_of d1 p \<le> order_of d1 c)"
      have "acyclic (edges d)"
        by (rule acyclicI_order [of _ "order_of d1"]) (use none in \<open>fastforce simp: not_le\<close>)
      with cyc show False ..
    qed
  next
    assume bad: "\<exists>(p, c) \<in> edges d. order_of d1 p \<le> order_of d1 c"
    show "\<not> acyclic (edges d)"
    proof
      assume ac: "acyclic (edges d)"
      have inv: "dfs_inv d1" "{i \<in> set (d_jobs d). queue_of d i Q_PARENTS = {}} \<subseteq> numbered d1"
        using num [OF ac] d1(1) jobs by auto
      have "dom (d_nodes d) \<subseteq> numbered d1"
        using inv jobs assms(1) e
        by (intro closed_from_roots [OF fin _ ac]) (auto simp: graph_ok_def dfs_inv_def)
      moreover have "edges d \<subseteq> dom (d_nodes d) \<times> UNIV" by (auto simp: edges_def)
      ultimately have "order_of d1 c < order_of d1 p" if "(p, c) \<in> edges d" for p c
        using inv(1) that unfolding dfs_inv_def e by blast
      with bad show False by force
    qed
  qed
  finally show ?thesis using ok e by blast
qed

lemma chain_nodes_fresh: "fresh_marks chain_nodes"
proof -
  have m: "may_add two_nodes 0 1" by (simp add: may_add_def two_nodes_parts new_job_def)
  have dm: "0 \<in> dom (d_nodes two_nodes)" "1 \<in> dom (d_nodes two_nodes)" by (simp_all add: two_nodes_parts)
  obtain d' where d': "AddDependency (Some 0) (Some 1) two_nodes = Inr (True, d')" "dom (d_nodes d') = dom (d_nodes two_nodes)"
    "\<And>i. node_at d' i = (node_at two_nodes i)\<lparr>queues := with_edge two_nodes 0 1 i\<rparr>"
    "d_jobs d' = d_jobs two_nodes" "d_nodeIDHash d' = d_nodeIDHash two_nodes" "d_nodeNameHash d' = d_nodeNameHash two_nodes"
    using AddDependency_added [OF two_nodes_ok dm m] by metis
  have "chain_nodes = d'" by (simp add: chain_nodes_def d'(1))
  with d' show ?thesis by (auto simp: fresh_marks_def two_nodes_parts new_job_def)
qed

theorem isCycle_correct_witness:
  "graph_ok chain_nodes \<and> fresh_marks chain_nodes \<and> (\<exists>d'. isCycle chain_nodes = Inr (False, d'))"
proof -
  have "acyclic (edges chain_nodes)" unfolding chain_nodes_ok(2)
    by (rule acyclicI_order [of _ "\<lambda>i. - i"]) simp
  then show ?thesis
    using isCycle_correct [OF chain_nodes_ok(1) chain_nodes_fresh] chain_nodes_ok(1) chain_nodes_fresh by auto
qed

end
