(* ===== verification/Dag_Main.thy ===== *)
theory Dag_Main
  imports Dag_Rescue Dag_Cycle
begin

text \<open>
  The process around the DAG (\<open>condor_dagman/dagman_main.cpp\<close>): the end of \<open>main_init\<close>, which starts
  the DAG, the timer handler \<open>condor_event_timer\<close>, which drives it, the handlers that stop it, and
  \<open>PauseDag\<close> and \<open>ResumeDag\<close> (\<open>dagman_commands.cpp\<close>).

  \<open>DC_Exit\<close> ends the process: the state at that moment is kept in \<open>Exited\<close>. A handler deep in
  the engine that calls \<open>main_shutdown_rescue\<close> or \<open>DC_Exit\<close> itself returns the exception
  \<open>Shutdown_Rescue\<close> or \<open>DC_Exit\<close> of the engine. The node status file, the jobstate log, the dot
  file and the debug output are not modelled.
\<close>

datatype run_state = Running Dag | Exited int Dag

definition EXIT_OKAY :: int where "EXIT_OKAY = 0"
definition EXIT_ABORT :: int where "EXIT_ABORT = 2"
definition EXIT_RESTART :: int where "EXIT_RESTART = 3"

section \<open>Stopping\<close>

definition NumScriptsRunning :: "Dag \<Rightarrow> int res" where
  "NumScriptsRunning d =
     (if d_isSplice d then Inl (ASSERT ''_isSplice == false'')
      else Inr (sq_numScriptsRunning (d_preScriptQ d) + sq_numScriptsRunning (d_postScriptQ d)))"

definition write_any_rescue :: "env \<Rightarrow> Dagman \<Rightarrow> int \<Rightarrow> Dag \<Rightarrow> Dag res" where
  "write_any_rescue e dm exitVal d =
     (if exitVal \<noteq> 0 then
        (case dm_rescueFileToWrite dm of
           Some f \<Rightarrow> WriteRescue e f (dm_primaryDagFile dm) False d
         | None \<Rightarrow>
             if dm_maxRescueDagNum dm > 0
             then Rescue e (dm_primaryDagFile dm) (dm_multiDags dm) (dm_maxRescueDagNum dm) False d
             else Inr d)
      else Inr d)"

definition main_shutdown_rescue :: "env \<Rightarrow> Dagman \<Rightarrow> int \<Rightarrow> Dag \<Rightarrow> run_state res" where
  "main_shutdown_rescue e dm exitVal d =
     bindR (write_any_rescue e dm exitVal d) (\<lambda>d.
       let d = (if d_numJobsSubmitted d > 0 then RemoveRunningJobs dm d else d) in
       bindR (NumScriptsRunning d) (\<lambda>running.
       bindR (if running > 0 then RemoveRunningScripts d else Inr d) (\<lambda>d.
         Inr (Exited exitVal (act A_unlink_lock d)))))"

definition main_shutdown_remove :: "env \<Rightarrow> Dagman \<Rightarrow> Dag \<Rightarrow> run_state res" where
  "main_shutdown_remove e dm d = main_shutdown_rescue e dm EXIT_ABORT d"

definition main_shutdown_graceful :: "Dag \<Rightarrow> run_state" where
  "main_shutdown_graceful d = Exited EXIT_RESTART d"

definition main_shutdown_fast :: "Dag \<Rightarrow> run_state" where
  "main_shutdown_fast d = Exited EXIT_RESTART d"

definition ExitSuccess :: "Dag \<Rightarrow> run_state" where
  "ExitSuccess d = Exited EXIT_OKAY (act A_unlink_lock d)"

section \<open>Pausing\<close>

definition PauseDag :: "Dagman \<Rightarrow> bool \<times> Dagman" where
  "PauseDag dm = (if dm_paused dm then (False, dm) else (True, dm\<lparr>dm_paused := True\<rparr>))"

definition ResumeDag :: "Dagman \<Rightarrow> bool \<times> Dagman" where
  "ResumeDag dm = (if \<not> dm_paused dm then (False, dm) else (True, dm\<lparr>dm_paused := False\<rparr>))"

section \<open>The timer\<close>

definition DetectLogGrowth :: "env \<Rightarrow> Dag \<Rightarrow> bool \<times> Dag" where
  "DetectLogGrowth e d =
     (case ask (e_logFileCount e) d of (nlogs, d) \<Rightarrow>
        if nlogs \<le> 0 then (False, d) else ask (e_log_grown e) d)"

definition scan_log :: "env \<Rightarrow> job_type_t \<Rightarrow> Dag \<Rightarrow> (bool \<times> Dag) res option" where
  "scan_log e logsource d =
     (case DetectLogGrowth e d of (grown, d) \<Rightarrow>
        if grown then ProcessLogEvents e logsource False True d else Some (Inr (True, d)))"

definition finish_cycle :: "env \<Rightarrow> Dagman \<Rightarrow> Dag \<Rightarrow> run_state res" where
  "finish_cycle e dm d =
     (if \<not> d_numNodesDone d + d_numNodesFailed d \<le> NumNodes d
      then Inl (ASSERT ''NumNodesDone() + NumNodesFailed() <= NumNodes()'')
      else if DoneSuccess d then
        if d_numJobsSubmitted d \<noteq> 0 then Inl (ASSERT ''NumJobsSubmitted() == 0'')
        else bindR (CheckAllJobs_dag d) (\<lambda>d. Inr (ExitSuccess d))
      else if FinishedRunning d then
        bindR (if DoneFailed d then Inr d else bindR (isCycle d) (\<lambda>(cycle, d). Inr d)) (main_shutdown_rescue e dm EXIT_ERROR)
      else Inr (Running d))"

definition condor_event_timer :: "env \<Rightarrow> Dagman \<Rightarrow> Dag \<Rightarrow> run_state res option" where
  "condor_event_timer e dm d =
     (if dm_paused dm then Some (Inr (Running d))
      else
        bindO (SubmitReadyJobs e dm d) (\<lambda>(justSubmitted, d).
        bindO (scan_log e TYPE_CONDOR d) (\<lambda>(ok, d).
          if \<not> ok then Some (main_shutdown_rescue e dm EXIT_ERROR d)
          else bindO (scan_log e TYPE_STORK d) (\<lambda>(ok, d).
            if \<not> ok then Some (main_shutdown_rescue e dm EXIT_ERROR d)
            else Some (finish_cycle e dm d)))))"

section \<open>Starting\<close>

text \<open>The part of \<open>main_init\<close> after the DAG files have been parsed.\<close>

definition start_dag :: "env \<Rightarrow> Dagman \<Rightarrow> Dag \<Rightarrow> run_state res option" where
  "start_dag e dm d =
     bindO (Some (if dm_startup_cycle_detect dm then isCycle d else Inr (False, d))) (\<lambda>(cycle, d).
       if cycle then Some (Inl (DC_Exit 1))
       else if d_reject d then Some (Inr (Exited EXIT_ERROR d))
       else if dm_dumpRescueDag dm then
         Some (bindR (Rescue e (dm_primaryDagFile dm) (dm_multiDags dm) (dm_maxRescueDagNum dm) False d) (\<lambda>d. Inr (ExitSuccess d)))
       else
         (case ask (e_access e) d of (exists, d) \<Rightarrow>
            let recovery = exists (dm_lockFileName dm);
                (in_use, d) = (if recovery \<and> dm_abortDuplicates dm then ask (e_lock_in_use e) d else (False, d))
            in if in_use then Some (Inr (Exited EXIT_ERROR d))
               else
                 bindO (Bootstrap e recovery (act A_create_lock d)) (\<lambda>(ok, d).
                   if \<not> ok then Some (Inl (DC_Exit 1)) else Some (Inr (Running d)))))"

end
