(* ===== verification/Dag_System.thy ===== *)
theory Dag_System
  imports Dag_Boot Dag_Main
begin

text \<open>
  The whole process as a transition system: DAGMan is started on a parsed DAG, then the timer
  fires, scripts end, and signals arrive, in any order. The invariant of \<open>Dag_Run\<close> holds in every
  reachable state, whatever the outside world answers; the properties follow from it.
\<close>

section \<open>Invariants that do not depend on the marks of cycle detection\<close>

locale mark_invariant =
  fixes I :: "Dag \<Rightarrow> bool"
  assumes store: "I d \<Longrightarrow> store_ok d"
    and mark: "I d \<Longrightarrow> i \<in> dom (d_nodes d) \<Longrightarrow> I (upd_node i (\<lambda>j. j\<lparr>visited := b\<rparr>) d)"
    and number: "I d \<Longrightarrow> i \<in> dom (d_nodes d) \<Longrightarrow> I (upd_node i (\<lambda>j. j\<lparr>dfsOrder := n\<rparr>) d)"
    and order: "I d \<Longrightarrow> I (d\<lparr>d_DFS_ORDER := n\<rparr>)"
begin

definition same_dom :: "Dag \<Rightarrow> Dag \<Rightarrow> bool" where
  "same_dom d d' \<longleftrightarrow> I d' \<and> dom (d_nodes d') = dom (d_nodes d)"

lemma DFSVisit_keeps:
  "I d \<Longrightarrow> (\<And>i. p = Some i \<Longrightarrow> i \<in> dom (d_nodes d)) \<Longrightarrow> ensures (same_dom d) (DFSVisit depth p d)"
proof (induction depth p d rule: DFSVisit.induct)
  case (3 depth i d)
  let ?visit = "\<lambda>c d. bindR (FindNodeByNodeID c d) (\<lambda>child. DFSVisit depth child d)"
  let ?d1 = "upd_node i (\<lambda>j. j\<lparr>visited := True\<rparr>) d"
  have i: "i \<in> dom (d_nodes d)" using 3 by simp
  show ?case
  proof (cases "visited (node_at d i)")
    case True
    then show ?thesis using 3 by (simp add: same_dom_def)
  next
    case False
    have visit: "ensures (same_dom d) (?visit c d2)" if "same_dom d d2" for c d2
    proof -
      have st: "store_ok d2" and I: "I d2" using that store by (simp_all add: same_dom_def)
      have ih: "ensures (same_dom d2) (DFSVisit depth q d2)" if "\<And>k. q = Some k \<Longrightarrow> k \<in> dom (d_nodes d2)" for q
        by (rule "3.IH" [OF False I that])
      have "ensures (same_dom d2) (?visit c d2)" using ih [of "Some c"] I by (simp add: FindNodeByNodeID_ok [OF st] same_dom_def [of d2 d2])
      then show ?thesis using that by (auto simp: ensures_def same_dom_def)
    qed
    have "same_dom d ?d1" using mark [OF "3.prems"(1) i] i by (simp add: same_dom_def)
    then have "ensures (same_dom d) (foldR ?visit (sorted_list_of_set (queues (node_at d i) Q_CHILDREN)) ?d1)"
      using visit by (rule ensures_foldR)
    then have "ensures (same_dom d) (bindR (foldR ?visit (sorted_list_of_set (queues (node_at d i) Q_CHILDREN)) ?d1)
        (\<lambda>d. Inr (upd_node i (\<lambda>j. j\<lparr>dfsOrder := d_DFS_ORDER d + 1\<rparr>) (d\<lparr>d_DFS_ORDER := d_DFS_ORDER d + 1\<rparr>))))"
      by (rule ensures_bind) (use i number order in \<open>simp add: same_dom_def\<close>)
    then show ?thesis using False by simp
  qed
qed (simp_all add: same_dom_def)

lemma isCycle_keeps:
  assumes "I d"
  shows "ensures (\<lambda>(_, d'). I d') (isCycle d)"
proof -
  let ?d0 = "d\<lparr>d_DFS_ORDER := 0\<rparr>"
  have jobs: "set (d_jobs d) \<subseteq> dom (d_nodes d)" using store [OF assms] by (simp add: store_ok_def)
  have "ensures (same_dom d) (foldR (visit_root n) is d1)" if "set is \<subseteq> dom (d_nodes d)" "same_dom d d1" for n "is" d1
    using that
  proof (induction "is" arbitrary: d1)
    case (Cons i "is")
    have "ensures (same_dom d1) (visit_root n i d1)"
      unfolding visit_root_def using Cons.prems DFSVisit_keeps [of d1 "Some i" n] by (auto simp: same_dom_def simp del: domIff)
    then have "ensures (same_dom d) (visit_root n i d1)" using Cons.prems(2) by (auto simp: ensures_def same_dom_def)
    then show ?case using Cons by (auto intro: ensures_bind)
  qed simp
  from this [OF jobs, of ?d0] have "ensures (same_dom d) (foldR (visit_root (Suc (length (d_jobs d)))) (d_jobs d) ?d0)"
    using order [OF assms] by (simp add: same_dom_def)
  then show ?thesis unfolding isCycle_def Let_def
    by (rule ensures_bind) (auto simp: ensures_def same_dom_def)
qed

end

lemma same_links_marks [simp]: "same_links j (j\<lparr>visited := b\<rparr>)" "same_links j (j\<lparr>dfsOrder := n\<rparr>)"
  by (simp_all add: same_links_def)

lemma run_from_order: "run_from g (d\<lparr>d_DFS_ORDER := n\<rparr>) = run_from g d"
proof -
  have n: "node_at (d\<lparr>d_DFS_ORDER := n\<rparr>) = node_at d" by (simp add: node_at_def fun_eq_iff)
  show ?thesis by (simp add: run_defs n)
qed

interpretation run_marks: mark_invariant "run_from g" for g
  by unfold_locales (auto simp: run_from_order run_from_upd_node simp del: domIff)

lemma grows_upd:
  assumes "grows g d" and "i \<in> dom (d_nodes d)" and "same_links (node_at d i) (f (node_at d i))"
  shows "grows g (upd_node i f d)"
proof -
  have "node_kept (node_at g k) (node_at (upd_node i f d) k)" if "k \<in> dom (d_nodes g)" for k
  proof -
    have "node_kept (node_at g k) (node_at d k)" using assms(1) that by (simp add: grows_def)
    then show ?thesis using assms(3) by (auto simp: node_kept_def same_links_def)
  qed
  moreover have "dom (d_nodes (upd_node i f d)) = dom (d_nodes g)" using assms(1,2) by (simp add: grows_def)
  moreover have "d_maxPreScripts (upd_node i f d) = d_maxPreScripts d" "d_maxPostScripts (upd_node i f d) = d_maxPostScripts d"
    by (simp_all add: upd_node_def set_node_def)
  ultimately show ?thesis using assms(1) unfolding grows_def by simp
qed

lemma fresh_ok_upd:
  assumes "fresh_ok d" and "i \<in> dom (d_nodes d)" and "same_links (node_at d i) (f (node_at d i))"
    and "Status (f (node_at d i)) = status_of d i"
  shows "fresh_ok (upd_node i f d)"
proof -
  let ?d = "upd_node i f d"
  have s: "same_links (node_at d k) (node_at ?d k) \<and> status_of ?d k = status_of d k" for k
    using assms(3,4) by (auto simp: same_links_def)
  then have f: "jobID (node_at ?d k) = jobID (node_at d k)" "jobName (node_at ?d k) = jobName (node_at d k)"
    "queues (node_at ?d k) = queues (node_at d k)" "Status (node_at ?d k) = Status (node_at d k)"
    "countedAsDone (node_at ?d k) = countedAsDone (node_at d k)" for k
    by (simp_all only: same_links_def)
  have dm: "dom (d_nodes ?d) = dom (d_nodes d)" using assms(2) by simp
  have t: "d_jobs ?d = d_jobs d" "d_nodeIDHash ?d = d_nodeIDHash d" "d_nodeNameHash ?d = d_nodeNameHash d"
    "d_readyQ ?d = d_readyQ d" "d_condorIDHash ?d = d_condorIDHash d" "d_storkIDHash ?d = d_storkIDHash d"
    "d_noopIDHash ?d = d_noopIDHash d" "d_preScriptQ ?d = d_preScriptQ d" "d_postScriptQ ?d = d_postScriptQ d"
    "d_submitQ ?d = d_submitQ d" "d_numNodesDone ?d = d_numNodesDone d"
    by (simp_all add: upd_node_def set_node_def)
  have "graph_ok ?d \<longleftrightarrow> graph_ok d"
    unfolding graph_ok_def store_ok_def symmetric_deps_def waiting_ok_def f dm t ..
  then have "graph_ok ?d" using assms(1) by (simp add: fresh_ok_def)
  moreover have "retries (node_at ?d k) \<le> retry_max (node_at ?d k)" if "k \<in> dom (d_nodes d)" for k
    using s [of k] assms(1) that by (auto simp: same_links_def fresh_ok_def)
  moreover have "trace_ok ?d" by (rule trace_ok_mono [of d]) (use assms(1) dm f in \<open>simp_all add: fresh_ok_def\<close>)
  moreover have "\<not> countedAsDone (node_at ?d k)" if "k \<in> dom (d_nodes d)" for k
    unfolding f(5) using assms(1) that by (simp add: fresh_ok_def)
  ultimately show ?thesis using assms(1) unfolding fresh_ok_def dm t by (intro conjI ballI) simp_all
qed

lemma fresh_ok_store: "fresh_ok d \<Longrightarrow> store_ok d"
  by (simp add: fresh_ok_def graph_ok_def)

lemma fresh_ok_order: "fresh_ok (d\<lparr>d_DFS_ORDER := n\<rparr>) = fresh_ok d" "grows g (d\<lparr>d_DFS_ORDER := n\<rparr>) = grows g d"
proof -
  have n: "node_at (d\<lparr>d_DFS_ORDER := n\<rparr>) = node_at d" by (simp add: node_at_def fun_eq_iff)
  show "fresh_ok (d\<lparr>d_DFS_ORDER := n\<rparr>) = fresh_ok d" "grows g (d\<lparr>d_DFS_ORDER := n\<rparr>) = grows g d"
    by (simp_all add: fresh_ok_def graph_ok_def store_ok_def symmetric_deps_def waiting_ok_def trace_ok_def grows_def n)
qed

interpretation fresh_marks: mark_invariant "\<lambda>d. fresh_ok d \<and> grows g d" for g
  by unfold_locales
    (auto simp: fresh_ok_order fresh_ok_upd grows_upd fresh_ok_store simp del: domIff)

section \<open>Stopping keeps the invariant\<close>

lemma act_run: "run_from g d \<Longrightarrow> (\<And>m. act_ok m a) \<Longrightarrow> run_from g (act a d)"
  by simp

lemma ask_run: "run_from g d \<Longrightarrow> ask q d = (a, d') \<Longrightarrow> run_from g d'"
  using run_from_ask [of g d q a d'] by simp

lemma run_from_later [simp]: "run_from g d \<Longrightarrow> d_tick d \<le> k \<Longrightarrow> run_from g (d\<lparr>d_tick := k\<rparr>)"
  by (simp add: run_from_def grows_def)

lemma WriteRescue_run: "run_from g d \<Longrightarrow> ensures (run_from g) (WriteRescue e f df pf d)"
  unfolding WriteRescue_def ask_def prod.case
  by (intro ensures_if ensures_bind [where Q = "\<lambda>_. True"]) (simp_all add: ensures_def [of "\<lambda>_. True"])

lemma FindLastRescueDagNum_run:
  assumes "run_from g d"
  shows "ensures (\<lambda>(_, d'). run_from g d') (FindLastRescueDagNum e f m mx d)"
  unfolding FindLastRescueDagNum_def
proof (rule ensures_foldR)
  fix t and s :: "int \<times> Dag" assume "case s of (_, d') \<Rightarrow> run_from g d'"
  then show "ensures (\<lambda>(_, d'). run_from g d') (find_last_body e f m t s)"
    unfolding find_last_body_def ask_def
    by (cases s) (auto intro!: ensures_bind [where Q = "\<lambda>_. True"] simp: ensures_def [of "\<lambda>_. True"])
qed (use assms in simp)

lemma Rescue_run:
  assumes "run_from g d"
  shows "ensures (run_from g) (Rescue e f m mx pf d)"
  unfolding Rescue_def Let_def
proof (rule ensures_if)
  assume "\<not> pf"
  show "ensures (run_from g) (bindR (FindLastRescueDagNum e f m mx d) (\<lambda>(l, d).
      bindR (RescueDagName f m (if l + 1 > mx then mx else l + 1)) (\<lambda>n. WriteRescue e n f pf d)))"
    by (rule ensures_bind [OF FindLastRescueDagNum_run [OF assms]])
      (auto intro!: ensures_bind [where Q = "\<lambda>_. True"] WriteRescue_run simp: ensures_def [of "\<lambda>_. True"])
qed (rule WriteRescue_run [OF assms])

lemma RemoveRunningJobs_run: "run_from g d \<Longrightarrow> run_from g (RemoveRunningJobs dm d)"
proof -
  assume d: "run_from g d"
  have "run_from g (fold remove_stork is d1)" if "run_from g d1" for "is" d1
    using that by (induction "is" arbitrary: d1) (simp_all add: remove_stork_def Let_def)
  then show ?thesis using d by (simp add: RemoveRunningJobs_def Let_def)
qed

lemma RemoveRunningScripts_run: "run_from g d \<Longrightarrow> ensures (run_from g) (RemoveRunningScripts d)"
  unfolding RemoveRunningScripts_def
  by (erule ensures_foldR) (simp add: kill_script_def Let_def split: option.splits)

lemma main_shutdown_rescue_run:
  assumes "run_from g d"
  shows "ensures (\<lambda>s. \<exists>d'. s = Exited v d' \<and> run_from g d') (main_shutdown_rescue e dm v d)"
proof -
  have w: "ensures (run_from g) (write_any_rescue e dm v d)"
    unfolding write_any_rescue_def
    by (intro ensures_if) (use assms in \<open>simp_all add: WriteRescue_run Rescue_run split: option.splits\<close>)
  show ?thesis unfolding main_shutdown_rescue_def Let_def
    by (rule ensures_bind [OF w], rule ensures_bind [where Q = "\<lambda>_. True"], simp add: ensures_def,
        rule ensures_bind [where Q = "run_from g"])
      (simp_all add: RemoveRunningScripts_run RemoveRunningJobs_run)
qed

lemma CheckAllJobs_dag_run: "run_from g d \<Longrightarrow> ensures (run_from g) (CheckAllJobs_dag d)"
  by (auto simp: CheckAllJobs_dag_def Let_def split: prod.splits)

section \<open>The timer keeps the invariant\<close>

primrec dag_of :: "run_state \<Rightarrow> Dag" where
  "dag_of (Running d) = d"
| "dag_of (Exited v d) = d"

definition DoneSuccess_end :: "Dag \<Rightarrow> bool" where
  "DoneSuccess_end d \<longleftrightarrow> DoneSuccess d \<and> d_numJobsSubmitted d = 0"

text \<open>What every state after the start satisfies; an exit with \<open>EXIT_OKAY\<close> means that all is done.\<close>

definition good_state :: "Dag \<Rightarrow> run_state \<Rightarrow> bool" where
  "good_state g s \<longleftrightarrow> run_from g (dag_of s) \<and> (\<forall>d. s = Exited EXIT_OKAY d \<longrightarrow> DoneSuccess_end d)"

lemma shutdown_good:
  assumes "run_from g d" and "v \<noteq> EXIT_OKAY"
  shows "ensures (good_state g) (main_shutdown_rescue e dm v d)"
  using main_shutdown_rescue_run [OF assms(1)] assms(2) by (fastforce simp: ensures_def good_state_def)

lemma CheckAllJobs_dag_counts:
  "CheckAllJobs_dag d = Inr d' \<Longrightarrow> d_numNodesDone d' = d_numNodesDone d \<and> d_numJobsSubmitted d' = d_numJobsSubmitted d \<and> d_jobs d' = d_jobs d"
  by (auto simp: CheckAllJobs_dag_def Let_def split: prod.splits if_splits)

lemma ExitSuccess_good:
  assumes "run_from g d \<and> DoneSuccess_end d"
  shows "good_state g (ExitSuccess d)"
proof -
  have "DoneSuccess_end (act A_unlink_lock d)"
    using assms by (simp add: DoneSuccess_end_def DoneSuccess_def NumNodes_def act_def)
  then show ?thesis using assms by (simp add: ExitSuccess_def good_state_def)
qed

lemma finish_cycle_good:
  assumes run: "run_from g d"
  shows "ensures (good_state g) (finish_cycle e dm d)"
proof -
  have ok: "ensures (good_state g) (bindR (CheckAllJobs_dag d) (\<lambda>d. Inr (ExitSuccess d)))"
    if "DoneSuccess d" "d_numJobsSubmitted d = 0"
  proof -
    have "ensures (\<lambda>d'. run_from g d' \<and> DoneSuccess_end d') (CheckAllJobs_dag d)"
      unfolding ensures_def
    proof (intro allI impI)
      fix x assume x: "CheckAllJobs_dag d = Inr x"
      show "run_from g x \<and> DoneSuccess_end x"
        using ensuresD [OF CheckAllJobs_dag_run [OF run] x] CheckAllJobs_dag_counts [OF x] that
        by (simp add: DoneSuccess_end_def DoneSuccess_def NumNodes_def)
    qed
    then show ?thesis
      by (rule ensures_bind) (simp add: ExitSuccess_good)
  qed
  have fail: "ensures (good_state g) (bindR (if DoneFailed d then Inr d else bindR (isCycle d) (\<lambda>(cycle, d). Inr d)) (main_shutdown_rescue e dm EXIT_ERROR))"
  proof (rule ensures_bind)
    have "ensures (run_from g) (bindR (isCycle d) (\<lambda>(cycle, d). Inr d))"
      by (rule ensures_bind [OF run_marks.isCycle_keeps [OF run]]) auto
    then show "ensures (run_from g) (if DoneFailed d then Inr d else bindR (isCycle d) (\<lambda>(cycle, d). Inr d))" using run by simp
    show "ensures (good_state g) (main_shutdown_rescue e dm EXIT_ERROR x)" if "run_from g x" for x
      by (rule shutdown_good [OF that]) (simp add: EXIT_ERROR_def EXIT_OKAY_def)
  qed
  show ?thesis unfolding finish_cycle_def
    by (intro ensures_if ok fail) (use run in \<open>simp_all add: good_state_def\<close>)
qed

lemma scan_log_keeps:
  assumes "run_from g d" and "scan_log e ls d = Some (Inr (ok, d'))"
  shows "run_from g d'"
proof -
  obtain b d1 where g: "DetectLogGrowth e d = (b, d1)" by (cases "DetectLogGrowth e d")
  have r: "run_from g d1" using g assms(1) by (auto simp: DetectLogGrowth_def ask_def split: if_splits)
  have "d' = d1 \<or> ProcessLogEvents e ls False True d1 = Some (Inr (ok, d'))"
    using assms(2) g by (auto simp: scan_log_def split: if_splits)
  then show ?thesis using r ProcessLogEvents_keeps [OF r] by blast
qed

lemma bindO_pairE:
  assumes "bindO r (\<lambda>(a, b). f a b) = Some (Inr y)"
  obtains a b where "r = Some (Inr (a, b))" "f a b = Some (Inr y)"
  using assms by (auto simp: bindO_def split: option.splits sum.splits)

lemma condor_event_timer_good:
  assumes run: "run_from g d" and res: "condor_event_timer e dm d = Some (Inr s)"
  shows "good_state g s"
proof (cases "dm_paused dm")
  case True
  then show ?thesis using run res by (auto simp: condor_event_timer_def good_state_def)
next
  case False
  let ?err = "main_shutdown_rescue e dm EXIT_ERROR"
  have err: "good_state g s" if "run_from g x" "?err x = Inr s" for x
    using ensuresD [OF shutdown_good [OF that(1)] that(2)] by (simp add: EXIT_ERROR_def EXIT_OKAY_def)
  obtain n d1 where d1: "SubmitReadyJobs e dm d = Some (Inr (n, d1))"
    and r1: "bindO (scan_log e TYPE_CONDOR d1) (\<lambda>(ok, d). if \<not> ok then Some (?err d)
      else bindO (scan_log e TYPE_STORK d) (\<lambda>(ok, d). if \<not> ok then Some (?err d) else Some (finish_cycle e dm d))) = Some (Inr s)"
    using res False unfolding condor_event_timer_def by (auto elim: bindO_pairE)
  note k1 = SubmitReadyJobs_keeps [OF run d1]
  from r1 obtain b2 d2 where d2: "scan_log e TYPE_CONDOR d1 = Some (Inr (b2, d2))"
    and r2: "(if \<not> b2 then Some (?err d2)
      else bindO (scan_log e TYPE_STORK d2) (\<lambda>(ok, d). if \<not> ok then Some (?err d) else Some (finish_cycle e dm d))) = Some (Inr s)"
    by (rule bindO_pairE)
  note k2 = scan_log_keeps [OF k1 d2]
  show ?thesis
  proof (cases b2)
    case True
    with r2 obtain b3 d3 where d3: "scan_log e TYPE_STORK d2 = Some (Inr (b3, d3))"
      and r3: "(if \<not> b3 then ?err d3 else finish_cycle e dm d3) = Inr s"
      by (auto elim: bindO_pairE split: if_splits)
    note k3 = scan_log_keeps [OF k2 d3]
    show ?thesis using r3 err [OF k3] ensuresD [OF finish_cycle_good [OF k3], of e dm s] by (simp split: if_splits)
  qed (use r2 err [OF k2] in simp)
qed

section \<open>The transition system\<close>

inductive step :: "env \<Rightarrow> Dagman \<Rightarrow> run_state \<Rightarrow> run_state \<Rightarrow> bool" for e dm where
  timer: "condor_event_timer e dm d = Some (Inr s) \<Longrightarrow> step e dm (Running d) s"
| reap: "ScriptReaper e post pid status d = Inr d' \<Longrightarrow> step e dm (Running d) (Running d')"
| remove: "main_shutdown_remove e dm d = Inr s \<Longrightarrow> step e dm (Running d) s"
| graceful: "step e dm (Running d) (main_shutdown_graceful d)"
| fast: "step e dm (Running d) (main_shutdown_fast d)"

inductive reach :: "env \<Rightarrow> Dagman \<Rightarrow> Dag \<Rightarrow> run_state \<Rightarrow> bool" for e dm d0 where
  start: "start_dag e dm d0 = Some (Inr (Running d)) \<Longrightarrow> reach e dm d0 (Running d)"
| step: "reach e dm d0 s \<Longrightarrow> step e dm s s' \<Longrightarrow> reach e dm d0 s'"

inductive_cases step_ExitedE: "step e dm (Exited v d) s"

inductive_simps step_Running: "step e dm (Running d) s"

lemma exited_stays: "\<not> step e dm (Exited v d) s"
  by (auto elim: step_ExitedE)

lemma step_good:
  assumes "run_from g d" and "step e dm (Running d) s"
  shows "good_state g s"
  using assms(2)
proof cases
  case timer
  then show ?thesis by (rule condor_event_timer_good [OF assms(1)])
next
  case (reap post pid status d')
  then show ?thesis using ScriptReaper_keeps [OF assms(1)] by (simp add: good_state_def)
next
  case remove
  then show ?thesis using ensuresD [OF shutdown_good [OF assms(1)], of EXIT_ABORT] unfolding main_shutdown_remove_def
    by (simp add: EXIT_ABORT_def EXIT_OKAY_def)
qed (use assms(1) in \<open>simp_all add: good_state_def main_shutdown_graceful_def main_shutdown_fast_def EXIT_RESTART_def EXIT_OKAY_def\<close>)

lemma fresh_ok_world: "fresh_ok d \<Longrightarrow> fresh_ok (d\<lparr>d_tick := k\<rparr>)" "fresh_ok d \<Longrightarrow> fresh_ok (act A_create_lock d)"
proof -
  have n: "node_at (d\<lparr>d_tick := k\<rparr>) = node_at d" "node_at (act A_create_lock d) = node_at d" by simp_all
  show "fresh_ok d \<Longrightarrow> fresh_ok (d\<lparr>d_tick := k\<rparr>)" "fresh_ok d \<Longrightarrow> fresh_ok (act A_create_lock d)"
    by (simp_all add: fresh_ok_def graph_ok_def store_ok_def symmetric_deps_def waiting_ok_def trace_ok_def n)
      (simp_all add: act_def)
qed

lemma grows_world: "grows g d \<Longrightarrow> d_tick d \<le> k \<Longrightarrow> grows g (d\<lparr>d_tick := k\<rparr>)" "grows g d \<Longrightarrow> grows g (act a d)"
  by (auto simp: grows_def act_def simp del: domIff)

lemma grows_refl: "grows d d"
  by (auto simp: grows_def node_kept_def)

lemma grows_run: "grows g d \<Longrightarrow> run_from d d' \<Longrightarrow> run_from g d'"
  unfolding run_from_def grows_def by (elim conjE exE) (simp, blast intro: node_kept_trans)

lemma start_dag_run:
  assumes fr: "fresh_ok d" and res: "start_dag e dm d = Some (Inr (Running d'))"
  shows "run_from d d'"
proof -
  from res obtain c d1 where d1: "(if dm_startup_cycle_detect dm then isCycle d else Inr (False, d)) = Inr (c, d1)"
    by (auto simp: start_dag_def elim!: bindO_InrE)
  have f1: "fresh_ok d1 \<and> grows d d1"
    using d1 fr grows_refl ensuresD [OF fresh_marks.isCycle_keeps [of d d], of "(c, d1)"] by (auto split: if_splits)
  obtain k ok rec where b: "Bootstrap e rec (act A_create_lock (d1\<lparr>d_tick := k\<rparr>)) = Some (Inr (ok, d'))" and k: "d_tick d1 \<le> k"
  proof -
    have "\<exists>k ok rec. d_tick d1 \<le> k \<and> Bootstrap e rec (act A_create_lock (d1\<lparr>d_tick := k\<rparr>)) = Some (Inr (ok, d'))"
    proof -
      obtain ex where ex: "ask (e_access e) d1 = (ex, d1\<lparr>d_tick := Suc (d_tick d1)\<rparr>)" by (simp add: ask_def)
      let ?rec = "ex (dm_lockFileName dm)"
      obtain u d2 where d2: "(if ?rec \<and> dm_abortDuplicates dm then ask (e_lock_in_use e) (d1\<lparr>d_tick := Suc (d_tick d1)\<rparr>)
          else (False, d1\<lparr>d_tick := Suc (d_tick d1)\<rparr>)) = (u, d2)" by fastforce
      then obtain k where k: "d2 = d1\<lparr>d_tick := k\<rparr>" "d_tick d1 \<le> k" by (auto simp: ask_def split: if_splits)
      have "\<exists>ok. Bootstrap e ?rec (act A_create_lock d2) = Some (Inr (ok, d'))"
        using res d1 ex d2 unfolding start_dag_def
        by (auto simp: bindO_def [of "Some _"] ExitSuccess_def Let_def split: if_splits elim!: bindO_InrE bindR_InrE)
      then show ?thesis using k by blast
    qed
    then show ?thesis using that by blast
  qed
  have "fresh_ok (act A_create_lock (d1\<lparr>d_tick := k\<rparr>))" using f1 fresh_ok_world by blast
  from Bootstrap_run [OF this b] show ?thesis using f1 k by (intro grows_run [OF _ \<open>run_from _ d'\<close>]) (simp add: grows_world)
qed

lemma reach_good:
  assumes "fresh_ok d0" and "reach e dm d0 s"
  shows "good_state d0 s"
  using assms(2)
proof induction
  case (start d)
  then show ?case using start_dag_run [OF assms(1)] by (simp add: good_state_def)
next
  case (step s s')
  then show ?case using step_good [of d0 "dag_of s" e dm s'] exited_stays by (cases s) (auto simp: good_state_def)
qed

lemma run_from_counts:
  assumes run: "run_from g d"
  shows "d_numNodesDone d = int (card {i \<in> dom (d_nodes g). countedAsDone (node_at d i)}) \<and>
    (DoneSuccess d \<longleftrightarrow> (\<forall>i \<in> dom (d_nodes g). countedAsDone (node_at d i)))"
proof -
  have c: "set (d_jobs d) = dom (d_nodes g)" "distinct (d_jobs d)"
    "d_numNodesDone d = int (card {i \<in> dom (d_nodes g). countedAsDone (node_at d i)})"
    using run run_from_dom [OF run] by (auto simp: run_from_def run_ok_def counts_ok_def store_ok_def simp del: domIff)
  have fin: "finite (dom (d_nodes g))" using c(1) by (metis List.finite_set)
  have "NumNodes d = int (card (dom (d_nodes g)))" using c(1,2) distinct_card [of "d_jobs d"] by (simp add: NumNodes_def)
  then have "DoneSuccess d \<longleftrightarrow> card {i \<in> dom (d_nodes g). countedAsDone (node_at d i)} = card (dom (d_nodes g))"
    using c(3) by (simp add: DoneSuccess_def)
  also have "\<dots> \<longleftrightarrow> {i \<in> dom (d_nodes g). countedAsDone (node_at d i)} = dom (d_nodes g)"
    using fin by (metis (no_types, lifting) card_subset_eq mem_Collect_eq subsetI)
  finally show ?thesis using c(3) by blast
qed
section \<open>Termination\<close>

text \<open>
  The reading loop ends when the log reader runs dry: every turn asks it once, and from some
  question on it has no event to deliver.
\<close>

definition runs_dry :: "env \<Rightarrow> nat \<Rightarrow> bool" where
  "runs_dry e n \<longleftrightarrow> (\<forall>t \<ge> n. fst (e_readEvent e t) \<in> {ULOG_NO_EVENT, ULOG_RD_ERROR, ULOG_UNK_ERROR})"

lemma ProcessOneEvent_tick:
  assumes "run_ok d" and "ProcessOneEvent e ls oc ev rec d = Inr (ok, fin, d')"
  shows "d_tick d \<le> d_tick d'"
  using ProcessOneEvent_keeps [OF run_from_self [OF assms(1)] assms(2)] by (simp add: run_from_def grows_def)

lemma ProcessLogEvents_returns:
  assumes dry: "runs_dry e n" and "run_ok d"
  shows "ProcessLogEvents e ls rec r d \<noteq> None"
  using assms(2)
proof (induction "n - d_tick d" arbitrary: r d rule: less_induct)
  case less
  obtain oc v where q: "e_readEvent e (d_tick d) = (oc, v)" by (cases "e_readEvent e (d_tick d)")
  let ?d1 = "d\<lparr>d_tick := Suc (d_tick d)\<rparr>"
  have a: "ask (e_readEvent e) d = ((oc, v), ?d1)" using q by (simp add: ask_def)
  have ok1: "run_ok ?d1" using less.prems by simp
  show ?case
  proof (cases "ProcessOneEvent e ls oc v rec ?d1")
    case (Inl x)
    then show ?thesis using a by (subst ProcessLogEvents.simps) simp
  next
    case (Inr y)
    then obtain tr fin d2 where d2: "ProcessOneEvent e ls oc v rec ?d1 = Inr (tr, fin, d2)" by (cases y) auto
    show ?thesis
    proof (cases fin)
      case True
      then show ?thesis using a d2 by (subst ProcessLogEvents.simps) simp
    next
      case False
      then have "oc \<notin> {ULOG_NO_EVENT, ULOG_RD_ERROR, ULOG_UNK_ERROR}" using d2 by (auto simp: ProcessOneEvent_def Let_def)
      then have "d_tick d < n" using dry q unfolding runs_dry_def by (metis fst_conv not_less)
      then have "n - d_tick d2 < n - d_tick d" using ProcessOneEvent_tick [OF ok1 d2] by simp
      moreover have "run_ok d2" using ProcessOneEvent_keeps [OF run_from_self [OF ok1] d2] by blast
      ultimately have "ProcessLogEvents e ls rec (r \<and> tr) d2 \<noteq> None" by (rule less.hyps)
      then show ?thesis using a d2 False by (subst ProcessLogEvents.simps) simp
    qed
  qed
qed

lemma scan_log_returns:
  assumes "runs_dry e n" and "run_ok d"
  shows "scan_log e ls d \<noteq> None"
proof -
  obtain b d1 where g: "DetectLogGrowth e d = (b, d1)" by (cases "DetectLogGrowth e d")
  have "run_ok d1" using g assms(2) by (auto simp: DetectLogGrowth_def ask_def split: if_splits)
  from ProcessLogEvents_returns [OF assms(1) this] show ?thesis using g by (simp add: scan_log_def)
qed

lemma bindO_None: "bindO r f = None \<Longrightarrow> r \<noteq> None \<Longrightarrow> \<exists>x. r = Some (Inr x) \<and> f x = None"
  by (auto simp: bindO_def split: option.splits sum.splits)

lemma timer_returns:
  assumes dry: "runs_dry e n" and ok: "run_ok d"
  shows "condor_event_timer e dm d \<noteq> None"
proof
  assume none: "condor_event_timer e dm d = None"
  let ?rest = "\<lambda>(justSubmitted, d). bindO (scan_log e TYPE_CONDOR d) (\<lambda>(ok, d).
    if \<not> ok then Some (main_shutdown_rescue e dm EXIT_ERROR d)
    else bindO (scan_log e TYPE_STORK d) (\<lambda>(ok, d).
      if \<not> ok then Some (main_shutdown_rescue e dm EXIT_ERROR d) else Some (finish_cycle e dm d)))"
  have "bindO (SubmitReadyJobs e dm d) ?rest = None" using none by (simp add: condor_event_timer_def split: if_splits)
  from bindO_None [OF this SubmitReadyJobs_ends [OF run_from_self [OF ok]]]
  obtain k d1 where d1: "SubmitReadyJobs e dm d = Some (Inr (k, d1))" and r1: "?rest (k, d1) = None" by auto
  have ok1: "run_ok d1" using SubmitReadyJobs_keeps [OF run_from_self [OF ok] d1] by blast
  from bindO_None [OF r1 [simplified] scan_log_returns [OF dry ok1]]
  obtain b d2 where d2: "scan_log e TYPE_CONDOR d1 = Some (Inr (b, d2))"
    and r2: "(if \<not> b then Some (main_shutdown_rescue e dm EXIT_ERROR d2)
      else bindO (scan_log e TYPE_STORK d2) (\<lambda>(ok, d).
        if \<not> ok then Some (main_shutdown_rescue e dm EXIT_ERROR d) else Some (finish_cycle e dm d))) = None" by auto
  have ok2: "run_ok d2" using scan_log_keeps [OF run_from_self [OF ok1] d2] by blast
  have "scan_log e TYPE_STORK d2 \<noteq> None" by (rule scan_log_returns [OF dry ok2])
  then show False using r2 by (auto simp: bindO_def split: if_splits option.splits sum.splits)
qed

lemma running_case:
  "(case r of Some (Inr (Running d)) \<Rightarrow> P d | _ \<Rightarrow> False) \<Longrightarrow> \<exists>d. r = Some (Inr (Running d)) \<and> P d"
  by (auto split: option.splits sum.splits run_state.splits)

lemma exited_case:
  "(case r of Some (Inr (Exited v d)) \<Rightarrow> v = c | _ \<Rightarrow> False) \<Longrightarrow> \<exists>d. r = Some (Inr (Exited c d))"
  by (auto split: option.splits sum.splits run_state.splits)

section \<open>A sample run\<close>

text \<open>
  A rescue DAG of two nodes, A premarked DONE and B its child, in a world where every command
  succeeds and the logs stay empty.
\<close>

definition done_chain :: Dag where
  "done_chain = (new_Dag sample_config)\<lparr>
     d_nodes := [0 \<mapsto> (new_job TYPE_CONDOR ''A'' '''' ''a.sub'' 0)\<lparr>Status := STATUS_DONE, queues := (\<lambda>_. {})(Q_CHILDREN := {1})\<rparr>,
                 1 \<mapsto> (new_job TYPE_CONDOR ''B'' '''' ''b.sub'' 1)\<lparr>queues := (\<lambda>_. {})(Q_PARENTS := {0})\<rparr>],
     d_jobs := [0, 1], d_nodeIDHash := [0 \<mapsto> 0, 1 \<mapsto> 1], d_nodeNameHash := [''A'' \<mapsto> 0, ''B'' \<mapsto> 1]\<rparr>"

definition sample_running :: Dag where
  "sample_running = (case start_dag sample_env sample_dm done_chain of Some (Inr (Running d)) \<Rightarrow> d | _ \<Rightarrow> done_chain)"

definition all_done :: Dag where
  "all_done = upd_node 1 (\<lambda>j. j\<lparr>Status := STATUS_DONE\<rparr>) done_chain"

end
