(* ===== verification/Dag_Start.thy ===== *)
theory Dag_Start
  imports Dag_Bounds
begin

text \<open>
  Starting a node ends. A PRE script that cannot be started is reaped at once, and the reaper may
  restart the node, which starts the script again: every round uses up one retry, so the depth
  \<open>StartNode\<close> allows for this recursion is never exceeded.
\<close>

definition overflow :: exc where
  "overflow = Crash ''stack overflow''"

text \<open>What does not change while a script is started.\<close>

lemma BackgroundRun_fields:
  assumes "BackgroundRun e s d = (pid, d')"
  shows "retries (node_at d' k) = retries (node_at d k) \<and> retry_max (node_at d' k) = retry_max (node_at d k) \<and>
    jobName (node_at d' k) = jobName (node_at d k) \<and> Status (node_at d' k) = Status (node_at d k) \<and>
    have_retry_abort_val (node_at d' k) = have_retry_abort_val (node_at d k)"
  using assms by (auto simp: BackgroundRun_def ask_def upd_script_def Let_def split: if_splits)

lemma bindR_Inl_iff: "bindR r f = Inl x \<longleftrightarrow> r = Inl x \<or> (\<exists>y. r = Inr y \<and> f y = Inl x)"
  by (cases r) simp_all

lemma CheckForDagAbort_no_overflow: "CheckForDagAbort i d \<noteq> Inl overflow"
  by (simp add: CheckForDagAbort_def Let_def overflow_def)

lemma enqueue_no_overflow: "enqueue x q \<noteq> Inl overflow"
  by (auto simp: enqueue_def overflow_def Let_def split: if_splits)

lemma restart_no_overflow:
  assumes start: "\<And>d. run_from g d \<Longrightarrow> i \<in> dom (d_nodes d) \<Longrightarrow> retries_left i d < n \<Longrightarrow> start i True d \<noteq> Inl overflow"
    and run: "run_from g d" and i: "i \<in> dom (d_nodes d)" and left: "retries_left i d < Suc n"
    and lt: "retries (node_at d i) < retry_max (node_at d i)"
  shows "RestartNode_with start e i False d \<noteq> Inl overflow"
proof -
  let ?j = "node_at d i"
  let ?j' = "?j\<lparr>Status := STATUS_READY, retries := retries ?j + 1, scriptPre := map_option (\<lambda>s. s\<lparr>s_done := False\<rparr>) (scriptPre ?j),
    error_text := '''', jobstateSeqNum := 0\<rparr>"
  have "same_links ?j ?j'" using lt by (simp add: same_links_def)
  then have r: "run_from g (set_node i ?j' d)" "i \<in> dom (d_nodes (set_node i ?j' d))" using run_from_set_node [OF run i] i by auto
  have "retries_left i (set_node i ?j' d) < n" using left lt by (simp add: retries_left_def)
  with start [OF r] show ?thesis by (auto simp: RestartNode_with_def Let_def overflow_def)
qed

lemma reaper_no_overflow:
  assumes restart: "\<And>d. run_from g d \<Longrightarrow> i \<in> dom (d_nodes d) \<Longrightarrow> retries_left i d < Suc n \<Longrightarrow>
      retries (node_at d i) < retry_max (node_at d i) \<Longrightarrow> restart i False d \<noteq> Inl overflow"
    and run: "run_from g d" and i: "i \<in> dom (d_nodes d)" and left: "retries_left i d < Suc n"
  shows "PreScriptReaper_with restart e (jobName (node_at d i)) st d \<noteq> Inl overflow"
proof -
  have f: "FindNodeByName (Some (jobName (node_at d i))) d = Inr (Some i)" using FindNodeByName_ok [OF _ i] run by blast
  let ?d1 = "(upd_node i (pre_failed e st) d)\<lparr>d_preRunNodeCount := d_preRunNodeCount d - 1\<rparr>"
  have r1: "run_from g ?d1" "i \<in> dom (d_nodes ?d1)" using run i by (simp_all add: run_from_upd_node)
  have "retries_left i ?d1 < Suc n" using left by (simp add: retries_left_def pre_failed_def snprintf_error_def)
  from restart [OF r1 this] have "retries (node_at ?d1 i) < retry_max (node_at ?d1 i) \<Longrightarrow> restart i False ?d1 \<noteq> Inl overflow" .
  then show ?thesis
    unfolding PreScriptReaper_with_def f
    by (auto simp: Let_def bindR_Inl_iff CheckForDagAbort_no_overflow [unfolded overflow_def] overflow_def split: if_splits)
qed

lemma Run_no_overflow:
  assumes reaper: "\<And>d st. run_from g d \<Longrightarrow> i \<in> dom (d_nodes d) \<Longrightarrow> retries_left i d < Suc n \<Longrightarrow>
      reaper (jobName (node_at d i)) st d \<noteq> Inl overflow"
    and run: "run_from g d" and i: "i \<in> dom (d_nodes d)" and w: "queue_of d i Q_WAITING = {}" and left: "retries_left i d < Suc n"
  shows "Run_with reaper e (i, False) d \<noteq> Inl overflow"
proof -
  obtain pid d1 where d1: "BackgroundRun e (i, False) d = (pid, d1)" by (cases "BackgroundRun e (i, False) d")
  have k: "run_from g d1 \<and> dom (d_nodes d1) = dom (d_nodes d) \<and> queues (node_at d1 i) = queues (node_at d i)"
    by (rule BackgroundRun_keeps [OF run _ _ d1]) (use i w in simp_all)
  have "retries_left i d1 < Suc n" using left BackgroundRun_fields [OF d1, of i] by (simp add: retries_left_def)
  with reaper [of d1 256] k i have "reaper (jobName (node_at d1 i)) 256 d1 \<noteq> Inl overflow" by simp
  then show ?thesis
    using enqueue_no_overflow [of "(i, False)", unfolded overflow_def] d1 by (auto simp: Run_with_def Let_def bindR_Inl_iff overflow_def split: if_splits)
qed

lemma StartNode_n_no_overflow:
  "run_from g d \<Longrightarrow> i \<in> dom (d_nodes d) \<Longrightarrow> retries_left i d < n \<Longrightarrow> StartNode_n e n i r d \<noteq> Inl overflow"
proof (induction n arbitrary: d r)
  case (Suc n)
  let ?restart = "RestartNode_with (StartNode_n e n) e"
  have restart: "?restart i False d \<noteq> Inl overflow" if "run_from g d" "i \<in> dom (d_nodes d)" "retries_left i d < Suc n"
      "retries (node_at d i) < retry_max (node_at d i)" for d
    by (rule restart_no_overflow [OF _ that]) (rule Suc.IH)
  have reaper: "PreScriptReaper_with ?restart e (jobName (node_at d i)) st d \<noteq> Inl overflow"
    if "run_from g d" "i \<in> dom (d_nodes d)" "retries_left i d < Suc n" for d st
    by (rule reaper_no_overflow [OF _ that]) (rule restart)
  let ?d1 = "(upd_node i (\<lambda>j. j\<lparr>Status := STATUS_PRERUN\<rparr>) d)\<lparr>d_preRunNodeCount := d_preRunNodeCount d + 1\<rparr>"
  have r1: "run_from g ?d1" "i \<in> dom (d_nodes ?d1)" "retries_left i ?d1 < Suc n"
    using Suc.prems by (simp_all add: run_from_upd_node retries_left_def)
  have "queue_of ?d1 i Q_WAITING = {} \<Longrightarrow> Run_with (PreScriptReaper_with ?restart e) e (i, False) ?d1 \<noteq> Inl overflow"
    by (rule Run_no_overflow [OF _ r1(1,2) _ r1(3)]) (rule reaper)
  then show ?case
    by (auto simp: StartNode_with_def Let_def CanSubmit_def IsEmpty_queue_def bindR_Inl_iff overflow_def split: if_splits)
qed simp

end
