(* ===== verification/Rescue_Files.thy ===== *)
theory Rescue_Files
  imports Dag_Rescue
begin

text \<open>
  Which file a rescue DAG is written to, and what becomes of older ones.
\<close>

section \<open>The search for the last rescue DAG\<close>

definition rescue_name :: "string \<Rightarrow> bool \<Rightarrow> int \<Rightarrow> string" where
  "rescue_name f multi n = f @ (if multi then ''_multi'' else '''') @ ''.rescue'' @ precision_3d n"

lemma RescueDagName_ok: "1 \<le> n \<Longrightarrow> RescueDagName f multi n = Inr (rescue_name f multi n)"
  by (simp add: RescueDagName_def rescue_name_def)

text \<open>Names of different numbers differ.\<close>

lemma zero_padded_inj: "zero_padded w m = zero_padded w n \<Longrightarrow> m = n"
  by (metis zero_padded_def digits_value_zeros digits_value_string_of_nat)

lemma rescue_name_inj: "1 \<le> m \<Longrightarrow> 1 \<le> n \<Longrightarrow> rescue_name f multi m = rescue_name f multi n \<Longrightarrow> m = n"
  by (auto simp: rescue_name_def precision_3d_def split: if_splits dest!: zero_padded_inj)

text \<open>
  In a directory whose files do not change meanwhile, the search yields the largest number of
  an existing rescue DAG, 0 if there is none.
\<close>

definition last_rescue :: "(string \<Rightarrow> bool) \<Rightarrow> string \<Rightarrow> bool \<Rightarrow> int \<Rightarrow> int \<Rightarrow> bool" where
  "last_rescue ex f multi mx l \<longleftrightarrow> 0 \<le> l \<and> l \<le> max 0 mx \<and> (l \<noteq> 0 \<longrightarrow> ex (rescue_name f multi l)) \<and>
     (\<forall>k. l < k \<and> k \<le> mx \<longrightarrow> \<not> ex (rescue_name f multi k))"

lemma find_last_loop:
  assumes files: "\<forall>t. e_access e t = ex" and "1 \<le> i" and "i \<le> mx + 1" and "last_rescue ex f multi (i - 1) l"
  shows "\<exists>l' k. foldR (find_last_body e f multi) [i..mx] (l, d) = Inr (l', d\<lparr>d_tick := k\<rparr>) \<and> last_rescue ex f multi mx l'"
  using assms(2-4)
proof (induction "nat (mx + 1 - i)" arbitrary: i l d)
  case 0
  then have "i = mx + 1" by simp
  then have "foldR (find_last_body e f multi) [i..mx] (l, d) = Inr (l, d\<lparr>d_tick := d_tick d\<rparr>)" by simp
  then show ?case using 0 \<open>i = mx + 1\<close> by (metis add_diff_cancel_right')
next
  case (Suc n)
  then have le: "i \<le> mx" and n: "n = nat (mx + 1 - (i + 1))" by simp_all
  let ?l = "if ex (rescue_name f multi i) then i else l"
  let ?d = "d\<lparr>d_tick := Suc (d_tick d)\<rparr>"
  have b: "find_last_body e f multi i (l, d) = Inr (?l, ?d)"
    using files Suc.prems(1) by (simp add: find_last_body_def RescueDagName_ok ask_def)
  have "last_rescue ex f multi (i + 1 - 1) ?l" using Suc.prems by (auto simp: last_rescue_def) (metis order_le_less)+
  then obtain l' k where "foldR (find_last_body e f multi) [i + 1..mx] (?l, ?d) = Inr (l', ?d\<lparr>d_tick := k\<rparr>)" "last_rescue ex f multi mx l'"
    using Suc.hyps(1) [of "i + 1" ?l ?d] n Suc.prems(1) le by auto
  then have "foldR (find_last_body e f multi) [i..mx] (l, d) = Inr (l', d\<lparr>d_tick := k\<rparr>) \<and> last_rescue ex f multi mx l'"
    using b le by (simp add: upto_rec1)
  then show ?case by blast
qed

lemma FindLastRescueDagNum_last:
  assumes "\<forall>t. e_access e t = ex"
  shows "\<exists>l k. FindLastRescueDagNum e f multi mx d = Inr (l, d\<lparr>d_tick := k\<rparr>) \<and> last_rescue ex f multi mx l"
proof (cases "0 \<le> mx")
  case True
  have "last_rescue ex f multi (1 - 1) 0" by (auto simp: last_rescue_def)
  from find_last_loop [OF assms _ _ this, of mx d] True show ?thesis by (simp add: FindLastRescueDagNum_def)
next
  case False
  then have "FindLastRescueDagNum e f multi mx d = Inr (0, d\<lparr>d_tick := d_tick d\<rparr>)" by (simp add: FindLastRescueDagNum_def)
  moreover have "last_rescue ex f multi mx 0" using False by (auto simp: last_rescue_def)
  ultimately show ?thesis by blast
qed

section \<open>Properties\<close>

lemma WriteRescue_trace:
  assumes "WriteRescue e f df pf d = Inr d'"
  shows "d_trace d' = d_trace d \<or> (\<exists>s. d_trace d' = d_trace d @ [A_write_rescue f s])"
  using assms by (auto simp: WriteRescue_def ask_def act_def split: if_splits)


text \<open>A directory with the rescue DAGs number 1 and number 3.\<close>

definition gap_files :: "string \<Rightarrow> bool" where
  "gap_files n \<longleftrightarrow> n = rescue_name ''d.dag'' False 1 \<or> n = rescue_name ''d.dag'' False 3"

definition gap_env :: env where
  "gap_env = sample_env\<lparr>e_access := (\<lambda>_. gap_files), e_rename_ok := (\<lambda>_. gap_files)\<rparr>"

lemma gap_Rescue: "case Rescue gap_env ''d.dag'' False 3 False (new_Dag sample_config) of Inr d' \<Rightarrow> True | Inl x \<Rightarrow> False"
  by code_simp

lemma gap_2: "\<not> gap_files (rescue_name ''d.dag'' False 2)"
  using rescue_name_inj [of 2 1 "''d.dag''" False] rescue_name_inj [of 2 3 "''d.dag''" False] by (auto simp: gap_files_def)


text \<open>
  C39: Renaming old rescue DAGs (\<open>condor_submit_dag -f\<close>) dies on a gap in their numbers, although the
  search for the last one accepts gaps with a warning: a file that does not exist cannot be
  renamed.
\<close>

theorem Rename_dies_on_gap:
  assumes files: "\<forall>t. e_access e t = ex" and rename: "\<forall>t n. e_rename_ok e t n \<longrightarrow> ex n"
    and gap: "0 \<le> num" "num < k" "k < l" "l \<le> mx" "\<not> ex (rescue_name f multi k)" "ex (rescue_name f multi l)"
  shows "\<exists>m. RenameRescueDagsAfter e f multi num mx d = Inl (EXCEPT m)"
proof -
  obtain l1 t where l1: "FindLastRescueDagNum e f multi mx d = Inr (l1, d\<lparr>d_tick := t\<rparr>)" "last_rescue ex f multi mx l1"
    using FindLastRescueDagNum_last [OF files] by blast
  have "l \<le> l1" using l1(2) gap by (force simp: last_rescue_def)
  then have k: "k \<in> set [num + 1..l1]" using gap by simp
  have step: "rename_body e f multi n d = Inl (EXCEPT ''Fatal error: unable to rename old rescue file'') \<or>
      n \<noteq> k \<and> (\<exists>d'. rename_body e f multi n d = Inr d')" if "n \<in> set [num + 1..l1]" for n d
    using that gap(1,5) rename by (auto simp: rename_body_def RescueDagName_ok ask_def)
  have "foldR (rename_body e f multi) ns d = Inl (EXCEPT ''Fatal error: unable to rename old rescue file'')"
    if "k \<in> set ns" "set ns \<subseteq> set [num + 1..l1]" for ns d
    using that
  proof (induction ns arbitrary: d)
    case (Cons n ns)
    then show ?case using step [of n d] by auto
  qed simp
  from this [OF k subset_refl] show ?thesis using gap(1) l1(1) by (simp add: RenameRescueDagsAfter_def)
qed

theorem Rename_dies_on_gap_witness:
  "\<exists>m. RenameRescueDagsAfter gap_env ''d.dag'' False 0 100 (new_Dag sample_config) = Inl (EXCEPT m)"
  by (rule Rename_dies_on_gap [where ex = gap_files and k = 2 and l = 3])
    (use gap_2 in \<open>simp_all add: gap_env_def\<close>, simp add: gap_files_def)

text \<open>
  C40: Asking for a rescue DAG when none are allowed (\<open>DAGMAN_MAX_RESCUE_NUM\<close> is 0), as
  \<open>condor_dagman -DumpRescue\<close> does without checking, is a failed assertion.
\<close>

theorem Rescue_asserts_without_numbers:
  assumes "mx \<le> 0"
  shows "Rescue e f multi mx False d = Inl (ASSERT ''rescueDagNum >= 1'')"
  using assms by (simp add: Rescue_def FindLastRescueDagNum_def RescueDagName_def Let_def)

theorem Rescue_asserts_without_numbers_witness:
  "Rescue gap_env ''d.dag'' False 0 False (new_Dag sample_config) = Inl (ASSERT ''rescueDagNum >= 1'')"
  by (rule Rescue_asserts_without_numbers) simp

end
