(* ===== verification/Dag_Text.thy ===== *)
theory Dag_Text
  imports Dag_Script
begin

text \<open>
  Reading text: the C library functions the DAG file parser is written with (\<open>strtok\<close> with its
  saved position, \<open>strtol\<close>, \<open>isalnum\<close>), \<open>getline\<close> of \<open>condor_utils/config.cpp\<close>, which joins
  continuation lines, and \<open>condor_basename\<close>, \<open>condor_dirname\<close>.
\<close>

section \<open>Tokens\<close>

text \<open>
  One call of \<open>strtok\<close>: the next token and the saved position, which is behind the delimiter that
  ends the token. \<open>None\<close> is the null pointer.
\<close>

definition strtok :: "(char \<Rightarrow> bool) \<Rightarrow> string \<Rightarrow> (string \<times> string) option" where
  "strtok delim s =
     (let s = dropWhile delim s in
      if s = [] then None
      else Some (takeWhile (\<lambda>c. \<not> delim c) s, drop 1 (dropWhile (\<lambda>c. \<not> delim c) s)))"

text \<open>The token alone, and the saved position when there may be no token.\<close>

definition token_of :: "(string \<times> string) option \<Rightarrow> string option" where
  "token_of r = map_option fst r"

definition rest_of :: "(string \<times> string) option \<Rightarrow> string" where
  "rest_of r = (case r of None \<Rightarrow> '''' | Some (t, s) \<Rightarrow> s)"

abbreviation next_token :: "string \<Rightarrow> string option \<times> string" where
  "next_token s \<equiv> (token_of (strtok script_delim s), rest_of (strtok script_delim s))"

section \<open>Numbers\<close>

definition isdigit :: "char \<Rightarrow> bool" where
  "isdigit c \<longleftrightarrow> 48 \<le> (of_char c :: nat) \<and> (of_char c :: nat) \<le> 57"

definition isalnum :: "char \<Rightarrow> bool" where
  "isalnum c \<longleftrightarrow> isdigit c \<or> 65 \<le> (of_char c :: nat) \<and> (of_char c :: nat) \<le> 90 \<or>
     97 \<le> (of_char c :: nat) \<and> (of_char c :: nat) \<le> 122"

definition LONG_MAX :: int where "LONG_MAX = 2 ^ 63 - 1"
definition LONG_MIN :: int where "LONG_MIN = - (2 ^ 63)"

text \<open>
  \<open>strtol(s, &end, 10)\<close> on a platform with 64 bit \<^verbatim>\<open>long\<close>: the value, saturated at the limits, and the
  text from \<open>end\<close> on. Without digits the value is 0 and \<open>end\<close> is \<open>s\<close>.
\<close>

definition strtol :: "string \<Rightarrow> int \<times> string" where
  "strtol s =
     (let t = dropWhile isspace s;
          (neg, t) = (case t of c # cs \<Rightarrow> if c = CHR ''-'' then (True, cs) else if c = CHR ''+'' then (False, cs) else (False, t)
                      | [] \<Rightarrow> (False, t));
          digits = takeWhile isdigit t;
          v = int (digits_value digits)
      in if digits = [] then (0, s)
         else (if neg then max LONG_MIN (- v) else min LONG_MAX v, dropWhile isdigit t))"

text \<open>The conversion of a \<^verbatim>\<open>long\<close> to an \<^verbatim>\<open>int\<close> keeps the low 32 bits.\<close>

definition int_of_long :: "int \<Rightarrow> int" where
  "int_of_long v = (v + 2 ^ 31) mod 2 ^ 32 - 2 ^ 31"

section \<open>Lines\<close>

text \<open>
  \<open>getline\<close> on the unread input of a file, with the input that earlier parts of a continued line have
  left in the buffer: the line (or the null pointer) and the input that is left. A line that the
  file ends without a newline is returned untrimmed.
\<close>

definition trim_line :: "string \<Rightarrow> string" where
  "trim_line line = dropWhile isspace (rev (dropWhile isspace (rev line)))"

function getline_from :: "string \<Rightarrow> string \<Rightarrow> string option \<times> string" where
  "getline_from buf input =
     (let line = takeWhile (\<lambda>c. c \<noteq> CHR 0x0A) input; rest = dropWhile (\<lambda>c. c \<noteq> CHR 0x0A) input in
      if rest = [] then (if buf @ line = '''' then None else Some (buf @ line), [])
      else
        (let buf = buf @ trim_line line in
         if buf \<noteq> '''' \<and> last buf = CHR 0x5C then getline_from (butlast buf) (tl rest)
         else (Some buf, tl rest)))"
  by pat_completeness auto
termination
proof (relation "measure (\<lambda>(buf, input). length input)", goal_cases)
  case (2 buf input line rest buf')
  then have "length (tl rest) < length rest" by (cases rest) simp_all
  also have "length rest \<le> length input" using 2(2) length_dropWhile_le by simp
  finally show ?case by simp
qed simp

declare getline_from.simps [simp del]

lemma getline_eof:
  "CHR 0x0A \<notin> set input \<Longrightarrow> getline_from buf input = (if buf @ input = '''' then None else Some (buf @ input), [])"
proof -
  assume a: "CHR 0x0A \<notin> set input"
  then have t: "takeWhile (\<lambda>c. c \<noteq> CHR 0x0A) input = input" "dropWhile (\<lambda>c. c \<noteq> CHR 0x0A) input = []"
    by (auto intro: takeWhile_eq_all_conv [THEN iffD2])
  show ?thesis unfolding getline_from.simps [of buf input] Let_def t by simp
qed

lemma getline_line:
  assumes "CHR 0x0A \<notin> set line"
  shows "getline_from buf (line @ CHR 0x0A # rest) =
    (if buf @ trim_line line \<noteq> '''' \<and> last (buf @ trim_line line) = CHR 0x5C
     then getline_from (butlast (buf @ trim_line line)) rest else (Some (buf @ trim_line line), rest))"
proof -
  have "takeWhile (\<lambda>c. c \<noteq> CHR 0x0A) (line @ CHR 0x0A # rest) = line"
    "dropWhile (\<lambda>c. c \<noteq> CHR 0x0A) (line @ CHR 0x0A # rest) = CHR 0x0A # rest"
    using assms by (auto simp: takeWhile_append dropWhile_append)
  then show ?thesis unfolding getline_from.simps [of buf "line @ CHR 0x0A # rest"] Let_def by simp
qed

lemma getline_from_shorter: "getline_from buf input = (r, rest) \<Longrightarrow> input \<noteq> [] \<Longrightarrow> length rest < length input"
proof (induction "length input" arbitrary: buf input rule: less_induct)
  case less
  show ?case
  proof (cases "CHR 0x0A \<in> set input")
    case False
    then show ?thesis using less(2,3) by (simp add: getline_eof)
  next
    case True
    then obtain line left where i: "input = line @ CHR 0x0A # left" "CHR 0x0A \<notin> set line" by (meson split_list_first)
    let ?b = "buf @ trim_line line"
    show ?thesis
    proof (cases "?b \<noteq> '''' \<and> last ?b = CHR 0x5C")
      case True
      then have g: "getline_from (butlast ?b) left = (r, rest)" using less(2) by (simp add: i getline_line)
      show ?thesis
      proof (cases "left = []")
        case True
        then show ?thesis using g by (simp add: getline_eof i)
      next
        case False
        from less(1) [OF _ g False] i show ?thesis by simp
      qed
    next
      case False
      then show ?thesis using less(2) by (auto simp: i getline_line)
    qed
  qed
qed

text \<open>All the lines that \<^verbatim>\<open>while ( (line = getline(fp)) != NULL )\<close> sees.\<close>

function getlines :: "string \<Rightarrow> string list" where
  "getlines input =
     (case getline_from '''' input of
        (None, rest) \<Rightarrow> []
      | (Some line, rest) \<Rightarrow> line # getlines rest)"
  by pat_completeness auto
termination
proof (relation "measure length", goal_cases)
  case (2 input r rest line)
  then have "input \<noteq> []" by (auto simp: getline_from.simps [of "[]" "[]"])
  with getline_from_shorter 2(1,2) show ?case by (metis in_measure)
qed simp

declare getlines.simps [simp del]

section \<open>Paths\<close>

definition is_dir_delim :: "char \<Rightarrow> bool" where
  "is_dir_delim c \<longleftrightarrow> c = CHR 0x5C \<or> c = CHR ''/''"

definition condor_basename :: "string \<Rightarrow> string" where
  "condor_basename path = rev (takeWhile (\<lambda>c. \<not> is_dir_delim c) (rev path))"

definition condor_dirname :: "string \<Rightarrow> string" where
  "condor_dirname path =
     (let p = rev (dropWhile (\<lambda>c. \<not> is_dir_delim c) (rev path)) in
      if p = [] then ''.'' else if length p = 1 then p else butlast p)"

end
