(* ===== verification/Dag_Parse.thy ===== *)
theory Dag_Parse
  imports Dag_Text
begin

text \<open>
  The DAG file parser (\<open>condor_dagman/parse.cpp\<close>), the operations of \<open>dagman_commands.cpp\<close> that add a
  node, and the lifting of splices (\<open>dag.cpp\<close>).

  The static variables of \<open>parse.cpp\<close>, the counter of job identifiers, the current directory and the
  \<open>Dag\<close> objects of the program form the record \<open>parser\<close>. A \<open>Dag*\<close> is the index of an object. The jobs
  and throttles are one memory for all these objects: it is handed to the object that works with it
  (\<open>share\<close>), since the operations on a \<open>Dag\<close> find it there.

  The files are the record \<open>files\<close>. A splice is parsed while the file that names it is still open, so
  the descriptors left bound the nesting: without one, \<open>fopen\<close> fails and with it the parse.
  A handler returns whether the line was good; its messages are not modelled.
\<close>

section \<open>State\<close>

record files =
  f_fopen :: "string \<Rightarrow> string \<Rightarrow> string option"
  f_getcwd_ok :: "string \<Rightarrow> bool"
  f_chdir :: "string \<Rightarrow> string \<Rightarrow> string option"
  f_queueCount :: "string \<Rightarrow> string \<Rightarrow> int"

text \<open>A \<open>Dag\<close> with the members that only parsing and the dot file use.\<close>

record dag_object =
  o_dag :: Dag
  o_splices :: "(string, nat) HashTable"
  o_prohibitMultiJobs :: bool
  o_dot_file_name :: "string option"
  o_dot_include_file_name :: "string option"
  o_update_dot_file :: bool
  o_overwrite_dot_file :: bool

record parser =
  ps_objects :: "dag_object list"
  ps_spliceScope :: "string list"
  ps_useDagDir :: bool
  ps_thisDagNum :: int
  ps_mungeNames :: bool
  ps_jobID_counter :: JobID_t
  ps_cwd :: string

definition hashFuncChars :: "string \<Rightarrow> nat" where
  "hashFuncChars key = sum_list (map of_char key) mod 2 ^ 32"

definition new_object :: "dag_config \<Rightarrow> bool \<Rightarrow> dag_object" where
  "new_object c prohibitMultiJobs =
     \<lparr>o_dag = new_Dag c, o_splices = new_HashTable hashFuncChars rejectDuplicateKeys,
      o_prohibitMultiJobs = prohibitMultiJobs, o_dot_file_name = None, o_dot_include_file_name = None,
      o_update_dot_file = False, o_overwrite_dot_file = True\<rparr>"

definition object_at :: "parser \<Rightarrow> nat \<Rightarrow> dag_object" where
  "object_at p a = ps_objects p ! a"

definition set_object :: "nat \<Rightarrow> dag_object \<Rightarrow> parser \<Rightarrow> parser" where
  "set_object a x p = p\<lparr>ps_objects := (ps_objects p)[a := x]\<rparr>"

definition dag_at :: "parser \<Rightarrow> nat \<Rightarrow> Dag" where
  "dag_at p a = o_dag (object_at p a)"

definition set_dag :: "nat \<Rightarrow> Dag \<Rightarrow> parser \<Rightarrow> parser" where
  "set_dag a d p = set_object a ((object_at p a)\<lparr>o_dag := d\<rparr>) p"

definition share :: "nat \<Rightarrow> nat \<Rightarrow> parser \<Rightarrow> parser" where
  "share a b p = set_dag b ((dag_at p b)\<lparr>d_nodes := d_nodes (dag_at p a), d_heap := d_heap (dag_at p a)\<rparr>) p"

text \<open>An operation on the \<open>Dag\<close> that is being parsed.\<close>

definition on_dag :: "nat \<Rightarrow> (Dag \<Rightarrow> (bool \<times> Dag) res) \<Rightarrow> parser \<Rightarrow> (bool \<times> parser) res" where
  "on_dag a f p = bindR (f (dag_at p a)) (\<lambda>(ok, d). Inr (ok, set_dag a d p))"

section \<open>Directories\<close>

text \<open>
  \<open>TmpDir\<close> (\<open>condor_utils/tmp_dir.cpp\<close>): the result of \<open>Cd2TmpDir\<close> holds the directory to go back to, if
  there was a change. Every return from the code between \<open>Cd2TmpDir\<close> and the end of the object's
  scope goes back, by \<open>Cd2MainDir\<close> or by the destructor.
\<close>

definition Cd2TmpDir :: "files \<Rightarrow> string \<Rightarrow> parser \<Rightarrow> (bool \<times> string option \<times> parser) res" where
  "Cd2TmpDir fs dir p =
     (if dir = '''' \<or> dir = ''.'' then Inr (True, None, p)
      else if \<not> f_getcwd_ok fs (ps_cwd p) then Inl (EXCEPT ''Unable to get current directory!'')
      else
        (case f_chdir fs (ps_cwd p) dir of
           None \<Rightarrow> Inr (False, None, p)
         | Some cwd \<Rightarrow> Inr (True, Some (ps_cwd p), p\<lparr>ps_cwd := cwd\<rparr>)))"

definition Cd2MainDir :: "files \<Rightarrow> string option \<Rightarrow> parser \<Rightarrow> parser res" where
  "Cd2MainDir fs mainDir p =
     (case mainDir of
        None \<Rightarrow> Inr p
      | Some m \<Rightarrow>
          (case f_chdir fs (ps_cwd p) m of
             None \<Rightarrow> Inl (EXCEPT ''Unable to chdir() to original directory!'')
           | Some cwd \<Rightarrow> Inr (p\<lparr>ps_cwd := cwd\<rparr>)))"

definition in_TmpDir :: "files \<Rightarrow> string \<Rightarrow> (parser \<Rightarrow> (bool \<times> parser) res) \<Rightarrow> parser \<Rightarrow> (bool \<times> parser) res" where
  "in_TmpDir fs dir body p =
     bindR (Cd2TmpDir fs dir p) (\<lambda>(ok, mainDir, p).
       if \<not> ok then Inr (False, p)
       else bindR (body p) (\<lambda>(r, p). bindR (Cd2MainDir fs mainDir p) (\<lambda>p. Inr (r, p))))"

section \<open>Names\<close>

definition isReservedWord :: "string \<Rightarrow> bool" where
  "isReservedWord token \<longleftrightarrow> strcaseeq token ''PARENT'' \<or> strcaseeq token ''CHILD''"

definition null_to_empty :: "string option \<Rightarrow> string" where
  "null_to_empty s = (case s of None \<Rightarrow> '''' | Some x \<Rightarrow> x)"

definition munge_job_name :: "parser \<Rightarrow> string option \<Rightarrow> string" where
  "munge_job_name p name =
     (if ps_mungeNames p then string_of_int (ps_thisDagNum p) @ ''.'' @ null_to_empty name else null_to_empty name)"

definition current_splice_scope :: "parser \<Rightarrow> string" where
  "current_splice_scope p = concat (map (\<lambda>s. s @ ''+'') (ps_spliceScope p))"

definition LookupSplice :: "parser \<Rightarrow> nat \<Rightarrow> string \<Rightarrow> nat option" where
  "LookupSplice p a name = hash_lookup (o_splices (object_at p a)) name"

section \<open>Nodes\<close>

definition IsValidNodeName :: "string option \<Rightarrow> Dag \<Rightarrow> (bool \<times> string) res" where
  "IsValidNodeName name d =
     (case name of
        None \<Rightarrow> Inr (False, ''missing node name'')
      | Some n \<Rightarrow>
          if n = '''' then Inr (False, ''empty node name'')
          else if isReservedWord n then Inr (False, ''is a DAGMan reserved word'')
          else bindR (NodeExists name d) (\<lambda>exists. Inr (if exists then (False, ''already exists in DAG'') else (True, ''''))))"

definition IsValidSubmitFileName :: "string option \<Rightarrow> bool \<times> string" where
  "IsValidSubmitFileName name =
     (case name of
        None \<Rightarrow> (False, ''missing submit file name'')
      | Some n \<Rightarrow> if n = '''' then (False, ''empty submit file name'') else (True, ''''))"

text \<open>A script given along with the node; a null pointer means none.\<close>

definition add_optional_script :: "bool \<Rightarrow> string option \<Rightarrow> job \<Rightarrow> (bool \<times> string) \<times> job" where
  "add_optional_script post cmd j = (case cmd of None \<Rightarrow> ((True, ''''), j) | Some _ \<Rightarrow> AddScript post cmd j)"

definition AddNode ::
  "files \<Rightarrow> nat \<Rightarrow> job_type_t \<Rightarrow> string option \<Rightarrow> string \<Rightarrow> string option \<Rightarrow> string option \<Rightarrow> string option \<Rightarrow>
   bool \<Rightarrow> bool \<Rightarrow> parser \<Rightarrow> (bool \<times> string \<times> parser) res" where
  "AddNode fs a ty name dir submitFile precmd postcmd isNoop done_mark p =
     bindR (IsValidNodeName name (dag_at p a)) (\<lambda>(ok, why).
       if \<not> ok then Inr (False, why, p)
       else case IsValidSubmitFileName submitFile of (ok, why) \<Rightarrow>
       if \<not> ok then Inr (False, why, p)
       else
         bindR (Init ty name dir submitFile (o_prohibitMultiJobs (object_at p a))
                  (f_queueCount fs (the submitFile) dir) (ps_jobID_counter p)) (\<lambda>(node, counter).
           let p = p\<lparr>ps_jobID_counter := counter\<rparr> in
           case add_optional_script False precmd node of ((ok, why), node) \<Rightarrow>
           if \<not> ok then Inr (False, ''failed to add PRE script: '' @ why, p)
           else case add_optional_script True postcmd node of ((ok, why), node) \<Rightarrow>
           if \<not> ok then Inr (False, ''failed to add POST script: '' @ why, p)
           else
             (let node = node\<lparr>noop := isNoop\<rparr>; node = (if done_mark then snd (SetStatus STATUS_DONE node) else node) in
              bindR (Dag_Add node (dag_at p a)) (\<lambda>d. Inr (True, ''n/a'', set_dag a d p)))))"

definition SetNodeDagFile :: "string \<Rightarrow> string \<Rightarrow> Dag \<Rightarrow> (bool \<times> Dag) res" where
  "SetNodeDagFile nodeName dag_file d =
     bindR (FindNodeByName (Some nodeName) d) (\<lambda>job.
       case job of Some i \<Rightarrow> Inr (True, upd_node i (SetDagFile dag_file) d) | None \<Rightarrow> Inr (False, d))"

definition DAG_SUBMIT_FILE_SUFFIX :: string where
  "DAG_SUBMIT_FILE_SUFFIX = ''.condor.sub''"

definition token_is :: "string option \<Rightarrow> string \<Rightarrow> bool" where
  "token_is t keyword = (case t of None \<Rightarrow> False | Some s \<Rightarrow> strcaseeq s keyword)"

text \<open>The submit file to use and the nested DAG file, which is empty for an ordinary node.\<close>

definition submit_and_dag_file :: "string \<Rightarrow> string option \<Rightarrow> (string option \<times> string) res" where
  "submit_and_dag_file keyword submitFile =
     (if strcaseeq keyword ''SUBDAG''
      then Inr (Some (null_to_empty submitFile @ DAG_SUBMIT_FILE_SUFFIX), null_to_empty submitFile)
      else
        (case submitFile of
           None \<Rightarrow> Inl (Crash ''strstr( submitFile, DAG_SUBMIT_FILE_SUFFIX)'')
         | Some f \<Rightarrow>
             Inr (submitFile,
                  if strstr f DAG_SUBMIT_FILE_SUFFIX \<noteq> None then snd (replaceString DAG_SUBMIT_FILE_SUFFIX '''' 0 f) else '''')))"

text \<open>The rest of \<open>parse_node\<close>, from the check for \<open>NOOP\<close> on.\<close>

definition parse_node_tail ::
  "files \<Rightarrow> nat \<Rightarrow> job_type_t \<Rightarrow> string \<Rightarrow> string \<Rightarrow> string \<Rightarrow> string option \<Rightarrow> string option \<times> string \<Rightarrow>
   parser \<Rightarrow> (bool \<times> parser) res" where
  "parse_node_tail fs a ty keyword dir nodeName submitFile nextTok p =
     (let is_noop = token_is (fst nextTok) ''NOOP'';
          nextTok = (if is_noop then next_token (snd nextTok) else nextTok);
          done_mark = token_is (fst nextTok) ''DONE''
      in if fst nextTok \<noteq> None \<and> \<not> done_mark then Inr (False, p)
         else
           (let nextTok = (if done_mark then next_token (snd nextTok) else nextTok) in
            if fst nextTok \<noteq> None then Inr (False, p)
            else if LookupSplice p a nodeName \<noteq> None then Inr (False, p)
            else
              bindR (submit_and_dag_file keyword submitFile) (\<lambda>(submitFile, nestedDagFile).
              bindR (AddNode fs a ty (Some nodeName) dir submitFile None None is_noop done_mark p) (\<lambda>(ok, whynot, p).
                if \<not> ok then Inr (False, p)
                else if nestedDagFile \<noteq> '''' then on_dag a (SetNodeDagFile nodeName nestedDagFile) p
                else Inr (True, p)))))"

definition parse_node ::
  "files \<Rightarrow> nat \<Rightarrow> job_type_t \<Rightarrow> string \<Rightarrow> string \<Rightarrow> string \<Rightarrow> parser \<Rightarrow> (bool \<times> parser) res" where
  "parse_node fs a ty keyword dir line p =
     (case next_token line of (name, line) \<Rightarrow>
      case next_token line of (submitFile, line) \<Rightarrow>
      case next_token line of (nextTok, line) \<Rightarrow>
        (let nodeName = munge_job_name p name in
         if token_is nextTok ''DIR'' then
           (if dir \<noteq> '''' then Inr (False, p)
            else
              (case next_token line of
                 (None, line) \<Rightarrow> Inr (False, p)
               | (Some dir, line) \<Rightarrow>
                   in_TmpDir fs dir (parse_node_tail fs a ty keyword dir nodeName submitFile (next_token line)) p))
         else parse_node_tail fs a ty keyword dir nodeName submitFile (nextTok, line) p))"

definition parse_subdag :: "files \<Rightarrow> nat \<Rightarrow> job_type_t \<Rightarrow> string \<Rightarrow> string \<Rightarrow> string \<Rightarrow> parser \<Rightarrow> (bool \<times> parser) res" where
  "parse_subdag fs a ty keyword dir line p =
     (case next_token line of
        (None, line) \<Rightarrow> Inl (Crash ''strcasecmp( inlineOrExt, EXTERNAL )'')
      | (Some inlineOrExt, line) \<Rightarrow>
          if strcaseeq inlineOrExt ''EXTERNAL'' then parse_node fs a ty keyword dir line p else Inr (False, p))"

section \<open>Lines about one node\<close>

text \<open>
  The next token names a node. Some kinds of lines refuse a reserved word here. The continuation gets
  the node and the rest of the line.
\<close>

definition with_job ::
  "bool \<Rightarrow> parser \<Rightarrow> string \<Rightarrow> (JobID_t \<Rightarrow> string \<Rightarrow> (bool \<times> Dag) res) \<Rightarrow> Dag \<Rightarrow> (bool \<times> Dag) res" where
  "with_job check_reserved p line body d =
     (case next_token line of
        (None, line) \<Rightarrow> Inr (False, d)
      | (Some name, line) \<Rightarrow>
          if check_reserved \<and> isReservedWord name then Inr (False, d)
          else
            bindR (FindNodeByName (Some (munge_job_name p (Some name))) d) (\<lambda>job.
              case job of None \<Rightarrow> Inr (False, d) | Some i \<Rightarrow> body i line))"

definition parse_script :: "parser \<Rightarrow> string \<Rightarrow> Dag \<Rightarrow> (bool \<times> Dag) res" where
  "parse_script p line d =
     (case next_token line of
        (None, line) \<Rightarrow> Inr (False, d)
      | (Some prepost, line) \<Rightarrow>
          if \<not> strcaseeq prepost ''PRE'' \<and> \<not> strcaseeq prepost ''POST'' then Inr (False, d)
          else
            with_job True p line (\<lambda>job line.
              let cmd = dropWhile script_delim line in
              if cmd = '''' then Inr (False, d)
              else
                (case AddScript (\<not> strcaseeq prepost ''PRE'') (Some cmd) (node_at d job) of
                   ((ok, whynot), j) \<Rightarrow> Inr (ok, set_node job j d))) d)"

definition parse_retry :: "parser \<Rightarrow> string \<Rightarrow> Dag \<Rightarrow> (bool \<times> Dag) res" where
  "parse_retry p line d =
     with_job False p line (\<lambda>job line.
       case next_token line of
         (None, line) \<Rightarrow> Inr (False, d)
       | (Some s, line) \<Rightarrow>
           (case strtol s of (v, tmp) \<Rightarrow>
              let d = upd_node job (\<lambda>j. j\<lparr>retry_max := int_of_long v\<rparr>) d in
              if tmp = s then Inr (False, d)
              else if retry_max (node_at d job) < 0 then Inr (False, d)
              else
                (case next_token line of
                   (None, line) \<Rightarrow> Inr (True, d)
                 | (Some s, line) \<Rightarrow>
                     if \<not> strcaseeq s ''UNLESS-EXIT'' then Inr (False, d)
                     else
                       (case next_token line of
                          (None, line) \<Rightarrow> Inr (False, d)
                        | (Some s, line) \<Rightarrow>
                            (case strtol s of (v, unless_exit_end) \<Rightarrow>
                               if unless_exit_end \<noteq> '''' then Inr (False, d)
                               else Inr (True, upd_node job (\<lambda>j. j\<lparr>have_retry_abort_val := True, retry_abort_val := int_of_long v\<rparr>) d)))))) d"

definition set_abort :: "int \<Rightarrow> int \<Rightarrow> bool \<Rightarrow> job \<Rightarrow> job" where
  "set_abort abortVal returnVal haveReturnVal j =
     j\<lparr>abort_dag_val := abortVal, have_abort_dag_val := True, abort_dag_return_val := returnVal,
       have_abort_dag_return_val := haveReturnVal\<rparr>"

definition parse_abort :: "parser \<Rightarrow> string \<Rightarrow> Dag \<Rightarrow> (bool \<times> Dag) res" where
  "parse_abort p line d =
     with_job False p line (\<lambda>job line.
       case next_token line of
         (None, line) \<Rightarrow> Inr (False, d)
       | (Some abortValStr, line) \<Rightarrow>
           (case strtol abortValStr of (abortVal, tmp) \<Rightarrow>
              if tmp = abortValStr then Inr (False, d)
              else
                (case next_token line of
                   (None, line) \<Rightarrow> Inr (True, upd_node job (set_abort (int_of_long abortVal) 9999 False) d)
                 | (Some nextWord, line) \<Rightarrow>
                     if \<not> strcaseeq nextWord ''RETURN'' then Inr (False, d)
                     else
                       (case next_token line of
                          (None, line) \<Rightarrow> Inr (False, d)
                        | (Some nextWord, line) \<Rightarrow>
                            (case strtol nextWord of (v, tmp) \<Rightarrow>
                               let returnVal = int_of_long v in
                               if tmp = nextWord then Inr (False, d)
                               else if returnVal < 0 \<or> returnVal > 255 then Inr (False, d)
                               else Inr (True, upd_node job (set_abort (int_of_long abortVal) returnVal True) d)))))) d"

definition parse_priority :: "parser \<Rightarrow> string \<Rightarrow> Dag \<Rightarrow> (bool \<times> Dag) res" where
  "parse_priority p line d =
     with_job True p line (\<lambda>job line.
       case next_token line of
         (None, line) \<Rightarrow> Inr (False, d)
       | (Some valueStr, line) \<Rightarrow>
           (case strtol valueStr of (v, tmp) \<Rightarrow>
              if tmp = valueStr then Inr (False, d)
              else if fst (next_token line) \<noteq> None then Inr (False, d)
              else Inr (True, upd_node job (\<lambda>j. j\<lparr>hasNodePriority := True, nodePriority := int_of_long v\<rparr>) d))) d"

definition parse_category :: "parser \<Rightarrow> string \<Rightarrow> Dag \<Rightarrow> (bool \<times> Dag) res" where
  "parse_category p line d =
     with_job True p line (\<lambda>job line.
       case next_token line of
         (None, line) \<Rightarrow> Inr (False, d)
       | (Some categoryName, line) \<Rightarrow>
           if fst (next_token line) \<noteq> None then Inr (False, d)
           else
             bindR (SetCategory categoryName (node_at d job) (d_catThrottles d, d_heap d)) (\<lambda>(j, t, hp).
               Inr (True, set_node job j (d\<lparr>d_catThrottles := t, d_heap := hp\<rparr>)))) d"

subsection \<open>Variables\<close>

text \<open>
  The characters behind the opening quote of a value: the value and the text behind the closing
  quote. A backslash escapes a backslash or a quote.
\<close>

fun read_value :: "bool \<Rightarrow> string \<Rightarrow> string \<Rightarrow> (string \<times> string) option" where
  "read_value escaped varValue [] = None"
| "read_value False varValue (c # cs) =
     (if c = CHR 0x22 then Some (varValue, cs)
      else if c = CHR 0x5C then read_value True varValue cs
      else if c = CHR 0x27 then None
      else read_value False (varValue @ [c]) cs)"
| "read_value True varValue (c # cs) =
     (if c \<noteq> CHR 0x5C \<and> c \<noteq> CHR 0x22 then None else read_value False (varValue @ [c]) cs)"

lemma read_value_shorter: "read_value escaped v s = Some (r, rest) \<Longrightarrow> length rest < length s"
  by (induction escaped v s rule: read_value.induct) (auto split: if_splits)

definition name_char :: "char \<Rightarrow> bool" where
  "name_char c \<longleftrightarrow> isalnum c \<or> c = CHR ''_''"

text \<open>One pair: its name, its value and the text behind it.\<close>

definition read_pair :: "string \<Rightarrow> (string \<times> string \<times> string) option" where
  "read_pair str =
     (let varName = takeWhile name_char str; str = dropWhile isspace (dropWhile name_char str) in
      if varName = '''' then None
      else if str = '''' \<or> hd str \<noteq> CHR ''='' then None
      else
        (let str = dropWhile isspace (tl str) in
         if str = '''' \<or> hd str \<noteq> CHR 0x22 then None
         else
           (case read_value False '''' (tl str) of
              None \<Rightarrow> None
            | Some (varValue, str) \<Rightarrow>
                if find_string (map tolower varName) ''queue'' 0 = 0 then None else Some (varName, varValue, str))))"

lemma read_pair_shorter: "read_pair s = Some (n, v, rest) \<Longrightarrow> length rest < length s"
proof -
  assume a: "read_pair s = Some (n, v, rest)"
  let ?s1 = "dropWhile isspace (dropWhile name_char s)" and ?s2 = "dropWhile isspace (tl (dropWhile isspace (dropWhile name_char s)))"
  from a have "read_value False '''' (tl ?s2) = Some (v, rest)"
    by (auto simp: read_pair_def Let_def split: if_splits option.splits)
  then have "length rest < length (tl ?s2)" by (rule read_value_shorter)
  also have "length (tl ?s2) \<le> length (tl ?s1)" using length_dropWhile_le [of isspace "tl ?s1"] by simp
  also have "length (tl ?s1) \<le> length s"
    using length_dropWhile_le [of isspace "dropWhile name_char s"] length_dropWhile_le [of name_char s] by simp
  finally show ?thesis .
qed

text \<open>
  The pairs of a line. The flag says whether the loop ended well; the pairs before an error have been
  appended to the node already.
\<close>

function read_pairs :: "string \<Rightarrow> (string \<times> string) list \<times> bool" where
  "read_pairs str =
     (let str = dropWhile isspace str in
      if str = '''' then ([], True)
      else
        (case read_pair str of
           None \<Rightarrow> ([], False)
         | Some (varName, varValue, str) \<Rightarrow> (case read_pairs str of (ps, ok) \<Rightarrow> ((varName, varValue) # ps, ok))))"
  by pat_completeness auto
termination
proof (relation "measure length", goal_cases)
  case (2 str x pair n b v rest)
  then have "length rest < length x" by (auto dest: read_pair_shorter)
  also have "length x \<le> length str" using 2(1) length_dropWhile_le by simp
  finally show ?case by simp
qed simp

declare read_pairs.simps [simp del]

definition parse_vars :: "parser \<Rightarrow> string \<Rightarrow> Dag \<Rightarrow> (bool \<times> Dag) res" where
  "parse_vars p line d =
     with_job False p line (\<lambda>job line.
       case token_of (strtok (\<lambda>c. c = CHR 0x0A) line) of
         None \<Rightarrow> Inr (False, d)
       | Some str \<Rightarrow>
           (case read_pairs str of (ps, ok) \<Rightarrow>
              Inr (ok \<and> ps \<noteq> [],
                   upd_node job (\<lambda>j. j\<lparr>varNamesFromDag := varNamesFromDag j @ map fst ps,
                                      varValsFromDag := varValsFromDag j @ map snd ps\<rparr>) d))) d"

section \<open>Dependencies\<close>

text \<open>
  The nodes that the names of one side stand for: a splice stands for its recorded final nodes on the
  parent side and for its initial nodes on the child side. An unknown name makes the line fail.
\<close>

definition named_nodes :: "(Dag \<Rightarrow> JobID_t list) \<Rightarrow> parser \<Rightarrow> nat \<Rightarrow> string \<Rightarrow> JobID_t list option \<Rightarrow> JobID_t list option res" where
  "named_nodes recorded p a name found =
     (case found of
        None \<Rightarrow> Inr None
      | Some nodes \<Rightarrow>
          (let jobName2 = munge_job_name p (Some name) in
           case LookupSplice p a jobName2 of
             Some s \<Rightarrow> Inr (Some (nodes @ recorded (dag_at p s)))
           | None \<Rightarrow>
               bindR (FindNodeByName (Some jobName2) (dag_at p a)) (\<lambda>job.
                 case job of None \<Rightarrow> Inr None | Some i \<Rightarrow> Inr (Some (nodes @ [i])))))"

fun add_dependencies :: "(JobID_t \<times> JobID_t) list \<Rightarrow> Dag \<Rightarrow> (bool \<times> Dag) res" where
  "add_dependencies [] d = Inr (True, d)"
| "add_dependencies ((parent, child) # es) d =
     bindR (AddDependency (Some parent) (Some child) d) (\<lambda>(ok, d).
       if \<not> ok then Inr (False, d) else add_dependencies es d)"

definition parse_parent :: "nat \<Rightarrow> string \<Rightarrow> parser \<Rightarrow> (bool \<times> parser) res" where
  "parse_parent a line p =
     (let tokens = strtok_tokens script_delim line;
          parent_names = takeWhile (\<lambda>t. \<not> strcaseeq t ''CHILD'') tokens;
          after = dropWhile (\<lambda>t. \<not> strcaseeq t ''CHILD'') tokens
      in bindR (foldR (named_nodes d_splice_final_nodes p a) parent_names (Some [])) (\<lambda>parents.
           case parents of
             None \<Rightarrow> Inr (False, p)
           | Some parents \<Rightarrow>
               if length parents < 1 then Inr (False, p)
               else if after = [] then Inr (False, p)
               else
                 bindR (foldR (named_nodes d_splice_initial_nodes p a) (tl after) (Some [])) (\<lambda>children.
                   case children of
                     None \<Rightarrow> Inr (False, p)
                   | Some children \<Rightarrow>
                       if length children < 1 then Inr (False, p)
                       else on_dag a (add_dependencies [(parent, child). parent \<leftarrow> parents, child \<leftarrow> children]) p)))"

section \<open>Lines about the whole DAG\<close>

fun dot_options :: "string list \<Rightarrow> dag_object \<Rightarrow> bool \<times> dag_object" where
  "dot_options [] x = (True, x)"
| "dot_options (token # ts) x =
     (if strcaseeq token ''UPDATE'' then dot_options ts (x\<lparr>o_update_dot_file := True\<rparr>)
      else if strcaseeq token ''DONT-UPDATE'' then dot_options ts (x\<lparr>o_update_dot_file := False\<rparr>)
      else if strcaseeq token ''OVERWRITE'' then dot_options ts (x\<lparr>o_overwrite_dot_file := True\<rparr>)
      else if strcaseeq token ''DONT-OVERWRITE'' then dot_options ts (x\<lparr>o_overwrite_dot_file := False\<rparr>)
      else if strcaseeq token ''INCLUDE'' then
        (case ts of [] \<Rightarrow> (False, x) | f # ts' \<Rightarrow> dot_options ts' (x\<lparr>o_dot_include_file_name := Some f\<rparr>))
      else dot_options ts x)"

definition parse_dot :: "nat \<Rightarrow> string \<Rightarrow> parser \<Rightarrow> (bool \<times> parser) res" where
  "parse_dot a line p =
     (case strtok_tokens script_delim line of
        [] \<Rightarrow> Inr (False, p)
      | dot_file_name # ts \<Rightarrow>
          (case dot_options ts (object_at p a) of (ok, x) \<Rightarrow>
             Inr (ok, set_object a (if ok then x\<lparr>o_dot_file_name := Some dot_file_name\<rparr> else x) p)))"

definition parse_maxjobs :: "string \<Rightarrow> Dag \<Rightarrow> (bool \<times> Dag) res" where
  "parse_maxjobs line d =
     (case next_token line of
        (None, line) \<Rightarrow> Inr (False, d)
      | (Some categoryName, line) \<Rightarrow>
          (case next_token line of
             (None, line) \<Rightarrow> Inr (False, d)
           | (Some valueStr, line) \<Rightarrow>
               (case strtol valueStr of (v, tmp) \<Rightarrow>
                  if tmp = valueStr then Inr (False, d)
                  else if int_of_long v < 0 then Inr (False, d)
                  else if fst (next_token line) \<noteq> None then Inr (False, d)
                  else
                    bindR (SetThrottle (Some categoryName) (int_of_long v) (d_catThrottles d, d_heap d)) (\<lambda>(t, hp).
                      Inr (True, d\<lparr>d_catThrottles := t, d_heap := hp\<rparr>)))))"

definition SetNodeStatusFileName :: "string \<Rightarrow> int \<Rightarrow> Dag \<Rightarrow> Dag" where
  "SetNodeStatusFileName statusFileName minUpdateTime d =
     (if d_statusFileName d \<noteq> None then d
      else d\<lparr>d_statusFileName := Some statusFileName, d_minStatusUpdateTime := minUpdateTime\<rparr>)"

definition parse_node_status_file :: "string \<Rightarrow> Dag \<Rightarrow> (bool \<times> Dag) res" where
  "parse_node_status_file line d =
     (case next_token line of
        (None, line) \<Rightarrow> Inr (False, d)
      | (Some statusFileName, line) \<Rightarrow>
          (case next_token line of
             (None, line) \<Rightarrow> Inr (True, SetNodeStatusFileName statusFileName 0 d)
           | (Some minUpdateStr, line) \<Rightarrow>
               (case strtol minUpdateStr of (v, tmp) \<Rightarrow>
                  if tmp = minUpdateStr then Inr (False, d)
                  else Inr (True, SetNodeStatusFileName statusFileName (int_of_long v) d))))"

definition parse_reject :: "string \<Rightarrow> int \<Rightarrow> string \<Rightarrow> Dag \<Rightarrow> (bool \<times> Dag) res" where
  "parse_reject filename lineNumber line d =
     (if fst (next_token line) \<noteq> None then Inr (False, d)
      else Inr (True, SetReject (filename @ '' (line '' @ string_of_int lineNumber @ '')'') d))"

definition SetJobstateLogFileName :: "string \<Rightarrow> Dag \<Rightarrow> Dag" where
  "SetJobstateLogFileName logFileName d =
     (if d_jobstateLogFile d \<noteq> None then d else d\<lparr>d_jobstateLogFile := Some logFileName\<rparr>)"

definition parse_jobstate_log :: "string \<Rightarrow> Dag \<Rightarrow> (bool \<times> Dag) res" where
  "parse_jobstate_log line d =
     (case next_token line of
        (None, line) \<Rightarrow> Inr (False, d)
      | (Some logFileName, line) \<Rightarrow>
          if fst (next_token line) \<noteq> None then Inr (False, d) else Inr (True, SetJobstateLogFileName logFileName d))"

section \<open>Splices\<close>

definition set_splices :: "nat \<Rightarrow> (string, nat) HashTable \<Rightarrow> parser \<Rightarrow> parser" where
  "set_splices a t p = set_object a ((object_at p a)\<lparr>o_splices := t\<rparr>) p"

text \<open>
  \<open>LiftSplices\<close> of the object \<open>a\<close>; the flag is the layer \<open>DESCENDENTS\<close>. A splice that still has splices
  of its own returns a null pointer, which its parent dereferences. The first argument bounds the depth of
  the tree of splices; the objects are created from the root down, so their number is enough.
\<close>

primrec LiftSplices :: "nat \<Rightarrow> bool \<Rightarrow> nat \<Rightarrow> parser \<Rightarrow> (OwnedMaterials option \<times> parser) res" where
  "LiftSplices 0 descendents a p = Inl (Crash ''LiftSplices'')"
| "LiftSplices (Suc n) descendents a p =
     (if descendents \<and> h_numElems (o_splices (object_at p a)) = 0 then
        (case RelinquishNodeOwnership (dag_at p a) of (om, d) \<Rightarrow> Inr (Some om, set_dag a d p))
      else
        (case hash_walk
                (\<lambda>key child r. bindR r (\<lambda>p.
                   bindR (LiftSplices n True child (share a child p)) (\<lambda>(om, p).
                     let p = share child a p in
                     case om of
                       None \<Rightarrow> Inl (Crash ''om->nodes'')
                     | Some om \<Rightarrow> bindR (AssumeOwnershipofNodes om (dag_at p a)) (\<lambda>d. Inr (set_dag a d p)))))
                (startIterations (o_splices (object_at p a))) (Inr p) of
           (r, t) \<Rightarrow>
             bindR r (\<lambda>p.
               case hash_drain (Suc (h_numElems t)) (startIterations t) of
                 None \<Rightarrow> Inl (Crash ''_splices.remove(key)'')
               | Some t \<Rightarrow>
                   (let p = set_splices a t p in Inr (None, set_dag a (PropogateDirectoryToAllNodes (dag_at p a)) p)))))"

definition LiftChildSplices :: "nat \<Rightarrow> parser \<Rightarrow> parser res" where
  "LiftChildSplices a p =
     (case hash_walk
             (\<lambda>key child r. bindR r (\<lambda>p.
                bindR (LiftSplices (length (ps_objects p)) False child (share a child p)) (\<lambda>(om, p). Inr (share child a p))))
             (startIterations (o_splices (object_at p a))) (Inr p) of
        (r, t) \<Rightarrow> bindR r (\<lambda>p. Inr (set_splices a t p)))"

definition toupper :: "char \<Rightarrow> char" where
  "toupper c = (if 97 \<le> (of_char c :: nat) \<and> (of_char c :: nat) \<le> 122 then char_of (of_char c - 32 :: nat) else c)"

definition splice_config :: "Dag \<Rightarrow> dag_config" where
  "splice_config d =
     \<lparr>c_maxJobsSubmitted = d_maxJobsSubmitted d, c_maxPreScripts = d_maxPreScripts d, c_maxPostScripts = d_maxPostScripts d,
      c_allowLogError = d_allowLogError d, c_maxIdleJobProcs = d_maxIdleJobProcs d,
      c_retrySubmitFirst = d_retrySubmitFirst d, c_retryNodeFirst = d_retryNodeFirst d,
      c_submitDepthFirst = d_submitDepthFirst d, c_defaultNodeLog = d_defaultNodeLog d,
      c_generateSubdagSubmits = d_generateSubdagSubmits d, c_isSplice = True\<rparr>"

text \<open>The new \<open>Dag\<close> object of a splice; it gets the next index and the memory.\<close>

definition new_splice :: "string \<Rightarrow> nat \<Rightarrow> parser \<Rightarrow> nat \<times> parser" where
  "new_splice dir a p =
     (let b = length (ps_objects p);
          x = new_object (splice_config (dag_at p a)) (o_prohibitMultiJobs (object_at p a));
          x = x\<lparr>o_dag := (o_dag x)\<lparr>d_directory := dir\<rparr>\<rparr>
      in (b, share a b (p\<lparr>ps_objects := ps_objects p @ [x], ps_thisDagNum := ps_thisDagNum p - 1\<rparr>)))"

text \<open>After the file of the splice has been parsed into the object \<open>b\<close>.\<close>

definition insert_splice :: "string \<Rightarrow> nat \<Rightarrow> nat \<Rightarrow> parser \<Rightarrow> (bool \<times> parser) res" where
  "insert_splice spliceName b a p =
     (let scope = current_splice_scope p in
      bindR (PrefixAllNodeNames scope (dag_at p b)) (\<lambda>d.
      bindR (PrefixAllCategoryNames scope (d_catThrottles d, d_heap d)) (\<lambda>(t, hp).
        let p = share b a (set_dag b (d\<lparr>d_catThrottles := t, d_heap := hp\<rparr>) p) in
        case hash_insert (munge_job_name p (Some spliceName)) b (o_splices (object_at p a)) of (rc, t) \<Rightarrow>
          if rc = -1 then Inr (False, p)
          else
            bindR (LiftChildSplices a (set_splices a t p)) (\<lambda>p.
              Inr (True, p\<lparr>ps_spliceScope := butlast (ps_spliceScope p)\<rparr>)))))"

text \<open>The tokens behind the splice file: a directory, or nothing; the first token is not checked otherwise.\<close>

definition splice_directory :: "string \<Rightarrow> string option" where
  "splice_directory line =
     (case next_token line of (dirTok, line) \<Rightarrow>
      case (if map toupper (null_to_empty dirTok) = ''DIR'' then next_token line else (Some ''.'', line)) of (dir, line) \<Rightarrow>
        if null_to_empty dir = '''' then None
        else if fst (next_token line) \<noteq> None then None
        else dir)"

definition parse_splice ::
  "(nat \<Rightarrow> string \<Rightarrow> bool \<Rightarrow> parser \<Rightarrow> (bool \<times> parser) res) \<Rightarrow> files \<Rightarrow> nat \<Rightarrow> string \<Rightarrow> parser \<Rightarrow> (bool \<times> parser) res" where
  "parse_splice parse_file fs a line p =
     (case next_token line of (name, line) \<Rightarrow>
        let spliceName = null_to_empty name in
        if spliceName = '''' then Inr (False, p)
        else
          bindR (NodeExists (Some spliceName) (dag_at p a)) (\<lambda>exists.
            if exists then Inr (False, p)
            else
              (let p = p\<lparr>ps_spliceScope := ps_spliceScope p @ [munge_job_name p (Some spliceName)]\<rparr> in
               case next_token line of (file, line) \<Rightarrow>
               let spliceFile = null_to_empty file in
               if spliceFile = '''' then Inr (False, p)
               else
                 (case splice_directory line of
                    None \<Rightarrow> Inr (False, p)
                  | Some dir \<Rightarrow>
                      (case new_splice dir a p of (b, p) \<Rightarrow>
                       bindR (Cd2TmpDir fs dir p) (\<lambda>(ok, mainDir, p).
                         if \<not> ok then Inr (False, p)
                         else
                           bindR (parse_file b spliceFile (ps_useDagDir p) p) (\<lambda>(ok, p).
                             if \<not> ok then Inl (DC_Exit 1)
                             else bindR (Cd2MainDir fs mainDir p) (insert_splice spliceName b a))))))))"

section \<open>Files\<close>

text \<open>The line dispatcher; \<open>on_splice\<close> handles a \<open>SPLICE\<close> line.\<close>

definition parse_line ::
  "files \<Rightarrow> (nat \<Rightarrow> string \<Rightarrow> parser \<Rightarrow> (bool \<times> parser) res) \<Rightarrow> nat \<Rightarrow> string \<Rightarrow> string \<Rightarrow> int \<Rightarrow> string \<Rightarrow> parser \<Rightarrow> (bool \<times> parser) res" where
  "parse_line fs on_splice a filename dir lineNumber line p =
     (if line = '''' \<or> hd line = CHR ''#'' then Inr (True, p)
      else
        (case strtok script_delim line of
           None \<Rightarrow> Inr (True, p)
         | Some (token, rest) \<Rightarrow>
             if strcaseeq token ''JOB'' then parse_node fs a TYPE_CONDOR token dir rest p
             else if strcaseeq token ''DAP'' then parse_node fs a TYPE_STORK token dir rest p
             else if strcaseeq token ''DATA'' then parse_node fs a TYPE_STORK token dir rest p
             else if strcaseeq token ''SUBDAG'' then parse_subdag fs a TYPE_CONDOR token dir rest p
             else if strcaseeq token ''SCRIPT'' then on_dag a (parse_script p rest) p
             else if strcaseeq token ''PARENT'' then parse_parent a rest p
             else if strcaseeq token ''RETRY'' then on_dag a (parse_retry p rest) p
             else if strcaseeq token ''ABORT-DAG-ON'' then on_dag a (parse_abort p rest) p
             else if strcaseeq token ''DOT'' then parse_dot a rest p
             else if strcaseeq token ''VARS'' then on_dag a (parse_vars p rest) p
             else if strcaseeq token ''PRIORITY'' then on_dag a (parse_priority p rest) p
             else if strcaseeq token ''CATEGORY'' then on_dag a (parse_category p rest) p
             else if strcaseeq token ''MAXJOBS'' then on_dag a (parse_maxjobs rest) p
             else if strcaseeq token ''CONFIG'' then Inr (True, p)
             else if strcaseeq token ''SPLICE'' then on_splice a rest p
             else if strcaseeq token ''NODE_STATUS_FILE'' then on_dag a (parse_node_status_file rest) p
             else if strcaseeq token ''REJECT'' then on_dag a (parse_reject filename lineNumber rest) p
             else if strcaseeq token ''JOBSTATE_LOG'' then on_dag a (parse_jobstate_log rest) p
             else Inr (False, p)))"

fun parse_lines :: "(int \<Rightarrow> string \<Rightarrow> parser \<Rightarrow> (bool \<times> parser) res) \<Rightarrow> int \<Rightarrow> string list \<Rightarrow> parser \<Rightarrow> (bool \<times> parser) res" where
  "parse_lines handle lineNumber [] p = Inr (True, p)"
| "parse_lines handle lineNumber (line # ls) p =
     bindR (handle (lineNumber + 1) line p) (\<lambda>(ok, p).
       if \<not> ok then Inr (False, p) else parse_lines handle (lineNumber + 1) ls p)"

definition parse_open ::
  "(string \<Rightarrow> string \<Rightarrow> string option) \<Rightarrow> files \<Rightarrow> (nat \<Rightarrow> string \<Rightarrow> parser \<Rightarrow> (bool \<times> parser) res) \<Rightarrow>
   nat \<Rightarrow> string \<Rightarrow> string \<Rightarrow> string \<Rightarrow> parser \<Rightarrow> (bool \<times> parser) res" where
  "parse_open open_file fs on_splice a filename tmpFilename tmpDirectory p =
     (case open_file (ps_cwd p) tmpFilename of
        None \<Rightarrow> Inr (False, p)
      | Some input \<Rightarrow>
          bindR (parse_lines (parse_line fs on_splice a filename tmpDirectory) 0 (getlines input) p) (\<lambda>(ok, p).
            if \<not> ok then Inr (False, p) else Inr (True, set_dag a (RecordInitialAndFinalNodes (dag_at p a)) p)))"

definition parse_with ::
  "(string \<Rightarrow> string \<Rightarrow> string option) \<Rightarrow> files \<Rightarrow> (nat \<Rightarrow> string \<Rightarrow> parser \<Rightarrow> (bool \<times> parser) res) \<Rightarrow>
   nat \<Rightarrow> string \<Rightarrow> bool \<Rightarrow> parser \<Rightarrow> (bool \<times> parser) res" where
  "parse_with open_file fs on_splice a filename useDagDir p =
     (let p = p\<lparr>ps_thisDagNum := ps_thisDagNum p + 1, ps_useDagDir := useDagDir\<rparr> in
      if useDagDir then
        in_TmpDir fs (condor_dirname filename)
          (parse_open open_file fs on_splice a filename (condor_basename filename) (condor_dirname filename)) p
      else parse_open open_file fs on_splice a filename filename '''' p)"

text \<open>The first argument is the number of file descriptors left.\<close>

primrec parse :: "nat \<Rightarrow> files \<Rightarrow> nat \<Rightarrow> string \<Rightarrow> bool \<Rightarrow> parser \<Rightarrow> (bool \<times> parser) res" where
  "parse 0 fs = parse_with (\<lambda>cwd name. None) fs (\<lambda>a line p. Inr (False, p))"
| "parse (Suc n) fs = parse_with (f_fopen fs) fs (parse_splice (parse n fs) fs)"

end
