(* ===== verification/Dag_Load.thy ===== *)
theory Dag_Load
  imports Dag_Parse Dag_Main
begin

text \<open>
  The middle part of \<open>main_init\<close> (\<open>condor_dagman/dagman_main.cpp\<close>): choosing a rescue DAG, creating the
  \<open>Dag\<close>, parsing the DAG files, lifting the splices. It ends with \<^const>\<open>start_dag\<close>. The reading of the
  command line and of the configuration before it is not modelled; its results are the two records
  \<^typ>\<open>Dagman\<close> and \<open>startup\<close>.

  The \<open>Dag\<close> is created after the search for rescue files in the code and before it here, since it
  carries the count of questions to the outside world.
\<close>

text \<open>The members of \<open>Dagman\<close> that only \<open>main_init\<close> reads.\<close>

record startup =
  st_dagFiles :: "string list"
  st_config :: dag_config
  st_useDagDir :: bool
  st_mungeNodeNames :: bool
  st_prohibitMultiJobs :: bool
  st_doRescueFrom :: int
  st_autoRescue :: bool
  st_abortOnScarySubmit :: bool
  st_allow_events :: int
  st_dagmanConfigFile :: "string option"
  st_maxJobHolds :: int

definition SetAllowEvents_dag :: "int \<Rightarrow> Dag \<Rightarrow> Dag" where
  "SetAllowEvents_dag allowEvents d =
     d\<lparr>d_checkCondorEvents := SetAllowEvents allowEvents (d_checkCondorEvents d),
       d_checkStorkEvents := SetAllowEvents allowEvents (d_checkStorkEvents d)\<rparr>"

definition create_dag :: "startup \<Rightarrow> Dag" where
  "create_dag su =
     (SetAllowEvents_dag (st_allow_events su) (new_Dag (st_config su)))
       \<lparr>d_abortOnScarySubmit := st_abortOnScarySubmit su, d_configFile := st_dagmanConfigFile su,
        d_maxJobHolds := st_maxJobHolds su\<rparr>"

text \<open>The number of the rescue DAG to run, 0 for none, and the settings that go with it.\<close>

definition choose_rescue :: "env \<Rightarrow> Dagman \<Rightarrow> startup \<Rightarrow> Dag \<Rightarrow> (startup \<times> Dag) res" where
  "choose_rescue e dm su d =
     bindR (if st_doRescueFrom su \<noteq> 0 then
              bindR (RenameRescueDagsAfter e (dm_primaryDagFile dm) (dm_multiDags dm) (st_doRescueFrom su) (dm_maxRescueDagNum dm) d)
                (\<lambda>d. Inr (st_doRescueFrom su, d))
            else if st_autoRescue su then FindLastRescueDagNum e (dm_primaryDagFile dm) (dm_multiDags dm) (dm_maxRescueDagNum dm) d
            else Inr (0, d)) (\<lambda>(rescueDagNum, d).
       if rescueDagNum > 0 then
         bindR (RescueDagName (dm_primaryDagFile dm) (dm_multiDags dm) rescueDagNum) (\<lambda>rescueFileToRun.
           Inr (su\<lparr>st_dagFiles := [rescueFileToRun], st_useDagDir := False\<rparr>, d))
       else Inr (su, d))"

definition new_parser :: "startup \<Rightarrow> string \<Rightarrow> Dag \<Rightarrow> parser" where
  "new_parser su cwd d =
     \<lparr>ps_objects = [(new_object (st_config su) (st_prohibitMultiJobs su))\<lparr>o_dag := d\<rparr>], ps_spliceScope = [],
      ps_useDagDir = False, ps_thisDagNum = -1,
      ps_mungeNames = (if length (st_dagFiles su) < 2 then False else st_mungeNodeNames su),
      ps_jobID_counter = 0, ps_cwd = cwd\<rparr>"

text \<open>A failed parse ends the process, after a dump of what was parsed if that was asked for.\<close>

fun parse_files :: "env \<Rightarrow> Dagman \<Rightarrow> nat \<Rightarrow> files \<Rightarrow> bool \<Rightarrow> string list \<Rightarrow> parser \<Rightarrow> (run_state + parser) res" where
  "parse_files e dm fds fs useDagDir [] p = Inr (Inr p)"
| "parse_files e dm fds fs useDagDir (f # rest) p =
     bindR (parse fds fs 0 f useDagDir p) (\<lambda>(ok, p).
       if ok then parse_files e dm fds fs useDagDir rest p
       else
         bindR (if dm_dumpRescueDag dm
                then Rescue e (dm_primaryDagFile dm) (dm_multiDags dm) (dm_maxRescueDagNum dm) True (dag_at p 0)
                else Inr (dag_at p 0))
           (\<lambda>d. Inr (Inl (Exited 1 d))))"

text \<open>After parsing: the splices are lifted and \<open>$(JOB)\<close> is replaced in the variables.\<close>

definition finish_load :: "parser \<Rightarrow> Dag res" where
  "finish_load p =
     bindR (LiftSplices (Suc (length (ps_objects p))) False 0 p) (\<lambda>(om, p).
     bindR (CheckThrottleCats (dag_at p 0)) (\<lambda>d. Inr (ResolveVarsInterpolations d)))"

definition main_init :: "env \<Rightarrow> Dagman \<Rightarrow> startup \<Rightarrow> nat \<Rightarrow> files \<Rightarrow> string \<Rightarrow> run_state res option" where
  "main_init e dm su fds fs cwd =
     bindO (Some (choose_rescue e dm su (create_dag su))) (\<lambda>(su, d).
     bindO (Some (parse_files e dm fds fs (st_useDagDir su) (st_dagFiles su) (new_parser su cwd d))) (\<lambda>r.
       case r of
         Inl s \<Rightarrow> Some (Inr s)
       | Inr p \<Rightarrow> bindO (Some (finish_load p)) (start_dag e dm)))"

end
