(* ===== verification/Dag_Built.thy ===== *)
theory Dag_Built
  imports Dag_Load Dag_Boot
begin

text \<open>
  What parsing builds: every line that is accepted keeps the memory of nodes and the tables of the
  DAG consistent, a splice keeps its nodes apart until they are lifted, and the DAG that is started has
  exactly the nodes of all files (\<open>fresh_ok\<close>).

  The memory is shared by the \<open>Dag\<close> objects, the tables are not: \<open>mem_ok\<close> is about all nodes in memory,
  \<open>tables_ok\<close> about those in \<open>d_jobs\<close>.
\<close>

section \<open>One object\<close>

definition mem_ok :: "Dag \<Rightarrow> bool" where
  "mem_ok d \<longleftrightarrow>
     (\<forall>i \<in> dom (d_nodes d). jobID (node_at d i) = i \<and> \<not> countedAsDone (node_at d i) \<and>
        retries (node_at d i) = 0 \<and> 0 \<le> retry_max (node_at d i)) \<and>
     symmetric_deps d \<and> waiting_ok d"

definition tables_ok :: "Dag \<Rightarrow> bool" where
  "tables_ok d \<longleftrightarrow>
     distinct (d_jobs d) \<and> set (d_jobs d) \<subseteq> dom (d_nodes d) \<and>
     (\<forall>i p. d_nodeIDHash d i = Some p \<longleftrightarrow> p = i \<and> i \<in> set (d_jobs d)) \<and>
     (\<forall>n p. d_nodeNameHash d n = Some p \<longleftrightarrow> p \<in> set (d_jobs d) \<and> jobName (node_at d p) = n) \<and>
     set (d_splice_initial_nodes d) \<union> set (d_splice_final_nodes d) \<subseteq> dom (d_nodes d)"

text \<open>The parts of the state that only running changes.\<close>

definition same_idle :: "Dag \<Rightarrow> Dag \<Rightarrow> bool" where
  "same_idle d d' \<longleftrightarrow> d_numNodesDone d' = d_numNodesDone d \<and> d_readyQ d' = d_readyQ d \<and>
     d_condorIDHash d' = d_condorIDHash d \<and> d_storkIDHash d' = d_storkIDHash d \<and> d_noopIDHash d' = d_noopIDHash d \<and>
     d_preScriptQ d' = d_preScriptQ d \<and> d_postScriptQ d' = d_postScriptQ d \<and> d_submitQ d' = d_submitQ d \<and>
     d_trace d' = d_trace d"

lemma same_idle_refl [simp]: "same_idle d d"
  by (simp add: same_idle_def)

lemma same_idle_trans [trans]: "same_idle d d' \<Longrightarrow> same_idle d' d'' \<Longrightarrow> same_idle d d''"
  by (simp add: same_idle_def)

lemma mem_ok_cong: "d_nodes d' = d_nodes d \<Longrightarrow> mem_ok d' = mem_ok d"
  by (simp add: mem_ok_def symmetric_deps_def waiting_ok_def node_at_def)

lemma fresh_ok_built:
  assumes "mem_ok d" "tables_ok d" "set (d_jobs d) = dom (d_nodes d)" "same_idle (create_dag su) d'" "same_idle (d'\<lparr>d_trace := t\<rparr>) d"
    and "\<forall>a \<in> set t. \<exists>f g. a = A_rename f g"
  shows "fresh_ok d"
proof -
  have "store_ok d" using assms(1-3) by (simp add: mem_ok_def tables_ok_def store_ok_def)
  moreover have "trace_ok d" using assms(5,6) by (fastforce simp: trace_ok_def same_idle_def)
  ultimately show ?thesis
    using assms by (simp add: fresh_ok_def graph_ok_def mem_ok_def same_idle_def create_dag_def SetAllowEvents_dag_def new_Dag_def pl_invar_new)
qed

subsection \<open>Changes that do not touch the graph\<close>

definition harmless :: "job \<Rightarrow> job \<Rightarrow> bool" where
  "harmless j j' \<longleftrightarrow> jobID j' = jobID j \<and> jobName j' = jobName j \<and> Status j' = Status j \<and> queues j' = queues j \<and>
     countedAsDone j' = countedAsDone j \<and> retries j' = retries j \<and> (0 \<le> retry_max j \<longrightarrow> 0 \<le> retry_max j')"

lemma harmless_refl [simp]: "harmless j j"
  by (simp add: harmless_def)

text \<open>Names, states and tables stay; the graph may have changed.\<close>

definition evolves :: "Dag \<Rightarrow> Dag \<Rightarrow> bool" where
  "evolves d d' \<longleftrightarrow> dom (d_nodes d') = dom (d_nodes d) \<and>
     (\<forall>i \<in> dom (d_nodes d). jobName (node_at d' i) = jobName (node_at d i) \<and> status_of d' i = status_of d i) \<and>
     d_jobs d' = d_jobs d \<and> d_nodeIDHash d' = d_nodeIDHash d \<and> d_nodeNameHash d' = d_nodeNameHash d \<and>
     d_splice_initial_nodes d' = d_splice_initial_nodes d \<and> d_splice_final_nodes d' = d_splice_final_nodes d \<and> same_idle d d'"

definition edit :: "Dag \<Rightarrow> Dag \<Rightarrow> bool" where
  "edit d d' \<longleftrightarrow> evolves d d' \<and> (\<forall>i \<in> dom (d_nodes d). harmless (node_at d i) (node_at d' i))"

lemma evolves_refl [simp]: "evolves d d"
  by (simp add: evolves_def)

lemma evolves_trans [trans]: "evolves d d' \<Longrightarrow> evolves d' d'' \<Longrightarrow> evolves d d''"
  unfolding evolves_def by (auto intro: same_idle_trans)

lemma edit_refl [simp]: "edit d d"
  by (simp add: edit_def)

lemma edit_trans: "edit d d' \<Longrightarrow> edit d' d'' \<Longrightarrow> edit d d''"
  unfolding edit_def by (auto simp: harmless_def evolves_def intro: same_idle_trans)

lemma evolves_tables: "tables_ok d \<Longrightarrow> evolves d d' \<Longrightarrow> tables_ok d'"
proof -
  assume t: "tables_ok d" and e: "evolves d d'"
  have s: "set (d_jobs d) \<subseteq> dom (d_nodes d)" using t by (simp add: tables_ok_def)
  then have n: "jobName (node_at d' p) = jobName (node_at d p)" if "p \<in> set (d_jobs d)" for p
    using e that unfolding evolves_def by blast
  show ?thesis using t e n unfolding tables_ok_def by (simp add: evolves_def del: domIff) metis
qed

lemma mem_ok_fields:
  assumes "mem_ok d" and dm: "dom (d_nodes d') = dom (d_nodes d)"
    and h: "\<And>i. i \<in> dom (d_nodes d) \<Longrightarrow> jobID (node_at d' i) = jobID (node_at d i) \<and> status_of d' i = status_of d i \<and>
      queues (node_at d' i) = queues (node_at d i) \<and> countedAsDone (node_at d' i) = countedAsDone (node_at d i) \<and>
      retries (node_at d' i) = retries (node_at d i) \<and> (0 \<le> retry_max (node_at d i) \<longrightarrow> 0 \<le> retry_max (node_at d' i))"
  shows "mem_ok d'"
proof -
  have sym: "symmetric_deps d" and w: "waiting_ok d" using assms(1) by (simp_all add: mem_ok_def)
  have q: "queues (node_at d' i) = queues (node_at d i)" if "i \<in> dom (d_nodes d)" for i using h [OF that] by simp
  have "symmetric_deps d'" using sym q unfolding symmetric_deps_def dm by simp
  moreover have "queue_of d' i Q_WAITING = {p \<in> queue_of d' i Q_PARENTS. status_of d' p \<noteq> STATUS_DONE}"
    if i: "i \<in> dom (d_nodes d)" for i
  proof -
    have "queue_of d i Q_PARENTS \<subseteq> dom (d_nodes d)" using sym i unfolding symmetric_deps_def by blast
    then have "status_of d' p = status_of d p" if "p \<in> queue_of d i Q_PARENTS" for p using h that by blast
    then show ?thesis using w i unfolding waiting_ok_def q [OF i] by auto
  qed
  then have "waiting_ok d'" by (simp add: waiting_ok_def dm)
  ultimately show ?thesis using assms(1) h unfolding mem_ok_def dm by simp
qed

lemma edit_mem: "mem_ok d \<Longrightarrow> edit d d' \<Longrightarrow> mem_ok d'"
  by (erule mem_ok_fields) (auto simp: edit_def evolves_def harmless_def simp del: domIff)

lemma edit_upd_node:
  assumes "i \<in> dom (d_nodes d)" and "harmless (node_at d i) (f (node_at d i))"
  shows "edit d (upd_node i f d)"
  using assms by (auto simp: edit_def evolves_def same_idle_def harmless_def upd_node_def set_node_def node_at_def)

lemma upd_node_twice: "upd_node i g (upd_node i f d) = upd_node i (\<lambda>j. g (f j)) d"
  by (simp add: upd_node_def set_node_def node_at_def)

lemma edit_set_node:
  assumes "i \<in> dom (d_nodes d)" and "harmless (node_at d i) j"
  shows "edit d (set_node i j d)"
  using edit_upd_node [of i d "\<lambda>_. j"] assms by (simp add: upd_node_def)

lemma edit_settings [simp]:
  "edit d (d\<lparr>d_catThrottles := t, d_heap := hp\<rparr>)" "edit d (SetReject l d)" "edit d (SetNodeStatusFileName f n d)"
  "edit d (SetJobstateLogFileName f d)" "edit d (d\<lparr>d_directory := s\<rparr>)" "edit d (d\<lparr>d_catThrottles := t\<rparr>)"
  by (auto simp: edit_def evolves_def same_idle_def node_at_def SetReject_def SetNodeStatusFileName_def SetJobstateLogFileName_def Let_def)

section \<open>Lines about one node\<close>

lemma with_job_edit:
  assumes "with_job c p line body d = Inr (True, d')" and "tables_ok d"
    and "\<And>i rest. i \<in> dom (d_nodes d) \<Longrightarrow> body i rest = Inr (True, d') \<Longrightarrow> edit d d'"
  shows "edit d d'"
proof -
  obtain i rest where "d_nodeNameHash d (jobName (node_at d i)) = Some i" "body i rest = Inr (True, d')"
    using assms(1) by (auto simp: with_job_def FindNodeByName_def split: prod.splits option.splits if_splits)
  moreover from this(1) have "i \<in> dom (d_nodes d)" using assms(2) unfolding tables_ok_def by blast
  ultimately show ?thesis using assms(3) by blast
qed

lemma parse_script_edit:
  assumes "parse_script p line d = Inr (True, d')" and "tables_ok d"
  shows "edit d d'"
proof -
  obtain b s where w: "with_job True p s (\<lambda>job line.
              let cmd = dropWhile script_delim line in
              if cmd = '''' then Inr (False, d)
              else
                (case AddScript b (Some cmd) (node_at d job) of
                   ((ok, whynot), j) \<Rightarrow> Inr (ok, set_node job j d))) d = Inr (True, d')"
    using assms(1) by (auto simp: parse_script_def split: prod.splits option.splits if_splits)
  show ?thesis
    by (rule with_job_edit [OF w assms(2)])
      (auto simp: AddScript_def harmless_def Let_def split: prod.splits if_splits intro!: edit_set_node)
qed

lemma parse_retry_edit:
  assumes "parse_retry p line d = Inr (True, d')" and "tables_ok d"
  shows "edit d d'"
  by (rule with_job_edit [OF assms(1) [unfolded parse_retry_def] assms(2)])
    (auto simp: Let_def upd_node_twice split: prod.splits option.splits if_splits intro!: edit_upd_node simp: harmless_def)

lemma parse_abort_edit:
  assumes "parse_abort p line d = Inr (True, d')" and "tables_ok d"
  shows "edit d d'"
  by (rule with_job_edit [OF assms(1) [unfolded parse_abort_def] assms(2)])
    (auto simp: Let_def set_abort_def harmless_def split: prod.splits option.splits if_splits intro!: edit_upd_node)

lemma parse_priority_edit:
  assumes "parse_priority p line d = Inr (True, d')" and "tables_ok d"
  shows "edit d d'"
  by (rule with_job_edit [OF assms(1) [unfolded parse_priority_def] assms(2)])
    (auto simp: harmless_def split: prod.splits option.splits if_splits intro!: edit_upd_node)

lemma parse_vars_edit:
  assumes "parse_vars p line d = Inr (True, d')" and "tables_ok d"
  shows "edit d d'"
  by (rule with_job_edit [OF assms(1) [unfolded parse_vars_def] assms(2)])
    (auto simp: harmless_def split: prod.splits option.splits if_splits intro!: edit_upd_node)

lemma SetCategory_harmless: "SetCategory c j s = Inr (j', t, hp) \<Longrightarrow> harmless j j'"
  by (auto simp: SetCategory_def Let_def harmless_def split: if_splits)

lemma set_node_settings: "set_node i j (d\<lparr>d_catThrottles := t, d_heap := hp\<rparr>) = (set_node i j d)\<lparr>d_catThrottles := t, d_heap := hp\<rparr>"
  by (simp add: set_node_def)

lemma edit_category:
  assumes "i \<in> dom (d_nodes d)" and "SetCategory c (node_at d i) s = Inr (j, t, hp)"
  shows "edit d (set_node i j (d\<lparr>d_catThrottles := t, d_heap := hp\<rparr>))"
  unfolding set_node_settings
  by (rule edit_trans [OF edit_set_node [OF assms(1) SetCategory_harmless [OF assms(2)]]]) simp

lemma parse_category_edit:
  assumes "parse_category p line d = Inr (True, d')" and "tables_ok d"
  shows "edit d d'"
  by (rule with_job_edit [OF assms(1) [unfolded parse_category_def] assms(2)])
    (auto split: prod.splits option.splits if_splits intro!: edit_category)

lemma parse_settings_edit:
  "parse_maxjobs line d = Inr (True, d') \<Longrightarrow> edit d d'"
  "parse_node_status_file line d = Inr (True, d') \<Longrightarrow> edit d d'"
  "parse_reject filename n line d = Inr (True, d') \<Longrightarrow> edit d d'"
  "parse_jobstate_log line d = Inr (True, d') \<Longrightarrow> edit d d'"
  by (auto simp: parse_maxjobs_def parse_node_status_file_def parse_reject_def parse_jobstate_log_def split: prod.splits option.splits if_splits)

lemmas line_edits = parse_script_edit parse_retry_edit parse_abort_edit parse_priority_edit parse_vars_edit parse_category_edit
  parse_settings_edit

section \<open>Dependencies\<close>

lemma AddDependency_built:
  assumes ok: "mem_ok d" and pc: "p \<in> dom (d_nodes d)" "c \<in> dom (d_nodes d)" and add: "AddDependency (Some p) (Some c) d = Inr (True, d')"
  shows "mem_ok d'" and "evolves d d'" and "edges d' = insert (p, c) (edges d)"
proof -
  have ids: "jobID (node_at d c) = c" "jobID (node_at d p) = p" using ok pc by (simp_all add: mem_ok_def)
  have sym: "symmetric_deps d" and w: "waiting_ok d" using ok by (simp_all add: mem_ok_def)
  have wc: "queue_of d c Q_WAITING = {q \<in> queue_of d c Q_PARENTS. status_of d q \<noteq> STATUS_DONE}" using w pc by (simp add: waiting_ok_def)
  have may: "may_add d p c"
    using AddDependency_not_added [OF ids, of d'] add wc by auto
  obtain d'' where d'': "AddDependency (Some p) (Some c) d = Inr (True, d'')" "dom (d_nodes d'') = dom (d_nodes d)"
    "\<And>i. node_at d'' i = (node_at d i)\<lparr>queues := with_edge d p c i\<rparr>" "\<exists>m. d'' = d\<lparr>d_nodes := m\<rparr>"
    using AddDependency_memory [OF ids wc pc may] by metis
  then have d': "d'' = d'" using add by simp
  note dom = d''(2) [unfolded d'] and node = d''(3) [unfolded d']
  have "symmetric_deps d'" using sym pc unfolding symmetric_deps_def dom node with_edge_def by auto
  moreover have "waiting_ok d'" using w pc unfolding waiting_ok_def dom node with_edge_def by auto
  ultimately show "mem_ok d'" using ok by (simp add: mem_ok_def dom node)
  show "evolves d d'" using d''(4) dom node unfolding d' by (auto simp: evolves_def same_idle_def)
  show "edges d' = insert (p, c) (edges d)" using pc unfolding edges_def dom node by (auto simp: with_edge_def split: if_splits)
qed

lemma add_dependencies_built:
  assumes "add_dependencies es d = Inr (True, d')" and "mem_ok d" and "\<forall>(p, c) \<in> set es. p \<in> dom (d_nodes d) \<and> c \<in> dom (d_nodes d)"
  shows "mem_ok d' \<and> evolves d d' \<and> edges d' = edges d \<union> set es"
  using assms
proof (induction es arbitrary: d)
  case (Cons e es)
  obtain p c where e: "e = (p, c)" by fastforce
  have pc: "p \<in> dom (d_nodes d)" "c \<in> dom (d_nodes d)" using Cons.prems(3) by (simp_all add: e)
  obtain d1 where d1: "AddDependency (Some p) (Some c) d = Inr (True, d1)" "add_dependencies es d1 = Inr (True, d')"
    using Cons.prems(1) by (auto simp: e split: if_splits)
  note b = AddDependency_built [OF Cons.prems(2) pc d1(1)]
  have "dom (d_nodes d1) = dom (d_nodes d)" using b(2) by (simp add: evolves_def)
  then have "\<forall>(p, c) \<in> set es. p \<in> dom (d_nodes d1) \<and> c \<in> dom (d_nodes d1)" using Cons.prems(3) by simp
  from Cons.IH [OF d1(2) b(1) this] b show ?case using evolves_trans by (auto simp: e)
qed simp

section \<open>Adding a node\<close>

lemma Dag_Add_built:
  assumes ok: "mem_ok d" "tables_ok d" and new: "jobID j \<notin> dom (d_nodes d)" "jobName j \<notin> dom (d_nodeNameHash d)"
    and j: "queues j = (\<lambda>_. {})" "\<not> countedAsDone j" "retries j = 0" "0 \<le> retry_max j" and add: "Dag_Add j d = Inr d'"
  shows "mem_ok d'" and "tables_ok d'" and "dom (d_nodes d') = insert (jobID j) (dom (d_nodes d))"
    and "d_jobs d' = d_jobs d @ [jobID j]" and "same_idle d d'"
    and "\<And>i. i \<in> dom (d_nodes d) \<Longrightarrow> node_at d' i = node_at d i"
proof -
  have d': "d' = set_node (jobID j) j (d\<lparr>d_nodeNameHash := (d_nodeNameHash d)(jobName j \<mapsto> jobID j),
                d_nodeIDHash := (d_nodeIDHash d)(jobID j \<mapsto> jobID j), d_jobs := d_jobs d @ [jobID j]\<rparr>)"
    using add by (auto simp: Dag_Add_def split: if_splits)
  have dm: "dom (d_nodes d') = insert (jobID j) (dom (d_nodes d))" by (simp add: d')
  have n: "node_at d' i = (if i = jobID j then j else node_at d i)" for i
    by (simp add: d') (simp add: node_at_def)
  then have old: "node_at d' i = node_at d i" if "i \<in> dom (d_nodes d)" for i using that new(1) by auto
  have sym: "symmetric_deps d" and w: "waiting_ok d" using ok by (simp_all add: mem_ok_def)
  have sub: "queue_of d i q \<subseteq> dom (d_nodes d)" if "i \<in> dom (d_nodes d)" "q \<noteq> Q_WAITING" for i q
    using sym that unfolding symmetric_deps_def by (cases q) blast+
  have "symmetric_deps d'"
    using sym sub new(1) unfolding symmetric_deps_def dm n by (auto simp: j split: if_splits)
  moreover have "waiting_ok d'"
  proof -
    have "queue_of d' i Q_WAITING = {p \<in> queue_of d' i Q_PARENTS. status_of d' p \<noteq> STATUS_DONE}" if i: "i \<in> dom (d_nodes d)" for i
    proof -
      have s: "queue_of d i Q_PARENTS \<subseteq> dom (d_nodes d)" by (rule sub [OF i]) simp
      have "status_of d' p = status_of d p" if "p \<in> queue_of d i Q_PARENTS" for p using old [OF subsetD [OF s that]] by simp
      then show ?thesis using w i unfolding waiting_ok_def old [OF i] by auto
    qed
    then show ?thesis unfolding waiting_ok_def dm by (auto simp: n j)
  qed
  ultimately show "mem_ok d'" using ok(1) j unfolding mem_ok_def dm by (auto simp: n)
  have t: "d_jobs d' = d_jobs d @ [jobID j]" "d_nodeNameHash d' = (d_nodeNameHash d)(jobName j \<mapsto> jobID j)"
    "d_nodeIDHash d' = (d_nodeIDHash d)(jobID j \<mapsto> jobID j)"
    "d_splice_initial_nodes d' = d_splice_initial_nodes d" "d_splice_final_nodes d' = d_splice_final_nodes d"
    by (simp_all add: d' set_node_def)
  have jobs: "set (d_jobs d) \<subseteq> dom (d_nodes d)" "jobID j \<notin> set (d_jobs d)" using ok(2) new(1) by (auto simp: tables_ok_def)
  have names: "d_nodeNameHash d' nm = Some p \<longleftrightarrow> p \<in> set (d_jobs d') \<and> jobName (node_at d' p) = nm" for nm p
  proof -
    have "d_nodeNameHash d nm = Some p \<longleftrightarrow> p \<in> set (d_jobs d) \<and> jobName (node_at d p) = nm"
      using ok(2) by (simp add: tables_ok_def)
    then show ?thesis using new(2) jobs unfolding t n by (auto simp: domIff split: if_splits)
  qed
  show "tables_ok d'"
    using ok(2) jobs names unfolding tables_ok_def dm t by auto
  show "dom (d_nodes d') = insert (jobID j) (dom (d_nodes d))" by (rule dm)
  show "d_jobs d' = d_jobs d @ [jobID j]" by (rule t(1))
  show "same_idle d d'" by (simp add: d' same_idle_def set_node_def)
  show "\<And>i. i \<in> dom (d_nodes d) \<Longrightarrow> node_at d' i = node_at d i" by (rule old)
qed

end
