(* ===== verification/Parse_Tree.thy ===== *)
theory Parse_Tree
  imports Dag_Built
begin

text \<open>
  The objects of the parser while DAG files are read. A \<open>Dag\<close> object owns the nodes in its \<open>d_jobs\<close>; its
  splices own the others. \<open>tree_at a p\<close>: the object \<open>a\<close> holds the memory, its tables and those of its
  splices are consistent with it, nobody owns a node twice, and the splices have no splices of their
  own. \<open>advance a p p'\<close> describes what parsing into \<open>a\<close> may change: it adds nodes, all of them owned by \<open>a\<close>
  or its splices, and leaves the objects above \<open>a\<close> alone.
\<close>

section \<open>Objects\<close>

definition own :: "dag_object \<Rightarrow> JobID_t set" where
  "own x = set (d_jobs (o_dag x))"

definition kids :: "dag_object \<Rightarrow> nat list" where
  "kids x = map snd (hash_entries (o_splices x))"

definition rec_ok :: "(JobID_t \<rightharpoonup> job) \<Rightarrow> dag_object \<Rightarrow> bool" where
  "rec_ok m x \<longleftrightarrow> tables_ok ((o_dag x)\<lparr>d_nodes := m\<rparr>) \<and> reject_table (o_splices x)"

definition leaf :: "(JobID_t \<rightharpoonup> job) \<Rightarrow> dag_object list \<Rightarrow> nat \<Rightarrow> bool" where
  "leaf m obs b \<longleftrightarrow> b < length obs \<and> rec_ok m (obs ! b) \<and> kids (obs ! b) = []"

definition tree :: "(JobID_t \<rightharpoonup> job) \<Rightarrow> dag_object list \<Rightarrow> nat \<Rightarrow> bool" where
  "tree m obs a \<longleftrightarrow> a < length obs \<and> rec_ok m (obs ! a) \<and> distinct (kids (obs ! a)) \<and>
     (\<forall>b \<in> set (kids (obs ! a)). a < b \<and> leaf m obs b \<and> own (obs ! b) \<inter> own (obs ! a) = {}) \<and>
     (\<forall>b \<in> set (kids (obs ! a)). \<forall>c \<in> set (kids (obs ! a)). b \<noteq> c \<longrightarrow> own (obs ! b) \<inter> own (obs ! c) = {})"

definition owned :: "dag_object list \<Rightarrow> nat \<Rightarrow> JobID_t set" where
  "owned obs a = own (obs ! a) \<union> (\<Union>b \<in> set (kids (obs ! a)). own (obs ! b))"

abbreviation memory :: "parser \<Rightarrow> nat \<Rightarrow> JobID_t \<rightharpoonup> job" where
  "memory p a \<equiv> d_nodes (dag_at p a)"

definition tree_at :: "nat \<Rightarrow> parser \<Rightarrow> bool" where
  "tree_at a p \<longleftrightarrow> tree (memory p a) (ps_objects p) a \<and> mem_ok (dag_at p a) \<and> (\<forall>i \<in> dom (memory p a). i < ps_jobID_counter p)"

definition names_kept :: "JobID_t set \<Rightarrow> (JobID_t \<rightharpoonup> job) \<Rightarrow> (JobID_t \<rightharpoonup> job) \<Rightarrow> bool" where
  "names_kept S m m' \<longleftrightarrow> dom m \<subseteq> dom m' \<and> (\<forall>i \<in> S \<inter> dom m. jobName (the (m' i)) = jobName (the (m i)))"

definition advance :: "nat \<Rightarrow> parser \<Rightarrow> parser \<Rightarrow> bool" where
  "advance a p p' \<longleftrightarrow>
     owned (ps_objects p') a = owned (ps_objects p) a \<union> (dom (memory p' a) - dom (memory p a)) \<and>
     names_kept (- owned (ps_objects p) a) (memory p a) (memory p' a) \<and>
     length (ps_objects p) \<le> length (ps_objects p') \<and>
     (\<forall>b < length (ps_objects p). b \<noteq> a \<longrightarrow> b \<notin> set (kids (object_at p a)) \<longrightarrow> object_at p' b = object_at p b) \<and>
     set (kids (object_at p' a)) \<subseteq> set (kids (object_at p a)) \<union> {length (ps_objects p)..} \<and>
     ps_jobID_counter p \<le> ps_jobID_counter p' \<and>
     same_idle (dag_at p a) (dag_at p' a)"

text \<open>A handler that is sound keeps the tree and only advances, when it accepts its line.\<close>

definition sound :: "nat \<Rightarrow> (parser \<Rightarrow> (bool \<times> parser) res) \<Rightarrow> bool" where
  "sound a f \<longleftrightarrow> (\<forall>p p'. tree_at a p \<longrightarrow> f p = Inr (True, p') \<longrightarrow> tree_at a p' \<and> advance a p p')"

lemma soundD: "sound a f \<Longrightarrow> tree_at a p \<Longrightarrow> f p = Inr (True, p') \<Longrightarrow> tree_at a p' \<and> advance a p p'"
  by (simp add: sound_def)

lemma names_kept_refl [simp]: "names_kept S m m"
  by (simp add: names_kept_def)

lemma advance_refl [simp]: "advance a p p"
  by (auto simp: advance_def)

lemma advance_trans:
  assumes "advance a p p1" and "advance a p1 p2"
  shows "advance a p p2"
proof -
  let ?m = "memory p a" and ?m1 = "memory p1 a" and ?m2 = "memory p2 a"
  have dom: "dom ?m \<subseteq> dom ?m1" "dom ?m1 \<subseteq> dom ?m2" using assms by (simp_all add: advance_def names_kept_def)
  have o1: "owned (ps_objects p1) a = owned (ps_objects p) a \<union> (dom ?m1 - dom ?m)"
    and o2: "owned (ps_objects p2) a = owned (ps_objects p1) a \<union> (dom ?m2 - dom ?m1)" using assms by (simp_all add: advance_def)
  have n1: "\<forall>i \<in> - owned (ps_objects p) a \<inter> dom ?m. jobName (the (?m1 i)) = jobName (the (?m i))"
    and n2: "\<forall>i \<in> - owned (ps_objects p1) a \<inter> dom ?m1. jobName (the (?m2 i)) = jobName (the (?m1 i))"
    using assms by (simp_all add: advance_def names_kept_def)
  have A: "names_kept (- owned (ps_objects p) a) ?m ?m2"
    unfolding names_kept_def
  proof (intro conjI ballI)
    show "dom ?m \<subseteq> dom ?m2" using dom by blast
    fix i assume i: "i \<in> - owned (ps_objects p) a \<inter> dom ?m"
    then have "i \<in> - owned (ps_objects p1) a \<inter> dom ?m1" using o1 dom by blast
    then show "jobName (the (?m2 i)) = jobName (the (?m i))" using n1 n2 i by simp
  qed
  have B: "owned (ps_objects p2) a = owned (ps_objects p) a \<union> (dom ?m2 - dom ?m)" using o1 o2 dom by blast
  have C: "object_at p2 b = object_at p b"
    if "b < length (ps_objects p)" "b \<noteq> a" "b \<notin> set (kids (object_at p a))" for b
  proof -
    have "b \<notin> set (kids (object_at p1 a))" using assms(1) that by (fastforce simp: advance_def)
    moreover have "b < length (ps_objects p1)" using assms(1) that(1) by (simp add: advance_def)
    ultimately have "object_at p2 b = object_at p1 b" using assms(2) that(2) by (simp add: advance_def)
    then show ?thesis using assms(1) that by (simp add: advance_def)
  qed
  have l: "length (ps_objects p) \<le> length (ps_objects p1)" "length (ps_objects p1) \<le> length (ps_objects p2)"
    "set (kids (object_at p1 a)) \<subseteq> set (kids (object_at p a)) \<union> {length (ps_objects p)..}"
    "set (kids (object_at p2 a)) \<subseteq> set (kids (object_at p1 a)) \<union> {length (ps_objects p1)..}"
    "ps_jobID_counter p \<le> ps_jobID_counter p1" "ps_jobID_counter p1 \<le> ps_jobID_counter p2"
    using assms by (simp_all add: advance_def)
  have D: "set (kids (object_at p2 a)) \<subseteq> set (kids (object_at p a)) \<union> {length (ps_objects p)..}"
    using l(1,3,4) by fastforce
  have E: "same_idle (dag_at p a) (dag_at p2 a)" by (rule same_idle_trans [of _ "dag_at p1 a"]) (use assms in \<open>simp_all add: advance_def\<close>)
  show ?thesis unfolding advance_def using A B C D E l by (intro conjI allI impI) simp_all
qed

lemma rec_ok_mono:
  assumes "rec_ok m x" and "names_kept (own x) m m'"
  shows "rec_ok m' x"
proof -
  have t: "tables_ok ((o_dag x)\<lparr>d_nodes := m\<rparr>)" using assms(1) by (simp add: rec_ok_def)
  have m: "dom m \<subseteq> dom m'" using assms(2) by (simp add: names_kept_def)
  have "own x \<subseteq> dom m" using t by (simp add: tables_ok_def own_def)
  then have n: "jobName (the (m' i)) = jobName (the (m i))" if "i \<in> set (d_jobs (o_dag x))" for i
    using assms(2) that unfolding names_kept_def own_def by blast
  have "set (d_splice_initial_nodes (o_dag x)) \<union> set (d_splice_final_nodes (o_dag x)) \<subseteq> dom m" "set (d_jobs (o_dag x)) \<subseteq> dom m"
    using t by (simp_all add: tables_ok_def)
  then have "set (d_splice_initial_nodes (o_dag x)) \<union> set (d_splice_final_nodes (o_dag x)) \<subseteq> dom m'"
    "set (d_jobs (o_dag x)) \<subseteq> dom m'"
    using m subset_trans by metis+
  then have "tables_ok ((o_dag x)\<lparr>d_nodes := m'\<rparr>)"
    using t unfolding tables_ok_def node_at_def by (simp add: n cong: conj_cong)
  then show ?thesis using assms(1) by (simp add: rec_ok_def)
qed

text \<open>Only the parser's objects and its counter matter.\<close>

lemma parser_cong:
  assumes "ps_objects p' = ps_objects p" and "ps_jobID_counter p' = ps_jobID_counter p"
  shows "tree_at a p' = tree_at a p" and "advance a q p' = advance a q p" and "advance a p' q = advance a p q"
  using assms by (simp_all add: tree_at_def advance_def dag_at_def object_at_def)

section \<open>Changes of the current object\<close>

lemma object_sound:
  assumes t: "tree_at a p" and x: "o_splices x = o_splices (object_at p a)"
    and ok: "mem_ok (o_dag x)" "tables_ok (o_dag x)"
    and kept: "names_kept (- own (object_at p a)) (memory p a) (d_nodes (o_dag x))"
    and jobs: "own x = own (object_at p a) \<union> (dom (d_nodes (o_dag x)) - dom (memory p a))"
    and idle: "same_idle (dag_at p a) (o_dag x)"
    and p': "ps_objects p' = (ps_objects p)[a := x]" "ps_jobID_counter p \<le> ps_jobID_counter p'"
      "\<forall>i \<in> dom (d_nodes (o_dag x)). i < ps_jobID_counter p'"
  shows "tree_at a p' \<and> advance a p p'"
proof -
  let ?obs = "ps_objects p" and ?m = "memory p a" and ?m' = "d_nodes (o_dag x)"
  have tr: "tree ?m ?obs a" and a: "a < length ?obs" using t by (simp_all add: tree_at_def tree_def)
  have at: "dag_at p' a = o_dag x" "object_at p' a = x" using a p'(1) by (simp_all add: dag_at_def object_at_def)
  have k: "kids x = kids (?obs ! a)" using x by (simp add: kids_def object_at_def)
  have same: "ps_objects p' ! b = ?obs ! b" if "b \<noteq> a" for b using p'(1) that by simp
  have kid: "a < b \<and> leaf ?m ?obs b \<and> own (?obs ! b) \<inter> own (?obs ! a) = {}" if "b \<in> set (kids x)" for b
    using tr that k by (simp add: tree_def)
  have ne: "b \<noteq> a" if "b \<in> set (kids x)" for b using kid [OF that] by simp
  have leaf': "leaf ?m' (ps_objects p') b \<and> own (ps_objects p' ! b) \<inter> own x = {}" if b: "b \<in> set (kids x)" for b
  proof -
    have l: "rec_ok ?m (?obs ! b)" "kids (?obs ! b) = []" "b < length ?obs" using kid [OF b] by (simp_all add: leaf_def)
    have "rec_ok ?m' (?obs ! b)" 
      by (rule rec_ok_mono [OF l(1)]) (use kept kid [OF b] in \<open>auto simp: names_kept_def object_at_def\<close>)
    moreover have "own (?obs ! b) \<subseteq> dom ?m" using l(1) by (simp add: rec_ok_def tables_ok_def own_def)
    then have "own (?obs ! b) \<inter> own x = {}" using kid [OF b] jobs unfolding object_at_def by blast
    ultimately show ?thesis using l(2,3) p'(1) unfolding leaf_def same [OF ne [OF b]] by simp
  qed
  have o: "owned (ps_objects p') a = owned ?obs a \<union> (dom ?m' - dom ?m)"
  proof -
    have "(\<Union>b \<in> set (kids x). own (ps_objects p' ! b)) = (\<Union>b \<in> set (kids x). own (?obs ! b))"
      using ne same by simp
    then show ?thesis using jobs a p'(1) k by (auto simp: owned_def object_at_def)
  qed
  have "rec_ok ?m' x" using ok(2) t x by (simp add: rec_ok_def tree_at_def tree_def object_at_def)
  moreover have "own (ps_objects p' ! b) \<inter> own (ps_objects p' ! c) = {}" if "b \<in> set (kids x)" "c \<in> set (kids x)" "b \<noteq> c" for b c
    using tr that unfolding same [OF ne [OF that(1)]] same [OF ne [OF that(2)]] by (simp add: tree_def k)
  ultimately have "tree ?m' (ps_objects p') a"
    using tr leaf' kid a p'(1) at(2) unfolding tree_def object_at_def by (simp add: k)
  then have "tree_at a p'" using ok(1) p'(3) by (simp add: tree_at_def at)
  moreover have "advance a p p'"
    unfolding advance_def at
  proof (intro conjI allI impI)
    show "names_kept (- owned ?obs a) ?m ?m'" using kept unfolding names_kept_def owned_def object_at_def by blast
    show "set (kids x) \<subseteq> set (kids (object_at p a)) \<union> {length ?obs..}" using k by (simp add: object_at_def)
  qed (use o idle p'(1,2) same in \<open>simp_all add: object_at_def\<close>)
  ultimately show ?thesis ..
qed

lemma tree_at_current:
  assumes "tree_at a p"
  shows "mem_ok (dag_at p a)" and "tables_ok (dag_at p a)" and "a < length (ps_objects p)"
  using assms by (simp_all add: tree_at_def tree_def rec_ok_def dag_at_def object_at_def)

lemma set_dag_objects [simp]: "ps_objects (set_dag a d p) = (ps_objects p)[a := (object_at p a)\<lparr>o_dag := d\<rparr>]"
  "ps_jobID_counter (set_dag a d p) = ps_jobID_counter p"
  by (simp_all add: set_dag_def set_object_def)

lemma set_dag_step:
  assumes t: "tree_at a p" and d': "mem_ok d'" "evolves (dag_at p a) d'"
  shows "tree_at a (set_dag a d' p) \<and> advance a p (set_dag a d' p)"
proof (rule object_sound [OF t])
  show "o_splices ((object_at p a)\<lparr>o_dag := d'\<rparr>) = o_splices (object_at p a)" by simp
  show "tables_ok (o_dag ((object_at p a)\<lparr>o_dag := d'\<rparr>))" using evolves_tables [OF tree_at_current(2) [OF t] d'(2)] by simp
  show "names_kept (- own (object_at p a)) (memory p a) (d_nodes (o_dag ((object_at p a)\<lparr>o_dag := d'\<rparr>)))"
    using d'(2) by (simp add: names_kept_def evolves_def node_at_def)
  show "own ((object_at p a)\<lparr>o_dag := d'\<rparr>) = own (object_at p a) \<union> (dom (d_nodes (o_dag ((object_at p a)\<lparr>o_dag := d'\<rparr>))) - dom (memory p a))"
    using d'(2) by (simp add: own_def evolves_def dag_at_def)
  show "\<forall>i \<in> dom (d_nodes (o_dag ((object_at p a)\<lparr>o_dag := d'\<rparr>))). i < ps_jobID_counter (set_dag a d' p)"
    using t d'(2) by (simp add: tree_at_def evolves_def)
qed (use d' in \<open>simp_all add: evolves_def\<close>)

lemma on_dag_step:
  assumes "tree_at a p" and "on_dag a f p = Inr (True, p')"
    and "\<And>d'. f (dag_at p a) = Inr (True, d') \<Longrightarrow> mem_ok d' \<and> evolves (dag_at p a) d'"
  shows "tree_at a p' \<and> advance a p p'"
proof -
  obtain d' where "f (dag_at p a) = Inr (True, d')" "p' = set_dag a d' p" using assms(2) by (auto simp: on_dag_def)
  with set_dag_step [OF assms(1)] assms(3) show ?thesis by blast
qed

lemma on_dag_edit:
  assumes "tree_at a p" and "on_dag a f p = Inr (True, p')"
    and "\<And>d'. f (dag_at p a) = Inr (True, d') \<Longrightarrow> tables_ok (dag_at p a) \<Longrightarrow> edit (dag_at p a) d'"
  shows "tree_at a p' \<and> advance a p p'"
  by (rule on_dag_step [OF assms(1,2)])
    (use assms(3) tree_at_current [OF assms(1)] edit_mem in \<open>auto simp: edit_def\<close>)

section \<open>Lines\<close>

lemma named_nodes_in_memory:
  assumes "tree_at a p" and "named_nodes recorded p a name found = Inr (Some ns)" and "recorded = d_splice_final_nodes \<or> recorded = d_splice_initial_nodes"
    and "\<forall>is. found = Some is \<longrightarrow> set is \<subseteq> dom (memory p a)"
  shows "set ns \<subseteq> dom (memory p a)"
proof -
  let ?n = "munge_job_name p (Some name)"
  obtain ms where f: "found = Some ms" "set ms \<subseteq> dom (memory p a)" using assms(2,4) by (auto simp: named_nodes_def split: option.splits)
  show ?thesis
  proof (cases "LookupSplice p a ?n")
    case (Some s)
    have "hash_ok (o_splices (object_at p a))" using assms(1) by (simp add: tree_at_def tree_def rec_ok_def reject_table_def object_at_def)
    then have "(?n, s) \<in> set (hash_entries (o_splices (object_at p a)))" using Some by (simp add: LookupSplice_def hash_lookup_iff)
    then have "s \<in> set (kids (ps_objects p ! a))" by (force simp: kids_def object_at_def)
    then have "rec_ok (memory p a) (ps_objects p ! s)" using assms(1) by (simp add: tree_at_def tree_def leaf_def)
    then have "set (d_splice_initial_nodes (dag_at p s)) \<union> set (d_splice_final_nodes (dag_at p s)) \<subseteq> dom (memory p a)"
      by (simp add: rec_ok_def tables_ok_def dag_at_def object_at_def)
    then show ?thesis using assms(2,3) f Some by (auto simp: named_nodes_def Let_def simp del: domIff)
  next
    case None
    then obtain i where i: "d_nodeNameHash (dag_at p a) ?n = Some i" "ns = ms @ [i]"
      using assms(2) f(1) by (auto simp: named_nodes_def Let_def FindNodeByName_def split: option.splits if_splits)
    then have "i \<in> dom (memory p a)" using tree_at_current(2) [OF assms(1)] unfolding tables_ok_def by blast
    then show ?thesis using f(2) i(2) by simp
  qed
qed

lemma fold_named_nodes:
  assumes "tree_at a p" and "recorded = d_splice_final_nodes \<or> recorded = d_splice_initial_nodes"
    and "foldR (named_nodes recorded p a) names (Some []) = Inr (Some ns)"
  shows "set ns \<subseteq> dom (memory p a)"
proof -
  have "\<forall>is. Some ns = Some is \<longrightarrow> set is \<subseteq> dom (memory p a)"
  proof (rule foldR_invariant [where I = "\<lambda>r. \<forall>is. r = Some is \<longrightarrow> set is \<subseteq> dom (memory p a)", OF assms(3)])
    fix x s t assume "\<forall>is. s = Some is \<longrightarrow> set is \<subseteq> dom (memory p a)" and "named_nodes recorded p a x s = Inr t"
    then show "\<forall>is. t = Some is \<longrightarrow> set is \<subseteq> dom (memory p a)"
      using named_nodes_in_memory [OF assms(1) _ assms(2), of x s] by (intro allI impI) simp
  qed simp
  then show ?thesis by simp
qed

lemma parse_parent_step:
  assumes t: "tree_at a p" and res: "parse_parent a line p = Inr (True, p')"
  shows "tree_at a p' \<and> advance a p p'"
proof -
  obtain xs ys where r: "foldR (named_nodes d_splice_final_nodes p a) (takeWhile (\<lambda>t. \<not> strcaseeq t ''CHILD'') (strtok_tokens script_delim line)) (Some []) = Inr (Some xs)"
    "foldR (named_nodes d_splice_initial_nodes p a) (tl (dropWhile (\<lambda>t. \<not> strcaseeq t ''CHILD'') (strtok_tokens script_delim line))) (Some []) = Inr (Some ys)"
    "on_dag a (add_dependencies [(x, y). x \<leftarrow> xs, y \<leftarrow> ys]) p = Inr (True, p')"
    using res by (auto simp: parse_parent_def Let_def split: option.splits if_splits)
  have d: "set xs \<subseteq> dom (memory p a)" "set ys \<subseteq> dom (memory p a)"
    using fold_named_nodes [OF t _ r(1)] fold_named_nodes [OF t _ r(2)] by simp_all
  have e: "\<forall>(x, y) \<in> set [(x, y). x \<leftarrow> xs, y \<leftarrow> ys]. x \<in> dom (memory p a) \<and> y \<in> dom (memory p a)"
    using d by (auto simp del: domIff)
  show ?thesis
    by (rule on_dag_step [OF t r(3)]) (drule add_dependencies_built [OF _ tree_at_current(1) [OF t] e], simp)
qed

lemma parse_dot_step:
  assumes t: "tree_at a p" and res: "parse_dot a line p = Inr (True, p')"
  shows "tree_at a p' \<and> advance a p p'"
proof -
  have "o_dag (snd (dot_options ts x)) = o_dag x \<and> o_splices (snd (dot_options ts x)) = o_splices x" for ts x
    by (induction ts x rule: dot_options.induct) (simp_all split: list.split)
  then have opt: "dot_options ts x = (ok, x') \<Longrightarrow> o_dag x' = o_dag x \<and> o_splices x' = o_splices x" for ts x ok x' by (metis snd_conv)
  obtain x where x: "p' = set_object a x p" "o_dag x = dag_at p a" "o_splices x = o_splices (object_at p a)"
    using res by (auto simp: parse_dot_def dag_at_def dest!: opt split: list.splits prod.splits)
  have "own x = own (object_at p a)" using x(2) by (simp add: own_def dag_at_def)
  then show ?thesis
    by (intro object_sound [OF t x(3)]) (use x tree_at_current [OF t] t in \<open>simp_all add: set_object_def tree_at_def\<close>)
qed

section \<open>Nodes\<close>

lemma AddNode_step:
  assumes t: "tree_at a p" and res: "AddNode fs a ty (Some name) dir submitFile None None isNoop done_mark p = Inr (True, why, p')"
  shows "tree_at a p' \<and> advance a p p'"
proof -
  let ?d = "dag_at p a" and ?c = "ps_jobID_counter p"
  obtain f where f: "submitFile = Some f" using res
    by (cases submitFile) (auto simp: AddNode_def IsValidSubmitFileName_def split: if_splits)
  let ?j = "(new_job ty name dir f ?c)\<lparr>noop := isNoop\<rparr>"
  let ?n = "if done_mark then snd (SetStatus STATUS_DONE ?j) else ?j"
  let ?p = "p\<lparr>ps_jobID_counter := ?c + 1\<rparr>"
  have at: "dag_at (p\<lparr>ps_jobID_counter := c\<rparr>) a = ?d" for c by (simp add: dag_at_def object_at_def)
  obtain d' where d': "Dag_Add ?n ?d = Inr d'" "p' = set_dag a d' ?p" and "FindNodeByName (Some name) ?d = Inr None"
    using res
    by (auto simp: AddNode_def IsValidNodeName_def NodeExists_def IsValidSubmitFileName_def add_optional_script_def Init_def f at Let_def
        split: if_splits prod.splits)
  then have n: "name \<notin> dom (d_nodeNameHash ?d)" by (auto simp: FindNodeByName_def split: option.splits if_splits)
  have j: "jobID ?n = ?c" "jobName ?n = name" "queues ?n = (\<lambda>_. {})" "\<not> countedAsDone ?n" "retries ?n = 0" "0 \<le> retry_max ?n"
    by (simp_all add: new_job_def SetStatus_def)
  have small: "\<forall>i \<in> dom (d_nodes ?d). i < ?c" using t by (simp add: tree_at_def)
  then have new: "jobID ?n \<notin> dom (d_nodes ?d)" unfolding j(1) by blast
  note b = Dag_Add_built [OF tree_at_current(1,2) [OF t] new _ j(3-6) d'(1), unfolded j(1,2), OF n]
  let ?x = "(object_at p a)\<lparr>o_dag := d'\<rparr>"
  show ?thesis
  proof (rule object_sound [OF t, of ?x])
    show "names_kept (- own (object_at p a)) (d_nodes ?d) (d_nodes (o_dag ?x))"
      using b(3,6) unfolding names_kept_def by (auto simp: node_at_def)
    show "own ?x = own (object_at p a) \<union> (dom (d_nodes (o_dag ?x)) - dom (d_nodes ?d))"
      using b(3,4) new j(1) by (auto simp: own_def dag_at_def)
    show "\<forall>i \<in> dom (d_nodes (o_dag ?x)). i < ps_jobID_counter p'" 
    proof -
      have "i < ?c + 1" if "i \<in> insert ?c (dom (d_nodes ?d))" for i
      proof (cases "i = ?c")
        case False
        then have "i < ?c" using small that by blast
        then show ?thesis by simp
      qed simp
      then show ?thesis unfolding d'(2) by (simp add: b(3))
    qed
    show "ps_objects p' = (ps_objects p)[a := ?x]" by (simp add: d'(2) object_at_def)
  qed (use b in \<open>simp_all add: d'(2)\<close>)
qed

lemma SetNodeDagFile_edit:
  assumes "SetNodeDagFile name f d = Inr (True, d')" and "tables_ok d"
  shows "edit d d'"
proof -
  obtain i where i: "d_nodeNameHash d name = Some i" "d' = upd_node i (SetDagFile f) d"
    using assms(1) by (auto simp: SetNodeDagFile_def FindNodeByName_def split: option.splits if_splits)
  then have "i \<in> dom (d_nodes d)" using assms(2) unfolding tables_ok_def by blast
  then show ?thesis unfolding i(2) by (rule edit_upd_node) (simp add: SetDagFile_def harmless_def)
qed

lemma parse_node_tail_sound: "sound a (parse_node_tail fs a ty keyword dir name submitFile tok)"
  unfolding sound_def
proof (intro allI impI)
  fix p p' assume t: "tree_at a p" and res: "parse_node_tail fs a ty keyword dir name submitFile tok p = Inr (True, p')"
  have "\<exists>b c. bindR (submit_and_dag_file keyword submitFile) (\<lambda>(f, nested).
    bindR (AddNode fs a ty (Some name) dir f None None b c p) (\<lambda>(ok, why, p).
      if \<not> ok then Inr (False, p) else if nested \<noteq> '''' then on_dag a (SetNodeDagFile name nested) p else Inr (True, p))) = Inr (True, p')"
    using res unfolding parse_node_tail_def Let_def by (simp split: if_splits) (intro exI, assumption)+
  then obtain b c f nested why p1 where r: "AddNode fs a ty (Some name) dir f None None b c p = Inr (True, why, p1)"
    "(if nested \<noteq> '''' then on_dag a (SetNodeDagFile name nested) p1 else Inr (True, p1)) = Inr (True, p')"
    by (fastforce split: if_split_asm)
  note s = AddNode_step [OF t r(1)]
  show "tree_at a p' \<and> advance a p p'"
  proof (cases "nested = ''''")
    case False
    then have "on_dag a (SetNodeDagFile name nested) p1 = Inr (True, p')" using r(2) by simp
    then have "tree_at a p' \<and> advance a p1 p'" by (rule on_dag_edit [OF conjunct1 [OF s]]) (rule SetNodeDagFile_edit)
    then show ?thesis using s advance_trans by blast
  qed (use r(2) s in simp)
qed

lemma in_TmpDir_sound:
  assumes "sound a body"
  shows "sound a (in_TmpDir fs dir body)"
  unfolding sound_def
proof (intro allI impI)
  fix p p' assume t: "tree_at a p" and res: "in_TmpDir fs dir body p = Inr (True, p')"
  obtain m p1 p2 where r: "Cd2TmpDir fs dir p = Inr (True, m, p1)" "body p1 = Inr (True, p2)" "Cd2MainDir fs m p2 = Inr p'"
    using res by (auto simp: in_TmpDir_def split: if_splits)
  have c: "ps_objects p1 = ps_objects p" "ps_jobID_counter p1 = ps_jobID_counter p"
    using r(1) by (auto simp: Cd2TmpDir_def split: if_splits option.splits)
  have c': "ps_objects p' = ps_objects p2" "ps_jobID_counter p' = ps_jobID_counter p2"
    using r(3) by (auto simp: Cd2MainDir_def split: if_splits option.splits)
  have "tree_at a p2 \<and> advance a p1 p2" using soundD [OF assms _ r(2)] t parser_cong(1) [OF c] by simp
  then show "tree_at a p' \<and> advance a p p'"
    using parser_cong(1) [OF c'] parser_cong(2) [OF c'] parser_cong(3) [OF c] by simp
qed

lemma parse_node_sound: "sound a (parse_node fs a ty keyword dir line)"
  unfolding sound_def
proof (intro allI impI)
  fix p p' assume t: "tree_at a p" and res: "parse_node fs a ty keyword dir line p = Inr (True, p')"
  have "(\<exists>dir' name f tok. in_TmpDir fs dir' (parse_node_tail fs a ty keyword dir' name f tok) p = Inr (True, p')) \<or>
    (\<exists>name f tok. parse_node_tail fs a ty keyword dir name f tok p = Inr (True, p'))"
    using res unfolding parse_node_def Let_def prod.case by (simp split: if_splits option.splits) blast+
  then show "tree_at a p' \<and> advance a p p'"
    using soundD [OF parse_node_tail_sound t] soundD [OF in_TmpDir_sound [OF parse_node_tail_sound] t] by blast
qed

lemma parse_subdag_sound: "sound a (parse_subdag fs a ty keyword dir line)"
  using parse_node_sound [of a fs ty keyword dir]
  by (auto simp: sound_def parse_subdag_def split: option.splits prod.splits if_splits)

end
