(* ===== verification/Splice_Tree.thy ===== *)
theory Splice_Tree
  imports Parse_Tree
begin

text \<open>
  Splices: renaming the nodes of a splice, handing them over to the DAG above, lifting. The lemmas end
  in the soundness of \<open>parse\<close>: whatever the files contain, a successful parse leaves a consistent tree.
\<close>

section \<open>Loops over the nodes of one object\<close>

lemma edit_fold:
  assumes "\<And>j. harmless j (f j)" and "set ns \<subseteq> dom (d_nodes d)"
  shows "edit d (fold (\<lambda>i. upd_node i f) ns d)"
  using assms(2)
proof (induction ns arbitrary: d)
  case (Cons i ns)
  have e: "edit d (upd_node i f d)" by (rule edit_upd_node) (use Cons.prems assms(1) in simp_all)
  then have "set ns \<subseteq> dom (d_nodes (upd_node i f d))" using Cons.prems by (simp add: edit_def evolves_def)
  from edit_trans [OF e Cons.IH [OF this]] show ?case by simp
qed simp

lemma PropogateDirectory_edit:
  assumes "tables_ok d"
  shows "edit d (PropogateDirectoryToAllNodes d)"
proof -
  have "harmless j (PrefixDirectory s j)" for s j by (simp add: PrefixDirectory_def harmless_def)
  then have "edit d (fold (\<lambda>i. upd_node i (PrefixDirectory (d_directory d))) (d_jobs d) d)"
    by (rule edit_fold) (use assms in \<open>simp add: tables_ok_def\<close>)
  then show ?thesis using edit_trans edit_settings(5) by (simp add: PropogateDirectoryToAllNodes_def)
qed

lemma reindex_names:
  assumes "foldR reindex_name ns d = Inr d'" and "distinct ns"
  shows "\<exists>h. d' = d\<lparr>d_nodeNameHash := h\<rparr> \<and>
    (\<forall>n p. h n = Some p \<longleftrightarrow> d_nodeNameHash d n = Some p \<or> p \<in> set ns \<and> jobName (node_at d p) = n)"
  using assms
proof (induction ns arbitrary: d)
  case Nil
  then show ?case by (intro exI [of _ "d_nodeNameHash d"]) simp
next
  case (Cons i ns)
  let ?n = "jobName (node_at d i)" and ?d = "d\<lparr>d_nodeNameHash := (d_nodeNameHash d)(jobName (node_at d i) \<mapsto> i)\<rparr>"
  have free: "d_nodeNameHash d ?n = None" and f: "foldR reindex_name ns ?d = Inr d'"
    using Cons.prems(1) by (auto simp: reindex_name_def [of i] split: if_splits)
  have same: "node_at ?d = node_at d" by (simp add: node_at_def fun_eq_iff)
  obtain h where h: "d' = ?d\<lparr>d_nodeNameHash := h\<rparr>"
    "\<forall>n p. h n = Some p \<longleftrightarrow> d_nodeNameHash ?d n = Some p \<or> p \<in> set ns \<and> jobName (node_at d p) = n"
    using Cons.IH [OF f] Cons.prems(2) unfolding same by auto
  have "h n = Some p \<longleftrightarrow> d_nodeNameHash d n = Some p \<or> p \<in> set (i # ns) \<and> jobName (node_at d p) = n" for n p
    using h(2) free by (auto split: if_splits)
  then show ?case using h(1) by (intro exI [of _ h]) simp
qed

lemma index_ids:
  assumes "foldR index_id ns d = Inr d'" and "distinct ns" and "\<forall>i \<in> set ns. jobID (node_at d i) = i"
  shows "\<exists>h. d' = d\<lparr>d_nodeIDHash := h\<rparr> \<and> (\<forall>n p. h n = Some p \<longleftrightarrow> d_nodeIDHash d n = Some p \<or> p = n \<and> n \<in> set ns)"
  using assms
proof (induction ns arbitrary: d)
  case Nil
  then show ?case by (intro exI [of _ "d_nodeIDHash d"]) simp
next
  case (Cons i ns)
  let ?d = "d\<lparr>d_nodeIDHash := (d_nodeIDHash d)(i \<mapsto> i)\<rparr>"
  have free: "d_nodeIDHash d i = None" and f: "foldR index_id ns ?d = Inr d'"
    using Cons.prems(1,3) by (auto simp: index_id_def [of i] split: if_splits)
  have same: "node_at ?d = node_at d" by (simp add: node_at_def fun_eq_iff)
  obtain h where h: "d' = ?d\<lparr>d_nodeIDHash := h\<rparr>"
    "\<forall>n p. h n = Some p \<longleftrightarrow> d_nodeIDHash ?d n = Some p \<or> p = n \<and> n \<in> set ns"
    using Cons.IH [OF f] Cons.prems(2,3) unfolding same by auto
  have "h n = Some p \<longleftrightarrow> d_nodeIDHash d n = Some p \<or> p = n \<and> n \<in> set (i # ns)" for n p
    using h(2) free by (auto split: if_splits)
  then show ?case using h(1) by (intro exI [of _ h]) simp
qed

section \<open>Renaming\<close>

lemma fold_PrefixName:
  assumes "distinct ns" and "set ns \<subseteq> dom (d_nodes d)"
  shows "dom (d_nodes (fold (\<lambda>i. upd_node i (PrefixName s)) ns d)) = dom (d_nodes d) \<and>
    (\<forall>i. node_at (fold (\<lambda>i. upd_node i (PrefixName s)) ns d) i = (if i \<in> set ns then PrefixName s (node_at d i) else node_at d i)) \<and>
    (\<exists>m. fold (\<lambda>i. upd_node i (PrefixName s)) ns d = d\<lparr>d_nodes := m\<rparr>)"
  using assms
proof (induction ns arbitrary: d)
  case Nil
  then show ?case by (auto intro: exI [of _ "d_nodes d"])
next
  case (Cons i ns)
  let ?d = "upd_node i (PrefixName s) d"
  have dm: "dom (d_nodes ?d) = dom (d_nodes d)" using Cons.prems(2) by (simp add: upd_node_def) blast
  have "set ns \<subseteq> dom (d_nodes ?d)" using Cons.prems(2) dm by simp
  note IH = Cons.IH [OF _ this]
  have "\<exists>m. ?d = d\<lparr>d_nodes := m\<rparr>" by (auto simp: upd_node_def set_node_def)
  then show ?case using IH dm Cons.prems(1) by auto
qed

lemma PrefixAllNodeNames_built:
  assumes ok: "mem_ok d" "tables_ok d" and res: "PrefixAllNodeNames s d = Inr d'"
  shows "mem_ok d'" and "tables_ok d'" and "dom (d_nodes d') = dom (d_nodes d)" and "d_jobs d' = d_jobs d" and "same_idle d d'"
    and "\<And>i. i \<notin> set (d_jobs d) \<Longrightarrow> node_at d' i = node_at d i"
proof -
  let ?d1 = "fold (\<lambda>i. upd_node i (PrefixName s)) (d_jobs d) d"
  let ?d2 = "?d1\<lparr>d_nodeNameHash := Map.empty\<rparr>"
  have j: "distinct (d_jobs d)" "set (d_jobs d) \<subseteq> dom (d_nodes d)" using ok(2) by (simp_all add: tables_ok_def)
  obtain m where f: "dom (d_nodes ?d1) = dom (d_nodes d)" "\<And>i. node_at ?d1 i = (if i \<in> set (d_jobs d) then PrefixName s (node_at d i) else node_at d i)"
    "?d1 = d\<lparr>d_nodes := m\<rparr>"
    using fold_PrefixName [OF j] by blast
  have js: "d_jobs ?d1 = d_jobs d" using f(3) by simp
  have "foldR reindex_name (d_jobs d) ?d2 = Inr d'" using res by (simp add: PrefixAllNodeNames_def Let_def js)
  from reindex_names [OF this j(1)] obtain h where h: "d' = ?d2\<lparr>d_nodeNameHash := h\<rparr>"
    "\<forall>n p. h n = Some p \<longleftrightarrow> p \<in> set (d_jobs d) \<and> jobName (node_at ?d2 p) = n"
    by auto
  have nd: "d_nodes d' = d_nodes ?d1" using h(1) by simp
  then have n: "node_at d' i = (if i \<in> set (d_jobs d) then PrefixName s (node_at d i) else node_at d i)" for i
    using f(2) [of i] by (simp add: node_at_def)
  have n2: "node_at ?d2 = node_at d'" using nd by (simp add: node_at_def fun_eq_iff)
  have t: "d_jobs d' = d_jobs d" "d_nodeIDHash d' = d_nodeIDHash d" "d_nodeNameHash d' = h" "same_idle d d'"
    "d_splice_initial_nodes d' = d_splice_initial_nodes d" "d_splice_final_nodes d' = d_splice_final_nodes d"
    unfolding h(1) f(3) by (simp_all add: same_idle_def)
  show dm: "dom (d_nodes d') = dom (d_nodes d)" using nd f(1) by simp
  show "mem_ok d'" by (rule mem_ok_fields [OF ok(1) dm]) (simp add: n PrefixName_def)
  show "tables_ok d'" using ok(2) h(2) unfolding tables_ok_def t dm n2 by simp
  show "d_jobs d' = d_jobs d" "same_idle d d'" by (rule t)+
  show "\<And>i. i \<notin> set (d_jobs d) \<Longrightarrow> node_at d' i = node_at d i" by (simp add: n)
qed

section \<open>Handing over\<close>

text \<open>What every body of a table walk keeps, the walk keeps; the walk does not change the table.\<close>

lemma hash_walk_invariant:
  assumes "fst (hash_walk body h r) = Inr t" and "\<And>s. r = Inr s \<Longrightarrow> I s"
    and "\<And>k v e. body k v (Inl e) = Inl e" and "\<And>k v s s'. I s \<Longrightarrow> body k v (Inr s) = Inr s' \<Longrightarrow> I s'"
  shows "I t"
  using assms
proof (induction body h r rule: hash_walk.induct)
  case (1 body h r)
  note prems = 1(2-5)
  show ?case
  proof (cases "fst (iterate h)")
    case None
    then show ?thesis using prems(1,2) by (cases "iterate h") (auto simp: hash_walk.simps [of _ h])
  next
    case (Some kv)
    obtain k v h' where it: "iterate h = (Some (k, v), h')" using Some by (cases "iterate h", cases kv) auto
    have w: "fst (hash_walk body h' (body k v r)) = Inr t" using prems(1) it by (simp add: hash_walk.simps [of _ h])
    have "I s" if "body k v r = Inr s" for s
    proof (cases r)
      case (Inr s0)
      then show ?thesis using prems(2,4) that by blast
    qed (use prems(3) that in simp)
    then show ?thesis using 1(1) [OF it [symmetric] refl refl] w prems(3,4) by blast
  qed
qed

lemma hash_walk_table:
  "h_ht (snd (hash_walk body h s)) = h_ht h" "h_tableSize (snd (hash_walk body h s)) = h_tableSize h"
  "h_hashfcn (snd (hash_walk body h s)) = h_hashfcn h" "h_numElems (snd (hash_walk body h s)) = h_numElems h"
  "h_duplicateKeyBehavior (snd (hash_walk body h s)) = h_duplicateKeyBehavior h"
proof -
  let ?same = "\<lambda>a b. h_ht a = h_ht b \<and> h_tableSize a = h_tableSize b \<and> h_hashfcn a = h_hashfcn b \<and> h_numElems a = h_numElems b \<and>
    h_duplicateKeyBehavior a = h_duplicateKeyBehavior b"
  have "?same (snd (iterate h)) h" for h :: "('a, 'b) HashTable" by (simp add: frame_simps)
  then have it: "iterate h = (r, h') \<Longrightarrow> ?same h' h" for h h' :: "('a, 'b) HashTable" and r by (metis snd_conv)
  have "?same (snd (hash_walk body h s)) h"
  proof (induction body h s rule: hash_walk.induct)
    case (1 body h s)
    show ?case
    proof (cases "iterate h")
      case (Pair r h')
      show ?thesis
      proof (cases r)
        case None
        then show ?thesis using it [OF Pair] Pair by (simp add: hash_walk.simps [of _ h])
      next
        case (Some kv)
        then obtain k v where kv: "r = Some (k, v)" by (cases kv) simp
        then show ?thesis using it [OF Pair] 1 [of r h' "(k, v)" k v] Pair by (simp add: hash_walk.simps [of _ h])
      qed
    qed
  qed
  then show "h_ht (snd (hash_walk body h s)) = h_ht h" "h_tableSize (snd (hash_walk body h s)) = h_tableSize h"
  "h_hashfcn (snd (hash_walk body h s)) = h_hashfcn h" "h_numElems (snd (hash_walk body h s)) = h_numElems h"
  "h_duplicateKeyBehavior (snd (hash_walk body h s)) = h_duplicateKeyBehavior h" by simp_all
qed

lemma assume_lists:
  assumes f: "f = assume_initial_final \<or> f = record_one" and "set ns \<subseteq> dom (d_nodes d)" and "set (d_splice_initial_nodes d) \<union> set (d_splice_final_nodes d) \<subseteq> dom (d_nodes d)"
  shows "\<exists>xs ys. fold f ns d = d\<lparr>d_splice_initial_nodes := xs, d_splice_final_nodes := ys\<rparr> \<and> set xs \<union> set ys \<subseteq> dom (d_nodes d)"
  using assms(2,3)
proof (induction ns arbitrary: d)
  case Nil
  have "fold f [] d = d\<lparr>d_splice_initial_nodes := d_splice_initial_nodes d, d_splice_final_nodes := d_splice_final_nodes d\<rparr>"
    by (cases d) simp
  with Nil show ?case by blast
next
  case (Cons i ns)
  let ?d = "f i d"
  have a: "d_nodes ?d = d_nodes d" "set (d_splice_initial_nodes ?d) \<union> set (d_splice_final_nodes ?d) \<subseteq> dom (d_nodes d)"
    using Cons.prems f by (auto simp: assume_initial_final_def record_one_def Let_def simp del: domIff split: if_splits)
  have "\<exists>xs ys. fold f ns ?d = ?d\<lparr>d_splice_initial_nodes := xs, d_splice_final_nodes := ys\<rparr> \<and> set xs \<union> set ys \<subseteq> dom (d_nodes d)"
    using Cons.IH [of ?d] a Cons.prems(1) by simp
  moreover have "?d\<lparr>d_splice_initial_nodes := xs, d_splice_final_nodes := ys\<rparr> = d\<lparr>d_splice_initial_nodes := xs, d_splice_final_nodes := ys\<rparr>" for xs ys
    using f by (auto simp: assume_initial_final_def record_one_def Let_def)
  ultimately show ?case by simp
qed

lemma reset_categories_edit:
  assumes "foldR reset_category ns d = Inr d'" and "set ns \<subseteq> dom (d_nodes d)"
  shows "edit d d'"
  using assms
proof (induction ns arbitrary: d)
  case (Cons i ns)
  obtain d1 where d1: "reset_category i d = Inr d1" "foldR reset_category ns d1 = Inr d'" using Cons.prems(1) by auto
  have e: "edit d d1" using d1(1) Cons.prems(2) by (auto simp: reset_category_def split: option.splits intro!: edit_category)
  then have "set ns \<subseteq> dom (d_nodes d1)" using Cons.prems(2) by (simp add: edit_def evolves_def)
  from edit_trans [OF e Cons.IH [OF d1(2) this]] show ?case .
qed simp

lemma merge_throttles_edit:
  assumes "fst (hash_walk merge_throttle h (Inr d)) = Inr d'"
  shows "edit d d'"
proof (rule hash_walk_invariant [OF assms])
  show "edit d s" if "Inr d = Inr s" for s using that by simp
  show "merge_throttle k v (Inl e) = Inl e" for k v e by (simp add: merge_throttle_def)
  fix k v s s' assume e: "edit d s" and m: "merge_throttle k v (Inr s) = Inr s'"
  have "edit s s'"
    using m by (auto simp: merge_throttle_def Let_def split: option.splits if_splits)
  with e show "edit d s'" by (rule edit_trans)
qed

lemma AssumeOwnership_built:
  assumes ok: "mem_ok d" "tables_ok d" and ns: "distinct (om_nodes om)" "set (om_nodes om) \<subseteq> dom (d_nodes d)" "set (om_nodes om) \<inter> set (d_jobs d) = {}"
    and res: "AssumeOwnershipofNodes om d = Inr d'"
  shows "mem_ok d'" and "tables_ok d'" and "dom (d_nodes d') = dom (d_nodes d)" and "d_jobs d' = d_jobs d @ om_nodes om"
    and "same_idle d d'" and "\<And>i. i \<in> dom (d_nodes d) \<Longrightarrow> jobName (node_at d' i) = jobName (node_at d i)"
proof -
  let ?N = "om_nodes om"
  obtain d1 d3 d5 d6 where r: "fst (hash_walk merge_throttle (startIterations (om_throttles om)) (Inr d)) = Inr d1"
    "foldR reset_category ?N (fold assume_initial_final ?N d1) = Inr d3"
    "foldR reindex_name ?N (d3\<lparr>d_jobs := d_jobs d3 @ ?N\<rparr>) = Inr d5" "foldR index_id ?N d5 = Inr d6"
    "d' = (if om_reject om then SetReject (om_firstRejectLoc om) d6 else d6)"
    using res by (auto simp: AssumeOwnershipofNodes_def Let_def)
  have e1: "edit d d1" by (rule merge_throttles_edit [OF r(1)])
  then have t1: "tables_ok d1" "mem_ok d1" and dm1: "dom (d_nodes d1) = dom (d_nodes d)"
    using evolves_tables [OF ok(2)] edit_mem [OF ok(1)] by (simp_all add: edit_def evolves_def)
  have "set (d_splice_initial_nodes d1) \<union> set (d_splice_final_nodes d1) \<subseteq> dom (d_nodes d1)" using t1(1) by (simp add: tables_ok_def)
  from assume_lists [OF disjI1 [OF refl] ns(2) [folded dm1] this] obtain xs ys
    where d2: "fold assume_initial_final ?N d1 = d1\<lparr>d_splice_initial_nodes := xs, d_splice_final_nodes := ys\<rparr>" "set xs \<union> set ys \<subseteq> dom (d_nodes d1)"
    by blast
  let ?d2 = "d1\<lparr>d_splice_initial_nodes := xs, d_splice_final_nodes := ys\<rparr>"
  have n2: "node_at ?d2 = node_at d1" by (simp add: node_at_def fun_eq_iff)
  have t2: "tables_ok ?d2" "mem_ok ?d2" using t1 d2(2) mem_ok_cong [of ?d2 d1] by (simp_all add: tables_ok_def n2)
  have e3: "edit ?d2 d3" by (rule reset_categories_edit [OF r(2) [unfolded d2(1)]]) (use ns(2) dm1 in simp)
  then have t3: "tables_ok d3" "mem_ok d3" and dm3: "dom (d_nodes d3) = dom (d_nodes d)" and j3: "d_jobs d3 = d_jobs d"
    using evolves_tables [OF t2(1)] edit_mem [OF t2(2)] e1 by (simp_all add: edit_def evolves_def)
  let ?d4 = "d3\<lparr>d_jobs := d_jobs d3 @ ?N\<rparr>"
  have n4: "node_at ?d4 = node_at d3" by (simp add: node_at_def fun_eq_iff)
  obtain h where h: "d5 = ?d4\<lparr>d_nodeNameHash := h\<rparr>"
    "\<forall>n p. h n = Some p \<longleftrightarrow> d_nodeNameHash d3 n = Some p \<or> p \<in> set ?N \<and> jobName (node_at d3 p) = n"
    using reindex_names [OF r(3) ns(1)] unfolding n4 by auto
  have n5: "node_at d5 = node_at d3" using h(1) by (simp add: node_at_def fun_eq_iff)
  have "\<forall>i \<in> set ?N. jobID (node_at d5 i) = i" using t3(2) ns(2) dm3 unfolding mem_ok_def n5 by blast
  from index_ids [OF r(4) ns(1) this] obtain g where g: "d6 = d5\<lparr>d_nodeIDHash := g\<rparr>"
    "\<forall>n p. g n = Some p \<longleftrightarrow> d_nodeIDHash d3 n = Some p \<or> p = n \<and> n \<in> set ?N"
    using h(1) by auto
  have d6: "d6 = d3\<lparr>d_jobs := d_jobs d3 @ ?N, d_nodeNameHash := h, d_nodeIDHash := g\<rparr>" using g(1) h(1) by simp
  have n6: "node_at d6 = node_at d3" "d_nodes d6 = d_nodes d3" using d6 by (simp_all add: node_at_def fun_eq_iff)
  have t6: "tables_ok d6"
    using t3(1) ns dm3 j3 h(2) g(2) unfolding tables_ok_def n6 by (auto simp: d6 simp del: domIff)
  have m6: "mem_ok d6" using t3(2) mem_ok_cong [OF n6(2)] by simp
  have e7: "edit d6 d'" using r(5) by simp
  show "mem_ok d'" "tables_ok d'" using edit_mem [OF m6 e7] evolves_tables [OF t6] e7 by (simp_all add: edit_def)
  show "dom (d_nodes d') = dom (d_nodes d)" "d_jobs d' = d_jobs d @ ?N" using e7 n6(2) dm3 j3 by (simp_all add: edit_def evolves_def d6)
  have "same_idle d d1" "same_idle d1 ?d2" "same_idle ?d2 d3" "same_idle d3 d6" "same_idle d6 d'"
    using e1 e3 e7 by (simp_all add: edit_def evolves_def) (simp_all add: same_idle_def d6)
  then show "same_idle d d'" using same_idle_trans by blast
  show "jobName (node_at d' i) = jobName (node_at d i)" if "i \<in> dom (d_nodes d)" for i
  proof -
    have "jobName (node_at d1 i) = jobName (node_at d i)" using e1 that unfolding edit_def evolves_def by blast
    moreover have "jobName (node_at d3 i) = jobName (node_at ?d2 i)" using e3 that dm1 unfolding edit_def evolves_def by simp
    moreover have "jobName (node_at d' i) = jobName (node_at d6 i)" using e7 that dm3 n6(2) unfolding edit_def evolves_def by simp
    ultimately show ?thesis by (simp add: n2 n6(1))
  qed
qed

end
