(* ===== verification/Lift_Tree.thy ===== *)
theory Lift_Tree
  imports Splice_Tree
begin

text \<open>
  Lifting splices: \<open>LiftSplices\<close> moves the nodes of all splices of an object into it and leaves it without
  splices; \<open>LiftChildSplices\<close> does this for every splice of an object.
\<close>

section \<open>The shared memory\<close>

lemma share_parts:
  "ps_objects (share a b p) = (ps_objects p)[b := (object_at p b)\<lparr>o_dag := (dag_at p b)\<lparr>d_nodes := memory p a, d_heap := d_heap (dag_at p a)\<rparr>\<rparr>]"
  "ps_jobID_counter (share a b p) = ps_jobID_counter p"
  by (simp_all add: share_def)

lemma same_memory [simp]: "d\<lparr>d_nodes := d_nodes d, d_heap := d_heap d\<rparr> = d"
  by (cases d) simp

section \<open>Lifting one splice\<close>

definition lift_child :: "nat \<Rightarrow> nat \<Rightarrow> nat \<Rightarrow> parser \<Rightarrow> parser res" where
  "lift_child n a child p =
     bindR (LiftSplices n True child (share a child p)) (\<lambda>(om, p).
       let p = share child a p in
       case om of
         None \<Rightarrow> Inl (Crash ''om->nodes'')
       | Some om \<Rightarrow> bindR (AssumeOwnershipofNodes om (dag_at p a)) (\<lambda>d. Inr (set_dag a d p)))"

lemma LiftSplices_self:
  "LiftSplices (Suc n) False a p =
     (case hash_walk (\<lambda>key child r. bindR r (lift_child n a child)) (startIterations (o_splices (object_at p a))) (Inr p) of
        (r, t) \<Rightarrow>
          bindR r (\<lambda>p.
            case hash_drain (Suc (h_numElems t)) (startIterations t) of
              None \<Rightarrow> Inl (Crash ''_splices.remove(key)'')
            | Some t \<Rightarrow> (let p = set_splices a t p in Inr (None, set_dag a (PropogateDirectoryToAllNodes (dag_at p a)) p))))"
  by (simp add: lift_child_def [abs_def])

lemma lift_child_leaf:
  assumes b: "b \<noteq> c" "b < length (ps_objects p)" "c < length (ps_objects p)" and leaf: "h_numElems (o_splices (object_at p b)) = 0"
    and res: "lift_child (Suc n) c b p = Inr p'"
  obtains om d' x where "om_nodes om = d_jobs (dag_at p b)" "AssumeOwnershipofNodes om (dag_at p c) = Inr d'"
    "ps_objects p' = (ps_objects p)[b := x, c := (object_at p c)\<lparr>o_dag := d'\<rparr>]" "ps_jobID_counter p' = ps_jobID_counter p"
proof -
  let ?p1 = "share c b p"
  have o1: "object_at ?p1 b = (object_at p b)\<lparr>o_dag := (dag_at p b)\<lparr>d_nodes := memory p c, d_heap := d_heap (dag_at p c)\<rparr>\<rparr>"
    "object_at ?p1 c = object_at p c" using b by (simp_all add: share_parts object_at_def)
  let ?om = "fst (RelinquishNodeOwnership (dag_at ?p1 b))" and ?d = "snd (RelinquishNodeOwnership (dag_at ?p1 b))"
  let ?p2 = "set_dag b ?d ?p1" and ?p3 = "share b c (set_dag b (snd (RelinquishNodeOwnership (dag_at (share c b p) b))) (share c b p))"
  have "LiftSplices (Suc n) True b ?p1 = Inr (Some ?om, ?p2)" using leaf by (simp add: o1(1) split: prod.split)
  then obtain d' where r: "AssumeOwnershipofNodes ?om (dag_at ?p3 c) = Inr d'" "p' = set_dag c d' ?p3"
    using res by (auto simp: lift_child_def Let_def)
  have len: "length (ps_objects ?p1) = length (ps_objects p)" by (simp add: share_parts)
  have d: "d_nodes ?d = memory p c" "d_heap ?d = d_heap (dag_at p c)" by (simp_all add: RelinquishNodeOwnership_def dag_at_def o1(1))
  have at2: "dag_at ?p2 b = ?d" "object_at ?p2 c = object_at p c" using b len o1(2) by (simp_all add: dag_at_def object_at_def)
  have o3: "ps_objects ?p3 = (ps_objects ?p2)[c := object_at p c]" using d at2 by (simp add: share_parts dag_at_def)
  have obj2: "ps_objects ?p2 = (ps_objects p)[b := (object_at ?p1 b)\<lparr>o_dag := ?d\<rparr>]" by (simp add: share_parts)
  have c3: "dag_at ?p3 c = dag_at p c" "object_at ?p3 c = object_at p c" using o3 b len by (simp_all add: dag_at_def object_at_def obj2)
  show ?thesis
  proof
    show "om_nodes ?om = d_jobs (dag_at p b)" by (simp add: RelinquishNodeOwnership_def dag_at_def o1(1))
    show "AssumeOwnershipofNodes ?om (dag_at p c) = Inr d'" using r(1) c3(1) by simp
    show "ps_objects p' = (ps_objects p)[b := (object_at ?p1 b)\<lparr>o_dag := ?d\<rparr>, c := (object_at p c)\<lparr>o_dag := d'\<rparr>]"
      unfolding r(2) set_dag_objects(1) o3 c3(2) by (simp add: share_parts(1))
    show "ps_jobID_counter p' = ps_jobID_counter p" by (simp add: r(2) share_parts)
  qed
qed

text \<open>The state after the splices \<open>B\<close> have been lifted into \<open>c\<close>.\<close>

definition lifted :: "nat \<Rightarrow> parser \<Rightarrow> nat set \<Rightarrow> parser \<Rightarrow> bool" where
  "lifted c p B q \<longleftrightarrow> length (ps_objects q) = length (ps_objects p) \<and> (\<forall>b. b \<noteq> c \<longrightarrow> b \<notin> B \<longrightarrow> object_at q b = object_at p b) \<and>
     o_splices (object_at q c) = o_splices (object_at p c) \<and> mem_ok (dag_at q c) \<and> tables_ok (dag_at q c) \<and>
     dom (memory q c) = dom (memory p c) \<and> names_kept UNIV (memory p c) (memory q c) \<and>
     own (object_at q c) = own (object_at p c) \<union> (\<Union>b \<in> B. own (object_at p b)) \<and>
     same_idle (dag_at p c) (dag_at q c) \<and> ps_jobID_counter q = ps_jobID_counter p"

lemma lifted_step:
  assumes t: "tree_at c p" and l: "lifted c p B q" and b: "b \<in> set (kids (object_at p c))" "b \<notin> B" "B \<subseteq> set (kids (object_at p c))"
    and res: "lift_child (Suc n) c b q = Inr q'"
  shows "lifted c p (insert b B) q'"
proof -
  have tr: "tree (memory p c) (ps_objects p) c" using t by (simp add: tree_at_def)
  have kid: "c < x" "leaf (memory p c) (ps_objects p) x" "own (object_at p x) \<inter> own (object_at p c) = {}" if "x \<in> set (kids (object_at p c))" for x
    using tr that by (simp_all add: tree_def object_at_def)
  have len: "length (ps_objects q) = length (ps_objects p)" "c < length (ps_objects p)" "b < length (ps_objects p)"
    using l tr kid(2) [OF b(1)] by (simp_all add: lifted_def tree_def leaf_def)
  have bq: "object_at q b = object_at p b" using l b(2) kid(1) [OF b(1)] by (simp add: lifted_def)
  have lb: "rec_ok (memory p c) (object_at p b)" "kids (object_at p b) = []" using kid(2) [OF b(1)] by (simp_all add: leaf_def object_at_def)
  then have h: "h_numElems (o_splices (object_at q b)) = 0" by (simp add: bq rec_ok_def reject_table_def hash_ok_def kids_def)
  have bc: "b \<noteq> c" "b < length (ps_objects q)" "c < length (ps_objects q)" using kid(1) [OF b(1)] len by simp_all
  obtain om d' x where r: "om_nodes om = d_jobs (dag_at q b)" "AssumeOwnershipofNodes om (dag_at q c) = Inr d'"
    "ps_objects q' = (ps_objects q)[b := x, c := (object_at q c)\<lparr>o_dag := d'\<rparr>]" "ps_jobID_counter q' = ps_jobID_counter q"
    by (rule lift_child_leaf [OF bc h res])
  have om: "set (om_nodes om) = own (object_at p b)" "distinct (om_nodes om)"
    using lb(1) by (simp_all add: r(1) own_def dag_at_def bq rec_ok_def tables_ok_def)
  have dom: "dom (memory q c) = dom (memory p c)" using l by (simp add: lifted_def)
  have sub: "set (om_nodes om) \<subseteq> dom (memory q c)" using lb(1) unfolding om(1) dom by (simp add: rec_ok_def tables_ok_def own_def)
  have "own (object_at p b) \<inter> own (object_at p x) = {}" if "x \<in> B" for x
  proof -
    have "x \<in> set (kids (object_at p c))" "b \<noteq> x" using b that by auto
    then show ?thesis using tr b(1) by (simp add: tree_def object_at_def)
  qed
  then have dis: "set (om_nodes om) \<inter> set (d_jobs (dag_at q c)) = {}"
    using l kid(3) [OF b(1)] unfolding om(1) lifted_def own_def dag_at_def by blast
  have okq: "mem_ok (dag_at q c)" "tables_ok (dag_at q c)" using l by (simp_all add: lifted_def)
  note a = AssumeOwnership_built [OF okq om(2) sub dis r(2)]
  have at: "object_at q' c = (object_at q c)\<lparr>o_dag := d'\<rparr>" "dag_at q' c = d'" using r(3) len by (simp_all add: object_at_def dag_at_def)
  have same: "object_at q' y = object_at p y" if "y \<noteq> c" "y \<notin> insert b B" for y
    using l that r(3) by (simp add: lifted_def object_at_def)
  have nk: "names_kept UNIV (memory p c) (memory q' c)"
    using l a(3,6) unfolding lifted_def names_kept_def at(2) node_at_def by simp
  have ow: "own (object_at q' c) = own (object_at p c) \<union> (\<Union>b \<in> insert b B. own (object_at p b))"
  proof -
    have "own (object_at q' c) = own (object_at q c) \<union> set (om_nodes om)" using a(4) by (simp add: own_def at(1) dag_at_def)
    moreover have "own (object_at q c) = own (object_at p c) \<union> (\<Union>b \<in> B. own (object_at p b))" using l by (simp add: lifted_def)
    ultimately show ?thesis unfolding om(1) by blast
  qed
  show ?thesis
    unfolding lifted_def
  proof (intro conjI allI impI)
    show "same_idle (dag_at p c) (dag_at q' c)" unfolding at(2) by (rule same_idle_trans [OF _ a(5)]) (use l in \<open>simp add: lifted_def\<close>)
    show "dom (memory q' c) = dom (memory p c)" using a(3) dom unfolding at(2) by simp
    show "o_splices (object_at q' c) = o_splices (object_at p c)" using l by (simp add: lifted_def at(1))
  qed (use l a(1,2) at(2) r(3,4) len(1) nk ow same in \<open>simp_all add: lifted_def\<close>)
qed

lemma lifted_start: "tree_at c p \<Longrightarrow> lifted c p {} p"
  using tree_at_current [of c p] by (simp add: lifted_def)

lemma fold_Inl: "(\<And>x. f x (Inl e) = Inl e) \<Longrightarrow> fold f xs (Inl e) = Inl e"
  by (induction xs) simp_all

lemma lifted_fold:
  assumes "tree_at c p" and "fold (\<lambda>(k, b) r. bindR r (lift_child (Suc n) c b)) es (Inr q) = Inr q'" and "lifted c p B q"
    and "distinct (map snd es)" and "set (map snd es) \<inter> B = {}" and "B \<union> set (map snd es) \<subseteq> set (kids (object_at p c))"
  shows "lifted c p (B \<union> set (map snd es)) q'"
  using assms(2-)
proof (induction es arbitrary: q B)
  case (Cons e es)
  obtain k b where e: "e = (k, b)" by fastforce
  obtain q1 where q1: "lift_child (Suc n) c b q = Inr q1"
  proof (cases "lift_child (Suc n) c b q")
    case (Inl x)
    then have "fold (\<lambda>(k, b) r. bindR r (lift_child (Suc n) c b)) es (Inl x) = Inr q'" using Cons.prems(1) by (simp add: e)
    then show ?thesis by (subst (asm) fold_Inl) auto
  qed (rule that)
  have l: "lifted c p (insert b B) q1"
    by (rule lifted_step [OF assms(1) Cons.prems(2) _ _ _ q1]) (use Cons.prems(4,5) e in auto)
  have "lifted c p (insert b B \<union> set (map snd es)) q'"
    by (rule Cons.IH [OF _ l]) (use Cons.prems(1,3-5) q1 e in auto)
  then show ?case by (simp add: e)
qed simp

lemma walk_table:
  assumes "reject_table h"
  shows "reject_table (snd (hash_walk body (startIterations h) s))"
    and "hash_entries (snd (hash_walk body (startIterations h) s)) = hash_entries h"
    and "fst (hash_walk body (startIterations h) s) = fold (\<lambda>(k, v). body k v) (hash_entries h) s"
proof -
  let ?t = "snd (hash_walk body (startIterations h) s)"
  have s: "hash_ok (startIterations h)" "iter_ok (startIterations h)" using startIterations_ok assms by (auto simp: reject_table_def)
  have e: "hash_entries ?t = hash_entries (startIterations h)" by (simp add: hash_entries_def hash_walk_table)
  then show "hash_entries ?t = hash_entries h" by (simp add: startIterations_def hash_entries_def)
  have "hash_ok ?t" using s(1) by (simp add: hash_ok_def e bucket_of_def hash_walk_table)
  then show "reject_table ?t" using assms by (simp add: reject_table_def hash_walk_table startIterations_def)
  show "fst (hash_walk body (startIterations h) s) = fold (\<lambda>(k, v). body k v) (hash_entries h) s"
    using hash_walk_rest [OF s] by simp
qed

lemma drain_table:
  assumes "reject_table h" and "hash_drain n (startIterations h) = Some h'" and "length (hash_entries h) < n"
  shows "reject_table h'" and "hash_entries h' = []"
proof -
  have s: "hash_ok (startIterations h)" "iter_ok (startIterations h)" using startIterations_ok assms(1) by (auto simp: reject_table_def)
  have m: "mset (hash_entries (startIterations h)) = mset (hash_rest (startIterations h))" by (simp add: startIterations_def hash_entries_def hash_rest_def)
  then have "\<exists>h'. hash_drain n (startIterations h) = Some h' \<and> hash_ok h' \<and> hash_entries h' = []"
    by (rule hash_drain_rest [OF s]) (use assms(3) in simp)
  then have h: "hash_ok h'" "hash_entries h' = []" using assms(2) by auto
  have "hash_drain n g = Some h' \<Longrightarrow> h_duplicateKeyBehavior h' = h_duplicateKeyBehavior g" for g
  proof (induction n arbitrary: g)
    case (Suc n)
    have it: "iterate g = (r, g') \<Longrightarrow> h_duplicateKeyBehavior g' = h_duplicateKeyBehavior g" for r g' using iterate_table [of g] by simp
    from Suc show ?case by (auto simp: behavior_kept dest!: it split: prod.splits option.splits)
  qed simp
  from this [OF assms(2)] h assms(1) show "reject_table h'" "hash_entries h' = []" by (simp_all add: reject_table_def startIterations_def)
qed

lemma LiftSplices_step:
  assumes t: "tree_at c p" and res: "LiftSplices (Suc (Suc n)) False c p = Inr (om, p')"
  shows "tree_at c p'" and "advance c p p'" and "kids (object_at p' c) = []" and "length (ps_objects p') = length (ps_objects p)"
    and "dom (memory p' c) = dom (memory p c)" and "own (object_at p' c) = owned (ps_objects p) c"
proof -
  let ?h = "o_splices (object_at p c)"
  let ?w = "hash_walk (\<lambda>key child r. bindR r (lift_child (Suc n) c child)) (startIterations ?h) (Inr p)"
  have c: "c < length (ps_objects p)" and rt: "reject_table ?h" and tr: "tree (memory p c) (ps_objects p) c"
    using t by (simp_all add: tree_at_def tree_def rec_ok_def object_at_def)
  note w = walk_table [OF rt, of "\<lambda>key child r. bindR r (lift_child (Suc n) c child)" "Inr p"]
  obtain q t' where q: "fst ?w = Inr q" "hash_drain (Suc (h_numElems (snd ?w))) (startIterations (snd ?w)) = Some t'"
    "p' = set_dag c (PropogateDirectoryToAllNodes (dag_at (set_splices c t' q) c)) (set_splices c t' q)"
    using res unfolding LiftSplices_self by (auto simp: Let_def split: prod.splits option.splits)
  have n: "h_numElems (snd ?w) = length (hash_entries (snd ?w))" using w(1) by (simp add: reject_table_def hash_ok_def)
  note d = drain_table [OF w(1) q(2)]
  have t': "reject_table t'" "hash_entries t' = []" using d n by simp_all
  have "fold (\<lambda>(k, b) r. bindR r (lift_child (Suc n) c b)) (hash_entries ?h) (Inr p) = Inr q" using q(1) w(3) by simp
  then have "lifted c p ({} \<union> set (map snd (hash_entries ?h))) q"
    by (rule lifted_fold [OF t _ lifted_start [OF t]]) (use tr in \<open>simp_all add: tree_def kids_def object_at_def\<close>)
  then have l: "lifted c p (set (kids (object_at p c))) q" by (simp add: kids_def)
  have len: "length (ps_objects q) = length (ps_objects p)" and ow: "own (object_at q c) = owned (ps_objects p) c"
    and okq: "mem_ok (dag_at q c)" "tables_ok (dag_at q c)" and dmq: "dom (memory q c) = dom (memory p c)"
    and nq: "names_kept UNIV (memory p c) (memory q c)" and idq: "same_idle (dag_at p c) (dag_at q c)" and cq: "ps_jobID_counter q = ps_jobID_counter p"
    and sq: "\<forall>b. b \<noteq> c \<longrightarrow> b \<notin> set (kids (object_at p c)) \<longrightarrow> object_at q b = object_at p b"
    using l by (simp_all add: lifted_def owned_def object_at_def)
  let ?d = "PropogateDirectoryToAllNodes (dag_at q c)"
  have at: "object_at (set_splices c t' q) c = (object_at q c)\<lparr>o_splices := t'\<rparr>" "dag_at (set_splices c t' q) c = dag_at q c"
    using c len by (simp_all add: set_splices_def set_object_def object_at_def dag_at_def)
  have p': "ps_objects p' = (ps_objects q)[c := (object_at q c)\<lparr>o_splices := t', o_dag := ?d\<rparr>]" "ps_jobID_counter p' = ps_jobID_counter p"
    unfolding q(3) set_dag_objects at using cq by (simp_all add: set_splices_def set_object_def)
  have e: "edit (dag_at q c) ?d" by (rule PropogateDirectory_edit [OF okq(2)])
  then have ev: "evolves (dag_at q c) ?d" by (simp add: edit_def)
  have ok: "mem_ok ?d" "tables_ok ?d" using edit_mem [OF okq(1) e] evolves_tables [OF okq(2) ev] by simp_all
  have c': "object_at p' c = (object_at q c)\<lparr>o_splices := t', o_dag := ?d\<rparr>" "dag_at p' c = ?d" using p' c len by (simp_all add: object_at_def dag_at_def)
  show k: "kids (object_at p' c) = []" using t'(2) by (simp add: kids_def c'(1))
  show len': "length (ps_objects p') = length (ps_objects p)" using p'(1) len by simp
  show dom: "dom (memory p' c) = dom (memory p c)" using ev dmq by (simp add: c'(2) evolves_def)
  show own': "own (object_at p' c) = owned (ps_objects p) c" using ev ow by (simp add: own_def c'(1) evolves_def dag_at_def)
  have "rec_ok (memory p' c) (object_at p' c)" using ok(2) t'(1) by (simp add: rec_ok_def c')
  then have "tree (memory p' c) (ps_objects p') c" using k c len' by (simp add: tree_def object_at_def)
  then show "tree_at c p'" using ok(1) t p'(2) dom by (simp add: tree_at_def c'(2))
  have "names_kept UNIV (memory q c) (memory p' c)" using ev by (simp add: names_kept_def evolves_def c'(2) node_at_def)
  then have nk: "names_kept UNIV (memory p c) (memory p' c)" using nq dmq unfolding names_kept_def by simp
  have ids: "same_idle (dag_at p c) (dag_at p' c)" unfolding c'(2) by (rule same_idle_trans [OF idq]) (use ev in \<open>simp add: evolves_def\<close>)
  show "advance c p p'"
    unfolding advance_def
  proof (intro conjI allI impI)
    show "owned (ps_objects p') c = owned (ps_objects p) c \<union> (dom (memory p' c) - dom (memory p c))"
      using k own' dom by (simp add: owned_def object_at_def)
    show "names_kept (- owned (ps_objects p) c) (memory p c) (memory p' c)" using nk by (simp add: names_kept_def)
    fix b assume "b < length (ps_objects p)" "b \<noteq> c" "b \<notin> set (kids (object_at p c))"
    then show "object_at p' b = object_at p b" using sq p'(1) by (simp add: object_at_def)
  qed (use k len' p'(2) ids in simp_all)
qed

end
