(* ===== verification/Splice_Forest.thy ===== *)
theory Splice_Forest
  imports Lift_Tree
begin

text \<open>
  \<open>LiftChildSplices\<close>: while it runs, an object has splices that have splices of their own. \<open>forest a p\<close> is
  \<^const>\<open>tree_at\<close> with one more level; each step of the walk turns the tree of one splice into a leaf
  that owns the same nodes.
\<close>

section \<open>Objects that differ in their view of the memory only\<close>

definition alike :: "dag_object \<Rightarrow> dag_object \<Rightarrow> bool" where
  "alike x y \<longleftrightarrow> own x = own y \<and> kids x = kids y \<and> (\<forall>m. rec_ok m x = rec_ok m y) \<and> same_idle (o_dag y) (o_dag x)"

lemma alike_refl [simp]: "alike x x"
  by (simp add: alike_def)

lemma alike_kids: "alike x y \<Longrightarrow> kids x = kids y"
  by (simp add: alike_def)

lemma alike_trans: "alike x y \<Longrightarrow> alike y z \<Longrightarrow> alike x z"
  by (auto simp: alike_def intro: same_idle_trans)

lemma alike_memory [simp]: "alike (x\<lparr>o_dag := (o_dag x)\<lparr>d_nodes := m, d_heap := h\<rparr>\<rparr>) x"
  by (simp add: alike_def own_def kids_def rec_ok_def tables_ok_def node_at_def same_idle_def)

lemma share_alike [simp]: "alike (object_at (share a c q) b) (object_at q b)"
proof (cases "b = c \<and> c < length (ps_objects q)")
  case True
  then show ?thesis by (simp add: object_at_def share_parts dag_at_def)
next
  case False
  then have "object_at (share a c q) b = object_at q b" by (auto simp: object_at_def share_parts list_update_beyond)
  then show ?thesis by simp
qed

lemma share_other [simp]: "b \<noteq> c \<Longrightarrow> object_at (share a c q) b = object_at q b"
  by (simp add: object_at_def share_parts)

lemma share_memory [simp]: "c < length (ps_objects q) \<Longrightarrow> memory (share a c q) c = memory q a"
  by (simp add: share_parts dag_at_def object_at_def)

lemma share_length [simp]: "length (ps_objects (share a c q)) = length (ps_objects q)"
  by (simp add: share_parts)

lemma share_counter [simp]: "ps_jobID_counter (share a c q) = ps_jobID_counter q"
  by (simp add: share_parts)

definition family :: "parser \<Rightarrow> nat \<Rightarrow> nat set" where
  "family p c = insert c (set (kids (object_at p c)))"

lemma tree_alike:
  assumes t: "tree m (ps_objects p) c" and al: "\<And>b. b \<in> family p c \<Longrightarrow> alike (object_at p' b) (object_at p b)"
    and len: "length (ps_objects p') = length (ps_objects p)" and kept: "names_kept (owned (ps_objects p) c) m m'"
  shows "tree m' (ps_objects p') c" and "owned (ps_objects p') c = owned (ps_objects p) c" and "family p' c = family p c"
proof -
  have c: "alike (object_at p' c) (object_at p c)" using al by (simp add: family_def)
  have k: "kids (object_at p' c) = kids (object_at p c)" by (rule alike_kids [OF c])
  have o: "own (object_at p' b) = own (object_at p b)" if "b \<in> family p c" for b using al [OF that] by (simp add: alike_def)
  have r: "rec_ok m' (object_at p' b)" if b: "b \<in> family p c" and "rec_ok m (object_at p b)" for b
  proof -
    have "own (object_at p b) \<subseteq> owned (ps_objects p) c" using b by (auto simp: family_def owned_def object_at_def)
    then have "names_kept (own (object_at p b)) m m'" using kept unfolding names_kept_def by blast
    then show ?thesis using rec_ok_mono [OF that(2)] al [OF b] by (simp add: alike_def)
  qed
  have kid: "kids (object_at p' b) = kids (object_at p b)" if "b \<in> family p c" for b by (rule alike_kids [OF al [OF that]])
  show "family p' c = family p c" by (simp add: family_def k)
  show "owned (ps_objects p') c = owned (ps_objects p) c" using o k by (simp add: owned_def object_at_def family_def)
  show "tree m' (ps_objects p') c"
    using t r kid o k len unfolding tree_def leaf_def family_def by (simp add: object_at_def)
qed

section \<open>The forest\<close>

definition forest :: "nat \<Rightarrow> parser \<Rightarrow> bool" where
  "forest a p \<longleftrightarrow> a < length (ps_objects p) \<and> rec_ok (memory p a) (object_at p a) \<and> mem_ok (dag_at p a) \<and>
     (\<forall>i \<in> dom (memory p a). i < ps_jobID_counter p) \<and> distinct (kids (object_at p a)) \<and>
     (\<forall>c \<in> set (kids (object_at p a)). a < c \<and> tree (memory p a) (ps_objects p) c \<and> owned (ps_objects p) c \<inter> own (object_at p a) = {}) \<and>
     (\<forall>c \<in> set (kids (object_at p a)). \<forall>c' \<in> set (kids (object_at p a)). c \<noteq> c' \<longrightarrow>
        owned (ps_objects p) c \<inter> owned (ps_objects p) c' = {} \<and> family p c \<inter> family p c' = {})"

definition below :: "nat \<Rightarrow> parser \<Rightarrow> JobID_t set" where
  "below a p = (\<Union>c \<in> set (kids (object_at p a)). owned (ps_objects p) c)"

text \<open>What lifting splices of splices may change.\<close>

definition shrunk :: "nat \<Rightarrow> parser \<Rightarrow> parser \<Rightarrow> bool" where
  "shrunk a p p' \<longleftrightarrow> length (ps_objects p') = length (ps_objects p) \<and> alike (object_at p' a) (object_at p a) \<and>
     dom (memory p' a) = dom (memory p a) \<and> names_kept (- below a p) (memory p a) (memory p' a) \<and>
     ps_jobID_counter p \<le> ps_jobID_counter p' \<and>
     (\<forall>c \<in> set (kids (object_at p a)). owned (ps_objects p') c = owned (ps_objects p) c \<and> family p' c \<subseteq> family p c) \<and>
     (\<forall>b. b < length (ps_objects p) \<longrightarrow> b \<noteq> a \<longrightarrow> (\<forall>c \<in> set (kids (object_at p a)). b \<notin> family p c) \<longrightarrow> object_at p' b = object_at p b)"

lemma shrunk_refl [simp]: "shrunk a p p"
  by (simp add: shrunk_def)

lemma shrunk_trans:
  assumes "shrunk a p p1" and "shrunk a p1 p2"
  shows "shrunk a p p2"
proof -
  have a: "alike (object_at p1 a) (object_at p a)" "alike (object_at p2 a) (object_at p1 a)" using assms by (simp_all add: shrunk_def)
  have k: "kids (object_at p1 a) = kids (object_at p a)" by (rule alike_kids [OF a(1)])
  have c: "owned (ps_objects p1) c = owned (ps_objects p) c" "family p1 c \<subseteq> family p c"
    "owned (ps_objects p2) c = owned (ps_objects p1) c" "family p2 c \<subseteq> family p1 c" if "c \<in> set (kids (object_at p a))" for c
    using assms that k by (simp_all add: shrunk_def)
  have b: "below a p1 = below a p" using c(1) k by (simp add: below_def)
  have n: "names_kept (- below a p) (memory p a) (memory p2 a)" using assms b unfolding shrunk_def names_kept_def by auto
  have o: "object_at p2 b = object_at p b"
    if "b < length (ps_objects p)" "b \<noteq> a" "\<forall>c \<in> set (kids (object_at p a)). b \<notin> family p c" for b
  proof -
    have "\<forall>c \<in> set (kids (object_at p1 a)). b \<notin> family p1 c" using that(3) c(2) k by auto
    then show ?thesis using assms that by (simp add: shrunk_def)
  qed
  show ?thesis
    unfolding shrunk_def
  proof (intro conjI allI impI ballI)
    show "alike (object_at p2 a) (object_at p a)" using a alike_trans by blast
    show "family p2 c' \<subseteq> family p c'" if "c' \<in> set (kids (object_at p a))" for c' using c(2,4) [OF that] by simp
  qed (use assms n o c in \<open>simp_all add: shrunk_def\<close>)
qed

lemma forest_kid:
  assumes "forest a p" and "c \<in> set (kids (object_at p a))"
  shows "a < c" and "tree (memory p a) (ps_objects p) c" and "owned (ps_objects p) c \<inter> own (object_at p a) = {}"
    and "c < length (ps_objects p)" and "b \<in> family p c \<Longrightarrow> a < b \<and> b < length (ps_objects p)"
proof -
  show a: "a < c" and t: "tree (memory p a) (ps_objects p) c" and "owned (ps_objects p) c \<inter> own (object_at p a) = {}"
    using assms by (simp_all add: forest_def)
  show l: "c < length (ps_objects p)" using t by (simp add: tree_def)
  show "b \<in> family p c \<Longrightarrow> a < b \<and> b < length (ps_objects p)" using a t l by (auto simp: family_def tree_def leaf_def object_at_def)
qed

lemma forest_step:
  assumes f: "forest a q" and c: "c \<in> set (kids (object_at q a))"
    and res: "LiftSplices (length (ps_objects q)) False c (share a c q) = Inr (om, q2)"
  shows "forest a (share c a q2)" and "shrunk a q (share c a q2)" and "kids (object_at (share c a q2) c) = []"
proof -
  let ?q1 = "share a c q" and ?q3 = "share c a q2"
  let ?m = "memory q a" and ?m3 = "memory (share c a q2) a"
  note kc = forest_kid [OF f c]
  have ac: "a \<notin> family q c" using kc(5) by blast
  obtain n where n: "length (ps_objects q) = Suc (Suc n)" using kc(1,4) by (cases "length (ps_objects q)", simp, cases "length (ps_objects q) - 1") auto
  have al1: "alike (object_at ?q1 b) (object_at q b)" for b by simp
  note t1 = tree_alike [OF kc(2) al1 share_length, of "?m", simplified]
  have m1: "memory ?q1 c = ?m" using kc(4) by simp
  have mo1: "mem_ok (dag_at ?q1 c)" using f mem_ok_cong [OF m1] by (simp add: forest_def)
  have "tree_at c ?q1" using t1(1) mo1 f m1 by (simp add: tree_at_def forest_def)
  note L = LiftSplices_step [OF this res [unfolded n]]
  have len: "length (ps_objects q2) = length (ps_objects q)" using L(4) by simp
  have m3: "?m3 = memory q2 c" using kc(1,4) len by simp
  have dom3: "dom ?m3 = dom ?m" using L(5) m1 m3 by simp
  have n3: "names_kept (- owned (ps_objects q) c) ?m ?m3" using L(2) t1(2) m1 m3 by (simp add: advance_def)
  have out: "object_at q2 b = object_at q b" if "b < length (ps_objects q)" "b \<notin> family q c" for b
  proof -
    have "b \<noteq> c" "b \<notin> set (kids (object_at ?q1 c))" using that(2) t1(3) by (auto simp: family_def)
    then show ?thesis using L(2) that(1) by (simp add: advance_def)
  qed
  have al3: "alike (object_at ?q3 b) (object_at q b)" if "b < length (ps_objects q)" "b \<notin> family q c" for b
    using share_alike [of c a q2 b] out [OF that] by simp
  have ala: "alike (object_at ?q3 a) (object_at q a)" using al3 ac f by (simp add: forest_def)
  have ka: "kids (object_at ?q3 a) = kids (object_at q a)" by (rule alike_kids [OF ala])
  have t2: "tree ?m3 (ps_objects q2) c" using L(1) m3 by (simp add: tree_at_def)
  have sa: "alike (object_at ?q3 b) (object_at q2 b)" for b by simp
  note t3 = tree_alike [OF t2 sa share_length, of ?m3, simplified]
  show k3: "kids (object_at ?q3 c) = []" using alike_kids [OF share_alike [of c a q2 c]] L(3) by simp
  have oc: "owned (ps_objects ?q3) c = owned (ps_objects q) c" using t3(2) L(3,6) t1(2) by (simp add: owned_def object_at_def)
  have fc: "family ?q3 c = {c}" by (simp add: family_def k3)
  have other: "tree ?m3 (ps_objects ?q3) x \<and> owned (ps_objects ?q3) x = owned (ps_objects q) x \<and> family ?q3 x = family q x"
    if x: "x \<in> set (kids (object_at q a))" "x \<noteq> c" for x
  proof -
    have d: "owned (ps_objects q) x \<inter> owned (ps_objects q) c = {}" "family q x \<inter> family q c = {}" using f x c by (simp_all add: forest_def)
    have a: "alike (object_at ?q3 b) (object_at q b)" if "b \<in> family q x" for b by (rule al3) (use forest_kid(5) [OF f x(1) that] d(2) that in auto)
    have l: "length (ps_objects ?q3) = length (ps_objects q)" using len by simp
    have "names_kept (owned (ps_objects q) x) ?m ?m3" using n3 d(1) unfolding names_kept_def by blast
    note t = tree_alike [OF forest_kid(2) [OF f x(1)] a l this]
    show ?thesis by (intro conjI t)
  qed
  have each: "tree ?m3 (ps_objects ?q3) x" "owned (ps_objects ?q3) x = owned (ps_objects q) x" "family ?q3 x \<subseteq> family q x"
    if "x \<in> set (kids (object_at q a))" for x
  proof -
    have "tree ?m3 (ps_objects ?q3) x \<and> owned (ps_objects ?q3) x = owned (ps_objects q) x \<and> family ?q3 x \<subseteq> family q x"
    proof (cases "x = c")
      case True
      then show ?thesis unfolding True fc using t3(1) oc by (simp add: family_def)
    qed (use other [OF that] in simp)
    then show "tree ?m3 (ps_objects ?q3) x" "owned (ps_objects ?q3) x = owned (ps_objects q) x" "family ?q3 x \<subseteq> family q x" by simp_all
  qed
  have oa: "own (object_at ?q3 a) = own (object_at q a)" using ala by (simp add: alike_def)
  have ra: "rec_ok ?m3 (object_at ?q3 a)"
  proof -
    have "rec_ok ?m3 (object_at q a)"
      by (rule rec_ok_mono [of ?m]) (use f kc(3) n3 in \<open>auto simp: forest_def names_kept_def\<close>)
    then show ?thesis using ala by (simp add: alike_def)
  qed
  have mo3: "mem_ok (dag_at ?q3 a)" using L(1) mem_ok_cong [OF m3] by (simp add: tree_at_def)
  have cnt: "\<forall>i \<in> dom ?m3. i < ps_jobID_counter ?q3" using L(1) m3 by (simp add: tree_at_def)
  show "forest a ?q3"
    unfolding forest_def ka
  proof (intro conjI ballI impI)
    fix x assume x: "x \<in> set (kids (object_at q a))"
    show "a < x" by (rule forest_kid(1) [OF f x])
    show "tree ?m3 (ps_objects ?q3) x" by (rule each(1) [OF x])
    show "owned (ps_objects ?q3) x \<inter> own (object_at ?q3 a) = {}" using forest_kid(3) [OF f x] by (simp add: each(2) [OF x] oa)
    fix y assume y: "y \<in> set (kids (object_at q a))" "x \<noteq> y"
    then have d: "owned (ps_objects q) x \<inter> owned (ps_objects q) y = {}" "family q x \<inter> family q y = {}" using f x by (simp_all add: forest_def)
    show "owned (ps_objects ?q3) x \<inter> owned (ps_objects ?q3) y = {}" using d(1) by (simp add: each(2) x y)
    show "family ?q3 x \<inter> family ?q3 y = {}" using d(2) each(3) [OF x] each(3) [OF y(1)] by blast
  qed (use f len ra mo3 cnt in \<open>simp_all add: forest_def\<close>)
  show "shrunk a q ?q3"
    unfolding shrunk_def
  proof (intro conjI ballI allI impI)
    show "names_kept (- below a q) ?m ?m3" using n3 c unfolding names_kept_def below_def by blast
    show "ps_jobID_counter q \<le> ps_jobID_counter ?q3" using L(2) by (simp add: advance_def)
    show "object_at ?q3 b = object_at q b" if "b < length (ps_objects q)" "b \<noteq> a" "\<forall>c \<in> set (kids (object_at q a)). b \<notin> family q c" for b
      using out that c by simp
  qed (use len ala dom3 each in simp_all)
qed


definition lift_below :: "nat \<Rightarrow> nat \<Rightarrow> parser \<Rightarrow> parser res" where
  "lift_below a c p = bindR (LiftSplices (length (ps_objects p)) False c (share a c p)) (\<lambda>(om, p). Inr (share c a p))"

lemma LiftChildSplices_walk:
  "LiftChildSplices a p =
     (case hash_walk (\<lambda>key c r. bindR r (lift_below a c)) (startIterations (o_splices (object_at p a))) (Inr p) of
        (r, t) \<Rightarrow> bindR r (\<lambda>p. Inr (set_splices a t p)))"
  by (simp add: LiftChildSplices_def lift_below_def [abs_def])

lemma cleared:
  assumes "forest a p" and "c \<in> set (kids (object_at p a))" and "family p c \<subseteq> {c}"
  shows "kids (object_at p c) = []"
proof -
  have "\<forall>b \<in> set (kids (object_at p c)). c < b" using forest_kid(2) [OF assms(1,2)] by (simp add: tree_def object_at_def)
  then show ?thesis using assms(3) by (cases "kids (object_at p c)") (auto simp: family_def)
qed

lemma forest_fold:
  assumes "forest a q" and "fold (\<lambda>(k, c) r. bindR r (lift_below a c)) es (Inr q) = Inr q'" and "set (map snd es) \<subseteq> set (kids (object_at q a))"
  shows "forest a q' \<and> shrunk a q q' \<and> (\<forall>c \<in> set (map snd es). kids (object_at q' c) = [])"
  using assms
proof (induction es arbitrary: q)
  case (Cons e es)
  obtain k c where e: "e = (k, c)" by fastforce
  obtain q1 where q1: "lift_below a c q = Inr q1"
  proof (cases "lift_below a c q")
    case (Inl x)
    then have "fold (\<lambda>(k, c) r. bindR r (lift_below a c)) es (Inl x) = Inr q'" using Cons.prems(2) by (simp add: e)
    then show ?thesis by (subst (asm) fold_Inl) auto
  qed (rule that)
  obtain om q2 where r: "LiftSplices (length (ps_objects q)) False c (share a c q) = Inr (om, q2)" "q1 = share c a q2"
    using q1 by (auto simp: lift_below_def)
  have c: "c \<in> set (kids (object_at q a))" using Cons.prems(3) by (simp add: e)
  note s = forest_step [OF Cons.prems(1) c r(1), folded r(2)]
  have k: "kids (object_at q1 a) = kids (object_at q a)" using s(2) alike_kids by (simp add: shrunk_def)
  have IH: "forest a q' \<and> shrunk a q1 q' \<and> (\<forall>c \<in> set (map snd es). kids (object_at q' c) = [])"
    by (rule Cons.IH [OF s(1)]) (use Cons.prems(2,3) q1 e k in auto)
  then have sh: "shrunk a q1 q'" and f: "forest a q'" by simp_all
  have "kids (object_at q' c) = []"
  proof (rule cleared [OF f])
    show "c \<in> set (kids (object_at q' a))" using alike_kids [of "object_at q' a" "object_at q1 a"] sh c k by (simp add: shrunk_def)
    have "family q' c \<subseteq> family q1 c" using sh c k by (simp add: shrunk_def)
    then show "family q' c \<subseteq> {c}" using s(3) by (simp add: family_def)
  qed
  then show ?case using IH shrunk_trans [OF s(2) sh] by (simp add: e)
qed simp

lemma LiftChildSplices_step:
  assumes f: "forest a p" and res: "LiftChildSplices a p = Inr p'"
  shows "tree_at a p'" and "shrunk a p p'" and "owned (ps_objects p') a = own (object_at p a) \<union> below a p"
proof -
  let ?h = "o_splices (object_at p a)"
  let ?w = "hash_walk (\<lambda>key c r. bindR r (lift_below a c)) (startIterations ?h) (Inr p)"
  have a: "a < length (ps_objects p)" and rt: "reject_table ?h" using f by (simp_all add: forest_def rec_ok_def)
  note w = walk_table [OF rt, of "\<lambda>key c r. bindR r (lift_below a c)" "Inr p"]
  obtain q where q: "fst ?w = Inr q" "p' = set_splices a (snd ?w) q"
    using res unfolding LiftChildSplices_walk by (auto split: prod.splits)
  have "fold (\<lambda>(k, c) r. bindR r (lift_below a c)) (hash_entries ?h) (Inr p) = Inr q" using q(1) w(3) by simp
  then have F: "forest a q" "shrunk a p q" and c: "\<forall>c \<in> set (kids (object_at p a)). kids (object_at q c) = []"
    using forest_fold [OF f, of "hash_entries ?h" q] by (simp_all add: kids_def)
  have al: "alike (object_at q a) (object_at p a)" and len: "length (ps_objects q) = length (ps_objects p)" using F(2) by (simp_all add: shrunk_def)
  have k: "kids (object_at q a) = kids (object_at p a)" by (rule alike_kids [OF al])
  have p'o: "ps_objects p' = (ps_objects q)[a := (object_at q a)\<lparr>o_splices := snd ?w\<rparr>]" "ps_jobID_counter p' = ps_jobID_counter q"
    by (simp_all add: q(2) set_splices_def set_object_def)
  have at: "object_at p' a = (object_at q a)\<lparr>o_splices := snd ?w\<rparr>" "dag_at p' a = dag_at q a"
    using p'o a len by (simp_all add: object_at_def dag_at_def)
  have oth: "object_at p' b = object_at q b" if "b \<noteq> a" for b using p'o(1) that by (simp add: object_at_def)
  have ka: "kids (object_at p' a) = kids (object_at p a)" using w(2) by (simp add: at(1) kids_def)
  have oa: "own (object_at p' a) = own (object_at q a)" by (simp add: at(1) own_def)
  have kid: "a < b \<and> leaf (memory q a) (ps_objects q) b \<and> owned (ps_objects q) b = own (object_at p' b) \<and> ps_objects p' ! b = ps_objects q ! b"
    if b: "b \<in> set (kids (object_at p a))" for b
  proof -
    have "b \<in> set (kids (object_at q a))" using b k by simp
    note kb = forest_kid [OF F(1) this]
    have z: "kids (ps_objects q ! b) = []" using c b by (simp add: object_at_def)
    have "leaf (memory q a) (ps_objects q) b" using kb(2) z by (simp add: leaf_def tree_def)
    moreover have "ps_objects p' ! b = ps_objects q ! b" using kb(1) oth [of b] by (simp add: object_at_def)
    ultimately show ?thesis using kb(1) z by (simp add: owned_def object_at_def)
  qed
  have bl: "owned (ps_objects q) b = owned (ps_objects p) b" if "b \<in> set (kids (object_at p a))" for b using F(2) that by (simp add: shrunk_def)
  show ow: "owned (ps_objects p') a = own (object_at p a) \<union> below a p"
    using kid bl ka oa al by (simp add: owned_def [of _ a] below_def object_at_def alike_def)
  have "rec_ok (memory q a) (object_at p' a)" using F(1) w(1) by (simp add: forest_def rec_ok_def at(1))
  moreover have "own (object_at p' b) \<inter> own (object_at p' a) = {}" if "b \<in> set (kids (object_at p a))" for b
    using forest_kid(3) [OF F(1), of b] kid [OF that] that k oa by simp
  moreover have "own (object_at p' b) \<inter> own (object_at p' x) = {}"
    if "b \<in> set (kids (object_at p a))" "x \<in> set (kids (object_at p a))" "b \<noteq> x" for b x
  proof -
    have "owned (ps_objects q) b \<inter> owned (ps_objects q) x = {}" using F(1) that k by (simp add: forest_def)
    then show ?thesis using kid that by simp
  qed
  moreover have "leaf (memory q a) (ps_objects p') b" if "b \<in> set (kids (object_at p a))" for b
    using kid [OF that] p'o(1) by (simp add: leaf_def)
  ultimately have "tree (memory q a) (ps_objects p') a"
    using ka kid a len p'o(1) f unfolding tree_def by (simp add: object_at_def forest_def)
  then show "tree_at a p'" using F(1) p'o(2) by (simp add: tree_at_def forest_def at(2))
  have "reject_table (o_splices (object_at q a))" using F(1) by (simp add: forest_def rec_ok_def)
  then have ala: "alike (object_at p' a) (object_at p a)"
    using al w(1,2) rt by (simp add: at(1) alike_def own_def rec_ok_def kids_def)
  have fam: "family p' b = family q b \<and> owned (ps_objects p') b = owned (ps_objects q) b" if "b \<in> set (kids (object_at p a))" for b
  proof -
    have "object_at p' b = object_at q b" using kid [OF that] by (simp add: object_at_def)
    moreover have "kids (object_at q b) = []" using c that by blast
    ultimately show ?thesis by (simp add: family_def owned_def object_at_def)
  qed
  show "shrunk a p p'"
    unfolding shrunk_def at(2)
  proof (intro conjI allI ballI impI)
    show "object_at p' b = object_at p b"
      if "b < length (ps_objects p)" "b \<noteq> a" "\<forall>c \<in> set (kids (object_at p a)). b \<notin> family p c" for b
      using F(2) that oth by (simp add: shrunk_def)
  qed (use F(2) p'o len fam ala in \<open>simp_all add: shrunk_def\<close>)
qed

end
