(* ===== verification/Parse_Sound.thy ===== *)
theory Parse_Sound
  imports Splice_Forest
begin

text \<open>
  Soundness of the parser: whatever the DAG files contain, a parse that succeeds leaves the objects
  consistent (\<^const>\<open>tree_at\<close>), by induction on the nesting of splices. The DAG that \<open>main_init\<close>
  starts then has the shape its engine relies on.
\<close>

lemma names_kept_trans:
  assumes "names_kept S m m'" and "names_kept S' m' m''" and "S \<inter> dom m \<subseteq> S'"
  shows "names_kept S m m''"
  unfolding names_kept_def
proof (intro conjI ballI)
  show "dom m \<subseteq> dom m''" using assms(1,2) unfolding names_kept_def by blast
  fix i assume i: "i \<in> S \<inter> dom m"
  then have "i \<in> S' \<inter> dom m'" using assms(1,3) unfolding names_kept_def by blast
  then show "jobName (the (m'' i)) = jobName (the (m i))" using assms(1,2) i unfolding names_kept_def by metis
qed

section \<open>A new splice\<close>

lemma new_splice_tree:
  assumes t: "tree_at a p" and res: "new_splice dir a p = (b, p')"
  shows "b = length (ps_objects p)" and "tree_at b p'" and "kids (object_at p' b) = []" and "own (object_at p' b) = {}"
    and "memory p' b = memory p a" and "ps_jobID_counter p' = ps_jobID_counter p" and "length (ps_objects p') = Suc b"
    and "c < b \<Longrightarrow> object_at p' c = object_at p c"
proof -
  have a: "a < length (ps_objects p)" using t by (rule tree_at_current(3))
  define x where "x = (new_object (splice_config (dag_at p a)) (o_prohibitMultiJobs (object_at p a)))
    \<lparr>o_dag := (o_dag (new_object (splice_config (dag_at p a)) (o_prohibitMultiJobs (object_at p a))))\<lparr>d_directory := dir\<rparr>\<rparr>"
  have x: "p' = share a b (p\<lparr>ps_objects := ps_objects p @ [x], ps_thisDagNum := ps_thisDagNum p - 1\<rparr>)" and b: "b = length (ps_objects p)"
    using res unfolding new_splice_def Let_def x_def by auto
  have e: "o_splices x = new_HashTable hashFuncChars rejectDuplicateKeys" by (simp add: x_def new_object_def)
  have d: "d_jobs (o_dag x) = []" "d_nodeIDHash (o_dag x) = Map.empty" "d_nodeNameHash (o_dag x) = Map.empty"
      "d_splice_initial_nodes (o_dag x) = []" "d_splice_final_nodes (o_dag x) = []"
    by (simp_all add: x_def new_object_def new_Dag_def)
  show "b = length (ps_objects p)" by (rule b)
  let ?p = "p\<lparr>ps_objects := ps_objects p @ [x], ps_thisDagNum := ps_thisDagNum p - 1\<rparr>"
  have m: "memory ?p a = memory p a" "dag_at ?p a = dag_at p a" using a by (simp_all add: dag_at_def object_at_def nth_append)
  show mem: "memory p' b = memory p a" using m(1) by (simp add: x b)
  have al: "alike (object_at p' b) x" using share_alike [of a b ?p b] by (simp add: x b object_at_def)
  have "hash_entries (o_splices x) = [] \<and> reject_table (o_splices x)"
    using htab.new_dict(1) by (simp add: e) (simp add: new_HashTable_def hash_entries_def)
  then have k: "kids x = []" and r: "rec_ok m x" for m
    using d by (simp_all add: kids_def rec_ok_def tables_ok_def)
  show k': "kids (object_at p' b) = []" using alike_kids [OF al] k by simp
  show "own (object_at p' b) = {}" using al d(1) by (simp add: alike_def own_def)
  show c: "ps_jobID_counter p' = ps_jobID_counter p" by (simp add: x)
  show l: "length (ps_objects p') = Suc b" by (simp add: x b)
  show "c < b \<Longrightarrow> object_at p' c = object_at p c" by (simp add: x b) (simp add: object_at_def nth_append)
  have "rec_ok (memory p a) (object_at p' b)" using al r by (simp add: alike_def)
  then have "tree (memory p a) (ps_objects p') b" using k' l by (simp add: tree_def object_at_def)
  moreover have "mem_ok (dag_at p' b)" using t mem_ok_cong [OF mem] by (simp add: tree_at_def)
  ultimately show "tree_at b p'" using t mem c by (simp add: tree_at_def)
qed

text \<open>The state after the splice has been entered in the table of the object above.\<close>

lemma leaf_tree: "leaf m obs c \<Longrightarrow> tree m obs c \<and> owned obs c = own (obs ! c)"
  by (simp add: leaf_def tree_def owned_def)

lemma forest_insert:
  assumes t: "tree_at a p" and b: "b = length (ps_objects p)" and tb: "tree_at b q" and lower: "\<And>c. c < b \<Longrightarrow> object_at q c = object_at p c"
    and kept: "names_kept UNIV (memory p a) (memory q b)" and own: "owned (ps_objects q) b = dom (memory q b) - dom (memory p a)"
    and tab: "reject_table h" "mset (map snd (hash_entries h)) = add_mset b (mset (kids (object_at p a)))"
    and p': "p' = set_splices a h (share b a q)"
  shows "forest a p'" and "set (kids (object_at p' a)) = insert b (set (kids (object_at p a)))"
    and "own (object_at p' a) = own (object_at p a)" and "memory p' a = memory q b" and "same_idle (dag_at p a) (dag_at p' a)"
    and "x \<noteq> a \<Longrightarrow> object_at p' x = object_at q x" and "ps_jobID_counter p' = ps_jobID_counter q" and "length (ps_objects p') = length (ps_objects q)"
    and "below a p' = (\<Union>c \<in> set (kids (object_at p a)). own (object_at p c)) \<union> (dom (memory q b) - dom (memory p a))"
    and "c \<in> set (kids (object_at p a)) \<Longrightarrow> family p' c = {c}"
proof -
  let ?m = "memory p a" and ?m' = "memory q b"
  have ab: "a < b" and bl: "b < length (ps_objects q)" using tree_at_current(3) [OF t] tree_at_current(3) [OF tb] b by simp_all
  show c: "ps_jobID_counter p' = ps_jobID_counter q" and l: "length (ps_objects p') = length (ps_objects q)"
    by (simp_all add: p' set_splices_def set_object_def)
  show oth: "x \<noteq> a \<Longrightarrow> object_at p' x = object_at q x" for x by (simp add: p' set_splices_def set_object_def) (simp add: object_at_def share_parts)
  have at: "object_at p' a = (object_at (share b a q) a)\<lparr>o_splices := h\<rparr>" using ab bl
    by (simp add: p' set_splices_def set_object_def) (simp add: object_at_def share_parts)
  have al: "alike (object_at (share b a q) a) (object_at p a)" using share_alike [of b a q a] lower [OF ab] by simp
  show o: "own (object_at p' a) = own (object_at p a)" using al by (simp add: at alike_def own_def)
  show i: "same_idle (dag_at p a) (dag_at p' a)" using al by (simp add: dag_at_def at alike_def)
  show m: "memory p' a = ?m'" using share_memory [of a q b] ab bl by (simp add: dag_at_def at)
  have k: "mset (kids (object_at p' a)) = add_mset b (mset (kids (object_at p a)))" using tab(2) by (simp add: at kids_def)
  then show ks: "set (kids (object_at p' a)) = insert b (set (kids (object_at p a)))"
    by (metis set_mset_add_mset_insert set_mset_mset)
  have kid: "a < x \<and> x < b \<and> leaf ?m (ps_objects p) x \<and> own (object_at p x) \<inter> own (object_at p a) = {}" if "x \<in> set (kids (object_at p a))" for x
    using t that b by (simp add: tree_at_def tree_def leaf_def object_at_def)
  have nb: "b \<notin> set (kids (object_at p a))" using kid by blast
  have dk: "distinct (kids (object_at p' a))"
  proof -
    have "distinct (b # kids (object_at p a))" using t nb by (simp add: tree_at_def tree_def object_at_def)
    moreover have "mset (kids (object_at p' a)) = mset (b # kids (object_at p a))" using k by simp
    ultimately show ?thesis using mset_eq_imp_distinct_iff by blast
  qed
  have lf: "tree ?m' (ps_objects p') x \<and> owned (ps_objects p') x = own (object_at p x) \<and> family p' x = {x} \<and> own (object_at p x) \<subseteq> dom ?m"
    if x: "x \<in> set (kids (object_at p a))" for x
  proof -
    have "object_at p' x = object_at p x" using oth [of x] lower [of x] kid [OF x] by simp
    then have e: "ps_objects p' ! x = ps_objects p ! x" by (simp add: object_at_def)
    have lx: "rec_ok ?m (ps_objects p ! x)" "kids (ps_objects p ! x) = []" using kid [OF x] by (simp_all add: leaf_def)
    have "rec_ok ?m' (ps_objects p ! x)" by (rule rec_ok_mono [OF lx(1)]) (use kept in \<open>simp add: names_kept_def\<close>)
    then have "leaf ?m' (ps_objects p') x" using lx(2) kid [OF x] bl l by (simp add: leaf_def e)
    from leaf_tree [OF this] lx show ?thesis by (simp add: e object_at_def family_def rec_ok_def tables_ok_def own_def)
  qed
  then show "x \<in> set (kids (object_at p a)) \<Longrightarrow> family p' x = {x}" for x by simp
  have ge: "b \<le> x" if "x \<in> family q b" for x using tb that by (auto simp: family_def tree_at_def tree_def object_at_def)
  have B: "tree ?m' (ps_objects p') b" "owned (ps_objects p') b = owned (ps_objects q) b" "family p' b = family q b"
  proof -
    have s: "alike (object_at p' x) (object_at q x)" if "x \<in> family q b" for x using oth [of x] ge [OF that] ab by simp
    have tq: "tree ?m' (ps_objects q) b" using tb by (simp add: tree_at_def)
    note B = tree_alike [OF tq s l names_kept_refl]
    show "tree ?m' (ps_objects p') b" "owned (ps_objects p') b = owned (ps_objects q) b" "family p' b = family q b" by (rule B, assumption?)+
  qed
  have ra: "rec_ok ?m (object_at p a)" using t by (simp add: tree_at_def tree_def object_at_def)
  then have oa: "own (object_at p a) \<subseteq> dom ?m" by (simp add: rec_ok_def tables_ok_def own_def)
  have "rec_ok ?m' (object_at p a)" by (rule rec_ok_mono [OF ra]) (use kept in \<open>simp add: names_kept_def\<close>)
  then have "rec_ok ?m' (object_at (share b a q) a)" using al by (simp add: alike_def)
  then have ra': "rec_ok ?m' (object_at p' a)" using tab(1) by (simp add: at rec_ok_def)
  show bel: "below a p' = (\<Union>c \<in> set (kids (object_at p a)). own (object_at p c)) \<union> (dom ?m' - dom ?m)"
    using lf B(2) own by (auto simp: below_def ks simp del: domIff)
  have disj: "owned (ps_objects p') x \<inter> owned (ps_objects p') y = {} \<and> family p' x \<inter> family p' y = {}"
    if xy: "x \<in> set (kids (object_at p' a))" "y \<in> set (kids (object_at p' a))" "x \<noteq> y" for x y
  proof -
    have old: "owned (ps_objects p') b \<inter> owned (ps_objects p') z = {} \<and> family p' b \<inter> family p' z = {}" if z: "z \<in> set (kids (object_at p a))" for z
    proof -
      have "z \<notin> family q b" using ge kid [OF z] by fastforce
      then show ?thesis using lf [OF z] B(2,3) own by auto
    qed
    have both: ?thesis if "x \<in> set (kids (object_at p a))" "y \<in> set (kids (object_at p a))"
    proof -
      have "own (object_at p x) \<inter> own (object_at p y) = {}" using t that xy(3) by (simp add: tree_at_def tree_def object_at_def)
      then show ?thesis using lf [OF that(1)] lf [OF that(2)] xy(3) by simp
    qed
    consider "x = b" | "y = b" | "x \<noteq> b" "y \<noteq> b" by blast
    then show ?thesis
    proof cases
      case 1
      then show ?thesis using old [of y] xy unfolding ks by simp
    next
      case 2
      then show ?thesis using old [of x] xy unfolding ks by (simp add: Int_commute)
    next
      case 3
      then show ?thesis using both xy unfolding ks by simp
    qed
  qed
  have mo: "mem_ok (dag_at p' a)" using tb mem_ok_cong [OF m] by (simp add: tree_at_def)
  have each: "a < x \<and> tree ?m' (ps_objects p') x \<and> owned (ps_objects p') x \<inter> own (object_at p' a) = {}" if x: "x \<in> set (kids (object_at p' a))" for x
  proof (cases "x = b")
    case True
    then show ?thesis using B ab own oa o by (auto simp del: domIff)
  next
    case False
    then have "x \<in> set (kids (object_at p a))" using x ks by simp
    then show ?thesis using lf kid o by simp
  qed
  show "forest a p'"
    unfolding forest_def m
  proof (intro conjI ballI impI)
    show "a < length (ps_objects p')" using ab bl l by simp
    show "i < ps_jobID_counter p'" if "i \<in> dom ?m'" for i using tb that c by (simp add: tree_at_def)
  qed (use ra' mo dk each disj in simp_all)
qed

lemma insert_entry:
  assumes "reject_table h" and "hash_insert k v h = (rc, h')" and "rc \<noteq> -1"
  shows "reject_table h'" and "mset (map snd (hash_entries h')) = add_mset v (mset (map snd (hash_entries h)))"
proof -
  have n: "hash_lookup h k = None" using assms(2,3) htab.ins_old [OF assms(1), of k v] by force
  then have h: "hash_ok h" "h' = addItem k v h" using insert_new [of h k v] assms by (simp_all add: reject_table_def)
  show "reject_table h'" using htab.ins_new [OF assms(1) n, of v] assms(2) by simp
  have "mset (hash_entries h') = add_mset (k, v) (mset (hash_entries h))" unfolding h(2) by (rule addItem_ok(2) [OF h(1) n])
  then show "mset (map snd (hash_entries h')) = add_mset v (mset (map snd (hash_entries h)))" by simp
qed

lemma insert_splice_step:
  assumes t: "tree_at a p" and b: "b = length (ps_objects p)" and tb: "tree_at b q" and lower: "\<And>c. c < b \<Longrightarrow> object_at q c = object_at p c"
    and kept: "names_kept UNIV (memory p a) (memory q b)" and own: "owned (ps_objects q) b = dom (memory q b) - dom (memory p a)"
    and cnt: "ps_jobID_counter p \<le> ps_jobID_counter q" and res: "insert_splice name b a q = Inr (True, p')"
  shows "tree_at a p' \<and> advance a p p'"
proof -
  have ab: "a < b" using tree_at_current(3) [OF t] b by simp
  obtain d th hp where d: "PrefixAllNodeNames (current_splice_scope q) (dag_at q b) = Inr d"
    "PrefixAllCategoryNames (current_splice_scope q) (d_catThrottles d, d_heap d) = Inr (th, hp)"
    using res by (auto simp: insert_splice_def Let_def)
  let ?d = "d\<lparr>d_catThrottles := th, d_heap := hp\<rparr>"
  let ?q = "set_dag b ?d q"
  obtain rc h p7 where h: "hash_insert (munge_job_name (share b a ?q) (Some name)) b (o_splices (object_at (share b a ?q) a)) = (rc, h)" "rc \<noteq> -1"
    "LiftChildSplices a (set_splices a h (share b a ?q)) = Inr p7" "p' = p7\<lparr>ps_spliceScope := butlast (ps_spliceScope p7)\<rparr>"
    using res by (auto simp: insert_splice_def Let_def d split: prod.splits if_splits)
  let ?p6 = "set_splices a h (share b a ?q)"
  note P = PrefixAllNodeNames_built [OF tree_at_current(1,2) [OF tb] d(1)]
  have ok: "mem_ok ?d" "tables_ok ?d" using P(1,2) mem_ok_cong [of ?d d] by (simp_all add: tables_ok_def node_at_def)
  have st: "tree_at b ?q \<and> advance b q ?q"
  proof (rule object_sound [OF tb, of "(object_at q b)\<lparr>o_dag := ?d\<rparr>"])
    show "names_kept (- own (object_at q b)) (memory q b) (d_nodes (o_dag ((object_at q b)\<lparr>o_dag := ?d\<rparr>)))"
      using P(3,6) by (simp add: names_kept_def own_def dag_at_def node_at_def)
    show "own ((object_at q b)\<lparr>o_dag := ?d\<rparr>) = own (object_at q b) \<union> (dom (d_nodes (o_dag ((object_at q b)\<lparr>o_dag := ?d\<rparr>))) - dom (memory q b))"
      using P(3,4) by (simp add: own_def dag_at_def)
    show "\<forall>i \<in> dom (d_nodes (o_dag ((object_at q b)\<lparr>o_dag := ?d\<rparr>))). i < ps_jobID_counter ?q" using tb P(3) by (simp add: tree_at_def)
  qed (use ok P(5) in \<open>simp_all add: same_idle_def\<close>)
  have m: "memory ?q b = d_nodes d" using tree_at_current(3) [OF tb] by (simp add: dag_at_def object_at_def)
  have dm: "dom (d_nodes d) = dom (memory q b)" by (rule P(3))
  have sub: "dom (memory p a) \<subseteq> dom (memory q b)" using kept by (simp add: names_kept_def)
  have oq: "owned (ps_objects ?q) b = dom (memory ?q b) - dom (memory p a)" using st own dm unfolding advance_def m by simp
  have kq: "names_kept UNIV (memory p a) (memory ?q b)"
    by (rule names_kept_trans [OF kept, of "- owned (ps_objects q) b"]) (use st own in \<open>auto simp: advance_def\<close>)
  have lq: "object_at ?q c = object_at p c" if "c < b" for c using lower [OF that] that by (simp add: set_dag_def set_object_def) (simp add: object_at_def)
  have sp: "o_splices (object_at (share b a ?q) a) = o_splices (object_at p a)"
    using lq [OF ab] tree_at_current(3) [OF tb] ab by (simp add: share_parts object_at_def dag_at_def)
  have rt: "reject_table (o_splices (object_at p a))" using t by (simp add: tree_at_def tree_def rec_ok_def object_at_def)
  note ins = insert_entry [OF rt h(1) [unfolded sp] h(2), folded kids_def]
  note F = forest_insert [OF t b conjunct1 [OF st] lq kq oq ins refl, simplified]
  note L = LiftChildSplices_step [OF F(1) h(3)]
  have sh: "length (ps_objects p7) = length (ps_objects ?p6)" "kids (object_at p7 a) = kids (object_at ?p6 a)"
    "dom (memory p7 a) = dom (memory ?p6 a)" "names_kept (- below a ?p6) (memory ?p6 a) (memory p7 a)"
    "ps_jobID_counter ?p6 \<le> ps_jobID_counter p7" "same_idle (dag_at ?p6 a) (dag_at p7 a)"
    using L(2) by (simp_all add: shrunk_def alike_def dag_at_def)
  have "advance a p p7"
    unfolding advance_def
  proof (intro conjI allI impI)
    show "owned (ps_objects p7) a = owned (ps_objects p) a \<union> (dom (memory p7 a) - dom (memory p a))"
      unfolding L(3) F(3,9) sh(3) F(4) by (auto simp: owned_def object_at_def simp del: domIff)
    have k6: "names_kept (- owned (ps_objects p) a) (memory p a) (memory ?p6 a)" using kq unfolding F(4) names_kept_def by simp
    have "- owned (ps_objects p) a \<inter> dom (memory p a) \<subseteq> - below a ?p6" unfolding F(9) by (auto simp: owned_def object_at_def simp del: domIff)
    with k6 sh(4) show "names_kept (- owned (ps_objects p) a) (memory p a) (memory p7 a)" by (rule names_kept_trans)
    show "length (ps_objects p) \<le> length (ps_objects p7)" using tree_at_current(3) [OF tb] b sh(1) F(8) by simp
    show "ps_jobID_counter p \<le> ps_jobID_counter p7" using cnt sh(5) F(7) by simp
    show "same_idle (dag_at p a) (dag_at p7 a)" by (rule same_idle_trans [OF F(5) sh(6)])
    show "set (kids (object_at p7 a)) \<subseteq> set (kids (object_at p a)) \<union> {length (ps_objects p)..}" using b unfolding sh(2) F(2) by auto
    fix x assume x: "x < length (ps_objects p)" "x \<noteq> a" "x \<notin> set (kids (object_at p a))"
    have "x \<notin> family ?p6 c" if "c \<in> set (kids (object_at ?p6 a))" for c
    proof (cases "c = b")
      case True
      have "\<forall>y \<in> family ?p6 b. b \<le> y" using forest_kid(2) [OF F(1), of b] F(2) by (auto simp: family_def tree_def object_at_def)
      then show ?thesis using x(1) b True by auto
    next
      case False
      then have "c \<in> set (kids (object_at p a))" using that F(2) by simp
      then show ?thesis using F(10) x(3) by auto
    qed
    moreover have "x < length (ps_objects ?p6)" using x(1) b tree_at_current(3) [OF tb] F(8) by simp
    ultimately have "object_at p7 x = object_at ?p6 x" using L(2) x(2) by (simp add: shrunk_def)
    then show "object_at p7 x = object_at p x" using F(6) [OF x(2)] lq [of x] x(1) b by simp
  qed
  then show ?thesis using L(1) parser_cong [of p' p7] by (simp add: h(4))
qed


lemma Cd_objects:
  shows "Cd2TmpDir fs dir p = Inr (ok, m, p') \<Longrightarrow> ps_objects p' = ps_objects p \<and> ps_jobID_counter p' = ps_jobID_counter p"
    and "Cd2MainDir fs m p = Inr p' \<Longrightarrow> ps_objects p' = ps_objects p \<and> ps_jobID_counter p' = ps_jobID_counter p"
  by (auto simp: Cd2TmpDir_def Cd2MainDir_def split: if_splits option.splits)

lemma parse_splice_sound:
  assumes pf: "\<And>b f u. sound b (parse_file b f u)"
  shows "sound a (parse_splice parse_file fs a line)"
  unfolding sound_def
proof (intro allI impI)
  fix p p' assume t: "tree_at a p" and res: "parse_splice parse_file fs a line p = Inr (True, p')"
  have "\<exists>name sc dir b p1 f md p2 p3 p4. new_splice dir a (p\<lparr>ps_spliceScope := sc\<rparr>) = (b, p1) \<and>
     Cd2TmpDir fs dir p1 = Inr (True, md, p2) \<and> parse_file b f (ps_useDagDir p2) p2 = Inr (True, p3) \<and>
     Cd2MainDir fs md p3 = Inr p4 \<and> insert_splice name b a p4 = Inr (True, p')"
    using res unfolding parse_splice_def Let_def by (auto split: prod.splits if_splits option.splits) blast+
  then obtain name sc dir b p1 f md p2 p3 p4 where n: "new_splice dir a (p\<lparr>ps_spliceScope := sc\<rparr>) = (b, p1)"
    and s: "Cd2TmpDir fs dir p1 = Inr (True, md, p2)" "parse_file b f (ps_useDagDir p2) p2 = Inr (True, p3)"
    "Cd2MainDir fs md p3 = Inr p4" "insert_splice name b a p4 = Inr (True, p')" by blast
  let ?p = "p\<lparr>ps_spliceScope := sc\<rparr>"
  have tp: "tree_at a ?p" using t parser_cong(1) [of ?p p] by simp
  note N = new_splice_tree [OF tp n]
  have c2: "ps_objects p2 = ps_objects p1 \<and> ps_jobID_counter p2 = ps_jobID_counter p1"
    and c4: "ps_objects p4 = ps_objects p3 \<and> ps_jobID_counter p4 = ps_jobID_counter p3" using Cd_objects s(1,3) by blast+
  have t2: "tree_at b p2" using N(2) parser_cong(1) [of p2 p1] c2 by simp
  have S: "tree_at b p3" "advance b p2 p3" using soundD [OF pf t2 s(2)] by simp_all
  have S4: "tree_at b p4" "advance b p1 p4" using S parser_cong [of p4 p3] parser_cong(3) [of p2 p1] c2 c4 by simp_all
  have o1: "owned (ps_objects p1) b = {}" using N(3,4) by (simp add: owned_def object_at_def)
  have "tree_at a p' \<and> advance a ?p p'"
  proof (rule insert_splice_step [OF tp N(1) S4(1) _ _ _ _ s(4)])
    show "object_at p4 c = object_at ?p c" if "c < b" for c using S4(2) N(3,7) N(8) [OF that] that by (simp add: advance_def)
    show "names_kept UNIV (memory ?p a) (memory p4 b)" using S4(2) N(5) o1 by (simp add: advance_def)
    show "owned (ps_objects p4) b = dom (memory p4 b) - dom (memory ?p a)" using S4(2) N(5) o1 by (simp add: advance_def)
    show "ps_jobID_counter ?p \<le> ps_jobID_counter p4" using S4(2) N(6) by (simp add: advance_def)
  qed
  then show "tree_at a p' \<and> advance a p p'" using parser_cong(3) [of ?p p] by simp
qed

section \<open>Files\<close>

lemma sound_fail [simp]: "sound a (\<lambda>p. Inr (False, p))"
  by (simp add: sound_def)

lemma parse_line_sound:
  assumes "\<And>line. sound a (on_splice a line)"
  shows "sound a (parse_line fs on_splice a filename dir n line)"
  unfolding sound_def
proof (intro allI impI)
  fix p p' assume t: "tree_at a p" and res: "parse_line fs on_splice a filename dir n line p = Inr (True, p')"
  note S = soundD [OF parse_node_sound t] soundD [OF parse_subdag_sound t] soundD [OF assms t] parse_parent_step [OF t] parse_dot_step [OF t]
  have E: "on_dag a f p = Inr (True, p') \<Longrightarrow> tree_at a p' \<and> advance a p p'"
    if "f \<in> (\<Union>l. {parse_script p l, parse_retry p l, parse_abort p l, parse_vars p l, parse_priority p l, parse_category p l,
      parse_maxjobs l, parse_node_status_file l, parse_reject filename n l, parse_jobstate_log l})" for f
    by (rule on_dag_edit [OF t], assumption) (use that in \<open>auto intro: line_edits\<close>)
  show "tree_at a p' \<and> advance a p p'"
    using res t unfolding parse_line_def
    by (simp split: if_split_asm option.splits prod.splits) (erule S | erule E [rotated], blast)+
qed

lemma parse_lines_sound:
  assumes "\<And>n line. sound a (handle n line)"
  shows "sound a (parse_lines handle n ls)"
  unfolding sound_def
proof (intro allI impI)
  fix p p' assume "tree_at a p" and "parse_lines handle n ls p = Inr (True, p')"
  then show "tree_at a p' \<and> advance a p p'"
  proof (induction ls arbitrary: n p)
    case (Cons line ls)
    obtain p1 where r: "handle (n + 1) line p = Inr (True, p1)" "parse_lines handle (n + 1) ls p1 = Inr (True, p')"
      using Cons.prems(2) by (auto split: if_splits)
    note s = soundD [OF assms Cons.prems(1) r(1)]
    then show ?case using Cons.IH r(2) advance_trans by blast
  qed simp
qed


lemma RecordInitialAndFinalNodes_sound:
  assumes t: "tree_at a p"
  shows "tree_at a (set_dag a (RecordInitialAndFinalNodes (dag_at p a)) p) \<and> advance a p (set_dag a (RecordInitialAndFinalNodes (dag_at p a)) p)"
proof -
  let ?d = "dag_at p a"
  have "set (d_jobs ?d) \<subseteq> dom (d_nodes ?d)" "set (d_splice_initial_nodes ?d) \<union> set (d_splice_final_nodes ?d) \<subseteq> dom (d_nodes ?d)"
    using tree_at_current(2) [OF t] by (simp_all add: tables_ok_def)
  from assume_lists [OF disjI2 [OF refl] this] obtain xs ys
    where r: "RecordInitialAndFinalNodes ?d = ?d\<lparr>d_splice_initial_nodes := xs, d_splice_final_nodes := ys\<rparr>" "set xs \<union> set ys \<subseteq> dom (d_nodes ?d)"
    unfolding RecordInitialAndFinalNodes_def by blast
  let ?x = "(object_at p a)\<lparr>o_dag := RecordInitialAndFinalNodes ?d\<rparr>"
  have d: "d_nodes (o_dag ?x) = memory p a" "own ?x = own (object_at p a)"
    by (simp_all add: r(1) own_def) (simp add: dag_at_def)
  have ok: "mem_ok (o_dag ?x)" "tables_ok (o_dag ?x)"
    using tree_at_current(1,2) [OF t] r mem_ok_cong [OF d(1)] by (simp_all add: tables_ok_def node_at_def)
  show ?thesis
    by (rule object_sound [OF t _ ok]) (use t in \<open>simp_all add: d, simp_all add: r(1) same_idle_def tree_at_def\<close>)
qed

lemma parse_open_sound:
  assumes "\<And>line. sound a (on_splice a line)"
  shows "sound a (parse_open open_file fs on_splice a filename tmpFilename tmpDirectory)"
  unfolding sound_def
proof (intro allI impI)
  fix p p' assume t: "tree_at a p" and res: "parse_open open_file fs on_splice a filename tmpFilename tmpDirectory p = Inr (True, p')"
  obtain input p1 where r: "parse_lines (parse_line fs on_splice a filename tmpDirectory) 0 (getlines input) p = Inr (True, p1)"
    "p' = set_dag a (RecordInitialAndFinalNodes (dag_at p1 a)) p1"
    using res by (auto simp: parse_open_def split: option.splits if_splits)
  have "sound a (parse_lines (parse_line fs on_splice a filename tmpDirectory) 0 (getlines input))"
    by (intro parse_lines_sound parse_line_sound assms)
  from soundD [OF this t r(1)] RecordInitialAndFinalNodes_sound show "tree_at a p' \<and> advance a p p'"
    unfolding r(2) using advance_trans by blast
qed

lemma parse_with_sound:
  assumes "\<And>line. sound a (on_splice a line)"
  shows "sound a (parse_with open_file fs on_splice a filename useDagDir)"
  unfolding sound_def
proof (intro allI impI)
  fix p p' assume t: "tree_at a p" and res: "parse_with open_file fs on_splice a filename useDagDir p = Inr (True, p')"
  let ?p = "p\<lparr>ps_thisDagNum := ps_thisDagNum p + 1, ps_useDagDir := useDagDir\<rparr>"
  have s: "sound a (parse_open open_file fs on_splice a filename f dir)" for f dir by (rule parse_open_sound) (rule assms)
  have tp: "tree_at a ?p" using t parser_cong(1) [of ?p p] by simp
  have "in_TmpDir fs (condor_dirname filename) (parse_open open_file fs on_splice a filename (condor_basename filename) (condor_dirname filename)) ?p = Inr (True, p') \<or>
    parse_open open_file fs on_splice a filename filename '''' ?p = Inr (True, p')"
    using res unfolding parse_with_def Let_def by (cases useDagDir) simp_all
  then have "tree_at a p' \<and> advance a ?p p'"
    using soundD [OF s tp] soundD [OF in_TmpDir_sound [OF s] tp] by blast
  then show "tree_at a p' \<and> advance a p p'" using parser_cong(3) [of ?p p] by simp
qed

lemma parse_sound: "sound a (parse n fs a filename useDagDir)"
proof (induction n arbitrary: a filename useDagDir)
  case 0
  show ?case by (simp add: parse_with_sound)
next
  case (Suc n)
  have "sound a (parse_splice (parse n fs) fs a line)" for line by (rule parse_splice_sound) (rule Suc.IH)
  then show ?case by (simp add: parse_with_sound)
qed


end
