(* ===== verification/Load_Sound.thy ===== *)
theory Load_Sound
  imports Parse_Sound
begin

text \<open>
  From the files to the engine: the DAG that \<open>main_init\<close> hands to \<^const>\<open>start_dag\<close> satisfies
  \<^const>\<open>fresh_ok\<close>, the hypothesis of all theorems about runs, whatever the DAG files contain.
\<close>

section \<open>Before parsing\<close>

text \<open>The choice of a rescue DAG asks about files and renames them; it changes nothing else.\<close>

definition only_renamed :: "Dag \<Rightarrow> Dag \<Rightarrow> bool" where
  "only_renamed d d' \<longleftrightarrow> (\<exists>t k. d' = d\<lparr>d_trace := t, d_tick := k\<rparr> \<and> (\<forall>a \<in> set t. \<exists>f g. a = A_rename f g))"

lemma only_renamed_world:
  assumes "only_renamed d0 d"
  shows "only_renamed d0 (d\<lparr>d_tick := k\<rparr>)" and "only_renamed d0 (d\<lparr>d_trace := d_trace d @ [A_rename f g]\<rparr>)"
proof -
  obtain t k0 where d: "d = d0\<lparr>d_trace := t, d_tick := k0\<rparr>" "\<forall>a \<in> set t. \<exists>f g. a = A_rename f g"
    using assms by (auto simp: only_renamed_def)
  show "only_renamed d0 (d\<lparr>d_tick := k\<rparr>)" unfolding only_renamed_def by (intro exI [of _ t] exI [of _ k]) (use d in simp)
  show "only_renamed d0 (d\<lparr>d_trace := d_trace d @ [A_rename f g]\<rparr>)"
    unfolding only_renamed_def by (intro exI [of _ "t @ [A_rename f g]"] exI [of _ k0]) (use d in simp)
qed

lemma FindLast_only_renamed:
  assumes "only_renamed d0 d" and "FindLastRescueDagNum e f m mx d = Inr (n, d')"
  shows "only_renamed d0 d'"
proof -
  have "only_renamed d0 (snd (n, d'))"
    by (rule foldR_invariant [OF assms(2) [unfolded FindLastRescueDagNum_def], where I = "\<lambda>s. only_renamed d0 (snd s)"])
      (use assms(1) in \<open>auto simp: find_last_body_def ask_def only_renamed_world split: if_splits\<close>)
  then show ?thesis by simp
qed

lemma Rename_only_renamed:
  assumes "only_renamed d0 d" and "RenameRescueDagsAfter e f m n mx d = Inr d'"
  shows "only_renamed d0 d'"
proof -
  obtain l d1 where r: "FindLastRescueDagNum e f m mx d = Inr (l, d1)" "foldR (rename_body e f m) [n + 1..l] d1 = Inr d'"
    using assms(2) by (auto simp: RenameRescueDagsAfter_def split: if_splits)
  show ?thesis
    by (rule foldR_invariant [OF r(2), where I = "only_renamed d0"])
      (use FindLast_only_renamed [OF assms(1) r(1)] in \<open>auto simp: rename_body_def ask_def act_def only_renamed_world split: if_splits\<close>)
qed

lemma choose_rescue_only_renamed:
  assumes tr: "d_trace d = []" and res: "choose_rescue e dm su d = Inr (su', d')"
  shows "only_renamed d d'"
proof -
  have "d = d\<lparr>d_trace := d_trace d, d_tick := d_tick d\<rparr>" by (cases d) simp
  then have o: "only_renamed d d"
    unfolding only_renamed_def tr by (intro exI [of _ "[]"] exI [of _ "d_tick d"]) simp
  obtain n where "(if st_doRescueFrom su \<noteq> 0 then
              bindR (RenameRescueDagsAfter e (dm_primaryDagFile dm) (dm_multiDags dm) (st_doRescueFrom su) (dm_maxRescueDagNum dm) d)
                (\<lambda>d. Inr (st_doRescueFrom su, d))
            else if st_autoRescue su then FindLastRescueDagNum e (dm_primaryDagFile dm) (dm_multiDags dm) (dm_maxRescueDagNum dm) d
            else Inr (0, d)) = Inr (n, d')"
    using res unfolding choose_rescue_def by (elim bindR_InrE) (auto split: if_split_asm)
  then show ?thesis using FindLast_only_renamed [OF o] Rename_only_renamed [OF o] o by (auto split: if_split_asm)
qed

section \<open>Parsing\<close>

lemma new_parser_tree:
  assumes "only_renamed (create_dag su0) d"
  shows "tree_at 0 (new_parser su cwd d)" and "owned (ps_objects (new_parser su cwd d)) 0 = {}" and "memory (new_parser su cwd d) 0 = Map.empty"
    and "dag_at (new_parser su cwd d) 0 = d"
proof -
  let ?p = "new_parser su cwd d"
  have d: "d_nodes d = Map.empty" "d_jobs d = []" "d_nodeIDHash d = Map.empty" "d_nodeNameHash d = Map.empty"
    "d_splice_initial_nodes d = []" "d_splice_final_nodes d = []"
    using assms by (auto simp: only_renamed_def create_dag_def SetAllowEvents_dag_def new_Dag_def)
  have x: "object_at ?p 0 = (new_object (st_config su) (st_prohibitMultiJobs su))\<lparr>o_dag := d\<rparr>" "length (ps_objects ?p) = 1" "ps_jobID_counter ?p = 0"
    by (simp_all add: new_parser_def object_at_def)
  show at: "dag_at ?p 0 = d" by (simp add: dag_at_def x)
  show "memory ?p 0 = Map.empty" by (simp add: at d)
  have s: "o_splices (object_at ?p 0) = new_HashTable hashFuncChars rejectDuplicateKeys" by (simp add: x new_object_def)
  have k: "kids (object_at ?p 0) = []" unfolding kids_def s by (simp add: new_HashTable_def hash_entries_def)
  show "owned (ps_objects ?p) 0 = {}" using k by (simp add: owned_def own_def object_at_def [symmetric] x d)
  have "rec_ok Map.empty (object_at ?p 0)" using htab.new_dict(1) by (simp add: rec_ok_def s) (simp add: x tables_ok_def d)
  then show "tree_at 0 ?p" using k x(2)
    by (simp add: tree_at_def tree_def at d mem_ok_def symmetric_deps_def waiting_ok_def object_at_def [symmetric])
qed

lemma parse_files_tree:
  assumes "tree_at 0 p" and "parse_files e dm fds fs useDagDir fl p = Inr (Inr p')"
  shows "tree_at 0 p' \<and> advance 0 p p'"
  using assms
proof (induction fl arbitrary: p)
  case (Cons f fl)
  obtain p1 where r: "parse fds fs 0 f useDagDir p = Inr (True, p1)" "parse_files e dm fds fs useDagDir fl p1 = Inr (Inr p')"
    using Cons.prems(2) by (auto split: if_splits)
  from soundD [OF parse_sound Cons.prems(1) r(1)] Cons.IH [OF _ r(2)] show ?case using advance_trans by blast
qed simp

section \<open>After parsing\<close>

lemma finish_load_built:
  assumes t: "tree_at 0 p" and own: "owned (ps_objects p) 0 = dom (memory p 0)" and res: "finish_load p = Inr d"
  shows "mem_ok d" and "tables_ok d" and "set (d_jobs d) = dom (d_nodes d)" and "same_idle (dag_at p 0) d"
proof -
  obtain om q d1 where r: "LiftSplices (Suc (length (ps_objects p))) False 0 p = Inr (om, q)" "CheckThrottleCats (dag_at q 0) = Inr d1"
    "d = ResolveVarsInterpolations d1"
    using res by (auto simp: finish_load_def)
  obtain n where "length (ps_objects p) = Suc n" using tree_at_current(3) [OF t] by (cases "length (ps_objects p)") simp_all
  note L = LiftSplices_step [OF t r(1) [unfolded this]]
  note q = tree_at_current [OF L(1)]
  have e1: "edit (dag_at q 0) d1" using r(2) by (auto simp: CheckThrottleCats_def split: prod.splits)
  then have s1: "set (d_jobs d1) \<subseteq> dom (d_nodes d1)" using q(2) by (simp add: edit_def evolves_def tables_ok_def)
  have "edit d1 d" unfolding r(3) ResolveVarsInterpolations_def
    by (rule edit_fold [OF _ s1]) (simp add: ResolveVarsInterpolations_job_def harmless_def)
  with e1 have e: "edit (dag_at q 0) d" by (rule edit_trans)
  then have ev: "evolves (dag_at q 0) d" by (simp add: edit_def)
  show "mem_ok d" by (rule edit_mem [OF q(1) e])
  show "tables_ok d" by (rule evolves_tables [OF q(2) ev])
  have "set (d_jobs (dag_at q 0)) = dom (memory q 0)" using L(5,6) own by (simp add: own_def dag_at_def)
  then show "set (d_jobs d) = dom (d_nodes d)" using ev by (simp add: evolves_def)
  have i: "same_idle (dag_at p 0) (dag_at q 0)" using L(2) by (simp add: advance_def)
  show "same_idle (dag_at p 0) d" by (rule same_idle_trans [OF i]) (use ev in \<open>simp add: evolves_def\<close>)
qed

lemma load_fresh:
  assumes c: "choose_rescue e dm su (create_dag su) = Inr (su', d)"
    and p: "parse_files e dm fds fs (st_useDagDir su') (st_dagFiles su') (new_parser su' cwd d) = Inr (Inr p)"
    and f: "finish_load p = Inr d'"
  shows "fresh_ok d'"
proof -
  have tr: "d_trace (create_dag su) = []" by (simp add: create_dag_def SetAllowEvents_dag_def new_Dag_def)
  note q = choose_rescue_only_renamed [OF tr c]
  note n = new_parser_tree [OF q, where su = su' and cwd = cwd]
  from parse_files_tree [OF n(1) p] have t: "tree_at 0 p" and a: "advance 0 (new_parser su' cwd d) p" by simp_all
  have "owned (ps_objects p) 0 = dom (memory p 0)" using a n(2,3) by (simp add: advance_def)
  note b = finish_load_built [OF t this f]
  obtain ts k where d: "d = (create_dag su)\<lparr>d_trace := ts, d_tick := k\<rparr>" "\<forall>a \<in> set ts. \<exists>f g. a = A_rename f g"
    using q by (auto simp: only_renamed_def)
  have "same_idle d d'" using a n(4) b(4) same_idle_trans by (simp add: advance_def) blast
  then show ?thesis by (intro fresh_ok_built [OF b(1-3) same_idle_refl _ d(2)]) (simp add: d(1) same_idle_def)
qed

end
