(* ===== verification/Dag_Process.thy ===== *)
theory Dag_Process
  imports Load_Sound Dag_System
begin

text \<open>
  The whole process: \<^const>\<open>main_init\<close> on the DAG files, then the steps of the running program. The theorems
  about runs hold for it without a hypothesis on the DAG, since loading establishes it.
\<close>

inductive process :: "env \<Rightarrow> Dagman \<Rightarrow> startup \<Rightarrow> nat \<Rightarrow> files \<Rightarrow> string \<Rightarrow> run_state \<Rightarrow> bool" for e dm su fds fs cwd where
  init: "main_init e dm su fds fs cwd = Some (Inr (Running d)) \<Longrightarrow> process e dm su fds fs cwd (Running d)"
| step: "process e dm su fds fs cwd s \<Longrightarrow> step e dm s s' \<Longrightarrow> process e dm su fds fs cwd s'"

lemma parse_files_never_run: "parse_files e dm fds fs u fl p = Inr (Inl s) \<Longrightarrow> \<exists>d. s = Exited 1 d"
  by (induction fl arbitrary: p) (auto split: if_splits)

lemma main_init_running:
  assumes "main_init e dm su fds fs cwd = Some (Inr (Running d))"
  obtains su' d1 p d0 where "choose_rescue e dm su (create_dag su) = Inr (su', d1)"
    "parse_files e dm fds fs (st_useDagDir su') (st_dagFiles su') (new_parser su' cwd d1) = Inr (Inr p)"
    "finish_load p = Inr d0" "start_dag e dm d0 = Some (Inr (Running d))"
proof -
  obtain su' d1 where c: "choose_rescue e dm su (create_dag su) = Inr (su', d1)"
    and r: "bindO (Some (parse_files e dm fds fs (st_useDagDir su') (st_dagFiles su') (new_parser su' cwd d1))) (\<lambda>r.
       case r of Inl s \<Rightarrow> Some (Inr s) | Inr p \<Rightarrow> bindO (Some (finish_load p)) (start_dag e dm)) = Some (Inr (Running d))"
    using assms unfolding main_init_def by (elim bindO_InrE) auto
  then obtain x where p: "parse_files e dm fds fs (st_useDagDir su') (st_dagFiles su') (new_parser su' cwd d1) = Inr x"
    "(case x of Inl s \<Rightarrow> Some (Inr s) | Inr p \<Rightarrow> bindO (Some (finish_load p)) (start_dag e dm)) = Some (Inr (Running d))"
    by (elim bindO_InrE) auto
  show ?thesis
  proof (cases x)
    case (Inl s)
    then show ?thesis using parse_files_never_run p by fastforce
  next
    case (Inr q)
    then obtain d0 where "finish_load q = Inr d0" "start_dag e dm d0 = Some (Inr (Running d))"
      using p(2) by (auto elim!: bindO_InrE)
    with c p(1) [unfolded Inr] show ?thesis by (rule that)
  qed
qed

lemma process_reach:
  assumes "process e dm su fds fs cwd s"
  shows "\<exists>d0. fresh_ok d0 \<and> reach e dm d0 s"
  using assms
proof induction
  case (init d)
  then show ?case by (rule main_init_running) (blast intro: reach.start load_fresh)
next
  case (step s s')
  then show ?case by (blast intro: reach.step)
qed

lemma process_run_ok:
  assumes "process e dm su fds fs cwd s"
  shows "run_ok (dag_of s)"
proof -
  obtain d0 where "fresh_ok d0" "reach e dm d0 s" using process_reach [OF assms] by blast
  from reach_good [OF this] show ?thesis by (simp add: good_state_def run_from_def)
qed

lemma process_okay:
  assumes "process e dm su fds fs cwd (Exited EXIT_OKAY d)"
  shows "DoneSuccess_end d" and "set (d_jobs d) = dom (d_nodes d)" and "\<forall>i \<in> dom (d_nodes d). countedAsDone (node_at d i)"
proof -
  obtain d0 where r: "fresh_ok d0" "reach e dm d0 (Exited EXIT_OKAY d)" using process_reach [OF assms] by blast
  then have g: "run_from d0 d" "DoneSuccess_end d" using reach_good [OF r] by (simp_all add: good_state_def)
  show "DoneSuccess_end d" by (rule g(2))
  show "set (d_jobs d) = dom (d_nodes d)" using g(1) by (simp add: run_from_def run_ok_def counts_ok_def)
  have "dom (d_nodes d) = dom (d_nodes d0)" by (rule run_from_dom [OF g(1)])
  then show "\<forall>i \<in> dom (d_nodes d). countedAsDone (node_at d i)" using run_from_counts [OF g(1)] g(2) by (simp add: DoneSuccess_end_def)
qed

section \<open>A sample\<close>

definition sample_startup :: startup where
  "sample_startup = \<lparr>st_dagFiles = [''d.dag''], st_config = sample_config, st_useDagDir = False, st_mungeNodeNames = True,
     st_prohibitMultiJobs = False, st_doRescueFrom = 0, st_autoRescue = False, st_abortOnScarySubmit = True,
     st_allow_events = 0, st_dagmanConfigFile = None, st_maxJobHolds = 100\<rparr>"

definition sample_files :: files where
  "sample_files = \<lparr>f_fopen = (\<lambda>cwd name. if name = ''d.dag'' then
       Some (''JOB A a'' @ newline) else None),
     f_getcwd_ok = (\<lambda>_. True), f_chdir = (\<lambda>_ d. Some d), f_queueCount = (\<lambda>_ _. 1)\<rparr>"

lemma sample_process:
  "case main_init sample_env sample_dm sample_startup 1 sample_files ''/'' of
     Some (Inr (Running d)) \<Rightarrow>
       (case condor_event_timer sample_env sample_dm d of
          Some (Inr (Running d')) \<Rightarrow> A_submit 0 \<in> set (d_trace d') \<and> d_nodeNameHash d' ''A'' = Some 0 | _ \<Rightarrow> False)
   | _ \<Rightarrow> False"
  by code_simp

lemma sample_running_process:
  obtains d d' where "main_init sample_env sample_dm sample_startup 1 sample_files ''/'' = Some (Inr (Running d))"
    "condor_event_timer sample_env sample_dm d = Some (Inr (Running d'))" "A_submit 0 \<in> set (d_trace d')"
proof -
  obtain d where d: "main_init sample_env sample_dm sample_startup 1 sample_files ''/'' = Some (Inr (Running d))"
    "case condor_event_timer sample_env sample_dm d of
       Some (Inr (Running d')) \<Rightarrow> A_submit 0 \<in> set (d_trace d') \<and> d_nodeNameHash d' ''A'' = Some 0 | _ \<Rightarrow> False"
    using running_case [OF sample_process] by blast
  from running_case [OF d(2)] d(1) show ?thesis using that by blast
qed

section \<open>Properties\<close>

text \<open>
  C6: Whatever DAG files DAGMan reads, with splices nested to any depth: if they load without an error,
  the DAG is well formed. Every node has its own identifier and its own name, is listed exactly once
  and is found under both; the lists of parents and children mirror each other; a node waits for exactly
  those parents that are not marked as done; nothing is counted or queued yet.
\<close>

theorem loaded_dag_wellformed:
  assumes "choose_rescue e dm su (create_dag su) = Inr (su', d)"
    and "parse_files e dm fds fs (st_useDagDir su') (st_dagFiles su') (new_parser su' cwd d) = Inr (Inr p)"
    and "finish_load p = Inr d'"
  shows "fresh_ok d' \<and> distinct (d_jobs d') \<and> set (d_jobs d') = dom (d_nodes d') \<and>
    inj_on (\<lambda>i. jobName (node_at d' i)) (dom (d_nodes d'))"
proof -
  have f: "fresh_ok d'" by (rule load_fresh [OF assms])
  then have s: "store_ok d'" "set (d_jobs d') = dom (d_nodes d')" by (simp_all add: fresh_ok_def graph_ok_def)
  have "inj_on (\<lambda>i. jobName (node_at d' i)) (dom (d_nodes d'))"
    using s(1) unfolding store_ok_def inj_on_def by (metis option.inject)
  then show ?thesis using f s by (simp add: store_ok_def)
qed

theorem loaded_dag_wellformed_witness:
  "\<exists>su d p d'. choose_rescue sample_env sample_dm sample_startup (create_dag sample_startup) = Inr (su, d) \<and>
     parse_files sample_env sample_dm 1 sample_files (st_useDagDir su) (st_dagFiles su) (new_parser su ''/'' d) = Inr (Inr p) \<and>
     finish_load p = Inr d' \<and> fresh_ok d'"
proof -
  obtain d where "main_init sample_env sample_dm sample_startup 1 sample_files ''/'' = Some (Inr (Running d))"
    by (rule sample_running_process)
  from main_init_running [OF this] loaded_dag_wellformed show ?thesis by metis
qed



end
