(* ===== verification/Text_Words.thy ===== *)
theory Text_Words
  imports Dag_Text
begin

text \<open>
  Text that is written to be read back: a line of plain words separated by single blanks comes apart
  into these words, \<open>strtol\<close> reads the number that \<^verbatim>\<open>%d\<close> prints, and \<open>getline\<close> returns the
  lines of a text one by one, trimmed.
\<close>

section \<open>Words\<close>

definition plain_word :: "string \<Rightarrow> bool" where
  "plain_word w \<longleftrightarrow> w \<noteq> '''' \<and> (\<forall>c \<in> set w. \<not> isspace c) \<and> last w \<noteq> CHR 0x5C"

definition spaced :: "string list \<Rightarrow> string" where
  "spaced ws = (case ws of [] \<Rightarrow> '''' | w # ws \<Rightarrow> w @ concat (map (\<lambda>w. CHR '' '' # w) ws))"

lemma spaced_simps [simp]: "spaced [] = ''''" "spaced (w # ws) = w @ concat (map (\<lambda>w. CHR '' '' # w) ws)"
  by (simp_all add: spaced_def)

lemma space_delim: "\<not> isspace c \<Longrightarrow> \<not> script_delim c" "script_delim CHR '' ''" "isspace CHR '' ''" "isspace CHR 0x0A"
  by (auto simp: isspace_def script_delim_def)

lemma strtok_whole:
  assumes "s \<noteq> []" and "\<forall>c \<in> set s. \<not> delim c"
  shows "strtok delim s = Some (s, [])"
proof -
  have "dropWhile delim s = s" using assms by (cases s) simp_all
  moreover have "takeWhile (\<lambda>c. \<not> delim c) s = s" using assms(2) by (simp add: takeWhile_eq_all_conv)
  moreover have "dropWhile (\<lambda>c. \<not> delim c) s = []" using assms(2) by simp
  ultimately show ?thesis using assms(1) by (simp only: strtok_def Let_def if_False drop_Nil)
qed

lemma strtok_word:
  assumes "w \<noteq> ''''" and "\<forall>c \<in> set w. \<not> script_delim c"
  shows "strtok script_delim w = Some (w, '''')" and "strtok script_delim (w @ '' '' @ s) = Some (w, s)"
proof -
  obtain c cs where w: "w = c # cs" "\<not> script_delim c" using assms by (cases w) auto
  have d: "dropWhile script_delim (w @ s) = w @ s" for s using w by simp
  show "strtok script_delim w = Some (w, [])" by (rule strtok_whole [OF assms])
  have "takeWhile (\<lambda>c. \<not> script_delim c) (w @ '' '' @ s) = w" "dropWhile (\<lambda>c. \<not> script_delim c) (w @ '' '' @ s) = '' '' @ s"
    using assms(2) by (simp_all add: takeWhile_append dropWhile_append space_delim)
  then show "strtok script_delim (w @ '' '' @ s) = Some (w, s)" unfolding strtok_def Let_def d using assms(1) by simp
qed

lemma strtok_blank [simp]: "strtok script_delim (CHR '' '' # s) = strtok script_delim s"
  by (simp add: strtok_def space_delim)

lemma strtok_empty [simp]: "strtok script_delim '''' = None"
  by (simp add: strtok_def)

lemma plain_word_delim: "plain_word w \<Longrightarrow> w \<noteq> '''' \<and> (\<forall>c \<in> set w. \<not> script_delim c)"
  by (simp add: plain_word_def space_delim)

lemma strtok_spaced:
  assumes "plain_word w"
  shows "strtok script_delim (spaced (w # ws)) = Some (w, spaced ws)"
  using strtok_word [of w] plain_word_delim [OF assms] by (cases ws) simp_all

lemma next_token_spaced:
  "plain_word w \<Longrightarrow> next_token (spaced (w # ws)) = (Some w, spaced ws)" "next_token '''' = (None, '''')"
  by (simp_all add: strtok_spaced token_of_def rest_of_def del: spaced_simps)

section \<open>Numbers\<close>

lemma isdigit_char: "(n::nat) < 10 \<Longrightarrow> isdigit (char_of (48 + n))"
  by (simp add: isdigit_def)

lemma string_of_nat_digits: "string_of_nat n \<noteq> '''' \<and> (\<forall>c \<in> set (string_of_nat n). isdigit c)"
proof (induction n rule: string_of_nat.induct)
  case (1 n)
  show ?case
  proof (cases "n < 10")
    case True
    then show ?thesis by (subst (1 2) string_of_nat.simps) (simp add: isdigit_char)
  next
    case False
    then show ?thesis using 1 by (subst (1 2) string_of_nat.simps) (simp add: isdigit_char)
  qed
qed

lemma isdigit_plain: "isdigit c \<Longrightarrow> \<not> isspace c \<and> c \<noteq> CHR ''-'' \<and> c \<noteq> CHR ''+'' \<and> c \<noteq> CHR 0x5C"
  by (auto simp: isdigit_def isspace_def)

lemma strtol_digits:
  assumes "s \<noteq> ''''" and "\<forall>c \<in> set s. isdigit c" and "int (digits_value s) \<le> LONG_MAX"
  shows "strtol s = (int (digits_value s), '''')" and "strtol (CHR ''-'' # s) = (- int (digits_value s), '''')"
proof -
  obtain c cs where s: "s = c # cs" using assms(1) by (cases s) auto
  then have c: "isdigit c" using assms(2) by simp
  have t: "takeWhile isdigit s = s" "dropWhile isdigit s = []" using assms(2) by (auto simp: takeWhile_eq_all_conv)
  have d: "dropWhile isspace s = s" using isdigit_plain [OF c] by (simp add: s)
  have e: "(case s of [] \<Rightarrow> (False, s) | c # cs \<Rightarrow> if c = CHR ''-'' then (True, cs) else if c = CHR ''+'' then (False, cs) else (False, s)) = (False, s)"
    using isdigit_plain [OF c] by (simp add: s)
  show "strtol s = (int (digits_value s), '''')" unfolding strtol_def d Let_def e using assms(1,3) by (simp add: t)
  have "\<not> isspace CHR ''-''" by (simp add: isspace_def)
  moreover have "LONG_MIN \<le> - int (digits_value s)" using assms(3) by (simp add: LONG_MAX_def LONG_MIN_def)
  ultimately show "strtol (CHR ''-'' # s) = (- int (digits_value s), '''')" using assms(1) by (simp add: strtol_def t max_def)
qed

definition is_int32 :: "int \<Rightarrow> bool" where
  "is_int32 i \<longleftrightarrow> - (2 ^ 31) \<le> i \<and> i < 2 ^ 31"

lemma plain_number [simp]: "plain_word (string_of_int i)"
proof -
  let ?s = "string_of_nat (nat \<bar>i\<bar>)"
  have d: "?s \<noteq> []" "\<forall>c \<in> set ?s. isdigit c" using string_of_nat_digits by blast+
  have l: "isdigit (last ?s)" using d last_in_set by blast
  have "plain_word ?s" using d l isdigit_plain by (auto simp: plain_word_def)
  moreover have "\<not> isspace CHR ''-''" by (simp add: isspace_def)
  ultimately show ?thesis using d(1) by (auto simp: string_of_int_def plain_word_def)
qed

lemma strtol_printed:
  assumes "is_int32 i"
  shows "strtol (string_of_int i) = (i, [])" and "int_of_long i = i"
proof -
  let ?s = "string_of_nat (nat \<bar>i\<bar>)"
  have v: "int (digits_value ?s) = \<bar>i\<bar>" by (simp add: digits_value_string_of_nat)
  have "int (digits_value ?s) \<le> LONG_MAX" unfolding v LONG_MAX_def using assms by (auto simp: is_int32_def)
  with string_of_nat_digits have "strtol ?s = (\<bar>i\<bar>, [])" "strtol (CHR ''-'' # ?s) = (- \<bar>i\<bar>, [])"
    using strtol_digits [of ?s] v by simp_all
  then show "strtol (string_of_int i) = (i, [])" by (cases "i < 0") (simp_all add: string_of_int_def)
  show "int_of_long i = i" using assms by (simp add: is_int32_def int_of_long_def)
qed

section \<open>Lines\<close>

definition whole_line :: "string \<Rightarrow> bool" where
  "whole_line l \<longleftrightarrow> CHR 0x0A \<notin> set l \<and> (trim_line l = '''' \<or> last (trim_line l) \<noteq> CHR 0x5C)"

lemma getlines_line:
  assumes "whole_line l"
  shows "getlines (l @ CHR 0x0A # rest) = trim_line l # getlines rest"
proof -
  have "getline_from '''' (l @ CHR 0x0A # rest) = (Some (trim_line l), rest)"
    using getline_line [of l "''''" rest] assms by (auto simp: whole_line_def)
  then show ?thesis by (subst getlines.simps) simp
qed

lemma getlines_empty [simp]: "getlines '''' = []"
  by (subst getlines.simps) (simp add: getline_eof)

lemma trim_line_id:
  assumes "l \<noteq> ''''" and "\<not> isspace (hd l)" and "\<not> isspace (last l)"
  shows "trim_line l = l" and "trim_line (l @ '' '') = l"
proof -
  have "rev l \<noteq> ''''" "\<not> isspace (hd (rev l))" using assms by (simp_all add: hd_rev)
  then have "dropWhile isspace (rev l) = rev l" by (cases "rev l") simp_all
  then show "trim_line l = l" "trim_line (l @ '' '') = l" using assms(1,2) by (cases l; simp add: trim_line_def space_delim)+
qed

lemma last_spaced: "ws \<noteq> [] \<Longrightarrow> last ws \<noteq> '''' \<Longrightarrow> last (spaced ws) = last (last ws)"
proof (induction ws rule: rev_induct)
  case (snoc w ws)
  then show ?case by (cases ws) simp_all
qed simp

lemma spaced_line:
  assumes "ws \<noteq> []" and "\<forall>w \<in> set ws. plain_word w"
  shows "trim_line (spaced ws) = spaced ws" and "trim_line (spaced ws @ '' '') = spaced ws"
    and "whole_line (spaced ws)" and "whole_line (spaced ws @ '' '')"
proof -
  have h: "spaced ws \<noteq> ''''" "\<not> isspace (hd (spaced ws))"
    using assms by (cases ws; simp add: plain_word_def)+
  have "plain_word (last ws)" using assms by simp
  then have l: "\<not> isspace (last (spaced ws))" "last (spaced ws) \<noteq> CHR 0x5C"
    using last_spaced [OF assms(1)] by (simp_all add: plain_word_def)
  show t: "trim_line (spaced ws) = spaced ws" "trim_line (spaced ws @ '' '') = spaced ws" by (rule trim_line_id [OF h l(1)])+
  have "CHR 0x0A \<notin> set (spaced ws)"
  proof -
    have "CHR 0x0A \<notin> set w" if "w \<in> set ws" for w using assms(2) that space_delim(4) by (auto simp: plain_word_def)
    then show ?thesis by (cases ws) auto
  qed
  then show "whole_line (spaced ws)" "whole_line (spaced ws @ '' '')" using t l(2) by (simp_all add: whole_line_def)
qed

end
