(* ===== verification/Rescue_Parse.thy ===== *)
theory Rescue_Parse
  imports Text_Words Dag_Parse Dag_Rescue
begin

text \<open>
  Reading back a rescue DAG: the lines that \<open>Rescue\<close> writes for a node are understood by the parser
  and restore the node. \<open>reads P s f\<close> says of a piece \<open>s\<close> of the file that parsing it changes the node
  by \<open>f\<close> and nothing else, and goes on behind it.
\<close>

section \<open>Pieces of a file\<close>

definition at_node :: "nat \<Rightarrow> JobID_t \<Rightarrow> string \<Rightarrow> parser \<Rightarrow> bool" where
  "at_node a i name p \<longleftrightarrow> \<not> ps_mungeNames p \<and> a < length (ps_objects p) \<and> i \<in> dom (d_nodes (dag_at p a)) \<and>
     d_nodeNameHash (dag_at p a) name = Some i \<and> jobName (node_at (dag_at p a) i) = name"

definition change_node :: "nat \<Rightarrow> JobID_t \<Rightarrow> (job \<Rightarrow> job) \<Rightarrow> parser \<Rightarrow> parser" where
  "change_node a i f p = set_dag a (upd_node i f (dag_at p a)) p"

definition reads ::
  "(int \<Rightarrow> string \<Rightarrow> parser \<Rightarrow> (bool \<times> parser) res) \<Rightarrow> nat \<Rightarrow> JobID_t \<Rightarrow> string \<Rightarrow> (job \<Rightarrow> bool) \<Rightarrow> string \<Rightarrow> (job \<Rightarrow> job) \<Rightarrow> bool" where
  "reads h a i name P s f \<longleftrightarrow> (\<forall>x. jobName (f x) = jobName x) \<and>
     (\<forall>n p rest. at_node a i name p \<longrightarrow> P (node_at (dag_at p a) i) \<longrightarrow>
        (\<exists>m. parse_lines h n (getlines (s @ rest)) p = parse_lines h m (getlines rest) (change_node a i f p)))"

lemma change_node_simps:
  assumes "a < length (ps_objects p)"
  shows "dag_at (change_node a i f p) a = upd_node i f (dag_at p a)"
    and "change_node a i g (change_node a i f p) = change_node a i (g \<circ> f) p"
  using assms by (simp_all add: change_node_def set_dag_def set_object_def dag_at_def object_at_def upd_node_def set_node_def node_at_def)

lemma change_node_id [simp]: "i \<in> dom (d_nodes (dag_at p a)) \<Longrightarrow> change_node a i (\<lambda>x. x) p = p"
  by (auto simp: change_node_def set_dag_def set_object_def dag_at_def object_at_def upd_node_def set_node_def node_at_def fun_upd_idem)

lemma at_node_change:
  assumes "at_node a i name p" and "\<forall>x. jobName (f x) = jobName x"
  shows "at_node a i name (change_node a i f p)" and "node_at (dag_at (change_node a i f p) a) i = f (node_at (dag_at p a) i)"
proof -
  have l: "a < length (ps_objects p)" using assms(1) by (simp add: at_node_def)
  show "node_at (dag_at (change_node a i f p) a) i = f (node_at (dag_at p a) i)" by (simp add: change_node_simps [OF l])
  show "at_node a i name (change_node a i f p)"
    using assms l unfolding at_node_def change_node_simps(1) [OF l]
    by (simp add: upd_node_def set_node_def node_at_def) (simp add: change_node_def set_dag_def set_object_def)
qed

lemma reads_append:
  assumes "reads h a i name P s f" and "reads h a i name Q t g" and "\<And>x. P x \<Longrightarrow> Q (f x)"
  shows "reads h a i name P (s @ t) (\<lambda>x. g (f x))"
  unfolding reads_def
proof (intro conjI allI impI)
  have f: "\<forall>x. jobName (f x) = jobName x" and g: "\<forall>x. jobName (g x) = jobName x" using assms(1,2) by (simp_all add: reads_def)
  show "jobName (g (f x)) = jobName x" for x using f g by simp
  fix n p rest assume p: "at_node a i name p" "P (node_at (dag_at p a) i)"
  have l: "a < length (ps_objects p)" using p(1) by (simp add: at_node_def)
  note c = at_node_change [OF p(1) f]
  obtain m where m: "parse_lines h n (getlines (s @ t @ rest)) p = parse_lines h m (getlines (t @ rest)) (change_node a i f p)"
    using assms(1) p unfolding reads_def by blast
  moreover have "Q (node_at (dag_at (change_node a i f p) a) i)" unfolding c(2) by (rule assms(3) [OF p(2)])
  then obtain k where "parse_lines h m (getlines (t @ rest)) (change_node a i f p) = parse_lines h k (getlines rest) (change_node a i g (change_node a i f p))"
    using assms(2) c(1) unfolding reads_def by blast
  ultimately show "\<exists>m. parse_lines h n (getlines ((s @ t) @ rest)) p = parse_lines h m (getlines rest) (change_node a i (\<lambda>x. g (f x)) p)"
    using change_node_simps(2) [OF l, of i g f] by (auto simp: comp_def)
qed

lemma reads_weaken: "reads h a i name Q s f \<Longrightarrow> (\<And>x. P x \<Longrightarrow> Q x) \<Longrightarrow> reads h a i name P s f"
  unfolding reads_def by blast

lemma reads_nothing: "reads h a i name P '''' (\<lambda>x. x)"
  by (auto simp: reads_def at_node_def)

lemma reads_line:
  assumes "whole_line l" and "\<And>x. jobName (f x) = jobName x"
    and "\<And>n p. at_node a i name p \<Longrightarrow> P (node_at (dag_at p a) i) \<Longrightarrow> h n (trim_line l) p = Inr (True, change_node a i f p)"
  shows "reads h a i name P (l @ newline) f"
  unfolding reads_def newline_def using assms(2,3) by (auto simp: getlines_line [OF assms(1)])

section \<open>Lines about a node\<close>

text \<open>What the parser does with a line that begins with a keyword.\<close>

lemma keyword_line:
  "parse_line fs sp a fn dir n (''RETRY '' @ s) p = on_dag a (parse_retry p s) p"
  "parse_line fs sp a fn dir n (''VARS '' @ s) p = on_dag a (parse_vars p s) p"
  "parse_line fs sp a fn dir n (''ABORT-DAG-ON '' @ s) p = on_dag a (parse_abort p s) p"
  "parse_line fs sp a fn dir n (''PRIORITY '' @ s) p = on_dag a (parse_priority p s) p"
  "parse_line fs sp a fn dir n (''SCRIPT '' @ s) p = on_dag a (parse_script p s) p"
  "parse_line fs sp a fn dir n (''JOB '' @ s) p = parse_node fs a TYPE_CONDOR ''JOB'' dir s p"
  "parse_line fs sp a fn dir n (''DATA '' @ s) p = parse_node fs a TYPE_STORK ''DATA'' dir s p"
  "parse_line fs sp a fn dir n (''SUBDAG '' @ s) p = parse_subdag fs a TYPE_CONDOR ''SUBDAG'' dir s p"
proof -
  have k: "strtok script_delim (''RETRY '' @ s) = Some (''RETRY'', s)" "strtok script_delim (''VARS '' @ s) = Some (''VARS'', s)"
    "strtok script_delim (''ABORT-DAG-ON '' @ s) = Some (''ABORT-DAG-ON'', s)" "strtok script_delim (''PRIORITY '' @ s) = Some (''PRIORITY'', s)"
    "strtok script_delim (''SCRIPT '' @ s) = Some (''SCRIPT'', s)" "strtok script_delim (''JOB '' @ s) = Some (''JOB'', s)"
    "strtok script_delim (''DATA '' @ s) = Some (''DATA'', s)" "strtok script_delim (''SUBDAG '' @ s) = Some (''SUBDAG'', s)"
    by (simp_all add: strtok_def script_delim_def)
  show "parse_line fs sp a fn dir n (''RETRY '' @ s) p = on_dag a (parse_retry p s) p"
    "parse_line fs sp a fn dir n (''VARS '' @ s) p = on_dag a (parse_vars p s) p"
    "parse_line fs sp a fn dir n (''ABORT-DAG-ON '' @ s) p = on_dag a (parse_abort p s) p"
    "parse_line fs sp a fn dir n (''PRIORITY '' @ s) p = on_dag a (parse_priority p s) p"
    "parse_line fs sp a fn dir n (''SCRIPT '' @ s) p = on_dag a (parse_script p s) p"
    "parse_line fs sp a fn dir n (''JOB '' @ s) p = parse_node fs a TYPE_CONDOR ''JOB'' dir s p"
    "parse_line fs sp a fn dir n (''DATA '' @ s) p = parse_node fs a TYPE_STORK ''DATA'' dir s p"
    "parse_line fs sp a fn dir n (''SUBDAG '' @ s) p = parse_subdag fs a TYPE_CONDOR ''SUBDAG'' dir s p"
    unfolding parse_line_def k by (simp_all add: strcaseeq_def tolower_def)
qed

lemma parse_line_skip: "l = '''' \<or> hd l = CHR ''#'' \<Longrightarrow> parse_line fs sp a fn dir n l p = Inr (True, p)"
  by (auto simp: parse_line_def)

lemma with_job_name:
  assumes "at_node a i name p" and "plain_word name" and "b \<longrightarrow> \<not> isReservedWord name"
  shows "with_job b p (name @ '' '' @ s) body (dag_at p a) = body i s"
proof -
  have "strtok script_delim (name @ '' '' @ s) = Some (name, s)" by (rule strtok_word(2)) (use plain_word_delim [OF assms(2)] in blast)+
  then show ?thesis
    using assms(1,3) by (simp add: with_job_def token_of_def rest_of_def munge_job_name_def null_to_empty_def at_node_def FindNodeByName_def) blast
qed

lemma on_dag_change: "f (dag_at p a) = Inr (True, upd_node i g (dag_at p a)) \<Longrightarrow> on_dag a f p = Inr (True, change_node a i g p)"
  by (simp add: on_dag_def change_node_def)

subsection \<open>Priorities, retries and abort values\<close>

lemma plain_words [simp]: "plain_word ''RETRY''" "plain_word ''UNLESS-EXIT''" "plain_word ''RETURN''" "plain_word ''ABORT-DAG-ON''"
  "plain_word ''PRIORITY''" "plain_word ''JOB''" "plain_word ''DATA''" "plain_word ''SUBDAG''" "plain_word ''EXTERNAL''" "plain_word ''DIR''"
  "plain_word ''NOOP''" "plain_word ''DONE''"
  by (simp_all add: plain_word_def isspace_def)

lemma number_token:
  "strtok script_delim (string_of_int v) = Some (string_of_int v, [])"
  "strtok script_delim (string_of_int v @ CHR '' '' # s) = Some (string_of_int v, s)" "string_of_int v \<noteq> []" "[] \<noteq> string_of_int v"
  using strtok_word [of "string_of_int v"] plain_word_delim [OF plain_number [of v]] by auto

lemmas token_simps = token_of_def rest_of_def Let_def

lemma parse_priority_line:
  assumes "at_node a i name p" and "plain_word name" and "\<not> isReservedWord name" and "is_int32 v"
  shows "parse_priority p (name @ '' '' @ string_of_int v) (dag_at p a) =
    Inr (True, upd_node i (\<lambda>x. x\<lparr>hasNodePriority := True, nodePriority := v\<rparr>) (dag_at p a))"
  unfolding parse_priority_def using assms(3) strtol_printed [OF assms(4)] number_token
  by (subst with_job_name [OF assms(1,2)]) (simp_all add: token_simps)

lemma set_node_again: "set_node i j (set_node i k d) = set_node i j d"
  by (simp add: set_node_def)

lemma parse_retry_line:
  assumes "at_node a i name p" and "plain_word name" and "is_int32 v" and "0 \<le> v"
  shows "parse_retry p (name @ '' '' @ string_of_int v) (dag_at p a) = Inr (True, upd_node i (\<lambda>x. x\<lparr>retry_max := v\<rparr>) (dag_at p a))"
    and "is_int32 u \<Longrightarrow> parse_retry p (name @ '' '' @ string_of_int v @ '' UNLESS-EXIT '' @ string_of_int u) (dag_at p a) =
      Inr (True, upd_node i (\<lambda>x. x\<lparr>retry_max := v, have_retry_abort_val := True, retry_abort_val := u\<rparr>) (dag_at p a))"
proof -
  show "parse_retry p (name @ '' '' @ string_of_int v) (dag_at p a) = Inr (True, upd_node i (\<lambda>x. x\<lparr>retry_max := v\<rparr>) (dag_at p a))"
    unfolding parse_retry_def using assms(4) strtol_printed [OF assms(3)] number_token
    by (subst with_job_name [OF assms(1,2)]) (simp_all add: token_simps)
  assume u: "is_int32 u"
  have k: "strtok script_delim (''UNLESS-EXIT '' @ string_of_int u) = Some (''UNLESS-EXIT'', string_of_int u)"
    by (simp add: strtok_def script_delim_def)
  show "parse_retry p (name @ '' '' @ string_of_int v @ '' UNLESS-EXIT '' @ string_of_int u) (dag_at p a) =
      Inr (True, upd_node i (\<lambda>x. x\<lparr>retry_max := v, have_retry_abort_val := True, retry_abort_val := u\<rparr>) (dag_at p a))"
    unfolding parse_retry_def using assms(4) strtol_printed [OF assms(3)] number_token strtol_printed [OF u] number_token k
    by (subst with_job_name [OF assms(1,2)]) (simp_all add: token_simps strcaseeq_def upd_node_def set_node_again)
qed


lemma parse_abort_line:
  assumes "at_node a i name p" and "plain_word name" and "is_int32 v"
  shows "parse_abort p (name @ '' '' @ string_of_int v) (dag_at p a) = Inr (True, upd_node i (set_abort v 9999 False) (dag_at p a))"
    and "0 \<le> r \<Longrightarrow> r \<le> 255 \<Longrightarrow> parse_abort p (name @ '' '' @ string_of_int v @ '' RETURN '' @ string_of_int r) (dag_at p a) =
      Inr (True, upd_node i (set_abort v r True) (dag_at p a))"
proof -
  show "parse_abort p (name @ '' '' @ string_of_int v) (dag_at p a) = Inr (True, upd_node i (set_abort v 9999 False) (dag_at p a))"
    unfolding parse_abort_def using strtol_printed [OF assms(3)] number_token
    by (subst with_job_name [OF assms(1,2)]) (simp_all add: token_simps)
  assume r: "0 \<le> r" "r \<le> 255"
  then have i: "is_int32 r" by (simp add: is_int32_def)
  have k: "strtok script_delim (''RETURN '' @ string_of_int r) = Some (''RETURN'', string_of_int r)"
    by (simp add: strtok_def script_delim_def)
  show "parse_abort p (name @ '' '' @ string_of_int v @ '' RETURN '' @ string_of_int r) (dag_at p a) =
      Inr (True, upd_node i (set_abort v r True) (dag_at p a))"
    unfolding parse_abort_def using r strtol_printed [OF assms(3)] number_token strtol_printed [OF i] number_token k
    by (subst with_job_name [OF assms(1,2)]) (simp_all add: token_simps strcaseeq_def)
qed

subsection \<open>Scripts\<close>

definition plain_text :: "string \<Rightarrow> bool" where
  "plain_text s \<longleftrightarrow> s \<noteq> [] \<and> CHR 0x0A \<notin> set s \<and> \<not> isspace (hd s) \<and> \<not> isspace (last s) \<and> last s \<noteq> CHR 0x5C"

lemma parse_script_line:
  assumes at: "at_node a i name p" and w: "plain_word name" "\<not> isReservedWord name" "plain_text cmd"
    and none: "if post then scriptPost (node_at (dag_at p a) i) = None else scriptPre (node_at (dag_at p a) i) = None"
  shows "parse_script p ((if post then ''POST '' else ''PRE  '') @ name @ '' '' @ cmd) (dag_at p a) =
    Inr (True, upd_node i (if post then scriptPost_update (\<lambda>_. Some (new_Script True cmd)) else scriptPre_update (\<lambda>_. Some (new_Script False cmd))) (dag_at p a))"
proof -
  have d: "dropWhile script_delim cmd = cmd" "cmd \<noteq> []" using w(3) space_delim(1) by (cases cmd; simp add: plain_text_def)+
  have k: "strtok script_delim (''POST '' @ s) = Some (''POST'', s)" "strtok script_delim (''PRE  '' @ s) = Some (''PRE'', '' '' @ s)" for s
    by (simp_all add: strtok_def script_delim_def)
  have wj: "with_job True p (name @ '' '' @ cmd) body (dag_at p a) = body i cmd" "with_job True p ('' '' @ name @ '' '' @ cmd) body (dag_at p a) = body i cmd" for body
    using with_job_name [OF at w(1), of True cmd body] w(2) by (simp_all add: with_job_def)
  show ?thesis
    using none d(2) unfolding parse_script_def
    by (cases post) (simp_all only: k if_True if_False token_simps option.map fst_conv option.case prod.case wj, simp_all add: strcaseeq_def tolower_def AddScript_def upd_node_def d)
qed

subsection \<open>Variables\<close>

definition plain_var :: "string \<times> string \<Rightarrow> bool" where
  "plain_var nv \<longleftrightarrow> fst nv \<noteq> [] \<and> (\<forall>c \<in> set (fst nv). name_char c) \<and> find_string (map tolower (fst nv)) ''queue'' 0 \<noteq> 0 \<and>
     (\<forall>c \<in> set (snd nv). c \<noteq> CHR 0x0A \<and> c \<noteq> CHR 0x27)"

definition var_text :: "string \<times> string \<Rightarrow> string" where
  "var_text nv = (case nv of (name, val) \<Rightarrow> name @ ''='' @ quote @ rescue_escape val @ quote)"

lemma read_value_escape:
  assumes "\<forall>c \<in> set v. c \<noteq> CHR 0x27"
  shows "read_value False acc (rescue_escape v @ CHR 0x22 # rest) = Some (acc @ v, rest)"
  using assms by (induction v arbitrary: acc) (simp_all add: rescue_escape_def)

lemma name_char_plain: "name_char c \<Longrightarrow> \<not> isspace c \<and> c \<noteq> CHR ''=''"
  by (auto simp: name_char_def isalnum_def isdigit_def isspace_def)

lemma read_pair_text:
  assumes "plain_var (n, v)"
  shows "read_pair (var_text (n, v) @ rest) = Some (n, v, rest)"
proof -
  have n: "n \<noteq> []" "\<forall>c \<in> set n. name_char c" "find_string (map tolower n) ''queue'' 0 \<noteq> 0" "\<forall>c \<in> set v. c \<noteq> CHR 0x27"
    using assms by (auto simp: plain_var_def)
  have e: "\<not> name_char CHR ''=''" using name_char_plain by blast
  then have t: "takeWhile name_char (n @ CHR ''='' # s) = n" "dropWhile name_char (n @ CHR ''='' # s) = CHR ''='' # s" for s
    using n(2) by (simp_all add: takeWhile_append dropWhile_append)
  have "\<not> isspace CHR ''=''" "\<not> isspace CHR 0x22" by (simp_all add: isspace_def)
  then show ?thesis
    using n(1,3) read_value_escape [OF n(4), of "[]" rest] by (simp add: var_text_def quote_def read_pair_def Let_def t)
qed

lemma var_text_head:
  assumes "plain_var nv"
  shows "var_text nv \<noteq> []" and "\<not> isspace (hd (var_text nv))" and "last (var_text nv) = CHR 0x22" and "CHR 0x0A \<notin> set (var_text nv)"
proof -
  obtain n v where nv: "nv = (n, v)" by fastforce
  obtain c cs where n: "n = c # cs" "name_char c" using assms nv by (cases n) (auto simp: plain_var_def)
  show "var_text nv \<noteq> []" "\<not> isspace (hd (var_text nv))" "last (var_text nv) = CHR 0x22"
    using n name_char_plain by (auto simp: nv var_text_def quote_def)
  have "CHR 0x0A \<notin> set n" using assms nv name_char_plain space_delim(4) by (auto simp: plain_var_def)
  then show "CHR 0x0A \<notin> set (var_text nv)" using assms by (auto simp: nv var_text_def quote_def rescue_escape_def plain_var_def split: if_splits)
qed

lemma read_pairs_text:
  assumes "\<forall>nv \<in> set ps. plain_var nv"
  shows "read_pairs (concat (map (\<lambda>nv. CHR '' '' # var_text nv) ps)) = (ps, True)"
  using assms
proof (induction ps)
  case Nil
  show ?case by (subst read_pairs.simps) simp
next
  case (Cons nv ps)
  let ?r = "concat (map (\<lambda>nv. CHR '' '' # var_text nv) ps)"
  have h: "plain_var (fst nv, snd nv)" "var_text nv \<noteq> []" "\<not> isspace (hd (var_text nv))" using Cons.prems var_text_head by simp_all
  then have "dropWhile isspace (var_text nv @ ?r) = var_text nv @ ?r" by (cases "var_text nv") simp_all
  then have d: "dropWhile isspace (CHR '' '' # var_text nv @ ?r) = var_text nv @ ?r" by (simp add: space_delim)
  have r: "read_pair (var_text nv @ ?r) = Some (fst nv, snd nv, ?r)" using read_pair_text [OF h(1)] by simp
  have "read_pairs (CHR '' '' # var_text nv @ ?r) = (nv # ps, True)"
    unfolding read_pairs.simps [of "CHR '' '' # var_text nv @ ?r"] Let_def d r using h(2) Cons by simp
  then show ?case by simp
qed

lemma parse_vars_line:
  assumes at: "at_node a i name p" and w: "plain_word name" and ps: "ps \<noteq> []" "\<forall>nv \<in> set ps. plain_var nv"
  shows "parse_vars p (name @ concat (map (\<lambda>nv. CHR '' '' # var_text nv) ps)) (dag_at p a) =
    Inr (True, upd_node i (\<lambda>x. x\<lparr>varNamesFromDag := varNamesFromDag x @ map fst ps, varValsFromDag := varValsFromDag x @ map snd ps\<rparr>) (dag_at p a))"
proof -
  obtain nv qs where q: "ps = nv # qs" using ps(1) by (cases ps) auto
  let ?r = "var_text nv @ concat (map (\<lambda>nv. CHR '' '' # var_text nv) qs)"
  have h: "var_text nv \<noteq> []" "\<not> isspace (hd (var_text nv))" using ps(2) var_text_head by (simp_all add: q)
  have "\<forall>x \<in> set ps. CHR 0x0A \<notin> set (var_text x)" using ps(2) var_text_head(4) by blast
  then have nl: "\<forall>c \<in> set ?r. c \<noteq> CHR 0x0A" by (auto simp: q)
  have s: "strtok (\<lambda>c. c = CHR 0x0A) ?r = Some (?r, [])" by (rule strtok_whole) (use h(1) nl in simp_all)
  have "dropWhile isspace (CHR '' '' # ?r) = dropWhile isspace ?r" by (simp add: space_delim)
  then have "read_pairs ?r = read_pairs (CHR '' '' # ?r)" by (subst (1 2) read_pairs.simps) (simp only: )
  then have r: "read_pairs ?r = (ps, True)" using read_pairs_text [OF ps(2)] by (simp add: q)
  have l: "name @ concat (map (\<lambda>nv. CHR '' '' # var_text nv) ps) = name @ '' '' @ ?r" by (simp add: q)
  show ?thesis
    unfolding parse_vars_def l by (subst with_job_name [OF at w]) (use s r ps(1) in \<open>simp_all add: token_of_def\<close>)
qed


section \<open>A node\<close>

text \<open>
  The nodes whose text is read back: names, files and directories are single words, values fit in an
  \<^verbatim>\<open>int\<close>, the values of variables contain neither newlines nor apostrophes, and the node has no category.
\<close>

definition printable :: "job \<Rightarrow> bool" where
  "printable j \<longleftrightarrow> plain_word (jobName j) \<and> \<not> isReservedWord (jobName j) \<and> plain_word (cmdFile j) \<and>
     (case dagFile j of
        None \<Rightarrow> strstr (cmdFile j) DAG_SUBMIT_FILE_SUFFIX = None
      | Some f \<Rightarrow> jobType j = TYPE_CONDOR \<and> plain_word f \<and> cmdFile j = f @ DAG_SUBMIT_FILE_SUFFIX) \<and>
     (directory j = [] \<or> plain_word (directory j)) \<and>
     (case scriptPre j of None \<Rightarrow> True | Some s \<Rightarrow> plain_text (s_cmd s)) \<and>
     (case scriptPost j of None \<Rightarrow> True | Some s \<Rightarrow> plain_text (s_cmd s)) \<and>
     0 \<le> retries j \<and> retries j \<le> retry_max j \<and> is_int32 (retry_max j) \<and> is_int32 (retry_abort_val j) \<and>
     length (varNamesFromDag j) = length (varValsFromDag j) \<and> list_all plain_var (zip (varNamesFromDag j) (varValsFromDag j)) \<and>
     is_int32 (abort_dag_val j) \<and> (have_abort_dag_return_val j \<longrightarrow> 0 \<le> abort_dag_return_val j \<and> abort_dag_return_val j \<le> 255) \<and>
     is_int32 (nodePriority j) \<and> throttleInfo j = None"

definition restore_scripts :: "job \<Rightarrow> job \<Rightarrow> job" where
  "restore_scripts j x =
     (let x = (case scriptPre j of None \<Rightarrow> x | Some s \<Rightarrow> x\<lparr>scriptPre := Some (new_Script False (s_cmd s))\<rparr>)
      in case scriptPost j of None \<Rightarrow> x | Some s \<Rightarrow> x\<lparr>scriptPost := Some (new_Script True (s_cmd s))\<rparr>)"

definition restore_retry :: "bool \<Rightarrow> job \<Rightarrow> job \<Rightarrow> job" where
  "restore_retry reset_retries j x =
     (if retry_max j > 0 then
        (let x = x\<lparr>retry_max := if reset_retries then retry_max j else retry_max j - retries j\<rparr>
         in if have_retry_abort_val j then x\<lparr>have_retry_abort_val := True, retry_abort_val := retry_abort_val j\<rparr> else x)
      else x)"

definition restore_vars :: "job \<Rightarrow> job \<Rightarrow> job" where
  "restore_vars j x = x\<lparr>varNamesFromDag := varNamesFromDag x @ varNamesFromDag j, varValsFromDag := varValsFromDag x @ varValsFromDag j\<rparr>"

definition restore_abort :: "job \<Rightarrow> job \<Rightarrow> job" where
  "restore_abort j x =
     (if have_abort_dag_val j
      then set_abort (abort_dag_val j) (if have_abort_dag_return_val j then abort_dag_return_val j else 9999) (have_abort_dag_return_val j) x
      else x)"

definition restore_priority :: "job \<Rightarrow> job \<Rightarrow> job" where
  "restore_priority j x = (if hasNodePriority j then x\<lparr>hasNodePriority := True, nodePriority := nodePriority j\<rparr> else x)"

lemma whole_line_text:
  assumes "l \<noteq> []" and "CHR 0x0A \<notin> set l" and "\<not> isspace (hd l)" and "\<not> isspace (last l)" and "last l \<noteq> CHR 0x5C"
  shows "whole_line l" and "trim_line l = l"
  using assms trim_line_id [of l] by (simp_all add: whole_line_def)

lemma plain_word_text: "plain_word w \<Longrightarrow> plain_text w"
proof -
  assume a: "plain_word w"
  then have "CHR 0x0A \<notin> set w" using space_delim(4) by (auto simp: plain_word_def)
  then show ?thesis using a by (simp add: plain_word_def plain_text_def)
qed

lemma keyword_text:
  assumes "plain_text s" and "k \<noteq> []" and "CHR 0x0A \<notin> set k" and "\<not> isspace (hd k)"
  shows "whole_line (k @ s)" and "trim_line (k @ s) = k @ s" and "plain_text (k @ s)"
  using assms whole_line_text [of "k @ s"] by (auto simp: plain_text_def)

lemma text_space: "plain_text s \<Longrightarrow> plain_text t \<Longrightarrow> plain_text (s @ '' '' @ t)"
  by (auto simp: plain_text_def)

lemma reads_text:
  assumes "plain_text l" and "\<And>x. jobName (f x) = jobName x"
    and "\<And>n p. at_node a i name p \<Longrightarrow> P (node_at (dag_at p a) i) \<Longrightarrow> h n l p = Inr (True, change_node a i f p)"
  shows "reads h a i name P (l @ newline) f"
proof -
  have l: "whole_line l" "trim_line l = l" using assms(1) whole_line_text [of l] by (simp_all add: plain_text_def)
  show ?thesis by (rule reads_line [OF l(1) assms(2)]) (use assms(3) l(2) in auto)
qed


lemma plain_keyword: "plain_text s \<Longrightarrow> plain_text (''SCRIPT PRE  '' @ s)" "plain_text s \<Longrightarrow> plain_text (''SCRIPT POST '' @ s)"
  "plain_text s \<Longrightarrow> plain_text (''RETRY '' @ s)" "plain_text s \<Longrightarrow> plain_text (''VARS '' @ s)"
  "plain_text s \<Longrightarrow> plain_text (''ABORT-DAG-ON '' @ s)" "plain_text s \<Longrightarrow> plain_text (''PRIORITY '' @ s)"
  "plain_text s \<Longrightarrow> plain_text (''# '' @ s)"
  by (auto simp: plain_text_def isspace_def)

abbreviation line_of :: "files \<Rightarrow> (nat \<Rightarrow> string \<Rightarrow> parser \<Rightarrow> (bool \<times> parser) res) \<Rightarrow> nat \<Rightarrow> string \<Rightarrow> int \<Rightarrow> string \<Rightarrow> parser \<Rightarrow> (bool \<times> parser) res" where
  "line_of fs sp a fn \<equiv> parse_line fs sp a fn []"

definition set_script :: "bool \<Rightarrow> string \<Rightarrow> job \<Rightarrow> job" where
  "set_script post cmd x = (if post then x\<lparr>scriptPost := Some (new_Script True cmd)\<rparr> else x\<lparr>scriptPre := Some (new_Script False cmd)\<rparr>)"

lemma reads_script:
  assumes w: "plain_word name" "\<not> isReservedWord name" and c: "plain_text cmd"
  shows "reads (line_of fs sp a fn) a i name (\<lambda>x. if post then scriptPost x = None else scriptPre x = None)
    ((if post then ''SCRIPT POST '' else ''SCRIPT PRE  '') @ name @ '' '' @ cmd @ newline) (set_script post cmd)"
proof -
  let ?s = "(if post then ''POST '' else ''PRE  '') @ name @ '' '' @ cmd"
  have k: "(if post then ''SCRIPT POST '' else ''SCRIPT PRE  '') @ name @ '' '' @ cmd = ''SCRIPT '' @ ?s" by simp
  have "reads (line_of fs sp a fn) a i name (\<lambda>x. if post then scriptPost x = None else scriptPre x = None) ((''SCRIPT '' @ ?s) @ newline) (set_script post cmd)"
  proof (rule reads_text)
    show "plain_text (''SCRIPT '' @ ?s)" unfolding k [symmetric] by (cases post) (simp_all only: if_True if_False plain_keyword text_space plain_word_text w c)
    fix n p assume at: "at_node a i name p" and no: "if post then scriptPost (node_at (dag_at p a) i) = None else scriptPre (node_at (dag_at p a) i) = None"
    have f: "(if post then scriptPost_update (\<lambda>_. Some (new_Script True cmd)) else scriptPre_update (\<lambda>_. Some (new_Script False cmd))) = set_script post cmd"
      by (auto simp: set_script_def)
    show "line_of fs sp a fn n (''SCRIPT '' @ ?s) p = Inr (True, change_node a i (set_script post cmd) p)"
      unfolding keyword_line(5) by (rule on_dag_change) (rule parse_script_line [OF at w c no, unfolded f])
  qed (simp add: set_script_def)
  then show ?thesis unfolding k [symmetric] by simp
qed

lemma reads_scripts:
  assumes j: "printable j"
  shows "reads (line_of fs sp a fn) a i (jobName j) (\<lambda>x. scriptPre x = None \<and> scriptPost x = None) (rescue_script_lines j) (restore_scripts j)"
proof -
  let ?h = "line_of fs sp a fn" and ?n = "jobName j"
  have w: "plain_word ?n" "\<not> isReservedWord ?n" using j by (simp_all add: printable_def)
  let ?f = "\<lambda>post s x. case s of None \<Rightarrow> x | Some s \<Rightarrow> set_script post (s_cmd s) x"
  have one: "reads ?h a i ?n (\<lambda>x. if post then scriptPost x = None else scriptPre x = None)
      (case s of None \<Rightarrow> [] | Some s \<Rightarrow> (if post then ''SCRIPT POST '' else ''SCRIPT PRE  '') @ ?n @ '' '' @ s_cmd s @ newline) (?f post s)"
    if "case s of None \<Rightarrow> True | Some s \<Rightarrow> plain_text (s_cmd s)" for post s
    using that by (cases s) (simp_all only: option.case reads_nothing reads_script [OF w])
  have pre: "reads ?h a i ?n (\<lambda>x. scriptPre x = None \<and> scriptPost x = None)
      (case scriptPre j of None \<Rightarrow> [] | Some s \<Rightarrow> ''SCRIPT PRE  '' @ ?n @ '' '' @ s_cmd s @ newline) (?f False (scriptPre j))"
    by (rule reads_weaken [OF one [of "scriptPre j" False, unfolded if_False]]) (use j in \<open>simp_all add: printable_def\<close>)
  have post: "reads ?h a i ?n (\<lambda>x. scriptPost x = None)
      (case scriptPost j of None \<Rightarrow> [] | Some s \<Rightarrow> ''SCRIPT POST '' @ ?n @ '' '' @ s_cmd s @ newline) (?f True (scriptPost j))"
    by (rule one [of "scriptPost j" True, unfolded if_True]) (use j in \<open>simp add: printable_def\<close>)
  have "reads ?h a i ?n (\<lambda>x. scriptPre x = None \<and> scriptPost x = None) (rescue_script_lines j) (\<lambda>x. ?f True (scriptPost j) (?f False (scriptPre j) x))"
    unfolding rescue_script_lines_def by (rule reads_append [OF pre post]) (simp add: set_script_def split: option.split)
  moreover have "restore_scripts j = (\<lambda>x. ?f True (scriptPost j) (?f False (scriptPre j) x))"
    by (simp add: restore_scripts_def set_script_def fun_eq_iff split: option.split)
  ultimately show ?thesis by simp
qed

lemma reads_priority:
  assumes j: "printable j"
  shows "reads (line_of fs sp a fn) a i (jobName j) (\<lambda>_. True)
    (if hasNodePriority j then ''PRIORITY '' @ jobName j @ '' '' @ string_of_int (nodePriority j) @ newline else []) (restore_priority j)"
proof (cases "hasNodePriority j")
  case True
  have w: "plain_word (jobName j)" "\<not> isReservedWord (jobName j)" "is_int32 (nodePriority j)" using j by (simp_all add: printable_def)
  have f: "restore_priority j = (\<lambda>x. x\<lparr>hasNodePriority := True, nodePriority := nodePriority j\<rparr>)" using True by (simp add: restore_priority_def fun_eq_iff)
  have "reads (line_of fs sp a fn) a i (jobName j) (\<lambda>_. True) ((''PRIORITY '' @ jobName j @ '' '' @ string_of_int (nodePriority j)) @ newline) (restore_priority j)"
  proof (rule reads_text)
    show "plain_text (''PRIORITY '' @ jobName j @ '' '' @ string_of_int (nodePriority j))" by (intro plain_keyword text_space plain_word_text w plain_number)
    fix n p assume at: "at_node a i (jobName j) p"
    show "line_of fs sp a fn n (''PRIORITY '' @ jobName j @ '' '' @ string_of_int (nodePriority j)) p = Inr (True, change_node a i (restore_priority j) p)"
      unfolding keyword_line(4) f by (rule on_dag_change) (rule parse_priority_line [OF at w])
  qed (simp add: f)
  then show ?thesis using True by simp
qed (simp add: restore_priority_def [abs_def] reads_nothing)

lemma reads_abort:
  assumes j: "printable j"
  shows "reads (line_of fs sp a fn) a i (jobName j) (\<lambda>_. True) (rescue_abort_line j) (restore_abort j)"
proof (cases "have_abort_dag_val j")
  case True
  have w: "plain_word (jobName j)" "is_int32 (abort_dag_val j)" using j by (simp_all add: printable_def)
  let ?s = "jobName j @ '' '' @ string_of_int (abort_dag_val j) @ (if have_abort_dag_return_val j then '' RETURN '' @ string_of_int (abort_dag_return_val j) else [])"
  have r: "plain_text (''RETURN '' @ s)" if "plain_text s" for s using that by (auto simp: plain_text_def isspace_def)
  have "reads (line_of fs sp a fn) a i (jobName j) (\<lambda>_. True) ((''ABORT-DAG-ON '' @ ?s) @ newline) (restore_abort j)"
  proof (rule reads_text)
    have "plain_text (jobName j @ '' '' @ string_of_int (abort_dag_val j) @ '' '' @ (''RETURN '' @ string_of_int (abort_dag_return_val j)))"
      by (intro text_space plain_word_text w plain_number r)
    moreover have "plain_text (jobName j @ '' '' @ string_of_int (abort_dag_val j))" by (intro text_space plain_word_text w plain_number)
    ultimately have "plain_text ?s" by simp
    then show "plain_text (''ABORT-DAG-ON '' @ ?s)" by (rule plain_keyword)
    fix n p assume at: "at_node a i (jobName j) p"
    have "parse_abort p ?s (dag_at p a) = Inr (True, upd_node i (restore_abort j) (dag_at p a))"
      using parse_abort_line [OF at w] j True by (simp add: printable_def restore_abort_def [abs_def])
    then show "line_of fs sp a fn n (''ABORT-DAG-ON '' @ ?s) p = Inr (True, change_node a i (restore_abort j) p)"
      unfolding keyword_line(3) by (rule on_dag_change)
  qed (simp add: restore_abort_def set_abort_def)
  then show ?thesis using True by (simp add: rescue_abort_line_def)
qed (simp add: restore_abort_def [abs_def] rescue_abort_line_def reads_nothing)

lemma reads_comment:
  assumes "plain_text s"
  shows "reads (line_of fs sp a fn) a i name P ((''# '' @ s) @ newline) (\<lambda>x. x)"
proof (rule reads_text)
  show "plain_text (''# '' @ s)" by (rule plain_keyword(7) [OF assms])
  fix n p assume "at_node a i name p"
  then show "line_of fs sp a fn n (''# '' @ s) p = Inr (True, change_node a i (\<lambda>x. x) p)"
    by (simp add: parse_line_skip at_node_def)
qed simp

lemma reads_retry:
  assumes j: "printable j" and s: "rescue_retry_lines rr j = Inr s"
  shows "reads (line_of fs sp a fn) a i (jobName j) (\<lambda>_. True) s (restore_retry rr j)"
proof (cases "retry_max j > 0")
  case True
  let ?v = "if rr then retry_max j else retry_max j - retries j"
  have w: "plain_word (jobName j)" "is_int32 ?v" "0 \<le> ?v" "is_int32 (retry_abort_val j)" using j by (auto simp: printable_def is_int32_def)
  let ?s = "jobName j @ '' '' @ string_of_int ?v @ (if have_retry_abort_val j then '' UNLESS-EXIT '' @ string_of_int (retry_abort_val j) else [])"
  let ?k = "string_of_int (retries j) @ '' of '' @ string_of_int (retry_max j)"
  let ?A = "\<lambda>x. (''# '' @ ?k @ '' retries performed; remaining attempts aborted after node returned '' @ string_of_int x) @ newline"
  let ?B = "\<lambda>x. (''# '' @ ?k @ '' retries already performed; '' @ string_of_int x @ '' remaining'') @ newline"
  define cm where "cm = (if Status j = STATUS_ERROR \<and> retries j < retry_max j \<and> have_retry_abort_val j \<and> retval j = retry_abort_val j
    then ?A (retval j) else if \<not> rr then ?B (retry_max j - retries j) else [])"
  have "(Inr s :: string res) = Inr (cm @ (''RETRY '' @ ?s) @ newline)"
    unfolding s [symmetric] rescue_retry_lines_def Let_def cm_def using True j by (simp add: printable_def)
  then have s': "s = cm @ (''RETRY '' @ ?s) @ newline" by blast
  have plain: "plain_text (k @ t)" if "plain_text t" "k \<in> {''of '', ''retries performed; remaining attempts aborted after node returned '', ''retries already performed; '', ''UNLESS-EXIT ''}" for k t
    using that by (auto simp: plain_text_def isspace_def)
  have num: "plain_text (string_of_int x)" for x by (rule plain_word_text [OF plain_number])
  have rem: "plain_text ''remaining''" by (simp add: plain_text_def isspace_def)
  have t: "plain_text (?k @ '' retries performed; remaining attempts aborted after node returned '' @ string_of_int x)"
    "plain_text (?k @ '' retries already performed; '' @ string_of_int x @ '' remaining'')" for x
  proof -
    have "plain_text (string_of_int (retries j) @ '' '' @ (''of '' @ string_of_int (retry_max j)) @ '' '' @
        (''retries performed; remaining attempts aborted after node returned '' @ string_of_int x))"
      "plain_text (string_of_int (retries j) @ '' '' @ (''of '' @ string_of_int (retry_max j)) @ '' '' @
        (''retries already performed; '' @ string_of_int x) @ '' '' @ ''remaining'')"
      by (intro text_space plain num rem, simp, simp)+
    then show "plain_text (?k @ '' retries performed; remaining attempts aborted after node returned '' @ string_of_int x)"
      "plain_text (?k @ '' retries already performed; '' @ string_of_int x @ '' remaining'')" by simp_all
  qed
  have n: "reads (line_of fs sp a fn) a i (jobName j) (\<lambda>_. True) cm (\<lambda>x. x)"
    unfolding cm_def by (simp only: reads_nothing reads_comment [OF t(1)] reads_comment [OF t(2)] split: if_split) simp
  have "reads (line_of fs sp a fn) a i (jobName j) (\<lambda>_. True) ((''RETRY '' @ ?s) @ newline) (restore_retry rr j)"
  proof (rule reads_text)
    have "plain_text (jobName j @ '' '' @ string_of_int ?v @ '' '' @ (''UNLESS-EXIT '' @ string_of_int (retry_abort_val j)))"
      by (intro text_space plain_word_text [OF w(1)] num plain) simp
    moreover have "plain_text (jobName j @ '' '' @ string_of_int ?v)" by (intro text_space plain_word_text w plain_number)
    ultimately have "plain_text ?s" by (cases "have_retry_abort_val j") simp_all
    then show "plain_text (''RETRY '' @ ?s)" by (rule plain_keyword)
    fix n p assume at: "at_node a i (jobName j) p"
    have "parse_retry p ?s (dag_at p a) = Inr (True, upd_node i (restore_retry rr j) (dag_at p a))"
      using parse_retry_line [OF at w(1-3)] w(4) True by (simp add: restore_retry_def [abs_def] Let_def)
    then show "line_of fs sp a fn n (''RETRY '' @ ?s) p = Inr (True, change_node a i (restore_retry rr j) p)"
      unfolding keyword_line(1) by (rule on_dag_change)
  qed (simp add: restore_retry_def Let_def)
  from reads_append [OF n this] show ?thesis unfolding s' by simp
qed (use s in \<open>simp add: rescue_retry_lines_def restore_retry_def [abs_def] reads_nothing\<close>)

lemma reads_vars:
  assumes j: "printable j"
  shows "reads (line_of fs sp a fn) a i (jobName j) (\<lambda>_. True) (rescue_vars_line j) (restore_vars j)"
proof (cases "varNamesFromDag j = []")
  case True
  then have "restore_vars j = (\<lambda>x. x)" using j by (auto simp: restore_vars_def printable_def)
  then show ?thesis using True by (simp add: rescue_vars_line_def reads_nothing)
next
  case False
  let ?z = "zip (varNamesFromDag j) (varValsFromDag j)"
  let ?s = "jobName j @ concat (map (\<lambda>nv. CHR '' '' # var_text nv) ?z)"
  have w: "plain_word (jobName j)" "length (varNamesFromDag j) = length (varValsFromDag j)" "\<forall>nv \<in> set ?z. plain_var nv"
    using j by (simp_all add: printable_def list_all_iff)
  then have z: "?z \<noteq> []" "map fst ?z = varNamesFromDag j" "map snd ?z = varValsFromDag j" using False by auto
  have l: "rescue_vars_line j = (''VARS '' @ ?s) @ newline"
    using False by (simp add: rescue_vars_line_def var_text_def split_def)
  have f: "restore_vars j = (\<lambda>x. x\<lparr>varNamesFromDag := varNamesFromDag x @ map fst ?z, varValsFromDag := varValsFromDag x @ map snd ?z\<rparr>)"
    unfolding z by (simp add: restore_vars_def fun_eq_iff)
  have "plain_text ?s"
  proof -
    have "plain_text (s @ concat (map (\<lambda>nv. CHR '' '' # var_text nv) zs))" if "plain_text s" "\<forall>nv \<in> set zs. plain_var nv" for s zs
      using that
    proof (induction zs arbitrary: s)
      case (Cons nv zs)
      have "plain_text (var_text nv)" using Cons.prems(2) var_text_head [of nv] by (simp add: plain_text_def isspace_def)
      from Cons.IH [OF text_space [OF Cons.prems(1) this]] Cons.prems(2) show ?case by simp
    qed simp
    then show ?thesis using plain_word_text w by blast
  qed
  then have t: "plain_text (''VARS '' @ ?s)" by (rule plain_keyword)
  show ?thesis
    unfolding l
  proof (rule reads_text [OF t])
    fix n p assume at: "at_node a i (jobName j) p"
    show "line_of fs sp a fn n (''VARS '' @ ?s) p = Inr (True, change_node a i (restore_vars j) p)"
      unfolding keyword_line(2) f by (rule on_dag_change) (rule parse_vars_line [OF at w(1) z(1) w(3)])
  qed (simp add: restore_vars_def)
qed

end
