(* ===== verification/Rescue_Node.thy ===== *)
theory Rescue_Node
  imports Rescue_Parse
begin

text \<open>
  The text of one node of a rescue DAG: parsing it adds exactly one node, with the attributes of the
  node that was printed.
\<close>

section \<open>The line of the node\<close>

definition job_words :: "job \<Rightarrow> string list" where
  "job_words j = (if noop j then [''NOOP''] else []) @ (if Status j = STATUS_DONE then [''DONE''] else [])"

definition dir_words :: "job \<Rightarrow> string list" where
  "dir_words j = (if directory j \<noteq> [] then [''DIR'', directory j] else [])"

definition file_word :: "job \<Rightarrow> string" where
  "file_word j = (case dagFile j of None \<Rightarrow> cmdFile j | Some f \<Rightarrow> f)"

definition type_words :: "job \<Rightarrow> string list" where
  "type_words j =
     (case jobType j of
        TYPE_CONDOR \<Rightarrow> (case dagFile j of None \<Rightarrow> [''JOB''] | Some _ \<Rightarrow> [''SUBDAG'', ''EXTERNAL''])
      | TYPE_STORK \<Rightarrow> [''DATA''])"

lemma job_line_words:
  "rescue_job_line j =
     (spaced (type_words j @ [jobName j, file_word j] @ dir_words j @ job_words j) @ (if Status j = STATUS_DONE then [] else '' '')) @ newline"
  by (auto simp: rescue_job_line_def type_words_def dir_words_def job_words_def file_word_def split: job_type_t.split option.split)

definition new_node :: "job \<Rightarrow> JobID_t \<Rightarrow> job" where
  "new_node j c = (new_job (jobType j) (jobName j) (directory j) (cmdFile j) c)
     \<lparr>noop := noop j, Status := if Status j = STATUS_DONE then STATUS_DONE else STATUS_READY\<rparr>"

definition add_job :: "nat \<Rightarrow> job \<Rightarrow> parser \<Rightarrow> parser" where
  "add_job a x p =
     set_dag a (set_node (jobID x) x ((dag_at p a)\<lparr>d_nodeNameHash := (d_nodeNameHash (dag_at p a))(jobName x \<mapsto> jobID x),
       d_nodeIDHash := (d_nodeIDHash (dag_at p a))(jobID x \<mapsto> jobID x), d_jobs := d_jobs (dag_at p a) @ [jobID x]\<rparr>))
       (p\<lparr>ps_jobID_counter := ps_jobID_counter p + 1\<rparr>)"

text \<open>What the parser needs in order to accept the node, and to change to its directory and back.\<close>

definition room_for :: "nat \<Rightarrow> job \<Rightarrow> parser \<Rightarrow> bool" where
  "room_for a j p \<longleftrightarrow> \<not> ps_mungeNames p \<and> a < length (ps_objects p) \<and> LookupSplice p a (jobName j) = None \<and>
     d_nodeNameHash (dag_at p a) (jobName j) = None \<and> d_nodeIDHash (dag_at p a) (ps_jobID_counter p) = None \<and>
     \<not> o_prohibitMultiJobs (object_at p a)"

definition dir_ok :: "files \<Rightarrow> string \<Rightarrow> string \<Rightarrow> bool" where
  "dir_ok fs cwd dir \<longleftrightarrow> dir \<in> {[], ''.''} \<or>
     f_getcwd_ok fs cwd \<and> (case f_chdir fs cwd dir of None \<Rightarrow> False | Some w \<Rightarrow> f_chdir fs w cwd = Some cwd)"

lemma AddNode_new:
  assumes j: "printable j" and r: "room_for a j p"
  shows "AddNode fs a (jobType j) (Some (jobName j)) (directory j) (Some (cmdFile j)) None None (noop j) (Status j = STATUS_DONE) p =
    Inr (True, ''n/a'', add_job a (new_node j (ps_jobID_counter p)) p)"
proof -
  have n: "jobName j \<noteq> []" "\<not> isReservedWord (jobName j)" "cmdFile j \<noteq> []" using j by (simp_all add: printable_def plain_word_def)
  have d: "dag_at (p\<lparr>ps_jobID_counter := c\<rparr>) a = dag_at p a" for c by (simp add: dag_at_def object_at_def)
  show ?thesis
    using n r by (simp add: AddNode_def IsValidNodeName_def NodeExists_def FindNodeByName_def IsValidSubmitFileName_def Init_def room_for_def
        add_optional_script_def Let_def SetStatus_def Dag_Add_def d add_job_def new_node_def new_job_def)
qed

lemma SetNodeDagFile_new:
  assumes r: "room_for a j p" and x: "jobName x = jobName j"
  shows "on_dag a (SetNodeDagFile (jobName j) f) (add_job a x p) = Inr (True, change_node a (jobID x) (SetDagFile f) (add_job a x p))"
proof (rule on_dag_change)
  have "a < length (ps_objects p)" using r by (simp add: room_for_def)
  then have "d_nodeNameHash (dag_at (add_job a x p) a) (jobName j) = Some (jobID x)" "jobName (node_at (dag_at (add_job a x p) a) (jobID x)) = jobName j"
    using x by (simp_all add: add_job_def set_dag_def set_object_def dag_at_def object_at_def set_node_def node_at_def)
  then show "SetNodeDagFile (jobName j) f (dag_at (add_job a x p) a) = Inr (True, upd_node (jobID x) (SetDagFile f) (dag_at (add_job a x p) a))"
    by (simp add: SetNodeDagFile_def FindNodeByName_def)
qed

definition with_dag_file :: "job \<Rightarrow> job \<Rightarrow> job" where
  "with_dag_file j x = (case dagFile j of None \<Rightarrow> x | Some f \<Rightarrow> SetDagFile f x)"

definition keyword_of :: "job \<Rightarrow> string" where
  "keyword_of j = hd (type_words j)"

lemma parse_node_tail_new:
  assumes j: "printable j" and r: "room_for a j p"
  shows "parse_node_tail fs a (jobType j) (keyword_of j) (directory j) (jobName j) (Some (file_word j)) (next_token (spaced (job_words j))) p =
    Inr (True, change_node a (ps_jobID_counter p) (with_dag_file j) (add_job a (new_node j (ps_jobID_counter p)) p))"
proof -
  let ?x = "new_node j (ps_jobID_counter p)"
  have t: "strtok script_delim ''NOOP DONE'' = Some (''NOOP'', ''DONE'')" "strtok script_delim ''NOOP'' = Some (''NOOP'', [])"
    "strtok script_delim ''DONE'' = Some (''DONE'', [])" by (simp_all add: strtok_def script_delim_def)
  have head: "parse_node_tail fs a (jobType j) (keyword_of j) (directory j) (jobName j) (Some (file_word j)) (next_token (spaced (job_words j))) p =
    bindR (submit_and_dag_file (keyword_of j) (Some (file_word j))) (\<lambda>(f, nested).
      bindR (AddNode fs a (jobType j) (Some (jobName j)) (directory j) f None None (noop j) (Status j = STATUS_DONE) p) (\<lambda>(ok, whynot, p).
        if \<not> ok then Inr (False, p)
        else if nested \<noteq> [] then on_dag a (SetNodeDagFile (jobName j) nested) p else Inr (True, p)))"
    using r by (cases "noop j"; cases "Status j = STATUS_DONE")
      (simp_all add: job_words_def parse_node_tail_def t token_is_def token_simps strcaseeq_def tolower_def room_for_def)
  have x: "jobName ?x = jobName j" "jobID ?x = ps_jobID_counter p" by (simp_all add: new_node_def new_job_def)
  show ?thesis
  proof (cases "dagFile j")
    case None
    have k: "submit_and_dag_file (keyword_of j) (Some (file_word j)) = Inr (Some (cmdFile j), [])"
      using None j by (cases "jobType j") (simp_all add: submit_and_dag_file_def keyword_of_def type_words_def file_word_def printable_def strcaseeq_def tolower_def)
    have i: "ps_jobID_counter p \<in> dom (d_nodes (dag_at (add_job a ?x p) a))"
      using r x by (simp add: room_for_def add_job_def set_dag_def set_object_def dag_at_def object_at_def set_node_def)
    show ?thesis unfolding head k using AddNode_new [OF j r] None i by (simp add: with_dag_file_def [abs_def])
  next
    case (Some f)
    have c: "jobType j = TYPE_CONDOR" "cmdFile j = f @ DAG_SUBMIT_FILE_SUFFIX" "f \<noteq> []" using j Some by (simp_all add: printable_def plain_word_def)
    have k: "submit_and_dag_file (keyword_of j) (Some (file_word j)) = Inr (Some (cmdFile j), f)"
      using Some c by (simp add: submit_and_dag_file_def keyword_of_def type_words_def file_word_def strcaseeq_def null_to_empty_def)
    show ?thesis unfolding head k using AddNode_new [OF j r] SetNodeDagFile_new [OF r x(1), of f] Some c(3) x(2) by (simp add: with_dag_file_def [abs_def])
  qed
qed

lemma in_TmpDir_back:
  assumes r: "room_for a j p" and d: "dir_ok fs (ps_cwd p) (directory j)"
    and b: "\<And>q. room_for a j q \<Longrightarrow> body q = Inr (True, change_node a (ps_jobID_counter q) f (add_job a (new_node j (ps_jobID_counter q)) q))"
  shows "in_TmpDir fs (directory j) body p = Inr (True, change_node a (ps_jobID_counter p) f (add_job a (new_node j (ps_jobID_counter p)) p))"
proof (cases "directory j \<in> {[], ''.''}")
  case True
  then show ?thesis using b [OF r] by (auto simp: in_TmpDir_def Cd2TmpDir_def Cd2MainDir_def)
next
  case False
  then obtain w where w: "f_getcwd_ok fs (ps_cwd p)" "f_chdir fs (ps_cwd p) (directory j) = Some w" "f_chdir fs w (ps_cwd p) = Some (ps_cwd p)"
    using d by (auto simp: dir_ok_def split: option.splits)
  let ?q = "p\<lparr>ps_cwd := w\<rparr>"
  have "room_for a j ?q" using r by (simp add: room_for_def LookupSplice_def dag_at_def object_at_def)
  note b' = b [OF this]
  let ?r = "change_node a (ps_jobID_counter p) f (add_job a (new_node j (ps_jobID_counter p)) ?q)"
  have "ps_cwd ?r = w" by (simp add: change_node_def add_job_def set_dag_def set_object_def)
  moreover have "?r\<lparr>ps_cwd := ps_cwd p\<rparr> = change_node a (ps_jobID_counter p) f (add_job a (new_node j (ps_jobID_counter p)) p)"
    by (cases p) (simp add: change_node_def add_job_def set_dag_def set_object_def dag_at_def object_at_def)
  ultimately show ?thesis using False w b' by (simp add: in_TmpDir_def Cd2TmpDir_def Cd2MainDir_def)
qed

lemma parse_node_new:
  assumes j: "printable j" and r: "room_for a j p" and d: "dir_ok fs (ps_cwd p) (directory j)"
  shows "parse_node fs a (jobType j) (keyword_of j) [] (spaced ([jobName j, file_word j] @ dir_words j @ job_words j)) p =
    Inr (True, change_node a (ps_jobID_counter p) (with_dag_file j) (add_job a (new_node j (ps_jobID_counter p)) p))"
proof -
  have w: "plain_word (jobName j)" "plain_word (file_word j)" "directory j \<noteq> [] \<Longrightarrow> plain_word (directory j)"
    using j by (auto simp: printable_def file_word_def split: option.splits)
  have m: "munge_job_name p (Some (jobName j)) = jobName j" using r by (simp add: room_for_def munge_job_name_def null_to_empty_def)
  note t = strtok_spaced [OF w(1)] strtok_spaced [OF w(2)]
  note tail = parse_node_tail_new [OF j]
  show ?thesis
  proof (cases "directory j = []")
    case True
    have "\<not> token_is (fst (next_token (spaced (job_words j)))) ''DIR''"
      by (simp add: job_words_def strtok_def script_delim_def token_of_def token_is_def strcaseeq_def tolower_def)
    then show ?thesis
      using tail [OF r] True by (simp add: parse_node_def dir_words_def t m token_of_def [of "Some _"] rest_of_def [of "Some _"] del: spaced_simps)
  next
    case False
    note t' = t strtok_spaced [OF w(3) [OF False]] strtok_spaced [of "''DIR''"]
    have "token_is (Some ''DIR'') ''DIR''" by (simp add: token_is_def strcaseeq_def)
    then show ?thesis
      using in_TmpDir_back [OF r d tail] False
      by (simp add: parse_node_def dir_words_def t' m token_of_def [of "Some _"] rest_of_def [of "Some _"] del: spaced_simps)
  qed
qed

lemma job_line_new:
  assumes j: "printable j" and r: "room_for a j p" and d: "dir_ok fs (ps_cwd p) (directory j)"
  shows "line_of fs sp a fn n (spaced (type_words j @ [jobName j, file_word j] @ dir_words j @ job_words j)) p =
    Inr (True, change_node a (ps_jobID_counter p) (with_dag_file j) (add_job a (new_node j (ps_jobID_counter p)) p))"
proof -
  let ?s = "spaced ([jobName j, file_word j] @ dir_words j @ job_words j)"
  note node = parse_node_new [OF assms]
  consider "jobType j = TYPE_STORK" "type_words j = [''DATA'']" | "jobType j = TYPE_CONDOR" "type_words j = [''JOB'']"
    | "jobType j = TYPE_CONDOR" "type_words j = [''SUBDAG'', ''EXTERNAL'']"
    by (cases "jobType j"; cases "dagFile j"; simp add: type_words_def)
  then show ?thesis
  proof cases
    case 1
    have "spaced (type_words j @ [jobName j, file_word j] @ dir_words j @ job_words j) = ''DATA '' @ ?s" by (simp add: 1)
    then show ?thesis using node 1 by (simp only: keyword_line keyword_of_def list.sel)
  next
    case 2
    have "spaced (type_words j @ [jobName j, file_word j] @ dir_words j @ job_words j) = ''JOB '' @ ?s" by (simp add: 2)
    then show ?thesis using node 2 by (simp only: keyword_line keyword_of_def list.sel)
  next
    case 3
    have "spaced (type_words j @ [jobName j, file_word j] @ dir_words j @ job_words j) = ''SUBDAG '' @ ''EXTERNAL '' @ ?s" by (simp add: 3)
    moreover have "strtok script_delim (''EXTERNAL '' @ ?s) = Some (''EXTERNAL'', ?s)" using strtok_word(2) [of "''EXTERNAL''" ?s] by (simp add: script_delim_def)
    ultimately show ?thesis using node 3
      by (simp only: keyword_line keyword_of_def list.sel parse_subdag_def token_of_def rest_of_def option.map fst_conv option.case prod.case) (simp add: strcaseeq_def)
  qed
qed

section \<open>The text of the node\<close>

definition restored :: "bool \<Rightarrow> job \<Rightarrow> JobID_t \<Rightarrow> job" where
  "restored rr j c = restore_priority j (restore_abort j (restore_vars j (restore_retry rr j (restore_scripts j (with_dag_file j (new_node j c))))))"

lemma change_added:
  assumes "jobName (f x) = jobName x" and "jobID (f x) = jobID x" and "a < length (ps_objects p)"
  shows "change_node a (jobID x) f (add_job a x p) = add_job a (f x) p"
  using assms by (simp add: change_node_def add_job_def set_dag_def set_object_def dag_at_def object_at_def upd_node_def set_node_def node_at_def)

lemma restore_frame:
  "jobName (restore_scripts j x) = jobName x" "jobID (restore_scripts j x) = jobID x"
  "jobName (restore_retry rr j x) = jobName x" "jobID (restore_retry rr j x) = jobID x"
  "jobName (restore_vars j x) = jobName x" "jobID (restore_vars j x) = jobID x"
  "jobName (restore_abort j x) = jobName x" "jobID (restore_abort j x) = jobID x"
  "jobName (restore_priority j x) = jobName x" "jobID (restore_priority j x) = jobID x"
  "jobName (with_dag_file j x) = jobName x" "jobID (with_dag_file j x) = jobID x"
  by (simp_all add: restore_scripts_def restore_retry_def restore_vars_def restore_abort_def restore_priority_def set_abort_def with_dag_file_def
      SetDagFile_def Let_def split: option.split)

lemma reads_attributes:
  assumes j: "printable j" and s: "rescue_retry_lines rr j = Inr s"
  shows "reads (line_of fs sp a fn) a i (jobName j) (\<lambda>x. scriptPre x = None \<and> scriptPost x = None)
    (rescue_script_lines j @ s @ rescue_vars_line j @ rescue_abort_line j @
      (if hasNodePriority j then ''PRIORITY '' @ jobName j @ '' '' @ string_of_int (nodePriority j) @ newline else []) @ newline)
    (\<lambda>x. restore_priority j (restore_abort j (restore_vars j (restore_retry rr j (restore_scripts j x)))))"
proof -
  have "reads (line_of fs sp a fn) a i (jobName j) (\<lambda>_. True) ([] @ newline) (\<lambda>x. x)"
    by (rule reads_line) (simp_all add: whole_line_def trim_line_def parse_line_skip at_node_def)
  then have e: "reads (line_of fs sp a fn) a i (jobName j) (\<lambda>_. True) newline (\<lambda>x. x)" by simp
  note p = reads_append [OF reads_priority [OF j] e]
  note q = reads_append [OF reads_abort [OF j] p]
  note v = reads_append [OF reads_vars [OF j] q]
  note t = reads_append [OF reads_retry [OF assms] v]
  show ?thesis by (rule reads_append [OF reads_scripts [OF j] t]) simp_all
qed

lemma rescue_node_read:
  assumes j: "printable (node_at d i)" and s: "rescue_node rr d i = Inr s" and r: "room_for a (node_at d i) p"
    and dir: "dir_ok fs (ps_cwd p) (directory (node_at d i))"
  shows "\<exists>m. parse_lines (line_of fs sp a fn) n (getlines (s @ rest)) p =
    parse_lines (line_of fs sp a fn) m (getlines rest) (add_job a (restored rr (node_at d i) (ps_jobID_counter p)) p)"
proof -
  let ?j = "node_at d i" and ?h = "line_of fs sp a fn" and ?c = "ps_jobID_counter p"
  let ?x = "with_dag_file ?j (new_node ?j ?c)"
  let ?g = "\<lambda>x. restore_priority ?j (restore_abort ?j (restore_vars ?j (restore_retry rr ?j (restore_scripts ?j x))))"
  have len: "a < length (ps_objects p)" using r by (simp add: room_for_def)
  obtain t where t: "rescue_retry_lines rr ?j = Inr t" and s': "s = rescue_job_line ?j @ (rescue_script_lines ?j @ t @ rescue_vars_line ?j @ rescue_abort_line ?j @
      (if hasNodePriority ?j then ''PRIORITY '' @ jobName ?j @ '' '' @ string_of_int (nodePriority ?j) @ newline else []) @ newline)"
    using s j by (auto simp: rescue_node_def Let_def printable_def)
  let ?t = "rescue_script_lines ?j @ t @ rescue_vars_line ?j @ rescue_abort_line ?j @
      (if hasNodePriority ?j then ''PRIORITY '' @ jobName ?j @ '' '' @ string_of_int (nodePriority ?j) @ newline else []) @ newline"
  have n: "jobName (new_node ?j ?c) = jobName ?j" "jobID (new_node ?j ?c) = ?c" by (simp_all add: new_node_def new_job_def)
  have x: "jobName ?x = jobName ?j" "jobID ?x = ?c" using n by (simp_all add: restore_frame)
  have q: "change_node a ?c (with_dag_file ?j) (add_job a (new_node ?j ?c) p) = add_job a ?x p"
    using change_added [of "with_dag_file ?j" "new_node ?j ?c" a p] len n by (simp add: restore_frame)
  let ?ws = "type_words ?j @ [jobName ?j, file_word ?j] @ dir_words ?j @ job_words ?j"
  have "\<forall>w \<in> set ?ws. plain_word w"
    using j by (auto simp: printable_def type_words_def file_word_def dir_words_def job_words_def split: job_type_t.splits option.splits if_splits)
  note l = spaced_line [OF _ this]
  let ?l = "spaced ?ws @ (if Status ?j = STATUS_DONE then [] else '' '')"
  have wl: "whole_line ?l" "trim_line ?l = spaced ?ws" using l by (simp_all del: spaced_simps)
  have "(?l @ [CHR 0x0A]) @ u = ?l @ CHR 0x0A # u" for u by simp
  then have g: "getlines (rescue_job_line ?j @ u) = spaced ?ws # getlines u" for u
    unfolding job_line_words newline_def by (simp only: getlines_line [OF wl(1)] wl(2))
  have at: "at_node a ?c (jobName ?j) (add_job a ?x p)"
    using r x by (simp add: room_for_def at_node_def add_job_def set_dag_def set_object_def dag_at_def object_at_def set_node_def node_at_def)
  have xx: "node_at (dag_at (add_job a ?x p) a) ?c = ?x"
    using len x by (simp add: add_job_def set_dag_def set_object_def dag_at_def object_at_def set_node_def node_at_def)
  have none: "scriptPre (node_at (dag_at (add_job a ?x p) a) ?c) = None \<and> scriptPost (node_at (dag_at (add_job a ?x p) a) ?c) = None"
    unfolding xx by (simp add: with_dag_file_def new_node_def new_job_def SetDagFile_def split: option.split)
  obtain m where m: "parse_lines ?h (n + 1) (getlines (?t @ rest)) (add_job a ?x p) = parse_lines ?h m (getlines rest) (change_node a ?c ?g (add_job a ?x p))"
    using reads_attributes [OF j t, of fs sp a fn ?c] at none unfolding reads_def by blast
  have "change_node a ?c ?g (add_job a ?x p) = add_job a (restored rr ?j ?c) p"
    using change_added [of ?g ?x a p] len x by (simp add: restore_frame restored_def)
  moreover have "?h (n + 1) (spaced ?ws) p = Inr (True, add_job a ?x p)" using job_line_new [OF j r dir] q by (simp del: spaced_simps)
  ultimately show ?thesis using m by (auto simp: s' g simp del: spaced_simps)
qed


end
