(* ===== verification/Rescue_Load.thy ===== *)
theory Rescue_Load
  imports Rescue_Node Dag_Built
begin

text \<open>
  Reading back a whole rescue DAG: the file that \<open>Rescue\<close> writes is accepted by the parser and gives
  the same nodes in the same order, with the same attributes, done marks and dependencies.
\<close>

section \<open>Lines that change nothing\<close>

definition skips :: "(int \<Rightarrow> string \<Rightarrow> parser \<Rightarrow> (bool \<times> parser) res) \<Rightarrow> string \<Rightarrow> bool" where
  "skips h s \<longleftrightarrow> (\<forall>n p rest. \<exists>m. parse_lines h n (getlines (s @ rest)) p = parse_lines h m (getlines rest) p)"

lemma skips_append:
  assumes "skips h s" and "skips h t"
  shows "skips h (s @ t)"
  unfolding skips_def
proof (intro allI)
  fix n p rest
  obtain m where "parse_lines h n (getlines (s @ t @ rest)) p = parse_lines h m (getlines (t @ rest)) p" using assms(1) unfolding skips_def by blast
  moreover obtain k where "parse_lines h m (getlines (t @ rest)) p = parse_lines h k (getlines rest) p" using assms(2) unfolding skips_def by blast
  ultimately show "\<exists>m. parse_lines h n (getlines ((s @ t) @ rest)) p = parse_lines h m (getlines rest) p" by auto
qed

lemma skips_Nil: "skips h []"
  by (auto simp: skips_def)

lemma skips_line:
  assumes "whole_line l" and "\<And>n p. h n (trim_line l) p = Inr (True, p)"
  shows "skips h (l @ newline)"
  unfolding skips_def newline_def using assms(2) by (auto simp: getlines_line [OF assms(1)])

lemma skips_blank: "skips (line_of fs sp a fn) newline"
  using skips_line [of "[]" "line_of fs sp a fn"] by (simp add: whole_line_def trim_line_def parse_line_skip)

lemma skips_comment:
  assumes "CHR 0x0A \<notin> set t" and "t = [] \<or> \<not> isspace (last t) \<and> last t \<noteq> CHR 0x5C"
  shows "skips (line_of fs sp a fn) ((CHR ''#'' # t) @ newline)"
proof -
  have "plain_text (CHR ''#'' # t)" using assms by (auto simp: plain_text_def isspace_def)
  then have "whole_line (CHR ''#'' # t)" "trim_line (CHR ''#'' # t) = CHR ''#'' # t" using whole_line_text [of "CHR ''#'' # t"] by (simp_all add: plain_text_def)
  then show ?thesis by (intro skips_line) (simp_all add: parse_line_skip)
qed

lemma skips_words:
  assumes "CHR 0x0A \<notin> set u" and "plain_word v"
  shows "skips (line_of fs sp a fn) ((CHR ''#'' # u @ v) @ newline)"
proof (rule skips_comment)
  show "CHR 0x0A \<notin> set (u @ v)" using assms space_delim(4) by (auto simp: plain_word_def)
  show "u @ v = [] \<or> \<not> isspace (last (u @ v)) \<and> last (u @ v) \<noteq> CHR 0x5C" using assms(2) by (simp add: plain_word_def)
qed

lemma no_newline_int [simp]: "CHR 0x0A \<notin> set (string_of_int i)"
  using plain_number [of i] space_delim(4) by (auto simp: plain_word_def)

lemma no_newline_padded [simp]: "CHR 0x0A \<notin> set (width_02d i)"
proof -
  have "CHR 0x0A \<notin> set (string_of_nat n)" for n using string_of_nat_digits [of n] by (auto simp: isdigit_def)
  then show ?thesis by (auto simp: width_02d_def zero_padded_def)
qed

lemma skips_header:
  assumes "CHR 0x0A \<notin> set dag_file" and "\<forall>i \<in> set (d_jobs d). plain_word (jobName (node_at d i))"
    and "d_configFile d = None" and "d_statusFileName d = None" and "d_jobstateLogFile d = None"
  shows "skips (line_of fs sp a fn) (rescue_header False dag_file t d)"
proof -
  let ?f = "concat (map (\<lambda>i. if Status (node_at d i) = STATUS_ERROR then jobName (node_at d i) @ '','' else []) (d_jobs d))"
  have f: "CHR 0x0A \<notin> set ?f" using assms(2) space_delim(4) by (auto simp: plain_word_def split: if_splits)
  have w: "plain_word ''running''" "plain_word ''file''" "plain_word ''UTC''" "plain_word ''<ENDLIST>''" by (simp_all add: plain_word_def isspace_def)
  have h: "rescue_header False dag_file t d =
    ((CHR ''#'' # '' Rescue DAG file, created after '' @ ''running'') @ newline) @ ((CHR ''#'' # (''   the '' @ dag_file @ '' DAG '') @ ''file'') @ newline) @
    ((CHR ''#'' # ('' Created '' @ string_of_int (tm_mon t + 1) @ ''/'' @ string_of_int (tm_mday t) @ ''/'' @
       string_of_int (tm_year t + 1900) @ '' '' @ width_02d (tm_hour t) @ '':'' @ width_02d (tm_min t) @ '':'' @ width_02d (tm_sec t) @ '' '') @ ''UTC'') @ newline) @
    ((CHR ''#'' # []) @ newline) @
    ((CHR ''#'' # '' Total number of Nodes: '' @ string_of_int (NumNodes d)) @ newline) @
    ((CHR ''#'' # '' Nodes premarked DONE: '' @ string_of_int (d_numNodesDone d)) @ newline) @
    ((CHR ''#'' # '' Nodes that failed: '' @ string_of_int (d_numNodesFailed d)) @ newline) @
    ((CHR ''#'' # (''   '' @ ?f) @ ''<ENDLIST>'') @ newline) @ newline"
    using assms(3-5) by (simp add: rescue_header_def rescue_created_def)
  show ?thesis unfolding h
    apply (rule skips_append [OF skips_words [OF _ w(1)]], simp)
    apply (rule skips_append [OF skips_words [OF _ w(2)]], use assms(1) in simp)
    apply (rule skips_append [OF skips_words [OF _ w(3)]], simp)
    apply (rule skips_append [OF skips_comment], simp, simp)
    apply (rule skips_append [OF skips_words [OF _ plain_number]], simp)+
    apply (rule skips_append [OF skips_words [OF _ w(4)] skips_blank], use f in simp)
    done
qed

section \<open>The nodes\<close>

text \<open>The first \<open>k\<close> nodes have been read: they are numbered in the order of the file.\<close>

definition usable :: "nat \<Rightarrow> parser \<Rightarrow> bool" where
  "usable a p \<longleftrightarrow> \<not> ps_mungeNames p \<and> a < length (ps_objects p) \<and> \<not> o_prohibitMultiJobs (object_at p a) \<and> (\<forall>name. LookupSplice p a name = None)"

definition old_node :: "Dag \<Rightarrow> int \<Rightarrow> job" where
  "old_node d c = node_at d (d_jobs d ! nat c)"

definition names_in :: "Dag \<Rightarrow> nat \<Rightarrow> Dag \<Rightarrow> bool" where
  "names_in d k d' \<longleftrightarrow> (\<forall>n c. d_nodeNameHash d' n = Some c \<longleftrightarrow> 0 \<le> c \<and> c < int k \<and> jobName (old_node d c) = n) \<and>
     (\<forall>i c. d_nodeIDHash d' i = Some c \<longleftrightarrow> c = i \<and> 0 \<le> i \<and> i < int k) \<and> d_jobs d' = map int [0..<k]"

definition nodes_read :: "nat \<Rightarrow> bool \<Rightarrow> Dag \<Rightarrow> nat \<Rightarrow> parser \<Rightarrow> bool" where
  "nodes_read a rr d k p \<longleftrightarrow> usable a p \<and> ps_jobID_counter p = int k \<and> names_in d k (dag_at p a) \<and>
     (\<forall>c. d_nodes (dag_at p a) c = (if 0 \<le> c \<and> c < int k then Some (restored rr (old_node d c) c) else None))"

lemma add_job_parts:
  assumes "a < length (ps_objects p)"
  shows "dag_at (add_job a x p) a = set_node (jobID x) x ((dag_at p a)\<lparr>d_nodeNameHash := (d_nodeNameHash (dag_at p a))(jobName x \<mapsto> jobID x),
       d_nodeIDHash := (d_nodeIDHash (dag_at p a))(jobID x \<mapsto> jobID x), d_jobs := d_jobs (dag_at p a) @ [jobID x]\<rparr>)"
    and "usable a p \<Longrightarrow> usable a (add_job a x p)" and "ps_jobID_counter (add_job a x p) = ps_jobID_counter p + 1" and "ps_cwd (add_job a x p) = ps_cwd p"
  using assms by (simp_all add: add_job_def set_dag_def set_object_def dag_at_def object_at_def usable_def LookupSplice_def)

lemma restored_ids: "jobName (restored rr j c) = jobName j" "jobID (restored rr j c) = c"
  by (simp_all add: restored_def restore_frame new_node_def new_job_def)

lemma node_read:
  assumes p: "nodes_read a rr d k p" and k: "k < length (d_jobs d)" and fresh: "\<forall>c < k. jobName (old_node d (int c)) \<noteq> jobName (old_node d (int k))"
  shows "room_for a (old_node d (int k)) p" and "nodes_read a rr d (Suc k) (add_job a (restored rr (old_node d (int k)) (int k)) p)"
proof -
  let ?j = "old_node d (int k)"
  have u: "usable a p" and a: "a < length (ps_objects p)" using p by (simp_all add: nodes_read_def usable_def)
  have n: "names_in d k (dag_at p a)" and c: "ps_jobID_counter p = int k" using p by (simp_all add: nodes_read_def)
  have f: "jobName (old_node d x) \<noteq> jobName ?j" if "0 \<le> x" "x < int k" for x
    using fresh [rule_format, of "nat x"] that by (simp add: nat_less_iff)
  then have new: "d_nodeNameHash (dag_at p a) (jobName ?j) = None"
    using n by (cases "d_nodeNameHash (dag_at p a) (jobName ?j)") (auto simp: names_in_def)
  have "d_nodeIDHash (dag_at p a) (int k) = None" using n by (cases "d_nodeIDHash (dag_at p a) (int k)") (auto simp: names_in_def)
  then show "room_for a ?j p" using u new c by (simp add: room_for_def usable_def)
  have lt: "x < int (Suc k) \<longleftrightarrow> x < int k \<or> x = int k" for x by auto
  have "names_in d (Suc k) (dag_at (add_job a (restored rr ?j (int k)) p) a)"
    using n f unfolding names_in_def add_job_parts(1) [OF a] lt by (auto simp: restored_ids set_node_def)
  then show "nodes_read a rr d (Suc k) (add_job a (restored rr ?j (int k)) p)"
    using p add_job_parts [OF a] u unfolding nodes_read_def lt by (simp add: restored_ids set_node_def)
qed

lemma rescue_nodes_read:
  assumes ok: "\<forall>i \<in> set (d_jobs d). printable (node_at d i) \<and> dir_ok fs cwd (directory (node_at d i))"
    and dist: "distinct (map (\<lambda>i. jobName (node_at d i)) (d_jobs d))"
    and p: "nodes_read a rr d k p" "ps_cwd p = cwd" "k \<le> length (d_jobs d)"
    and ns: "list_all2 (\<lambda>i n. rescue_node rr d i = Inr n) (drop k (d_jobs d)) ns"
  shows "\<exists>m p'. parse_lines (line_of fs sp a fn) n (getlines (concat ns @ rest)) p = parse_lines (line_of fs sp a fn) m (getlines rest) p' \<and>
    nodes_read a rr d (length (d_jobs d)) p'"
  using p ns
proof (induction ns arbitrary: k n p)
  case Nil
  then have "k = length (d_jobs d)" by simp
  then show ?case using Nil.prems(1) by auto
next
  case (Cons s ns)
  let ?i = "d_jobs d ! k" and ?h = "line_of fs sp a fn"
  have k: "k < length (d_jobs d)" using Cons.prems(4) by (cases "k < length (d_jobs d)") simp_all
  have dr: "drop k (d_jobs d) = ?i # drop (Suc k) (d_jobs d)" by (rule Cons_nth_drop_Suc [OF k, symmetric])
  have j: "node_at d ?i = old_node d (int k)" by (simp add: old_node_def)
  have "jobName (old_node d (int c)) \<noteq> jobName (old_node d (int k))" if "c < k" for c
    using nth_eq_iff_index_eq [OF dist, of c k] that k by (simp add: old_node_def)
  then have fresh: "\<forall>c < k. jobName (old_node d (int c)) \<noteq> jobName (old_node d (int k))" by blast
  note r = node_read [OF Cons.prems(1) k fresh]
  have c: "ps_jobID_counter p = int k" "a < length (ps_objects p)" using Cons.prems(1) by (simp_all add: nodes_read_def usable_def)
  let ?p = "add_job a (restored rr (old_node d (int k)) (int k)) p"
  have s: "rescue_node rr d ?i = Inr s" "list_all2 (\<lambda>i n. rescue_node rr d i = Inr n) (drop (Suc k) (d_jobs d)) ns" using Cons.prems(4) by (simp_all add: dr)
  have pr: "printable (node_at d ?i)" "dir_ok fs (ps_cwd p) (directory (node_at d ?i))" using ok k Cons.prems(2) by simp_all
  obtain m where "parse_lines ?h n (getlines (s @ concat ns @ rest)) p = parse_lines ?h m (getlines (concat ns @ rest)) ?p"
    using rescue_node_read [OF pr(1) s(1) r(1) [folded j] pr(2)] unfolding c(1) j by blast
  moreover have "ps_cwd ?p = cwd" using add_job_parts(4) [OF c(2)] Cons.prems(2) by simp
  ultimately show ?case using Cons.IH [OF r(2) _ Suc_leI [OF k] s(2), of m] by simp
qed

section \<open>The dependencies\<close>

lemma strtok_tokens_step:
  "strtok delim s = None \<Longrightarrow> strtok_tokens delim s = []"
  "strtok delim s = Some (t, r) \<Longrightarrow> strtok_tokens delim s = t # strtok_tokens delim r"
proof -
  show "strtok delim s = None \<Longrightarrow> strtok_tokens delim s = []" by (subst strtok_tokens.simps) (simp add: strtok_def Let_def split: if_splits)
  assume a: "strtok delim s = Some (t, r)"
  let ?s = "dropWhile delim s" and ?r = "dropWhile (\<lambda>c. \<not> delim c) (dropWhile delim s)"
  have s: "?s \<noteq> []" "t = takeWhile (\<lambda>c. \<not> delim c) ?s" "r = drop 1 ?r" using a by (simp_all add: strtok_def Let_def split: if_splits)
  have "strtok_tokens delim ?r = strtok_tokens delim r"
  proof (cases ?r)
    case (Cons c cs)
    then have "delim c" using hd_dropWhile [of "\<lambda>c. \<not> delim c" ?s] by simp
    then have "dropWhile delim ?r = dropWhile delim cs" by (simp add: Cons)
    then show ?thesis unfolding s(3) by (subst (1 2) strtok_tokens.simps) (simp add: Cons)
  next
    case Nil
    show ?thesis unfolding s(3) Nil by simp
  qed
  then show "strtok_tokens delim s = t # strtok_tokens delim r" using s(1,2) by (subst strtok_tokens.simps) (simp add: Let_def)
qed

lemma strtok_tokens_spaced: "\<forall>w \<in> set ws. plain_word w \<Longrightarrow> strtok_tokens script_delim (spaced ws) = ws"
proof (induction ws)
  case (Cons w ws)
  then have "strtok script_delim (spaced (w # ws)) = Some (w, spaced ws)" by (intro strtok_spaced) simp
  from strtok_tokens_step(2) [OF this] Cons show ?case by (simp del: spaced_simps)
qed (simp add: strtok_tokens_step(1))

lemma add_dependencies_accepts:
  assumes "mem_ok d" and "\<forall>(x, y) \<in> set es. x \<in> dom (d_nodes d) \<and> y \<in> dom (d_nodes d) \<and> may_add d x y"
  shows "\<exists>m. add_dependencies es d = Inr (True, d\<lparr>d_nodes := m\<rparr>) \<and>
    (\<forall>i. (node_at (d\<lparr>d_nodes := m\<rparr>) i)\<lparr>queues := \<lambda>_. {}\<rparr> = (node_at d i)\<lparr>queues := \<lambda>_. {}\<rparr>)"
  using assms
proof (induction es arbitrary: d)
  case Nil
  have "d\<lparr>d_nodes := d_nodes d\<rparr> = d" by (cases d) simp
  then show ?case by (intro exI [of _ "d_nodes d"]) simp
next
  case (Cons e es)
  obtain x y where e: "e = (x, y)" by fastforce
  have xy: "x \<in> dom (d_nodes d)" "y \<in> dom (d_nodes d)" "may_add d x y" using Cons.prems(2) by (simp_all add: e)
  have ids: "jobID (node_at d y) = y" "jobID (node_at d x) = x" using Cons.prems(1) xy by (simp_all add: mem_ok_def)
  have w: "queue_of d y Q_WAITING = {q \<in> queue_of d y Q_PARENTS. status_of d q \<noteq> STATUS_DONE}"
    using Cons.prems(1) xy(2) by (simp add: mem_ok_def waiting_ok_def)
  obtain m where m: "AddDependency (Some x) (Some y) d = Inr (True, d\<lparr>d_nodes := m\<rparr>)" "dom (d_nodes (d\<lparr>d_nodes := m\<rparr>)) = dom (d_nodes d)"
    "\<And>i. node_at (d\<lparr>d_nodes := m\<rparr>) i = (node_at d i)\<lparr>queues := with_edge d x y i\<rparr>"
    using AddDependency_memory [OF ids w xy] by metis
  let ?d = "d\<lparr>d_nodes := m\<rparr>"
  have "mem_ok ?d" by (rule AddDependency_built(1) [OF Cons.prems(1) xy(1,2) m(1)])
  moreover have "\<forall>(x, y) \<in> set es. x \<in> dom (d_nodes ?d) \<and> y \<in> dom (d_nodes ?d) \<and> may_add ?d x y"
    using Cons.prems(2) m(2,3) by (auto simp: may_add_def simp del: domIff)
  ultimately obtain m' where "add_dependencies es ?d = Inr (True, ?d\<lparr>d_nodes := m'\<rparr>)"
    "\<forall>i. (node_at (?d\<lparr>d_nodes := m'\<rparr>) i)\<lparr>queues := \<lambda>_. {}\<rparr> = (node_at ?d i)\<lparr>queues := \<lambda>_. {}\<rparr>"
    using Cons.IH by blast
  then show ?case using m(1,3) by (intro exI [of _ m']) (simp add: e)
qed

lemma named_nodes_fold:
  assumes "\<forall>name \<in> set names. LookupSplice p a name = None \<and> FindNodeByName (Some name) (dag_at p a) = Inr (Some (f name))" and "\<not> ps_mungeNames p"
  shows "foldR (named_nodes rec p a) names (Some acc) = Inr (Some (acc @ map f names))"
  using assms(1)
proof (induction names arbitrary: acc)
  case (Cons name names)
  then show ?case using assms(2) by (simp add: named_nodes_def [of _ _ _ name] munge_job_name_def null_to_empty_def)
qed simp


text \<open>The number that a node of the old DAG gets.\<close>

definition new_id :: "Dag \<Rightarrow> JobID_t \<Rightarrow> JobID_t" where
  "new_id d i = int (length (takeWhile (\<lambda>x. x \<noteq> i) (d_jobs d)))"

lemma new_id_range:
  assumes "i \<in> set (d_jobs d)"
  shows "0 \<le> new_id d i" and "new_id d i < int (length (d_jobs d))" and "old_node d (new_id d i) = node_at d i"
proof -
  have l: "length (takeWhile (\<lambda>x. x \<noteq> i) (d_jobs d)) < length (d_jobs d)"
    using assms by (metis (mono_tags, lifting) length_takeWhile_le le_neq_implies_less takeWhile_eq_all_conv takeWhile_eq_take take_all_iff order_refl)
  then show "0 \<le> new_id d i" "new_id d i < int (length (d_jobs d))" by (simp_all add: new_id_def)
  show "old_node d (new_id d i) = node_at d i" using nth_length_takeWhile [OF l] by (simp add: old_node_def new_id_def)
qed

lemma new_id_nth: "distinct (d_jobs d) \<Longrightarrow> k < length (d_jobs d) \<Longrightarrow> new_id d (d_jobs d ! k) = int k"
proof -
  assume a: "distinct (d_jobs d)" "k < length (d_jobs d)"
  have "takeWhile (\<lambda>x. x \<noteq> d_jobs d ! k) (d_jobs d) = take k (d_jobs d)"
    by (rule takeWhile_eq_take_P_nth) (use a in \<open>auto simp: nth_eq_iff_index_eq\<close>)
  then show ?thesis using a(2) by (simp add: new_id_def)
qed

text \<open>All nodes have been read, and the dependencies \<open>E\<close>.\<close>

definition linked :: "nat \<Rightarrow> bool \<Rightarrow> Dag \<Rightarrow> (JobID_t \<times> JobID_t) set \<Rightarrow> parser \<Rightarrow> bool" where
  "linked a rr d E p \<longleftrightarrow> usable a p \<and> names_in d (length (d_jobs d)) (dag_at p a) \<and> mem_ok (dag_at p a) \<and>
     dom (d_nodes (dag_at p a)) = {0..<int (length (d_jobs d))} \<and>
     (\<forall>c. 0 \<le> c \<longrightarrow> c < int (length (d_jobs d)) \<longrightarrow> (node_at (dag_at p a) c)\<lparr>queues := \<lambda>_. {}\<rparr> = restored rr (old_node d c) c) \<and>
     edges (dag_at p a) = E"

definition blank :: "job \<Rightarrow> bool" where
  "blank x \<longleftrightarrow> queues x = (\<lambda>_. {}) \<and> \<not> countedAsDone x \<and> retries x = 0 \<and> 0 \<le> retry_max x"

lemma restore_blank:
  "blank x \<Longrightarrow> blank (restore_scripts j x)" "0 \<le> retries j \<Longrightarrow> retries j \<le> retry_max j \<Longrightarrow> blank x \<Longrightarrow> blank (restore_retry rr j x)"
  "blank x \<Longrightarrow> blank (restore_vars j x)" "blank x \<Longrightarrow> blank (restore_abort j x)" "blank x \<Longrightarrow> blank (restore_priority j x)"
  "blank x \<Longrightarrow> blank (with_dag_file j x)" "blank (new_node j c)"
        apply (simp add: blank_def restore_scripts_def Let_def split: option.split)
       apply (simp add: blank_def restore_retry_def Let_def)
      apply (simp add: blank_def restore_vars_def)
     apply (simp add: blank_def restore_abort_def set_abort_def)
    apply (simp add: blank_def restore_priority_def)
   apply (simp add: blank_def with_dag_file_def SetDagFile_def split: option.split)
  apply (simp add: blank_def new_node_def new_job_def)
  done

lemma restore_status:
  "Status (restore_scripts j x) = Status x" "Status (restore_retry rr j x) = Status x" "Status (restore_vars j x) = Status x"
  "Status (restore_abort j x) = Status x" "Status (restore_priority j x) = Status x" "Status (with_dag_file j x) = Status x"
       apply (simp add: restore_scripts_def Let_def split: option.split)
      apply (simp add: restore_retry_def Let_def)
     apply (simp add: restore_vars_def)
    apply (simp add: restore_abort_def set_abort_def)
   apply (simp add: restore_priority_def)
  apply (simp add: with_dag_file_def SetDagFile_def split: option.split)
  done

lemma restored_blank:
  assumes "printable j"
  shows "queues (restored rr j c) = (\<lambda>_. {})" and "\<not> countedAsDone (restored rr j c)" and "retries (restored rr j c) = 0" and "0 \<le> retry_max (restored rr j c)"
    and "Status (restored rr j c) = (if Status j = STATUS_DONE then STATUS_DONE else STATUS_READY)"
proof -
  have "0 \<le> retries j" "retries j \<le> retry_max j" using assms by (simp_all add: printable_def)
  then have "blank (restored rr j c)" unfolding restored_def by (intro restore_blank)
  then show "queues (restored rr j c) = (\<lambda>_. {})" "\<not> countedAsDone (restored rr j c)" "retries (restored rr j c) = 0" "0 \<le> retry_max (restored rr j c)"
    by (simp_all add: blank_def)
  show "Status (restored rr j c) = (if Status j = STATUS_DONE then STATUS_DONE else STATUS_READY)"
    unfolding restored_def restore_status by (simp add: new_node_def)
qed

lemma nodes_linked:
  assumes p: "nodes_read a rr d (length (d_jobs d)) p" and ok: "\<forall>i \<in> set (d_jobs d). printable (node_at d i)"
  shows "linked a rr d {} p"
proof -
  let ?n = "int (length (d_jobs d))"
  have nd: "d_nodes (dag_at p a) c = (if 0 \<le> c \<and> c < ?n then Some (restored rr (old_node d c) c) else None)" for c using p by (simp add: nodes_read_def)
  then have dm: "dom (d_nodes (dag_at p a)) = {0..<?n}" by (auto split: if_splits)
  have n: "node_at (dag_at p a) c = restored rr (old_node d c) c" if "0 \<le> c" "c < ?n" for c using nd that by (simp add: node_at_def)
  have pr: "printable (old_node d c)" if "0 \<le> c" "c < ?n" for c
    using ok that unfolding old_node_def by (simp add: nat_less_iff)
  have q: "queue_of (dag_at p a) c x = {}" if "0 \<le> c" "c < ?n" for c x using n [OF that] restored_blank(1) [OF pr [OF that]] by simp
  have "mem_ok (dag_at p a)"
    unfolding mem_ok_def symmetric_deps_def waiting_ok_def dm using n restored_blank [OF pr] q by (auto simp: restored_ids)
  moreover have "edges (dag_at p a) = {}" unfolding edges_def dm using q by auto
  moreover have "(restored rr (old_node d c) c)\<lparr>queues := \<lambda>_. {}\<rparr> = restored rr (old_node d c) c" if "0 \<le> c" "c < ?n" for c
    using restored_blank(1) [OF pr [OF that], of rr c] by (cases "restored rr (old_node d c) c") simp
  ultimately show ?thesis using p dm n by (simp add: linked_def nodes_read_def)
qed

end
