(* ===== verification/Rescue_Roundtrip.thy ===== *)
theory Rescue_Roundtrip
  imports Rescue_Load Splice_Tree
begin

text \<open>
  The dependencies of a rescue DAG, and the whole file: \<open>rescue_roundtrip\<close> says that a rescue DAG restores
  the DAG it was written for.
\<close>

section \<open>A line of dependencies\<close>

text \<open>The DAGs whose rescue file is read back as it was written.\<close>

definition rescuable :: "files \<Rightarrow> string \<Rightarrow> Dag \<Rightarrow> bool" where
  "rescuable fs cwd d \<longleftrightarrow> store_ok d \<and> symmetric_deps d \<and> set (d_jobs d) = dom (d_nodes d) \<and>
     (\<forall>i \<in> set (d_jobs d). printable (node_at d i) \<and> dir_ok fs cwd (directory (node_at d i))) \<and>
     (\<forall>i \<in> set (d_jobs d). \<forall>c \<in> queue_of d i Q_CHILDREN. status_of d c = STATUS_DONE \<longrightarrow> status_of d i = STATUS_DONE) \<and>
     d_configFile d = None \<and> d_statusFileName d = None \<and> d_jobstateLogFile d = None \<and> PrintThrottles (d_catThrottles d, d_heap d) = []"

lemma rescuable_children:
  assumes "rescuable fs cwd d" and "i \<in> set (d_jobs d)"
  shows "queue_of d i Q_CHILDREN \<subseteq> set (d_jobs d)" and "finite (queue_of d i Q_CHILDREN)"
proof -
  show s: "queue_of d i Q_CHILDREN \<subseteq> set (d_jobs d)" using assms child_of [of d i] by (auto simp: rescuable_def simp del: domIff)
  then show "finite (queue_of d i Q_CHILDREN)" by (rule finite_subset) simp
qed

lemma rescuable_name:
  assumes "rescuable fs cwd d" and "i \<in> set (d_jobs d)"
  shows "plain_word (jobName (node_at d i))" and "\<not> isReservedWord (jobName (node_at d i))"
  using assms by (simp_all add: rescuable_def printable_def)

lemma plain_parent [simp]: "plain_word ''PARENT''" "plain_word ''CHILD''"
  by (simp_all add: plain_word_def isspace_def)

lemma children_line:
  assumes d: "rescuable fs cwd d" and i: "i \<in> set (d_jobs d)" and s: "rescue_children d i = Inr s"
  shows "queue_of d i Q_CHILDREN = {} \<and> s = [] \<or> queue_of d i Q_CHILDREN \<noteq> {} \<and>
    s = spaced (''PARENT'' # jobName (node_at d i) # ''CHILD'' # map (\<lambda>c. jobName (node_at d c)) (sorted_list_of_set (queue_of d i Q_CHILDREN))) @ newline"
proof (cases "queue_of d i Q_CHILDREN = {}")
  case False
  let ?q = "sorted_list_of_set (queue_of d i Q_CHILDREN)"
  have sub: "set ?q \<subseteq> dom (d_nodes d)" using rescuable_children [OF d i] d by (simp add: rescuable_def)
  have st: "store_ok d" using d by (simp add: rescuable_def)
  have F: "foldR (\<lambda>q s. bindR (FindNodeByNodeID q d) (\<lambda>child.
      case child of None \<Rightarrow> Inl (ASSERT ''child != NULL'') | Some c \<Rightarrow> Inr (s @ '' '' @ jobName (node_at d c)))) qs u =
    Inr (u @ concat (map (\<lambda>c. CHR '' '' # jobName (node_at d c)) qs))" if "set qs \<subseteq> dom (d_nodes d)" for qs u
    using that by (induction qs arbitrary: u) (simp_all add: FindNodeByNodeID_ok [OF st] domIff [symmetric] del: domIff)
  have "(Inr s :: string res) = Inr (spaced (''PARENT'' # jobName (node_at d i) # ''CHILD'' # map (\<lambda>c. jobName (node_at d c)) ?q) @ newline)"
    unfolding s [symmetric] rescue_children_def Let_def F [OF sub] using False by (simp add: comp_def)
  then show ?thesis using False by blast
qed (use s in \<open>simp add: rescue_children_def Let_def\<close>)

lemma linked_find:
  assumes p: "linked a rr d E p" and d: "rescuable fs cwd d" and i: "i \<in> set (d_jobs d)"
  shows "FindNodeByName (Some (jobName (node_at d i))) (dag_at p a) = Inr (Some (new_id d i))"
    and "new_id d i \<in> dom (d_nodes (dag_at p a))" and "status_of (dag_at p a) (new_id d i) = (if status_of d i = STATUS_DONE then STATUS_DONE else STATUS_READY)"
proof -
  let ?c = "new_id d i"
  note r = new_id_range [OF i]
  have n: "(node_at (dag_at p a) ?c)\<lparr>queues := \<lambda>_. {}\<rparr> = restored rr (node_at d i) ?c" using p r by (simp add: linked_def)
  have "jobName (node_at (dag_at p a) ?c) = jobName (node_at d i)" "status_of (dag_at p a) ?c = Status (restored rr (node_at d i) ?c)"
    using arg_cong [OF n, of jobName] arg_cong [OF n, of Status] by (simp_all add: restored_ids)
  moreover have "d_nodeNameHash (dag_at p a) (jobName (node_at d i)) = Some ?c" using p r by (simp add: linked_def names_in_def)
  moreover have "printable (node_at d i)" using d i by (simp add: rescuable_def)
  ultimately show "FindNodeByName (Some (jobName (node_at d i))) (dag_at p a) = Inr (Some ?c)"
    "status_of (dag_at p a) ?c = (if status_of d i = STATUS_DONE then STATUS_DONE else STATUS_READY)"
    by (simp_all add: FindNodeByName_def restored_blank(5))
  show "?c \<in> dom (d_nodes (dag_at p a))" using p r by (simp add: linked_def)
qed

lemma linked_add:
  assumes p: "linked a rr d E p" and d: "rescuable fs cwd d" and i: "i \<in> set (d_jobs d)" and cs: "set cs = queue_of d i Q_CHILDREN"
  shows "\<exists>p'. on_dag a (add_dependencies (map (\<lambda>c. (new_id d i, new_id d c)) cs)) p = Inr (True, p') \<and>
    linked a rr d (E \<union> {new_id d i} \<times> new_id d ` queue_of d i Q_CHILDREN) p'"
proof -
  let ?d = "dag_at p a" and ?es = "map (\<lambda>c. (new_id d i, new_id d c)) cs"
  have c: "c \<in> set (d_jobs d)" if "c \<in> set cs" for c using rescuable_children(1) [OF d i] cs that by blast
  have may: "\<forall>(x, y) \<in> set ?es. x \<in> dom (d_nodes ?d) \<and> y \<in> dom (d_nodes ?d) \<and> may_add ?d x y"
  proof -
    have "may_add ?d (new_id d i) (new_id d c)" if "c \<in> set cs" for c
    proof -
      have "status_of d c = STATUS_DONE \<longrightarrow> status_of d i = STATUS_DONE" using d i that unfolding rescuable_def cs by blast
      then show ?thesis using linked_find(3) [OF p d i] linked_find(3) [OF p d c [OF that]] by (simp add: may_add_def)
    qed
    then show ?thesis using linked_find(2) [OF p d i] linked_find(2) [OF p d c] by (auto simp del: domIff)
  qed
  have mo: "mem_ok ?d" and a: "a < length (ps_objects p)" using p by (simp_all add: linked_def usable_def)
  obtain m where m: "add_dependencies ?es ?d = Inr (True, ?d\<lparr>d_nodes := m\<rparr>)"
    "\<forall>i. (node_at (?d\<lparr>d_nodes := m\<rparr>) i)\<lparr>queues := \<lambda>_. {}\<rparr> = (node_at ?d i)\<lparr>queues := \<lambda>_. {}\<rparr>"
    using add_dependencies_accepts [OF mo may] by blast
  have "\<forall>(x, y) \<in> set ?es. x \<in> dom (d_nodes ?d) \<and> y \<in> dom (d_nodes ?d)" using may by (auto simp del: domIff)
  note b = add_dependencies_built [OF m(1) mo this]
  let ?p = "set_dag a (?d\<lparr>d_nodes := m\<rparr>) p"
  have dg: "dag_at ?p a = ?d\<lparr>d_nodes := m\<rparr>" using a by (simp add: set_dag_def set_object_def dag_at_def object_at_def)
  have u: "usable a ?p" using p a by (simp add: linked_def usable_def LookupSplice_def set_dag_def set_object_def object_at_def)
  have "edges (?d\<lparr>d_nodes := m\<rparr>) = E \<union> {new_id d i} \<times> new_id d ` queue_of d i Q_CHILDREN" using b p cs by (auto simp: linked_def)
  moreover have "names_in d (length (d_jobs d)) (?d\<lparr>d_nodes := m\<rparr>)" using p by (simp add: linked_def names_in_def)
  moreover have "dom (d_nodes (?d\<lparr>d_nodes := m\<rparr>)) = {0..<int (length (d_jobs d))}" using b p by (simp add: evolves_def linked_def)
  ultimately have "linked a rr d (E \<union> {new_id d i} \<times> new_id d ` queue_of d i Q_CHILDREN) ?p"
    using p b m(2) u by (simp add: linked_def dg)
  then show ?thesis using m(1) by (simp add: on_dag_def)
qed

lemma parent_line:
  assumes p: "linked a rr d E p" and d: "rescuable fs cwd d" and i: "i \<in> set (d_jobs d)" and cs: "set cs \<subseteq> set (d_jobs d)" "cs \<noteq> []"
  shows "line_of fs sp a fn n (spaced (''PARENT'' # jobName (node_at d i) # ''CHILD'' # map (\<lambda>c. jobName (node_at d c)) cs)) p =
    on_dag a (add_dependencies (map (\<lambda>c. (new_id d i, new_id d c)) cs)) p"
proof -
  let ?name = "\<lambda>c. jobName (node_at d c)" and ?f = "\<lambda>n. the (d_nodeNameHash (dag_at p a) n)"
  let ?ws = "?name i # ''CHILD'' # map ?name cs"
  have u: "\<not> ps_mungeNames p" "\<And>name. LookupSplice p a name = None" using p by (simp_all add: linked_def usable_def)
  note w = rescuable_name [OF d]
  have find: "FindNodeByName (Some (?name c)) (dag_at p a) = Inr (Some (?f (?name c)))" "?f (?name c) = new_id d c" if "c \<in> set (d_jobs d)" for c
    using linked_find(1) [OF p d that] by (auto simp: FindNodeByName_def split: option.splits if_splits)
  have t: "strtok_tokens script_delim (spaced ?ws) = ?ws" by (intro strtok_tokens_spaced) (use w(1) i cs(1) in auto)
  have nc: "\<not> strcaseeq (?name i) ''CHILD''" "strcaseeq ''CHILD'' ''CHILD''" using w(2) [OF i] by (simp_all add: isReservedWord_def strcaseeq_def)
  have "foldR (named_nodes d_splice_final_nodes p a) [?name i] (Some []) = Inr (Some ([] @ map ?f [?name i]))"
    by (rule named_nodes_fold) (use u find(1) [OF i] in simp_all)
  then have ps: "foldR (named_nodes d_splice_final_nodes p a) [?name i] (Some []) = Inr (Some [new_id d i])" using find(2) [OF i] by simp
  have "foldR (named_nodes d_splice_initial_nodes p a) (map ?name cs) (Some []) = Inr (Some ([] @ map ?f (map ?name cs)))"
    by (rule named_nodes_fold) (use u find(1) cs(1) in auto)
  moreover have "map ?f (map ?name cs) = map (new_id d) cs" using find(2) cs(1) by auto
  ultimately have ch: "foldR (named_nodes d_splice_initial_nodes p a) (map ?name cs) (Some []) = Inr (Some (map (new_id d) cs))" by simp
  have k: "strtok script_delim (''PARENT '' @ spaced ?ws) = Some (''PARENT'', spaced ?ws)" using strtok_word(2) [of "''PARENT''" "spaced ?ws"] by (simp add: script_delim_def)
  have "line_of fs sp a fn n (''PARENT '' @ spaced ?ws) p = parse_parent a (spaced ?ws) p"
    unfolding parse_line_def k by (simp add: strcaseeq_def tolower_def)
  also have "\<dots> = on_dag a (add_dependencies (map (\<lambda>c. (new_id d i, new_id d c)) cs)) p"
    unfolding parse_parent_def t using nc ps ch cs(2) by (simp add: comp_def)
  finally show ?thesis by simp
qed

lemma rescue_children_read:
  assumes p: "linked a rr d E p" and d: "rescuable fs cwd d" and i: "i \<in> set (d_jobs d)" and s: "rescue_children d i = Inr s"
  shows "\<exists>m p'. parse_lines (line_of fs sp a fn) n (getlines (s @ rest)) p = parse_lines (line_of fs sp a fn) m (getlines rest) p' \<and>
    linked a rr d (E \<union> {new_id d i} \<times> new_id d ` queue_of d i Q_CHILDREN) p'"
proof (cases "queue_of d i Q_CHILDREN = {}")
  case True
  then have "s = []" using children_line [OF d i s] by simp
  then show ?thesis using p True by auto
next
  case False
  let ?q = "sorted_list_of_set (queue_of d i Q_CHILDREN)"
  let ?ws = "''PARENT'' # jobName (node_at d i) # ''CHILD'' # map (\<lambda>c. jobName (node_at d c)) ?q"
  note c = rescuable_children [OF d i]
  have q: "set ?q = queue_of d i Q_CHILDREN" "?q \<noteq> []" using c(2) False by simp_all
  have s': "s = spaced ?ws @ newline" using children_line [OF d i s] False by simp
  have "\<forall>w \<in> set ?ws. plain_word w"
    using rescuable_name(1) [OF d] i c(1) q(1) by auto
  note l = spaced_line [OF _ this]
  obtain p' where p': "on_dag a (add_dependencies (map (\<lambda>c. (new_id d i, new_id d c)) ?q)) p = Inr (True, p')"
    "linked a rr d (E \<union> {new_id d i} \<times> new_id d ` queue_of d i Q_CHILDREN) p'"
    using linked_add [OF p d i q(1)] by blast
  have "line_of fs sp a fn (n + 1) (spaced ?ws) p = Inr (True, p')" using parent_line [OF p d i _ q(2)] c(1) p'(1) unfolding q(1) by simp
  then have "parse_lines (line_of fs sp a fn) n (getlines (s @ rest)) p = parse_lines (line_of fs sp a fn) (n + 1) (getlines rest) p'"
    unfolding s' newline_def using l(1,3) getlines_line [of "spaced ?ws" rest] by (simp del: spaced_simps)
  then show ?thesis using p'(2) by blast
qed

lemma rescue_all_children_read:
  assumes d: "rescuable fs cwd d" and p: "linked a rr d E p" and "list_all2 (\<lambda>i s. rescue_children d i = Inr s) is ss" and "set is \<subseteq> set (d_jobs d)"
  shows "\<exists>m p'. parse_lines (line_of fs sp a fn) n (getlines (concat ss @ rest)) p = parse_lines (line_of fs sp a fn) m (getlines rest) p' \<and>
    linked a rr d (E \<union> (\<Union>i \<in> set is. {new_id d i} \<times> new_id d ` queue_of d i Q_CHILDREN)) p'"
  using assms(3,4) p
proof (induction "is" ss arbitrary: n p E rule: list_all2_induct)
  case (Cons i "is" s ss)
  let ?h = "line_of fs sp a fn" and ?E = "E \<union> {new_id d i} \<times> new_id d ` queue_of d i Q_CHILDREN"
  obtain m p1 where 1: "parse_lines ?h n (getlines (s @ concat ss @ rest)) p = parse_lines ?h m (getlines (concat ss @ rest)) p1" "linked a rr d ?E p1"
    using rescue_children_read [OF Cons.prems(2) d _ Cons.hyps(1)] Cons.prems(1) by (metis list.set_intros(1) subset_code(1))
  have "set is \<subseteq> set (d_jobs d)" using Cons.prems(1) by simp
  from Cons.IH [OF this 1(2), of m] 1(1) show ?case by (auto simp: Un_assoc)
qed auto


section \<open>The whole file\<close>

text \<open>What a rescue DAG keeps of a node; the retries that are left become its limit, unless they are reset.\<close>

definition same_attributes :: "bool \<Rightarrow> job \<Rightarrow> job \<Rightarrow> bool" where
  "same_attributes reset_retries j x \<longleftrightarrow>
     jobType x = jobType j \<and> jobName x = jobName j \<and> directory x = directory j \<and> cmdFile x = cmdFile j \<and> dagFile x = dagFile j \<and>
     noop x = noop j \<and> (Status x = STATUS_DONE \<longleftrightarrow> Status j = STATUS_DONE) \<and>
     map_option s_cmd (scriptPre x) = map_option s_cmd (scriptPre j) \<and> map_option s_cmd (scriptPost x) = map_option s_cmd (scriptPost j) \<and>
     retries x = 0 \<and> retry_max x = (if reset_retries then retry_max j else retry_max j - retries j) \<and>
     (0 < retry_max j \<longrightarrow> have_retry_abort_val x = have_retry_abort_val j \<and> (have_retry_abort_val j \<longrightarrow> retry_abort_val x = retry_abort_val j)) \<and>
     varNamesFromDag x = varNamesFromDag j \<and> varValsFromDag x = varValsFromDag j \<and>
     have_abort_dag_val x = have_abort_dag_val j \<and>
     (have_abort_dag_val j \<longrightarrow> abort_dag_val x = abort_dag_val j \<and> have_abort_dag_return_val x = have_abort_dag_return_val j \<and>
        (have_abort_dag_return_val j \<longrightarrow> abort_dag_return_val x = abort_dag_return_val j)) \<and>
     hasNodePriority x = hasNodePriority j \<and> (hasNodePriority j \<longrightarrow> nodePriority x = nodePriority j)"

lemma restore_forms:
  "restore_scripts j x = x\<lparr>scriptPre := (case scriptPre j of None \<Rightarrow> scriptPre x | Some s \<Rightarrow> Some (new_Script False (s_cmd s))),
     scriptPost := (case scriptPost j of None \<Rightarrow> scriptPost x | Some s \<Rightarrow> Some (new_Script True (s_cmd s)))\<rparr>"
  "restore_retry rr j x = x\<lparr>retry_max := if retry_max j > 0 then if rr then retry_max j else retry_max j - retries j else retry_max x,
     have_retry_abort_val := retry_max j > 0 \<and> have_retry_abort_val j \<or> have_retry_abort_val x,
     retry_abort_val := if retry_max j > 0 \<and> have_retry_abort_val j then retry_abort_val j else retry_abort_val x\<rparr>"
  "with_dag_file j x = x\<lparr>dagFile := case dagFile j of None \<Rightarrow> dagFile x | Some f \<Rightarrow> Some f\<rparr>"
  "restore_abort j x = x\<lparr>abort_dag_val := if have_abort_dag_val j then abort_dag_val j else abort_dag_val x,
     have_abort_dag_val := have_abort_dag_val j \<or> have_abort_dag_val x,
     abort_dag_return_val := if have_abort_dag_val j then if have_abort_dag_return_val j then abort_dag_return_val j else 9999 else abort_dag_return_val x,
     have_abort_dag_return_val := if have_abort_dag_val j then have_abort_dag_return_val j else have_abort_dag_return_val x\<rparr>"
  "restore_priority j x = x\<lparr>hasNodePriority := hasNodePriority j \<or> hasNodePriority x, nodePriority := if hasNodePriority j then nodePriority j else nodePriority x\<rparr>"
      apply (cases x, simp add: restore_scripts_def Let_def split: option.split)
     apply (cases x, simp add: restore_retry_def Let_def)
    apply (cases x, simp add: with_dag_file_def SetDagFile_def split: option.split)
   apply (cases x, simp add: restore_abort_def set_abort_def)
  apply (cases x, simp add: restore_priority_def)
  done

lemma restored_same:
  assumes "printable j"
  shows "same_attributes rr j ((restored rr j c)\<lparr>queues := q\<rparr>)"
proof -
  have "0 \<le> retries j" "retries j \<le> retry_max j" using assms by (simp_all add: printable_def)
  then show ?thesis
    unfolding same_attributes_def restored_def restore_forms restore_vars_def
    by (simp add: new_node_def new_job_def new_Script_def split: option.split)
qed

lemma foldR_concat:
  "foldR (\<lambda>i s. bindR (g i) (\<lambda>n. Inr (s @ n))) is u = Inr s \<Longrightarrow> \<exists>ns. list_all2 (\<lambda>i n. g i = Inr n) is ns \<and> s = u @ concat ns"
proof (induction "is" arbitrary: u)
  case Nil
  then show ?case by (intro exI [of _ "[]"]) simp
next
  case (Cons i "is")
  obtain n where n: "g i = Inr n" "foldR (\<lambda>i s. bindR (g i) (\<lambda>n. Inr (s @ n))) is (u @ n) = Inr s" using Cons.prems by auto
  from Cons.IH [OF n(2)] obtain ns where "list_all2 (\<lambda>i n. g i = Inr n) is ns" "s = (u @ n) @ concat ns" by blast
  then show ?case using n(1) by (intro exI [of _ "n # ns"]) simp
qed

lemma edges_linked:
  assumes "rescuable fs cwd d"
  shows "(\<Union>i \<in> set (d_jobs d). {new_id d i} \<times> new_id d ` queue_of d i Q_CHILDREN) = (\<lambda>(x, y). (new_id d x, new_id d y)) ` edges d"
  using assms by (auto simp: edges_def rescuable_def image_iff simp del: domIff)

lemma rescue_text_read:
  assumes d: "rescuable fs cwd d" and f: "CHR 0x0A \<notin> set dag_file" and s: "rescue_text False dag_file rr t d = Inr s"
    and p: "nodes_read a rr d 0 p" "ps_cwd p = cwd"
  shows "\<exists>p'. parse_lines (line_of fs sp a fn) n (getlines s) p = Inr (True, p') \<and> linked a rr d ((\<lambda>(x, y). (new_id d x, new_id d y)) ` edges d) p'"
proof -
  let ?h = "line_of fs sp a fn"
  have r: "\<forall>i \<in> set (d_jobs d). printable (node_at d i) \<and> dir_ok fs cwd (directory (node_at d i))" "PrintThrottles (d_catThrottles d, d_heap d) = []"
    "store_ok d" "set (d_jobs d) = dom (d_nodes d)" using d by (simp_all add: rescuable_def)
  obtain s1 s2 where s12: "foldR (\<lambda>i s. bindR (rescue_node rr d i) (\<lambda>n. Inr (s @ n))) (d_jobs d) (rescue_header False dag_file t d) = Inr s1"
    "foldR (\<lambda>i s. bindR (rescue_children d i) (\<lambda>n. Inr (s @ n))) (d_jobs d) (s1 @ newline) = Inr s2" "s = s2"
    using s r(2) by (auto simp: rescue_text_def)
  obtain ns where ns: "list_all2 (\<lambda>i n. rescue_node rr d i = Inr n) (d_jobs d) ns" "s1 = rescue_header False dag_file t d @ concat ns"
    using foldR_concat [OF s12(1)] by blast
  obtain cs where cs: "list_all2 (\<lambda>i n. rescue_children d i = Inr n) (d_jobs d) cs" "s2 = (s1 @ newline) @ concat cs"
    using foldR_concat [OF s12(2)] by blast
  have dist: "distinct (map (\<lambda>i. jobName (node_at d i)) (d_jobs d))"
  proof -
    have "inj_on (\<lambda>i. jobName (node_at d i)) (dom (d_nodes d))" using r(3) unfolding store_ok_def inj_on_def by (metis option.inject)
    then show ?thesis using r(3,4) by (simp add: distinct_map store_ok_def)
  qed
  have "skips ?h (rescue_header False dag_file t d)"
    by (rule skips_header) (use d f rescuable_name(1) [OF d] in \<open>simp_all add: rescuable_def\<close>)
  then obtain m1 where m1: "parse_lines ?h n (getlines (rescue_header False dag_file t d @ concat ns @ newline @ concat cs)) p =
      parse_lines ?h m1 (getlines (concat ns @ newline @ concat cs)) p" unfolding skips_def by blast
  have ns': "list_all2 (\<lambda>i n. rescue_node rr d i = Inr n) (drop 0 (d_jobs d)) ns" using ns(1) by simp
  obtain m2 p2 where m2: "parse_lines ?h m1 (getlines (concat ns @ newline @ concat cs)) p = parse_lines ?h m2 (getlines (newline @ concat cs)) p2"
    and p2: "nodes_read a rr d (length (d_jobs d)) p2"
    using rescue_nodes_read [OF r(1) dist p(1) p(2) _ ns', of sp fn m1 "newline @ concat cs"] by auto
  obtain m3 where m3: "parse_lines ?h m2 (getlines (newline @ concat cs)) p2 = parse_lines ?h m3 (getlines (concat cs @ [])) p2"
    using skips_blank [of fs sp a fn] unfolding skips_def by (metis append_Nil2)
  have "linked a rr d {} p2" by (rule nodes_linked [OF p2]) (use r(1) in blast)
  from rescue_all_children_read [OF d this cs(1) subset_refl, of sp fn m3 "[]"]
  obtain m4 p' where m4: "parse_lines ?h m3 (getlines (concat cs @ [])) p2 = parse_lines ?h m4 (getlines []) p'"
    "linked a rr d ({} \<union> (\<Union>i \<in> set (d_jobs d). {new_id d i} \<times> new_id d ` queue_of d i Q_CHILDREN)) p'" by blast
  have e: "s = rescue_header False dag_file t d @ concat ns @ newline @ concat cs" using s12(3) ns(2) cs(2) by simp
  have "parse_lines ?h n (getlines s) p = Inr (True, p')" unfolding e m1 m2 m3 m4(1) by simp
  then show ?thesis using m4(2) unfolding edges_linked [OF d] by auto
qed


lemma new_parser_empty:
  assumes "st_dagFiles su = [file]" and "\<not> st_prohibitMultiJobs su"
  shows "nodes_read 0 rr d 0 (new_parser su cwd (create_dag su))" and "ps_cwd (new_parser su cwd (create_dag su)) = cwd"
proof -
  have "hash_lookup (o_splices (object_at (new_parser su cwd (create_dag su)) 0)) = Map.empty" by (simp add: new_parser_def object_at_def new_object_def)
  then show "nodes_read 0 rr d 0 (new_parser su cwd (create_dag su))"
    using assms by (simp add: nodes_read_def usable_def LookupSplice_def names_in_def)
      (simp add: new_parser_def object_at_def dag_at_def create_dag_def SetAllowEvents_dag_def new_Dag_def new_object_def)
  show "ps_cwd (new_parser su cwd (create_dag su)) = cwd" by (simp add: new_parser_def)
qed

lemma record_lists: "\<exists>xs ys. fold record_one ns d = d\<lparr>d_splice_initial_nodes := xs, d_splice_final_nodes := ys\<rparr>"
proof (induction ns arbitrary: d)
  case Nil
  show ?case by (rule exI [of _ "d_splice_initial_nodes d"], rule exI [of _ "d_splice_final_nodes d"]) (cases d, simp)
next
  case (Cons i ns)
  obtain xs ys where "fold record_one ns (record_one i d) = (record_one i d)\<lparr>d_splice_initial_nodes := xs, d_splice_final_nodes := ys\<rparr>"
    using Cons.IH by blast
  moreover have "(record_one i d)\<lparr>d_splice_initial_nodes := xs, d_splice_final_nodes := ys\<rparr> = d\<lparr>d_splice_initial_nodes := xs, d_splice_final_nodes := ys\<rparr>"
    by (simp add: record_one_def Let_def)
  ultimately have "fold record_one (i # ns) d = d\<lparr>d_splice_initial_nodes := xs, d_splice_final_nodes := ys\<rparr>" by simp
  then show ?case by blast
qed

lemma rescue_file_parsed:
  assumes d: "rescuable fs cwd d" and f: "CHR 0x0A \<notin> set dag_file" and s: "rescue_text False dag_file rr t d = Inr s"
    and su: "f_fopen fs cwd rescue_file = Some s" "st_dagFiles su = [rescue_file]" "\<not> st_prohibitMultiJobs su"
  shows "\<exists>p'. parse (Suc fds) fs 0 rescue_file False (new_parser su cwd (create_dag su)) = Inr (True, p') \<and>
    d_jobs (dag_at p' 0) = map int [0..<length (d_jobs d)] \<and> waiting_ok (dag_at p' 0) \<and>
    edges (dag_at p' 0) = (\<lambda>(x, y). (new_id d x, new_id d y)) ` edges d \<and>
    (\<forall>i \<in> set (d_jobs d). same_attributes rr (node_at d i) (node_at (dag_at p' 0) (new_id d i)))"
proof -
  let ?q = "(new_parser su cwd (create_dag su))\<lparr>ps_thisDagNum := ps_thisDagNum (new_parser su cwd (create_dag su)) + 1, ps_useDagDir := False\<rparr>"
  have e: "nodes_read 0 rr d 0 ?q" "ps_cwd ?q = cwd" using new_parser_empty(1) [OF su(2,3), of rr d cwd] new_parser_empty(2) [OF su(2,3), of cwd]
    by (simp_all add: nodes_read_def usable_def LookupSplice_def dag_at_def object_at_def)
  from rescue_text_read [OF d f s e, of "parse_splice (parse fds fs) fs" rescue_file 0]
  obtain p where p: "parse_lines (line_of fs (parse_splice (parse fds fs) fs) 0 rescue_file) 0 (getlines s) ?q = Inr (True, p)"
    and l: "linked 0 rr d ((\<lambda>(x, y). (new_id d x, new_id d y)) ` edges d) p" by blast
  let ?d = "dag_at p 0" and ?p = "set_dag 0 (RecordInitialAndFinalNodes (dag_at p 0)) p"
  have "parse (Suc fds) fs 0 rescue_file False (new_parser su cwd (create_dag su)) = Inr (True, ?p)"
    using p e(2) su(1) by (simp add: parse_with_def parse_open_def)
  moreover obtain xs ys where r: "RecordInitialAndFinalNodes ?d = ?d\<lparr>d_splice_initial_nodes := xs, d_splice_final_nodes := ys\<rparr>"
    using record_lists unfolding RecordInitialAndFinalNodes_def by blast
  have a: "0 < length (ps_objects p)" using l by (simp add: linked_def usable_def)
  have "dag_at ?p 0 = RecordInitialAndFinalNodes ?d" using a by (simp add: set_dag_def set_object_def dag_at_def object_at_def)
  then have d': "dag_at ?p 0 = ?d\<lparr>d_splice_initial_nodes := xs, d_splice_final_nodes := ys\<rparr>" by (simp only: r)
  have nd: "node_at (dag_at ?p 0) = node_at ?d" "d_nodes (dag_at ?p 0) = d_nodes ?d" by (simp_all add: d' node_at_def fun_eq_iff)
  have "same_attributes rr (node_at d i) (node_at ?d (new_id d i))" if i: "i \<in> set (d_jobs d)" for i
  proof -
    have n: "(node_at ?d (new_id d i))\<lparr>queues := \<lambda>_. {}\<rparr> = restored rr (node_at d i) (new_id d i)" using l new_id_range [OF i] by (simp add: linked_def)
    have "(restored rr (node_at d i) (new_id d i))\<lparr>queues := queues (node_at ?d (new_id d i))\<rparr> = node_at ?d (new_id d i)"
      unfolding n [symmetric] by (cases "node_at ?d (new_id d i)") simp
    moreover have "printable (node_at d i)" using d i by (simp add: rescuable_def)
    ultimately show ?thesis using restored_same [of "node_at d i" rr "queues (node_at ?d (new_id d i))" "new_id d i"] by simp
  qed
  moreover have "edges (dag_at ?p 0) = (\<lambda>(x, y). (new_id d x, new_id d y)) ` edges d"
  proof -
    have "edges (dag_at ?p 0) = edges ?d" unfolding edges_def nd by (rule refl)
    also have "\<dots> = (\<lambda>(x, y). (new_id d x, new_id d y)) ` edges d" using l by (simp only: linked_def)
    finally show ?thesis .
  qed
  moreover have "waiting_ok (dag_at ?p 0)" using l unfolding waiting_ok_def nd by (simp add: linked_def mem_ok_def waiting_ok_def)
  moreover have "d_jobs (dag_at ?p 0) = map int [0..<length (d_jobs d)]" using l by (simp add: d' linked_def names_in_def)
  ultimately show ?thesis by (intro exI [of _ ?p]) (simp add: nd(1))
qed

end
