(* ===== verification/Arg_List.thy ===== *)
theory Arg_List
  imports Condor_Prelude My_String
begin

text \<open>
  \<open>ArgList\<close> (\<open>condor_arglist.cpp\<close>): the arguments of a command and the string formats they travel in. V1 is
  words between blanks, V2 adds single quotes, each may be wrapped for a submit file (double quotes escaped
  by a backslash, or the whole string in double quotes), and there is the format of the Windows command line.

  The array \<open>args_list\<close> is a list; a \<open>char const *\<close> argument that may be null is an option; a function that
  fails returns \<open>False\<close> with the new contents of the error buffer. The theorems say which format
  gives the arguments back and which does not.
\<close>

datatype ArgV1Syntax = UNKNOWN_ARGV1_SYNTAX | WIN32_ARGV1_SYNTAX | UNIX_ARGV1_SYNTAX

record ArgList =
  args_list :: "string list"
  input_was_unknown_platform_v1 :: bool
  v1_syntax :: ArgV1Syntax

abbreviation squote :: char where "squote \<equiv> CHR 0x27"
abbreviation dquote :: char where "dquote \<equiv> CHR 0x22"
abbreviation backslash :: char where "backslash \<equiv> CHR 0x5C"

definition is_blank :: "char \<Rightarrow> bool" where
  "is_blank c \<longleftrightarrow> c = CHR '' '' \<or> c = CHR 0x09 \<or> c = CHR 0x0A \<or> c = CHR 0x0D"

section \<open>The V2 format\<close>

text \<open>The loop of \<open>append_arg\<close>: a blank or quote goes into a quoted section, joined to one that ends just before it.\<close>

fun append_chars :: "string \<Rightarrow> string \<Rightarrow> string" where
  "append_chars [] result = result"
| "append_chars (c # arg) result =
     (if is_blank c \<or> c = squote then
        (let result = (if result \<noteq> [] \<and> last result = squote then butlast result else result @ [squote]);
             result = (if c = squote then result @ [squote] else result)
         in append_chars arg (result @ [c, squote]))
      else append_chars arg (result @ [c]))"

definition append_arg :: "string \<Rightarrow> string \<Rightarrow> string" where
  "append_arg arg result =
     (let result = (if result \<noteq> [] then result @ '' '' else result);
          result = (if arg = [] then result @ [squote, squote] else result)
      in append_chars arg result)"

definition join_args :: "string list \<Rightarrow> string \<Rightarrow> int \<Rightarrow> string" where
  "join_args args result start_arg = fold append_arg (drop (nat start_arg) args) result"

text \<open>The inner loop of \<open>split_args\<close> reads up to the closing quote; \<open>None\<close> is the end of the string before it.\<close>

fun split_quoted :: "string \<Rightarrow> string \<Rightarrow> (string \<times> string) option" where
  "split_quoted [] buf = None"
| "split_quoted (c # args) buf =
     (if c = squote then
        (case args of
           c' # args' \<Rightarrow> if c' = squote then split_quoted args' (buf @ [squote]) else Some (buf, args)
         | [] \<Rightarrow> Some (buf, args))
      else split_quoted args (buf @ [c]))"

lemma split_quoted_shorter: "split_quoted args buf = Some (b, rest) \<Longrightarrow> length rest < length args"
  by (induction args buf rule: split_quoted.induct) (auto split: if_splits list.splits)

function split_loop :: "string \<Rightarrow> string \<Rightarrow> bool \<Rightarrow> string list \<Rightarrow> string option \<times> string list" where
  "split_loop [] buf parsed_token l = (None, if parsed_token then l @ [buf] else l)"
| "split_loop (c # args) buf parsed_token l =
     (if c = squote then
        (case split_quoted args buf of
           None \<Rightarrow> (Some (c # args), l)
         | Some (buf, rest) \<Rightarrow> split_loop rest buf True l)
      else if is_blank c then
        (if parsed_token then split_loop args [] False (l @ [buf]) else split_loop args buf parsed_token l)
      else split_loop args (buf @ [c]) True l)"
  by pat_completeness auto
termination
  by (relation "measure (\<lambda>(args, _). length args)") (auto dest: split_quoted_shorter)

definition split_args :: "string option \<Rightarrow> string list \<Rightarrow> string \<Rightarrow> bool \<times> string \<times> string list" where
  "split_args args l error_msg =
     (case args of
        None \<Rightarrow> (True, error_msg, l)
      | Some a \<Rightarrow>
          (case split_loop a [] False l of
             (None, l) \<Rightarrow> (True, error_msg, l)
           | (Some rest, l) \<Rightarrow> (False, ''Unbalanced quote starting here: '' @ rest, l)))"

section \<open>The list of arguments\<close>

definition new_ArgList :: ArgList where
  "new_ArgList = \<lparr>args_list = [], input_was_unknown_platform_v1 = False, v1_syntax = UNKNOWN_ARGV1_SYNTAX\<rparr>"

definition Count :: "ArgList \<Rightarrow> int" where
  "Count al = int (length (args_list al))"

definition Clear_args :: "ArgList \<Rightarrow> ArgList" where
  "Clear_args al = al\<lparr>args_list := [], input_was_unknown_platform_v1 := False\<rparr>"

definition GetArg :: "int \<Rightarrow> ArgList \<Rightarrow> string option" where
  "GetArg n al = (if 0 \<le> n \<and> n < Count al then Some (args_list al ! nat n) else None)"

definition AppendArg :: "string \<Rightarrow> ArgList \<Rightarrow> ArgList" where
  "AppendArg arg al = al\<lparr>args_list := args_list al @ [arg]\<rparr>"

definition AppendArg_int :: "int \<Rightarrow> ArgList \<Rightarrow> ArgList" where
  "AppendArg_int arg = AppendArg (string_of_int arg)"

definition RemoveArg :: "int \<Rightarrow> ArgList \<Rightarrow> ArgList res" where
  "RemoveArg pos al =
     (if 0 \<le> pos \<and> pos < Count al
      then Inr (al\<lparr>args_list := take (nat pos) (args_list al) @ drop (Suc (nat pos)) (args_list al)\<rparr>)
      else Inl (ASSERT ''pos >= 0 && pos < Count()''))"

fun insert_loop :: "string \<Rightarrow> int \<Rightarrow> int \<Rightarrow> string list \<Rightarrow> string list" where
  "insert_loop arg pos i [] = (if i = pos then [arg] else [])"
| "insert_loop arg pos i (a # as) = (if i = pos then [arg, a] else [a]) @ insert_loop arg pos (i + 1) as"

definition InsertArg :: "string \<Rightarrow> int \<Rightarrow> ArgList \<Rightarrow> ArgList res" where
  "InsertArg arg pos al =
     (if 0 \<le> pos \<and> pos \<le> Count al then Inr (al\<lparr>args_list := insert_loop arg pos 0 (args_list al)\<rparr>)
      else Inl (ASSERT ''pos >= 0 && pos <= Count()''))"

definition AppendArgsFromArgList :: "ArgList \<Rightarrow> ArgList \<Rightarrow> ArgList" where
  "AppendArgsFromArgList args al =
     fold AppendArg (args_list args) (al\<lparr>input_was_unknown_platform_v1 := input_was_unknown_platform_v1 args\<rparr>)"

definition SetArgV1Syntax :: "ArgV1Syntax \<Rightarrow> ArgList \<Rightarrow> ArgList" where
  "SetArgV1Syntax v1_syntax_param al = al\<lparr>v1_syntax := v1_syntax_param\<rparr>"

definition SetArgV1SyntaxToCurrentPlatform :: "bool \<Rightarrow> ArgList \<Rightarrow> ArgList" where
  "SetArgV1SyntaxToCurrentPlatform win32 = SetArgV1Syntax (if win32 then WIN32_ARGV1_SYNTAX else UNIX_ARGV1_SYNTAX)"

definition AddErrorMessage :: "string \<Rightarrow> string \<Rightarrow> string" where
  "AddErrorMessage msg error_buf = (if error_buf \<noteq> [] then error_buf @ [CHR 0x0A] else error_buf) @ msg"

section \<open>Reading V1\<close>

fun v1_loop :: "string \<Rightarrow> string \<Rightarrow> bool \<Rightarrow> string list \<Rightarrow> string list" where
  "v1_loop [] buf parsed_token l = (if parsed_token then l @ [buf] else l)"
| "v1_loop (c # args) buf parsed_token l =
     (if is_blank c then
        (if parsed_token then v1_loop args [] False (l @ [buf]) else v1_loop args buf parsed_token l)
      else v1_loop args (buf @ [c]) True l)"

definition AppendArgsV1Raw_unix :: "string \<Rightarrow> string \<Rightarrow> ArgList \<Rightarrow> bool \<times> string \<times> ArgList" where
  "AppendArgsV1Raw_unix args error_msg al = (True, error_msg, al\<lparr>args_list := v1_loop args [] False (args_list al)\<rparr>)"

text \<open>The quoted section of a Windows argument: the buffer, and the rest of the string, from the closing quote on.\<close>

function win_quoted :: "string \<Rightarrow> string \<Rightarrow> string \<times> string" where
  "win_quoted args buf =
     (if args = [] then (buf, [])
      else
        (let n = length (takeWhile (\<lambda>c. c = backslash) args); rest = drop n args in
         if n > 0 \<and> rest \<noteq> [] \<and> hd rest = dquote then
           (let buf = buf @ replicate (n div 2) backslash in
            if n mod 2 = 1 then win_quoted (tl rest) (buf @ [dquote]) else (buf, rest))
         else if n > 0 then win_quoted rest (buf @ replicate n backslash)
         else if hd args = dquote then (buf, args)
         else win_quoted (tl args) (buf @ [hd args])))"
  by pat_completeness auto
termination
  by (relation "measure (\<lambda>(args, _). length args)") (auto simp: Let_def length_tl)

declare win_quoted.simps [simp del]

lemma win_quoted_shorter: "win_quoted args buf = (b, rest) \<Longrightarrow> length rest \<le> length args"
proof (induction args buf rule: win_quoted.induct)
  case (1 args buf)
  let ?n = "length (takeWhile (\<lambda>c. c = backslash) args)"
  have l: "length (drop ?n args) \<le> length args" "length (tl (drop ?n args)) \<le> length args" "length (tl args) \<le> length args" by simp_all
  show ?case
  proof (rule ccontr)
    assume n: "\<not> ?case"
    from 1(4) n l 1(1) [OF _ refl refl _ refl] 1(2) [OF _ refl refl] 1(3) [OF _ refl refl] show False
      unfolding win_quoted.simps [of args buf] Let_def by (simp split: if_split_asm) (metis diff_le_self length_drop)
  qed
qed

text \<open>One argument: the buffer and the rest of the string, or the text of an unterminated quote.\<close>

function win_arg :: "string \<Rightarrow> string \<Rightarrow> string + string \<times> string" where
  "win_arg args buf =
     (if args = [] \<or> is_blank (hd args) then Inr (buf, args)
      else if hd args \<noteq> dquote then win_arg (tl args) (buf @ [hd args])
      else
        (case win_quoted (tl args) buf of (buf, rest) \<Rightarrow>
           if rest = [] \<or> hd rest \<noteq> dquote then Inl args else win_arg (tl rest) buf))"
  by pat_completeness auto
termination
  by (relation "measure (\<lambda>(args, _). length args)") (auto simp: neq_Nil_conv dest!: win_quoted_shorter [OF sym])

declare win_arg.simps [simp del]

lemma win_arg_steps [simp]:
  "win_arg [] buf = Inr (buf, [])"
  "win_arg (c # args) buf =
     (if is_blank c then Inr (buf, c # args)
      else if c \<noteq> dquote then win_arg args (buf @ [c])
      else (case win_quoted args buf of (buf, rest) \<Rightarrow> if rest = [] \<or> hd rest \<noteq> dquote then Inl (c # args) else win_arg (tl rest) buf))"
  by (simp_all add: win_arg.simps)

lemma win_arg_shorter:
  "win_arg args buf = Inr (b, rest) \<Longrightarrow> length rest \<le> length args \<and> (args \<noteq> [] \<and> \<not> is_blank (hd args) \<longrightarrow> length rest < length args)"
proof (induction args arbitrary: buf rule: length_induct)
  case (1 args)
  show ?case
  proof (cases args)
    case (Cons c cs)
    obtain x y where w: "win_quoted cs buf = (x, y)" by (cases "win_quoted cs buf")
    have y: "length (tl y) \<le> length cs" using win_quoted_shorter [OF w] by simp
    have ih: "length rest \<le> length cs" if "length ys \<le> length cs" "win_arg ys z = Inr (b, rest)" for ys z
      using 1(1) that Cons by (metis le_imp_less_Suc le_trans length_Cons)
    from 1(2) ih [of cs "buf @ [c]"] ih [OF y, of x] show ?thesis by (auto simp: Cons w split: if_splits)
  qed (use 1(2) in simp)
qed

function win_loop :: "string \<Rightarrow> string list \<Rightarrow> string option \<times> string list" where
  "win_loop args l =
     (if args = [] then (None, l)
      else
        (case win_arg args [] of
           Inl begin_quote \<Rightarrow> (Some begin_quote, l)
         | Inr (buf, rest) \<Rightarrow> win_loop (dropWhile is_blank rest) (if length rest < length args then l @ [buf] else l)))"
  by pat_completeness auto
termination
proof (relation "measure (\<lambda>(args, _). length args)")
  fix args buf rest :: string and l :: "string list" and x y
  assume a: "args \<noteq> []" and w: "win_arg args [] = Inr y" "(buf, rest) = y"
  have r: "win_arg args [] = Inr (buf, rest)" using w by simp
  have le: "length (dropWhile is_blank rest) \<le> length rest" by (rule length_dropWhile_le)
  show "((dropWhile is_blank rest, if length rest < length args then l @ [buf] else l), args, l) \<in> measure (\<lambda>(args, _). length args)"
  proof (cases "is_blank (hd args)")
    case True
    then have "rest = args" using r by (simp add: win_arg.simps)
    then have "dropWhile is_blank rest = dropWhile is_blank (tl args)" using a True by (cases args) auto
    then show ?thesis using a length_dropWhile_le [of is_blank "tl args"] by (cases args) auto
  next
    case False
    with win_arg_shorter [OF r] a le show ?thesis by simp
  qed
qed simp

declare win_loop.simps [simp del]

definition AppendArgsV1Raw_win32 :: "string \<Rightarrow> string \<Rightarrow> ArgList \<Rightarrow> bool \<times> string \<times> ArgList" where
  "AppendArgsV1Raw_win32 args error_msg al =
     (case win_loop args (args_list al) of
        (None, l) \<Rightarrow> (True, error_msg, al\<lparr>args_list := l\<rparr>)
      | (Some begin_quote, l) \<Rightarrow>
          (False, AddErrorMessage (''Unterminated quote in windows argument string starting here: '' @ begin_quote) error_msg, al\<lparr>args_list := l\<rparr>))"

definition AppendArgsV1Raw :: "string option \<Rightarrow> string \<Rightarrow> ArgList \<Rightarrow> bool \<times> string \<times> ArgList" where
  "AppendArgsV1Raw args error_msg al =
     (case args of
        None \<Rightarrow> (True, error_msg, al)
      | Some a \<Rightarrow>
          (case v1_syntax al of
             WIN32_ARGV1_SYNTAX \<Rightarrow> AppendArgsV1Raw_win32 a error_msg al
           | UNIX_ARGV1_SYNTAX \<Rightarrow> AppendArgsV1Raw_unix a error_msg al
           | UNKNOWN_ARGV1_SYNTAX \<Rightarrow> AppendArgsV1Raw_unix a error_msg (al\<lparr>input_was_unknown_platform_v1 := True\<rparr>)))"

section \<open>Reading V2, and the mixed formats\<close>

definition AppendArgsV2Raw :: "string option \<Rightarrow> string \<Rightarrow> ArgList \<Rightarrow> bool \<times> string \<times> ArgList" where
  "AppendArgsV2Raw args error_msg al =
     (case split_args args (args_list al) error_msg of (ok, error_msg, l) \<Rightarrow> (ok, error_msg, al\<lparr>args_list := l\<rparr>))"

definition RAW_V2_ARGS_MARKER :: char where [simp]: "RAW_V2_ARGS_MARKER = CHR '' ''"

definition AppendArgsV1or2Raw :: "string option \<Rightarrow> string \<Rightarrow> ArgList \<Rightarrow> bool \<times> string \<times> ArgList" where
  "AppendArgsV1or2Raw args error_msg al =
     (case args of
        None \<Rightarrow> (True, error_msg, al)
      | Some a \<Rightarrow>
          if a \<noteq> [] \<and> hd a = RAW_V2_ARGS_MARKER then AppendArgsV2Raw (Some (tl a)) error_msg al
          else AppendArgsV1Raw (Some a) error_msg al)"

definition IsV2QuotedString :: "string option \<Rightarrow> bool" where
  "IsV2QuotedString str =
     (case str of None \<Rightarrow> False | Some s \<Rightarrow> (case dropWhile isspace s of [] \<Rightarrow> False | c # _ \<Rightarrow> c = dquote))"

text \<open>The loop of \<open>V2QuotedToV2Raw\<close>: the raw string, and what follows the closing quote if there is one.\<close>

fun unquote_loop :: "string \<Rightarrow> string \<Rightarrow> string \<times> string option" where
  "unquote_loop [] v2_raw = (v2_raw, None)"
| "unquote_loop (c # input) v2_raw =
     (if c = dquote then
        (case input of
           c' # input' \<Rightarrow> if c' = dquote then unquote_loop input' (v2_raw @ [dquote]) else (v2_raw, Some input)
         | [] \<Rightarrow> (v2_raw, Some input))
      else unquote_loop input (v2_raw @ [c]))"

definition V2QuotedToV2Raw :: "string option \<Rightarrow> string \<Rightarrow> string \<Rightarrow> (bool \<times> string \<times> string) res" where
  "V2QuotedToV2Raw v1_input v2_raw errmsg =
     (case v1_input of
        None \<Rightarrow> Inr (True, errmsg, v2_raw)
      | Some s \<Rightarrow>
          (let s = dropWhile isspace s in
           if \<not> IsV2QuotedString (Some s) then Inl (ASSERT ''IsV2QuotedString(v1_input)'')
           else
             (case unquote_loop (tl s) v2_raw of
                (v2_raw, None) \<Rightarrow> Inr (False, AddErrorMessage ''Unterminated double-quote.'' errmsg, v2_raw)
              | (v2_raw, Some rest) \<Rightarrow>
                  if dropWhile isspace rest \<noteq> [] then
                    Inr (False, AddErrorMessage (''Unexpected characters following double-quote.  '' @
                       ''Did you forget to escape the double-quote by repeating it?  '' @
                       ''Here is the quote and trailing characters: '' @ dquote # rest @ [CHR 0x0A]) errmsg, v2_raw)
                  else Inr (True, errmsg, v2_raw))))"

text \<open>The loop of \<open>V1WackedToV1Raw\<close>; the text of an unescaped double quote, if there is one.\<close>

fun wacked_loop :: "string \<Rightarrow> string \<Rightarrow> string \<times> string option" where
  "wacked_loop [] v1_raw = (v1_raw, None)"
| "wacked_loop (c # input) v1_raw =
     (if c = dquote then (v1_raw, Some (c # input))
      else
        (case input of
           c' # input' \<Rightarrow>
             if c = backslash \<and> c' = dquote then wacked_loop input' (v1_raw @ [c']) else wacked_loop input (v1_raw @ [c])
         | [] \<Rightarrow> wacked_loop input (v1_raw @ [c])))"

definition V1WackedToV1Raw :: "string option \<Rightarrow> string \<Rightarrow> string \<Rightarrow> (bool \<times> string \<times> string) res" where
  "V1WackedToV1Raw v1_input v1_raw errmsg =
     (case v1_input of
        None \<Rightarrow> Inr (True, errmsg, v1_raw)
      | Some s \<Rightarrow>
          if IsV2QuotedString (Some s) then Inl (ASSERT ''!IsV2QuotedString(v1_input)'')
          else
            (case wacked_loop s v1_raw of
               (v1_raw, Some rest) \<Rightarrow> Inr (False, AddErrorMessage (''Found illegal unescaped double-quote: '' @ rest) errmsg, v1_raw)
             | (v1_raw, None) \<Rightarrow> Inr (True, errmsg, v1_raw)))"

definition AppendArgsV1RawOrV2Quoted :: "string option \<Rightarrow> string \<Rightarrow> ArgList \<Rightarrow> (bool \<times> string \<times> ArgList) res" where
  "AppendArgsV1RawOrV2Quoted args error_msg al =
     (if IsV2QuotedString args then
        bindR (V2QuotedToV2Raw args [] error_msg) (\<lambda>(ok, error_msg, v2).
          if \<not> ok then Inr (False, error_msg, al) else Inr (AppendArgsV2Raw (Some v2) error_msg al))
      else Inr (AppendArgsV1Raw args error_msg al))"

definition AppendArgsV1WackedOrV2Quoted :: "string option \<Rightarrow> string \<Rightarrow> ArgList \<Rightarrow> (bool \<times> string \<times> ArgList) res" where
  "AppendArgsV1WackedOrV2Quoted args error_msg al =
     (if IsV2QuotedString args then
        bindR (V2QuotedToV2Raw args [] error_msg) (\<lambda>(ok, error_msg, v2).
          if \<not> ok then Inr (False, error_msg, al) else Inr (AppendArgsV2Raw (Some v2) error_msg al))
      else
        bindR (V1WackedToV1Raw args [] error_msg) (\<lambda>(ok, error_msg, v1).
          if \<not> ok then Inr (False, error_msg, al) else Inr (AppendArgsV1Raw (Some v1) error_msg al)))"

definition AppendArgsV2Quoted :: "string option \<Rightarrow> string \<Rightarrow> ArgList \<Rightarrow> (bool \<times> string \<times> ArgList) res" where
  "AppendArgsV2Quoted args error_msg al =
     (if \<not> IsV2QuotedString args then
        Inr (False, AddErrorMessage ''Expecting double-quoted input string (V2 format).'' error_msg, al)
      else
        bindR (V2QuotedToV2Raw args [] error_msg) (\<lambda>(ok, error_msg, v2).
          if \<not> ok then Inr (False, error_msg, al) else Inr (AppendArgsV2Raw (Some v2) error_msg al)))"

section \<open>Writing\<close>

definition IsSafeArgV1Value :: "string option \<Rightarrow> bool" where
  "IsSafeArgV1Value str = (case str of None \<Rightarrow> False | Some s \<Rightarrow> takeWhile (\<lambda>c. \<not> is_blank c) s = s)"

fun v1_out_loop :: "string list \<Rightarrow> string \<Rightarrow> string option \<times> string" where
  "v1_out_loop [] result = (None, result)"
| "v1_out_loop (arg # args) result =
     (if \<not> IsSafeArgV1Value (Some arg) then (Some arg, result)
      else v1_out_loop args ((if result \<noteq> [] then result @ '' '' else result) @ arg))"

definition GetArgsStringV1Raw :: "string \<Rightarrow> string \<Rightarrow> ArgList \<Rightarrow> bool \<times> string \<times> string" where
  "GetArgsStringV1Raw result error_msg al =
     (case v1_out_loop (args_list al) result of
        (None, result) \<Rightarrow> (True, error_msg, result)
      | (Some arg, result) \<Rightarrow> (False, ''Cannot represent '' @ squote # arg @ squote # '' in V1 arguments syntax.'', result))"

definition GetArgsStringV2Raw :: "string \<Rightarrow> int \<Rightarrow> ArgList \<Rightarrow> string" where
  "GetArgsStringV2Raw result start_arg al = join_args (args_list al) result start_arg"

definition GetArgsStringForDisplay :: "string \<Rightarrow> ArgList \<Rightarrow> string" where
  "GetArgsStringForDisplay result al = GetArgsStringV2Raw result 0 al"

definition V2RawToV2Quoted :: "string \<Rightarrow> string \<Rightarrow> string" where
  "V2RawToV2Quoted v2_raw result = result @ [dquote] @ EscapeChars v2_raw [dquote] dquote @ [dquote]"

definition V1RawToV1Wacked :: "string \<Rightarrow> string \<Rightarrow> string" where
  "V1RawToV1Wacked v1_raw result = result @ EscapeChars v1_raw [dquote] backslash"

definition GetArgsStringV2Quoted :: "string \<Rightarrow> ArgList \<Rightarrow> string" where
  "GetArgsStringV2Quoted result al = V2RawToV2Quoted (GetArgsStringV2Raw [] 0 al) result"

definition GetArgsStringV1WackedOrV2Quoted :: "string \<Rightarrow> ArgList \<Rightarrow> string" where
  "GetArgsStringV1WackedOrV2Quoted result al =
     (case GetArgsStringV1Raw [] [] al of (ok, _, v1_raw) \<Rightarrow>
        if ok then V1RawToV1Wacked v1_raw result else GetArgsStringV2Quoted result al)"

definition GetArgsStringV1or2Raw :: "string \<Rightarrow> ArgList \<Rightarrow> string" where
  "GetArgsStringV1or2Raw result al =
     (case GetArgsStringV1Raw result [] al of (ok, _, result') \<Rightarrow>
        if ok then result'
        else
          (let result' = (if length result' > length result then take (length result) result' else result')
           in GetArgsStringV2Raw (result' @ [RAW_V2_ARGS_MARKER]) 0 al))"

section \<open>Command lines\<close>

text \<open>Quoting of an argument for Windows: backslashes are doubled before a double quote and at the end.\<close>

function win_escape :: "string \<Rightarrow> string" where
  "win_escape [] = []"
| "win_escape (c # arg) =
     (if c = backslash then
        (let n = length (takeWhile (\<lambda>c. c = backslash) (c # arg)); rest = drop n (c # arg); run = replicate n backslash in
         case rest of
           [] \<Rightarrow> run @ run
         | d # rest' \<Rightarrow> if d = dquote then run @ run @ [backslash, dquote] @ win_escape rest' else run @ win_escape rest)
      else if c = dquote then [backslash, dquote] @ win_escape arg
      else c # win_escape arg)"
  by pat_completeness auto
termination
proof (relation "measure length")
  fix c :: char and arg rest rest' run :: string and d :: char and n :: nat
  assume n: "n = length (takeWhile (\<lambda>c. c = backslash) (c # arg))" "c = backslash" and r: "rest = drop n (c # arg)" "rest = d # rest'"
  have "length rest < length (c # arg)" using n r(1) by simp
  then show "(rest, c # arg) \<in> measure length" "(rest', c # arg) \<in> measure length" using r(2) by simp_all
qed simp_all

definition win_arg_text :: "bool \<Rightarrow> string \<Rightarrow> string" where
  "win_arg_text unknown_v1 arg =
     (if unknown_v1 then arg
      else if list_all (\<lambda>c. c \<noteq> CHR '' '' \<and> c \<noteq> CHR 0x09 \<and> c \<noteq> dquote) arg then arg
      else [dquote] @ win_escape arg @ [dquote])"

definition GetArgsStringWin32 :: "string \<Rightarrow> int \<Rightarrow> ArgList \<Rightarrow> string" where
  "GetArgsStringWin32 result skip_args al =
     fold (\<lambda>arg result. (if result \<noteq> [] then result @ '' '' else result) @ win_arg_text (input_was_unknown_platform_v1 al) arg)
       (drop (nat skip_args) (args_list al)) result"

definition GetArgsStringSystem :: "string \<Rightarrow> int \<Rightarrow> ArgList \<Rightarrow> string" where
  "GetArgsStringSystem result skip_args al =
     fold (\<lambda>arg result. result @ (if result = [] then [] else '' '') @
             [dquote] @ EscapeChars arg [dquote, backslash, CHR ''$'', CHR 0x60] backslash @ [dquote])
       (drop (nat skip_args) (args_list al)) result"

section \<open>Arguments in a job description\<close>

text \<open>
  The attributes of a \<open>ClassAd\<close>: \<open>Some (Some s)\<close> is an attribute with the string value \<open>s\<close>, \<open>Some None\<close> one
  with another expression. The version of the peer is \<open>None\<close> if it is not known, and else tells whether it was
  built since version 6.7.15.
\<close>

type_synonym arg_ad = "string \<Rightarrow> string option option"

abbreviation ATTR_JOB_ARGUMENTS1 :: string where "ATTR_JOB_ARGUMENTS1 \<equiv> ''Args''"
abbreviation ATTR_JOB_ARGUMENTS2 :: string where "ATTR_JOB_ARGUMENTS2 \<equiv> ''Arguments''"

definition LookupString :: "arg_ad \<Rightarrow> string \<Rightarrow> string option" where
  "LookupString ad attr = (case ad attr of Some (Some s) \<Rightarrow> Some s | _ \<Rightarrow> None)"

definition AppendArgsFromClassAd :: "arg_ad \<Rightarrow> string \<Rightarrow> ArgList \<Rightarrow> bool \<times> string \<times> ArgList" where
  "AppendArgsFromClassAd ad error_msg al =
     (case LookupString ad ATTR_JOB_ARGUMENTS2 of
        Some args2 \<Rightarrow> AppendArgsV2Raw (Some args2) error_msg al
      | None \<Rightarrow>
          (case LookupString ad ATTR_JOB_ARGUMENTS1 of
             Some args1 \<Rightarrow> AppendArgsV1Raw (Some args1) error_msg al
           | None \<Rightarrow> (True, error_msg, al)))"

definition GetArgsStringForDisplay_ad :: "arg_ad \<Rightarrow> string \<Rightarrow> string" where
  "GetArgsStringForDisplay_ad ad result =
     (case LookupString ad ATTR_JOB_ARGUMENTS2 of
        Some args2 \<Rightarrow> args2
      | None \<Rightarrow> (case LookupString ad ATTR_JOB_ARGUMENTS1 of Some args1 \<Rightarrow> args1 | None \<Rightarrow> result))"

definition GetArgsStringV1or2Raw_ad :: "arg_ad \<Rightarrow> string \<Rightarrow> string \<Rightarrow> ArgList \<Rightarrow> bool \<times> string \<times> string \<times> ArgList" where
  "GetArgsStringV1or2Raw_ad ad result error_msg al =
     (case AppendArgsFromClassAd ad error_msg al of (ok, error_msg, al) \<Rightarrow>
        if \<not> ok then (False, error_msg, result, al) else (True, error_msg, GetArgsStringV1or2Raw result al, al))"

definition CondorVersionRequiresV1 :: "bool \<Rightarrow> bool" where
  "CondorVersionRequiresV1 built_since_6_7_15 \<longleftrightarrow> \<not> built_since_6_7_15"

definition InsertArgsIntoClassAd :: "bool option \<Rightarrow> arg_ad \<Rightarrow> string \<Rightarrow> ArgList \<Rightarrow> bool \<times> string \<times> arg_ad" where
  "InsertArgsIntoClassAd condor_version ad error_msg al =
     (let has_args1 = (ad ATTR_JOB_ARGUMENTS1 \<noteq> None); has_args2 = (ad ATTR_JOB_ARGUMENTS2 \<noteq> None);
          requires_v1 = (case condor_version of Some v \<Rightarrow> CondorVersionRequiresV1 v | None \<Rightarrow> input_was_unknown_platform_v1 al);
          condor_version_requires_v1 = (condor_version \<noteq> None);
          ad = (if \<not> requires_v1 then ad(ATTR_JOB_ARGUMENTS2 \<mapsto> Some (GetArgsStringV2Raw [] 0 al))
                else if has_args2 then ad(ATTR_JOB_ARGUMENTS2 := None) else ad)
      in if requires_v1 then
           (case GetArgsStringV1Raw [] error_msg al of (ok, error_msg, args1) \<Rightarrow>
              if ok then (True, error_msg, ad(ATTR_JOB_ARGUMENTS1 \<mapsto> Some args1))
              else if condor_version_requires_v1 \<and> \<not> input_was_unknown_platform_v1 al then
                (True, error_msg, ad(ATTR_JOB_ARGUMENTS1 := None, ATTR_JOB_ARGUMENTS2 := None))
              else (False, AddErrorMessage ''Failed to convert arguments to V1 syntax.'' error_msg, ad))
         else (True, error_msg, if has_args1 then ad(ATTR_JOB_ARGUMENTS1 := None) else ad))"

section \<open>The V2 format gives the arguments back\<close>

text \<open>The text of an argument, without changes to what was written before: \<open>q\<close> tells whether a quoted section is open.\<close>

fun v2_chars :: "bool \<Rightarrow> string \<Rightarrow> string" where
  "v2_chars q [] = (if q then [squote] else [])"
| "v2_chars q (c # s) =
     (if is_blank c \<or> c = squote then (if q then [] else [squote]) @ (if c = squote then [squote, squote] else [c]) @ v2_chars True s
      else (if q then [squote] else []) @ c # v2_chars False s)"

lemma append_chars_form:
  "append_chars arg (r @ [squote]) = r @ v2_chars True arg"
  "r = [] \<or> last r \<noteq> squote \<Longrightarrow> append_chars arg r = r @ v2_chars False arg"
proof (induction arg arbitrary: r)
  case (Cons c arg)
  {
    case 1
    show ?case using Cons(1) [of "r @ (if c = squote then [squote, squote] else [c])"] Cons(2) [of "r @ [squote, c]"] by (simp split: if_splits)
  next
    case 2
    then show ?case using Cons(1) [of "r @ squote # (if c = squote then [squote, squote] else [c])"] Cons(2) [of "r @ [c]"] by (auto split: if_splits)
  }
qed simp_all

definition v2_word :: "string \<Rightarrow> string" where
  "v2_word arg = (if arg = [] then [squote, squote] else v2_chars False arg)"

definition v2_tail :: "string list \<Rightarrow> string" where
  "v2_tail args = concat (map (\<lambda>a. CHR '' '' # v2_word a) args)"

lemma v2_word_nonempty [simp]: "v2_word arg \<noteq> []"
  by (cases arg) (simp_all add: v2_word_def)

lemma append_arg_form: "append_arg arg r = (if r = [] then [] else r @ '' '') @ v2_word arg"
proof (cases "arg = []")
  case False
  show ?thesis using append_chars_form(2) [of "[]" arg] append_chars_form(2) [of "r @ '' ''" arg] False by (simp add: append_arg_def v2_word_def)
qed (simp add: append_arg_def v2_word_def)

lemma join_form: "r \<noteq> [] \<Longrightarrow> fold append_arg args r = r @ v2_tail args"
  by (induction args arbitrary: r) (simp_all add: append_arg_form v2_tail_def)

lemma join_args_form: "join_args (a # args) [] 0 = v2_word a @ v2_tail args" "join_args [] r 0 = r"
  by (simp_all add: join_args_def append_arg_form join_form)

lemma split_chars:
  assumes r: "rest = [] \<or> hd rest \<noteq> squote"
  shows "\<exists>b r'. split_quoted (v2_chars True arg @ rest) buf = Some (b, r') \<and> split_loop r' b True l = split_loop rest (buf @ arg) True l"
    and "arg \<noteq> [] \<Longrightarrow> split_loop (v2_chars False arg @ rest) buf tok l = split_loop rest (buf @ arg) True l"
proof (induction arg arbitrary: buf tok)
  case Nil
  {
    case 1
    show ?case using r by (cases rest) auto
  next
    case 2
    then show ?case by simp
  }
next
  case (Cons c arg)
  note ih = Cons
  have f: "split_loop (v2_chars False arg @ rest) (buf @ [c]) True l = split_loop rest (buf @ c # arg) True l" for buf
    using ih(2) [of "buf @ [c]" True] by (cases "arg = []") simp_all
  {
    case 1
    show ?case using ih(1) [of "buf @ [c]"] f [of buf] by (auto simp: is_blank_def)
  next
    case 2
    show ?case using ih(1) [of "buf @ [c]"] f [of buf] by (auto simp: is_blank_def)
  }
qed

lemma split_word:
  assumes "rest = [] \<or> hd rest \<noteq> squote"
  shows "split_loop (v2_word arg @ rest) buf tok l = split_loop rest (buf @ arg) True l"
proof (cases "arg = []")
  case True
  with assms show ?thesis by (cases rest) (simp_all add: v2_word_def)
qed (use split_chars(2) [OF assms] in \<open>simp add: v2_word_def\<close>)

lemma v2_tail_head: "v2_tail args = [] \<or> hd (v2_tail args) \<noteq> squote"
  by (cases args) (simp_all add: v2_tail_def)

lemma split_tail:
  "split_loop (v2_tail args) buf True l = (None, l @ buf # args)"
  "split_loop (v2_tail args) [] False l = (None, l @ args)"
proof (induction args arbitrary: buf l)
  case (Cons a args)
  have t: "v2_tail (a # args) = CHR '' '' # v2_word a @ v2_tail args" by (simp add: v2_tail_def)
  {
    case 1
    show ?case unfolding t using Cons(1) [of a "l @ [buf]"] by (simp add: is_blank_def split_word [OF v2_tail_head])
  next
    case 2
    show ?case unfolding t using Cons(1) [of a l] by (simp add: is_blank_def split_word [OF v2_tail_head])
  }
qed (simp_all add: v2_tail_def)

lemma split_join: "split_loop (join_args args [] 0) [] False l = (None, l @ args)"
  by (cases args) (simp_all add: join_args_form split_word [OF v2_tail_head] split_tail)

lemma V2Raw_back: "AppendArgsV2Raw (Some (GetArgsStringV2Raw [] 0 al)) err x = (True, err, x\<lparr>args_list := args_list x @ args_list al\<rparr>)"
  by (simp add: AppendArgsV2Raw_def split_args_def GetArgsStringV2Raw_def split_join)

lemma Escape_simps [simp]:
  "EscapeChars [] q e = []" "EscapeChars (c # s) q e = (if c \<in> set q then [e, c] else [c]) @ EscapeChars s q e"
  by (simp_all add: EscapeChars_def FindChar_nonneg)

lemma unquote_escape:
  "unquote_loop (EscapeChars s [dquote] dquote @ [dquote]) r = (r @ s, Some [])"
  by (induction s arbitrary: r) auto

lemma V2Quoted_raw:
  "IsV2QuotedString (Some (V2RawToV2Quoted s []))" "V2QuotedToV2Raw (Some (V2RawToV2Quoted s [])) [] err = Inr (True, err, s)"
  by (simp_all add: IsV2QuotedString_def V2QuotedToV2Raw_def V2RawToV2Quoted_def isspace_def unquote_escape)

lemma V2Quoted_back:
  "AppendArgsV2Quoted (Some (GetArgsStringV2Quoted [] al)) err x = Inr (True, err, x\<lparr>args_list := args_list x @ args_list al\<rparr>)"
  "AppendArgsV1WackedOrV2Quoted (Some (GetArgsStringV2Quoted [] al)) err x = Inr (True, err, x\<lparr>args_list := args_list x @ args_list al\<rparr>)"
  by (simp_all add: AppendArgsV2Quoted_def AppendArgsV1WackedOrV2Quoted_def GetArgsStringV2Quoted_def V2Quoted_raw V2Raw_back)

section \<open>The V1 format drops empty arguments\<close>

definition v1_safe :: "ArgList \<Rightarrow> bool" where
  "v1_safe al \<longleftrightarrow> (\<forall>a \<in> set (args_list al). \<forall>c \<in> set a. \<not> is_blank c)"

lemma IsSafe_iff: "IsSafeArgV1Value (Some a) \<longleftrightarrow> (\<forall>c \<in> set a. \<not> is_blank c)"
  by (auto simp: IsSafeArgV1Value_def takeWhile_eq_all_conv)

lemma v1_out_none: "fst (v1_out_loop args r) = None \<longleftrightarrow> (\<forall>a \<in> set args. \<forall>c \<in> set a. \<not> is_blank c)"
  by (induction args r rule: v1_out_loop.induct) (auto simp: IsSafe_iff)

lemma v1_out_form:
  assumes "\<forall>a \<in> set args. \<forall>c \<in> set a. \<not> is_blank c" and "r \<noteq> []"
  shows "v1_out_loop args r = (None, r @ concat (map (\<lambda>a. CHR '' '' # a) args))"
  using assms by (induction args arbitrary: r) (auto simp: IsSafe_iff)

lemma v1_word: "\<forall>c \<in> set a. \<not> is_blank c \<Longrightarrow> v1_loop (a @ rest) buf tok l = v1_loop rest (buf @ a) (tok \<or> a \<noteq> []) l"
  by (induction a arbitrary: buf tok) auto

lemma v1_words:
  assumes "\<forall>a \<in> set args. \<forall>c \<in> set a. \<not> is_blank c"
  shows "v1_loop (concat (map (\<lambda>a. CHR '' '' # a) args)) buf True l = l @ buf # filter (\<lambda>a. a \<noteq> []) args"
    and "v1_loop (concat (map (\<lambda>a. CHR '' '' # a) args)) [] False l = l @ filter (\<lambda>a. a \<noteq> []) args"
  using assms
proof (induction args arbitrary: buf l)
  case (Cons a args)
  {
    case 1
    then show ?case using Cons by (cases "a = []") (auto simp: is_blank_def v1_word)
  next
    case 2
    then show ?case using Cons by (cases "a = []") (auto simp: is_blank_def v1_word)
  }
qed simp_all

lemma v1_out_back:
  assumes "\<forall>a \<in> set args. \<forall>c \<in> set a. \<not> is_blank c"
  shows "v1_loop (snd (v1_out_loop args [])) [] False l = l @ filter (\<lambda>a. a \<noteq> []) args"
  using assms
proof (induction args)
  case (Cons a args)
  show ?case
  proof (cases "a = []")
    case False
    with Cons.prems v1_out_form [of args a] show ?thesis by (simp add: IsSafe_iff v1_word v1_words(1))
  qed (use Cons in \<open>simp add: IsSafe_iff\<close>)
qed simp

lemma v1_out_head: "\<forall>a \<in> set args. \<forall>c \<in> set a. \<not> is_blank c \<Longrightarrow> snd (v1_out_loop args []) = [] \<or> \<not> is_blank (hd (snd (v1_out_loop args [])))"
proof (induction args)
  case (Cons a args)
  then show ?case using v1_out_form [of args a] by (cases a) (simp_all add: IsSafe_iff)
qed simp

lemma GetArgsStringV1Raw_form:
  "v1_safe al \<Longrightarrow> GetArgsStringV1Raw [] err al = (True, err, snd (v1_out_loop (args_list al) []))"
  "\<not> v1_safe al \<Longrightarrow> \<not> fst (GetArgsStringV1Raw [] err al)"
  using v1_out_none [of "args_list al" "[]"]
  by (auto simp: v1_safe_def GetArgsStringV1Raw_def split: prod.splits option.splits)

text \<open>What reading the V1 string does to the list, when the platform is not Windows.\<close>

definition v1_read :: "string list \<Rightarrow> ArgList \<Rightarrow> ArgList" where
  "v1_read args x = (if v1_syntax x = UNKNOWN_ARGV1_SYNTAX then x\<lparr>input_was_unknown_platform_v1 := True\<rparr> else x)\<lparr>args_list := args_list x @ args\<rparr>"

lemma V1Raw_back:
  assumes "v1_safe al" and "v1_syntax x \<noteq> WIN32_ARGV1_SYNTAX"
  shows "AppendArgsV1Raw (Some (snd (v1_out_loop (args_list al) []))) err x = (True, err, v1_read (filter (\<lambda>a. a \<noteq> []) (args_list al)) x)"
  using assms v1_out_back [of "args_list al"]
  by (cases "v1_syntax x") (simp_all add: AppendArgsV1Raw_def AppendArgsV1Raw_unix_def v1_read_def v1_safe_def)

lemma wacked_escape: "wacked_loop (EscapeChars s [dquote] backslash) r = (r @ s, None)"
proof (induction s arbitrary: r)
  case (Cons c s)
  show ?case
  proof (cases "c = dquote")
    case False
    have "EscapeChars s [dquote] backslash = [] \<or> hd (EscapeChars s [dquote] backslash) \<noteq> dquote" by (cases s) auto
    with Cons [of "r @ [c]"] False show ?thesis by (cases "EscapeChars s [dquote] backslash") auto
  qed (use Cons in simp)
qed simp

lemma wacked_not_quoted: "\<not> IsV2QuotedString (Some (EscapeChars s [dquote] backslash))"
  by (induction s) (auto simp: IsV2QuotedString_def isspace_def)

section \<open>The Windows command line\<close>

lemma run_form: "\<exists>n rest. s = replicate n b @ rest \<and> (rest = [] \<or> hd rest \<noteq> b)"
proof (induction s)
  case (Cons c s)
  then obtain n rest where "s = replicate n b @ rest" "rest = [] \<or> hd rest \<noteq> b" by blast
  then show ?case by (cases "c = b") (use append_Cons replicate_Suc in metis, metis append_Nil list.sel(1) replicate_0)
qed simp

lemma run_length: "rest = [] \<or> hd rest \<noteq> b \<Longrightarrow> length (takeWhile (\<lambda>c. c = b) (replicate n b @ rest)) = n"
  by (induction n) (cases rest; auto)+

lemma win_quoted_char: "c \<noteq> backslash \<Longrightarrow> c \<noteq> dquote \<Longrightarrow> win_quoted (c # s) buf = win_quoted s (buf @ [c])"
  by (simp add: win_quoted.simps [of "c # s"])

lemma win_quoted_end: "win_quoted (dquote # s) buf = (buf, dquote # s)"
  by (simp add: win_quoted.simps)

lemma win_quoted_run:
  assumes "0 < n" and "rest = [] \<or> hd rest \<noteq> backslash"
  shows "win_quoted (replicate n backslash @ rest) buf =
    (if rest \<noteq> [] \<and> hd rest = dquote then
       (if n mod 2 = 1 then win_quoted (tl rest) (buf @ replicate (n div 2) backslash @ [dquote]) else (buf @ replicate (n div 2) backslash, rest))
     else win_quoted rest (buf @ replicate n backslash))"
  using assms by (simp add: win_quoted.simps [of "replicate n backslash @ rest"] run_length)

lemma win_escape_run:
  assumes "0 < n" and "rest = [] \<or> hd rest \<noteq> backslash"
  shows "win_escape (replicate n backslash @ rest) =
    (if rest = [] then replicate (n + n) backslash
     else if hd rest = dquote then replicate (n + n + 1) backslash @ dquote # win_escape (tl rest)
     else replicate n backslash @ win_escape rest)"
proof -
  obtain m where m: "n = Suc m" using assms(1) by (cases n) auto
  have "length (takeWhile (\<lambda>c. c = backslash) (backslash # replicate m backslash @ rest)) = n" using run_length [OF assms(2), of n] by (simp add: m)
  then show ?thesis using assms(2) by (cases rest) (simp_all add: m replicate_add replicate_app_Cons_same)
qed

lemma win_quoted_escape: "win_quoted (win_escape a @ dquote # rest) buf = (buf @ a, dquote # rest)"
proof (induction a arbitrary: buf rule: length_induct)
  case (1 a)
  obtain n s where a: "a = replicate n backslash @ s" and s: "s = [] \<or> hd s \<noteq> backslash" using run_form [of a backslash] by blast
  show ?case
  proof (cases "n = 0")
    case True
    then show ?thesis
    proof (cases s)
      case (Cons c cs)
      then show ?thesis using 1 a s True win_quoted_run [of 1 "dquote # win_escape cs @ dquote # rest" buf]
        by (cases "c = dquote") (simp_all add: win_quoted_char)
    qed (use a True in \<open>simp add: win_quoted_end\<close>)
  next
    case False
    show ?thesis
    proof (cases s)
      case Nil
      have "even (n + n)" by simp
      with False Nil a win_quoted_run [of "n + n" "dquote # rest" buf] win_escape_run [of n "[]"] show ?thesis
        by (simp add: even_iff_mod_2_eq_zero)
    next
      case (Cons c cs)
      have ih: "win_quoted (win_escape cs @ dquote # rest) b = (b @ cs, dquote # rest)" for b using 1 a Cons by simp
      show ?thesis
      proof (cases "c = dquote")
        case True
        have "(n + n + 1) mod 2 = 1" "(n + n + 1) div 2 = n" by presburger+
        with False Cons True a s win_quoted_run [of "n + n + 1" "dquote # win_escape cs @ dquote # rest" buf] win_escape_run [of n s] show ?thesis
          by (simp add: ih)
      next
        case o: False
        with s Cons have c: "c \<noteq> backslash" "c \<noteq> dquote" by auto
        with False Cons a s win_quoted_run [of n "c # win_escape cs @ dquote # rest" buf] win_escape_run [of n s] show ?thesis
          by (simp add: win_quoted_char ih)
      qed
    qed
  qed
qed

definition win_ok :: "string \<Rightarrow> bool" where
  "win_ok a \<longleftrightarrow> a \<noteq> [] \<and> (CHR '' '' \<in> set a \<or> CHR 0x09 \<in> set a \<or> dquote \<in> set a \<or> CHR 0x0A \<notin> set a \<and> CHR 0x0D \<notin> set a)"

lemma win_arg_plain:
  assumes "\<forall>c \<in> set a. \<not> is_blank c \<and> c \<noteq> dquote" and "rest = [] \<or> is_blank (hd rest)"
  shows "win_arg (a @ rest) buf = Inr (buf @ a, rest)"
  using assms by (induction a arbitrary: buf) (cases rest; auto)+

lemma win_arg_text_back:
  assumes "win_ok a" and r: "rest = [] \<or> is_blank (hd rest)"
  shows "win_arg (win_arg_text False a @ rest) [] = Inr (a, rest)"
proof (cases "list_all (\<lambda>c. c \<noteq> CHR '' '' \<and> c \<noteq> CHR 0x09 \<and> c \<noteq> dquote) a")
  case True
  then have "\<forall>c \<in> set a. \<not> is_blank c \<and> c \<noteq> dquote" using assms(1) by (auto simp: win_ok_def is_blank_def list_all_iff)
  from win_arg_plain [OF this r, of "[]"] True show ?thesis by (simp add: win_arg_text_def)
next
  case False
  have "win_arg rest a = Inr (a, rest)" using r by (cases rest) auto
  with False show ?thesis by (simp add: win_arg_text_def is_blank_def win_quoted_escape)
qed

lemma win_arg_text_head: "win_ok a \<Longrightarrow> win_arg_text False a \<noteq> [] \<and> \<not> is_blank (hd (win_arg_text False a))"
  by (cases a) (auto simp: win_ok_def win_arg_text_def is_blank_def list_all_iff)

definition win_tail :: "string list \<Rightarrow> string" where
  "win_tail args = concat (map (\<lambda>a. CHR '' '' # win_arg_text False a) args)"

lemma win_tail_read:
  assumes "\<forall>a \<in> set args. win_ok a" and "win_ok a"
  shows "win_loop (win_arg_text False a @ win_tail args) l = (None, l @ a # args)"
  using assms
proof (induction args arbitrary: a l)
  case Nil
  then show ?case using win_arg_text_back [of a "[]"] win_arg_text_head [of a]
    by (simp add: win_tail_def win_loop.simps [of "win_arg_text False a"] win_loop.simps [of "[]"])
next
  case (Cons b args)
  have t: "win_tail (b # args) = CHR '' '' # win_arg_text False b @ win_tail args" by (simp add: win_tail_def)
  have h: "win_arg_text False a \<noteq> []" "win_arg_text False b \<noteq> []" "\<not> is_blank (hd (win_arg_text False b))"
    using Cons.prems win_arg_text_head [of a] win_arg_text_head [of b] by auto
  have "win_arg (win_arg_text False a @ win_tail (b # args)) [] = Inr (a, win_tail (b # args))"
    using Cons.prems by (intro win_arg_text_back) (simp_all add: t is_blank_def)
  moreover have "dropWhile is_blank (win_tail (b # args)) = win_arg_text False b @ win_tail args"
    using h by (cases "win_arg_text False b") (simp_all add: t is_blank_def)
  ultimately show ?case using Cons h(1) by (simp add: win_loop.simps [of "win_arg_text False a @ win_tail (b # args)"])
qed

lemma win_fold:
  assumes "\<forall>a \<in> set args. win_ok a" and "r \<noteq> []"
  shows "fold (\<lambda>arg result. (if result \<noteq> [] then result @ '' '' else result) @ win_arg_text False arg) args r = r @ win_tail args"
  using assms by (induction args arbitrary: r) (auto simp: win_tail_def)

lemma Win32_back:
  assumes "\<forall>a \<in> set (args_list al). win_ok a" and "\<not> input_was_unknown_platform_v1 al"
  shows "AppendArgsV1Raw_win32 (GetArgsStringWin32 [] 0 al) err x = (True, err, x\<lparr>args_list := args_list x @ args_list al\<rparr>)"
proof (cases "args_list al")
  case Nil
  then show ?thesis by (simp add: GetArgsStringWin32_def AppendArgsV1Raw_win32_def win_loop.simps)
next
  case (Cons a args)
  have a: "\<forall>a \<in> set args. win_ok a" "win_ok a" using assms(1) Cons by auto
  then have "GetArgsStringWin32 [] 0 al = win_arg_text False a @ win_tail args"
    using assms(2) win_fold [OF a(1), of "win_arg_text False a"] win_arg_text_head [OF a(2)] Cons by (simp add: GetArgsStringWin32_def)
  with win_tail_read [OF a] Cons show ?thesis by (simp add: AppendArgsV1Raw_win32_def)
qed

section \<open>Properties\<close>

definition sample_args :: ArgList where
  "sample_args = \<lparr>args_list = [''a'', [], ''b c'', [CHR ''d'', squote, dquote, backslash]], input_was_unknown_platform_v1 = False, v1_syntax = UNIX_ARGV1_SYNTAX\<rparr>"





end
