(* ===== verification/Submit_Command.thy ===== *)
theory Submit_Command
  imports Arg_List Dag_Submit Text_Words
begin

text \<open>
  The submit commands of \<open>dagman_submit.cpp\<close>: the command line that \<open>condor_submit\<close> and \<open>stork_submit\<close> build,
  and how \<open>submit_try\<close> reads the cluster number from what the tool prints. The tool itself is the parameter
  \<open>my_popen\<close>: for a command line, \<open>None\<close> if it cannot be started, and else its output and the result of \<open>my_pclose\<close>.
  Entering and leaving the node's directory are the parameters \<open>cd\<close> and \<open>home\<close>. In the engine an outcome of these
  functions is an answer of \<open>e_submit\<close>.
\<close>

section \<open>Reading the output\<close>

text \<open>\<open>sscanf\<close>: a blank in the format skips blanks, another character must be there, \<open>%d\<close> reads a number.\<close>

fun scan_text :: "string \<Rightarrow> string \<Rightarrow> string option" where
  "scan_text [] s = Some s"
| "scan_text (f # fs) s =
     (if isspace f then scan_text fs (dropWhile isspace s)
      else (case s of [] \<Rightarrow> None | c # cs \<Rightarrow> if c = f then scan_text fs cs else None))"

definition scan_int :: "string \<Rightarrow> (int \<times> string) option" where
  "scan_int s = (case strtol s of (v, rest) \<Rightarrow> if rest = s then None else Some (int_of_long v, rest))"

definition parse_condor_submit :: "string \<Rightarrow> (int \<times> int) option" where
  "parse_condor_submit buffer =
     Option.bind (scan_text '' '' buffer) (\<lambda>s.
     Option.bind (scan_int s) (\<lambda>(jobProcCount, s).
     Option.bind (scan_text '' job(s) submitted to cluster '' s) (\<lambda>s.
     Option.bind (scan_int s) (\<lambda>(cluster, s). Some (jobProcCount, cluster)))))"

definition parse_stork_submit :: "string \<Rightarrow> (int \<times> int) option" where
  "parse_stork_submit buffer =
     Option.bind (scan_text '' Request assigned id: '' buffer) (\<lambda>s.
     Option.bind (scan_int s) (\<lambda>(cluster, s). Some (1, cluster)))"

text \<open>\<open>fgets\<close> with a buffer of \<open>n\<close> bytes.\<close>

definition fgets :: "nat \<Rightarrow> string \<Rightarrow> (string \<times> string) option" where
  "fgets n s =
     (if s = [] then None
      else (let k = min (n - 1) (Suc (length (takeWhile (\<lambda>c. c \<noteq> CHR 0x0A) s))) in Some (take k s, drop k s)))"

definition UTIL_MAX_LINE_LENGTH :: nat where
  "UTIL_MAX_LINE_LENGTH = 1024"

function read_key_line :: "string \<Rightarrow> string \<Rightarrow> string \<Rightarrow> string" where
  "read_key_line marker output keyLine =
     (case fgets UTIL_MAX_LINE_LENGTH output of
        None \<Rightarrow> keyLine
      | Some (buffer, output) \<Rightarrow>
          read_key_line marker output (if strstr buffer marker \<noteq> None then snd (chomp buffer) else keyLine))"
  by pat_completeness auto
termination
  by (relation "measure (\<lambda>(_, output, _). length output)") (auto simp: fgets_def UTIL_MAX_LINE_LENGTH_def Let_def split: if_splits)

declare read_key_line.simps [simp del]

type_synonym popen = "string list \<Rightarrow> (string \<times> int) option"

definition submit_try :: "popen \<Rightarrow> ArgList \<Rightarrow> CondorID \<Rightarrow> job_type_t \<Rightarrow> bool \<Rightarrow> (bool \<times> CondorID) res" where
  "submit_try my_popen args condorID type prohibitMultiJobs =
     (case my_popen (args_list args) of
        None \<Rightarrow> Inr (False, condorID)
      | Some (output, closed) \<Rightarrow>
          (let marker = (case type of TYPE_CONDOR \<Rightarrow> ''cluster'' | TYPE_STORK \<Rightarrow> ''assigned id'');
               parseFnc = (case type of TYPE_CONDOR \<Rightarrow> parse_condor_submit | TYPE_STORK \<Rightarrow> parse_stork_submit);
               keyLine = read_key_line marker output []; status = closed mod 256
           in if keyLine = [] then Inr (False, condorID)
              else if status \<noteq> 0 then Inr (False, condorID)
              else
                (case parseFnc keyLine of
                   None \<Rightarrow> Inr (False, condorID)
                 | Some (jobProcCount, cluster) \<Rightarrow>
                     (let condorID = (case type of
                          TYPE_CONDOR \<Rightarrow> CondorID cluster (id_proc condorID) (id_subproc condorID)
                        | TYPE_STORK \<Rightarrow> CondorID cluster (-1) (-1))
                      in if prohibitMultiJobs \<and> jobProcCount > 1 then Inl (Shutdown_Rescue EXIT_ERROR)
                         else Inr (True, condorID)))))"

section \<open>The command lines\<close>

record submit_setup =
  condorSubmitExe :: string
  storkSubmitExe :: string
  DAGManJobId :: CondorID
  prohibitMultiJobs :: bool

definition append_a :: "string \<Rightarrow> ArgList \<Rightarrow> ArgList" where
  "append_a line args = AppendArg line (AppendArg ''-a'' args)"

definition POSIX_ARG_MAX :: int where
  "POSIX_ARG_MAX = 4096"

text \<open>The command line without the names of the parents and the submit file.\<close>

definition submit_options :: "submit_setup \<Rightarrow> string \<Rightarrow> string list \<Rightarrow> string list \<Rightarrow> string option \<Rightarrow> ArgList" where
  "submit_options dm DAGNodeName names vals nodeLog =
     (let args = AppendArg (condorSubmitExe dm) new_ArgList;
          args = append_a (''dag_node_name'' @ '' = '' @ DAGNodeName) args;
          args = append_a (''+'' @ ''DAGManJobId'' @ '' = '' @ string_of_int (id_cluster (DAGManJobId dm))) args;
          args = append_a (''DAGManJobId'' @ '' = '' @ string_of_int (id_cluster (DAGManJobId dm))) args;
          args = append_a (''submit_event_notes = DAG Node: '' @ DAGNodeName) args;
          args = (case nodeLog of None \<Rightarrow> args | Some l \<Rightarrow> append_a (''log = '' @ l) args)
      in fold (\<lambda>(name, val). append_a (name @ '' = '' @ val)) (zip names vals) args)"

definition parent_options :: "string \<Rightarrow> ArgList" where
  "parent_options DAGParentNodeNames =
     append_a (''+DAGParentNodeNames = '' @ [dquote] @ DAGParentNodeNames @ [dquote]) new_ArgList"

definition submit_line :: "submit_setup \<Rightarrow> string \<Rightarrow> string \<Rightarrow> string \<Rightarrow> string list \<Rightarrow> string list \<Rightarrow> string option \<Rightarrow> ArgList" where
  "submit_line dm cmd_file DAGNodeName DAGParentNodeNames names vals nodeLog =
     (let args = submit_options dm DAGNodeName names vals nodeLog;
          parentNameArgs = parent_options DAGParentNodeNames;
          display = GetArgsStringForDisplay [] args;
          cmdLineSize = int (length display);
          display = GetArgsStringForDisplay display parentNameArgs;
          DAGParentNodeNamesLen = int (length display);
          reserveNeeded = int (length cmd_file);
          args = (if cmdLineSize + reserveNeeded + DAGParentNodeNamesLen > POSIX_ARG_MAX then args
                  else AppendArgsFromArgList parentNameArgs args)
      in AppendArg cmd_file args)"

definition condor_submit ::
  "popen \<Rightarrow> bool \<Rightarrow> bool \<Rightarrow> submit_setup \<Rightarrow> string \<Rightarrow> CondorID \<Rightarrow> string \<Rightarrow> string \<Rightarrow> string list \<Rightarrow> string list \<Rightarrow> string option \<Rightarrow> (bool \<times> CondorID) res"
where
  "condor_submit my_popen cd home dm cmd_file condorID DAGNodeName DAGParentNodeNames names vals nodeLog =
     (if \<not> cd then Inr (False, condorID)
      else
        bindR (submit_try my_popen (submit_line dm cmd_file DAGNodeName DAGParentNodeNames names vals nodeLog) condorID TYPE_CONDOR (prohibitMultiJobs dm))
          (\<lambda>(success, condorID). Inr (success \<and> home, condorID)))"

definition stork_submit :: "popen \<Rightarrow> bool \<Rightarrow> bool \<Rightarrow> submit_setup \<Rightarrow> string \<Rightarrow> CondorID \<Rightarrow> string \<Rightarrow> (bool \<times> CondorID) res" where
  "stork_submit my_popen cd home dm cmd_file condorID DAGNodeName =
     (if \<not> cd then Inr (False, condorID)
      else
        (let args = AppendArg (storkSubmitExe dm) new_ArgList;
             args = AppendArg ''-lognotes'' args;
             args = AppendArg (''DAG Node: '' @ DAGNodeName) args;
             args = AppendArg cmd_file args
         in bindR (submit_try my_popen args condorID TYPE_STORK (prohibitMultiJobs dm))
              (\<lambda>(success, condorID). Inr (success \<and> home, condorID))))"

section \<open>The output is read correctly\<close>

lemma strstr_iff: "strstr s p \<noteq> None \<longleftrightarrow> (\<exists>u v. s = u @ p @ v)"
proof (induction s)
  case (Cons c s)
  have "take (length p) (c # s) = p \<longleftrightarrow> (\<exists>v. c # s = p @ v)" by (metis append_eq_conv_conj append_take_drop_id)
  with Cons show ?case by simp (metis append_Cons append_Nil list.sel(3) neq_Nil_conv)
qed auto

lemma takeWhile_newline: "CHR 0x0A \<notin> set a \<Longrightarrow> takeWhile (\<lambda>c. c \<noteq> CHR 0x0A) (a @ CHR 0x0A # t) = a"
  by (induction a) auto

lemma read_key_Nil [simp]: "read_key_line m [] k = k"
  by (simp add: read_key_line.simps fgets_def)

lemma read_key_before:
  assumes "pre = [] \<or> last pre = CHR 0x0A"
  shows "\<exists>k'. read_key_line m (pre @ t) k = read_key_line m t k'"
  using assms
proof (induction pre arbitrary: k rule: length_induct)
  case (1 pre)
  show ?case
  proof (cases "pre = []")
    case False
    let ?n = "min 1023 (Suc (length (takeWhile (\<lambda>c. c \<noteq> CHR 0x0A) (pre @ t))))"
    have "CHR 0x0A \<in> set pre" using 1 False by (metis last_in_set)
    then obtain a b where a: "pre = a @ CHR 0x0A # b" "CHR 0x0A \<notin> set a" by (metis split_list_first)
    then have l: "length (takeWhile (\<lambda>c. c \<noteq> CHR 0x0A) (pre @ t)) < length pre" by (simp add: takeWhile_newline)
    then have n: "?n \<le> length pre" "0 < ?n" by simp_all
    have "fgets UTIL_MAX_LINE_LENGTH (pre @ t) = Some (take ?n pre, drop ?n pre @ t)"
      using n(1) False by (simp add: fgets_def UTIL_MAX_LINE_LENGTH_def Let_def)
    moreover have "\<exists>k'. read_key_line m (drop ?n pre @ t) z = read_key_line m t k'" for z
    proof (rule 1(1) [rule_format])
      show "length (drop ?n pre) < length pre" using n(2) False by simp
      show "drop ?n pre = [] \<or> last (drop ?n pre) = CHR 0x0A" using 1(2) False by (cases "?n < length pre") (simp_all add: last_drop)
    qed
    ultimately show ?thesis by (simp add: read_key_line.simps [of m "pre @ t"])
  qed auto
qed

lemma read_key_after:
  assumes "strstr s m = None"
  shows "read_key_line m s k = k"
  using assms
proof (induction s rule: length_induct)
  case (1 s)
  show ?case
  proof (cases "fgets UTIL_MAX_LINE_LENGTH s")
    case (Some p)
    obtain n where n: "p = (take n s, drop n s)" "s \<noteq> []" "0 < n" using Some by (auto simp: fgets_def UTIL_MAX_LINE_LENGTH_def Let_def split: if_splits)
    have e: "\<nexists>u v. s = u @ m @ v" using 1(2) strstr_iff [of s m] by simp
    then have "\<nexists>u v. take n s = u @ m @ v" "\<nexists>u v. drop n s = u @ m @ v" by (metis append.assoc append_take_drop_id)+
    then have "strstr (take n s) m = None" "strstr (drop n s) m = None" using strstr_iff by blast+
    with 1(1) n Some show ?thesis by (simp add: read_key_line.simps [of m s])
  qed (simp add: read_key_line.simps [of m s])
qed

lemma read_key_match:
  assumes "CHR 0x0A \<notin> set l" and "length l < 1023" and "l \<noteq> []" and "last l \<noteq> CHR 0x0D" and "l = u @ m @ v"
  shows "read_key_line m (l @ CHR 0x0A # t) k = read_key_line m t l"
proof -
  have "takeWhile (\<lambda>c. c \<noteq> CHR 0x0A) (l @ CHR 0x0A # t) = l" using assms(1) by (rule takeWhile_newline)
  then have f: "fgets UTIL_MAX_LINE_LENGTH (l @ CHR 0x0A # t) = Some (l @ [CHR 0x0A], t)"
    using assms(2) by (simp add: fgets_def UTIL_MAX_LINE_LENGTH_def Let_def)
  have "l @ [CHR 0x0A] = u @ m @ (v @ [CHR 0x0A])" using assms(5) by simp
  then have "strstr (l @ [CHR 0x0A]) m \<noteq> None" using strstr_iff by blast
  moreover have "snd (chomp (l @ [CHR 0x0A])) = l" using assms(3,4) by (simp add: chomp_def Let_def)
  ultimately show ?thesis using f by (simp add: read_key_line.simps [of m "l @ CHR 0x0A # t"])
qed

lemma string_of_nat_length: "n < 10 ^ Suc k \<Longrightarrow> length (string_of_nat n) \<le> Suc k"
proof (induction k arbitrary: n)
  case (Suc k)
  have "n div 10 < 10 ^ Suc k" using Suc.prems by (simp add: less_mult_imp_div_less)
  with Suc.IH show ?case by (subst string_of_nat.simps) simp
qed (simp add: string_of_nat.simps)

definition printed :: "nat \<Rightarrow> bool" where
  "printed n \<longleftrightarrow> n < 2 ^ 31"

lemma scan_printed:
  assumes "printed n" and r: "rest = [] \<or> \<not> isdigit (hd rest)"
  shows "scan_int (string_of_nat n @ rest) = Some (int n, rest)"
proof -
  let ?s = "string_of_nat n"
  obtain c cs where s: "?s = c # cs" using string_of_nat_digits by (cases ?s) auto
  have d: "\<forall>x \<in> set ?s. isdigit x" using string_of_nat_digits by blast
  have c: "isdigit c" using d s by simp
  have b: "\<not> isspace c" "c \<noteq> CHR ''-''" "c \<noteq> CHR ''+''" using isdigit_plain [OF c] by auto
  have t: "takeWhile isdigit (?s @ rest) = ?s" "dropWhile isdigit (?s @ rest) = rest"
    using d r by (auto simp: takeWhile_append dropWhile_append takeWhile_eq_all_conv) (cases rest; simp)+
  have "int n \<le> LONG_MAX" using assms(1) by (simp add: printed_def LONG_MAX_def)
  then have "strtol (?s @ rest) = (int n, rest)"
    using b t by (simp add: strtol_def s digits_value_string_of_nat [of n, unfolded s])
  moreover have "int_of_long (int n) = int n" using assms(1) by (simp add: printed_def int_of_long_def)
  ultimately show ?thesis using s by (simp add: scan_int_def)
qed

lemma submitted_line:
  assumes "printed n" and "printed c"
  defines "l \<equiv> string_of_nat n @ '' job(s) submitted to cluster '' @ string_of_nat c @ ''.''"
  shows "read_key_line ''cluster'' (l @ CHR 0x0A # t) k = read_key_line ''cluster'' t l" and "parse_condor_submit l = Some (int n, int c)" and "l \<noteq> []"
proof -
  have d: "\<forall>x \<in> set (string_of_nat i). isdigit x" "string_of_nat i \<noteq> []" for i using string_of_nat_digits by blast+
  show ne: "l \<noteq> []" by (simp add: l_def)
  have "\<not> isdigit CHR 0x0A" by (simp add: isdigit_def)
  then have "CHR 0x0A \<notin> set (string_of_nat i)" for i using d(1) by blast
  then have nl: "CHR 0x0A \<notin> set l" by (simp add: l_def)
  have "length (string_of_nat n) \<le> Suc 9" "length (string_of_nat c) \<le> Suc 9"
    using assms(1,2) string_of_nat_length [of n 9] string_of_nat_length [of c 9] by (simp_all add: printed_def)
  then have len: "length l < 1023" by (simp add: l_def)
  have "l = (string_of_nat n @ '' job(s) submitted to '') @ ''cluster'' @ ('' '' @ string_of_nat c @ ''.'')" by (simp add: l_def)
  from read_key_match [OF nl len ne _ this] show "read_key_line ''cluster'' (l @ CHR 0x0A # t) k = read_key_line ''cluster'' t l" by (simp add: l_def)
  have b: "dropWhile isspace (string_of_nat i @ r) = string_of_nat i @ r" for i r
    using d isdigit_plain by (cases "string_of_nat i") (auto, metis list.set_intros(1))
  have dot: "\<not> isdigit CHR ''.''" "\<not> isdigit CHR '' ''" by (simp_all add: isdigit_def)
  have "scan_int l = Some (int n, '' job(s) submitted to cluster '' @ string_of_nat c @ ''.'')"
    unfolding l_def by (rule scan_printed [OF assms(1)]) (simp add: dot)
  moreover have "scan_text '' '' l = Some l" by (simp add: isspace_def l_def b)
  moreover have "scan_text '' job(s) submitted to cluster '' ('' job(s) submitted to cluster '' @ string_of_nat c @ ''.'') = Some (string_of_nat c @ ''.'')"
    using b [of c "''.''"] by (simp add: isspace_def)
  moreover have "scan_int (string_of_nat c @ ''.'') = Some (int c, ''.'')" by (rule scan_printed [OF assms(2)]) (simp add: dot)
  ultimately show "parse_condor_submit l = Some (int n, int c)" unfolding parse_condor_submit_def by simp
qed

section \<open>The contents of the command line\<close>

lemma append_a_list [simp]:
  "args_list (append_a x al) = args_list al @ [''-a'', x]" "args_list (AppendArg x al) = args_list al @ [x]"
  by (simp_all add: append_a_def AppendArg_def)

lemma fold_append_a: "args_list (fold (\<lambda>(n, v). append_a (f n v)) vars al) = args_list al @ concat (map (\<lambda>(n, v). [''-a'', f n v]) vars)"
  by (induction vars arbitrary: al) auto

lemma fold_AppendArg: "args_list (fold AppendArg xs al) = args_list al @ xs"
  by (induction xs arbitrary: al) auto

lemma display_more: "r \<noteq> [] \<Longrightarrow> GetArgsStringForDisplay r al = r @ v2_tail (args_list al)"
  by (simp add: GetArgsStringForDisplay_def GetArgsStringV2Raw_def join_args_def join_form)

lemma display_append:
  assumes "args_list a = x # xs" and "args_list b = args_list a @ ys"
  shows "GetArgsStringForDisplay [] b = GetArgsStringForDisplay [] a @ v2_tail ys"
  using assms by (simp add: GetArgsStringForDisplay_def GetArgsStringV2Raw_def join_args_form v2_tail_def)

lemma tail_length: "args_list a = x # xs \<Longrightarrow> length (v2_tail (args_list a)) = Suc (length (GetArgsStringForDisplay [] a))"
  by (simp add: GetArgsStringForDisplay_def GetArgsStringV2Raw_def join_args_form v2_tail_def)

lemma plain_chars: "\<forall>c \<in> set s. \<not> is_blank c \<and> c \<noteq> squote \<Longrightarrow> v2_chars False s = s"
  by (induction s) auto

lemma plain_v2_word: "s \<noteq> [] \<Longrightarrow> \<forall>c \<in> set s. \<not> is_blank c \<and> c \<noteq> squote \<Longrightarrow> v2_word s = s"
  using plain_chars [of s] by (simp add: v2_word_def)

lemma submit_options_list:
  "args_list (submit_options dm node names vals nodeLog) =
     condorSubmitExe dm # concat (map (\<lambda>line. [''-a'', line])
       ([''dag_node_name = '' @ node, ''+DAGManJobId = '' @ string_of_int (id_cluster (DAGManJobId dm)),
         ''DAGManJobId = '' @ string_of_int (id_cluster (DAGManJobId dm)), ''submit_event_notes = DAG Node: '' @ node] @
        (case nodeLog of None \<Rightarrow> [] | Some l \<Rightarrow> [''log = '' @ l]) @ map (\<lambda>(n, v). n @ '' = '' @ v) (zip names vals)))"
proof -
  have "concat (map (\<lambda>line. [''-a'', line]) (map (\<lambda>(n, v). n @ '' = '' @ v) xs)) = concat (map (\<lambda>(n, v). [''-a'', n @ '' = '' @ v]) xs)" for xs
    by (induction xs) auto
  then show ?thesis
    by (simp add: submit_options_def Let_def fold_append_a new_ArgList_def split: option.split)
qed

section \<open>Properties\<close>

text \<open>
  C24: The command line that submits a node. It names the tool, the node, DAGMan's own job, the node's log if it uses the default
  one, every variable of the node in order and the submit file. The parents are named only if twice the length of
  the line so far, their own text and the submit file fit into the limit of the system (the line so far is counted twice:
  the buffer that measures the parents still holds it); if they are named, the line stays below the limit.
\<close>

theorem submit_line_contents:
  fixes dm node parents names vals nodeLog cmd_file
  defines "opts \<equiv> submit_options dm node names vals nodeLog" and "par \<equiv> parent_options parents"
    and "line \<equiv> submit_line dm cmd_file node parents names vals nodeLog"
  shows "args_list opts = condorSubmitExe dm # concat (map (\<lambda>line. [''-a'', line])
       ([''dag_node_name = '' @ node, ''+DAGManJobId = '' @ string_of_int (id_cluster (DAGManJobId dm)),
         ''DAGManJobId = '' @ string_of_int (id_cluster (DAGManJobId dm)), ''submit_event_notes = DAG Node: '' @ node] @
        (case nodeLog of None \<Rightarrow> [] | Some l \<Rightarrow> [''log = '' @ l]) @ map (\<lambda>(n, v). n @ '' = '' @ v) (zip names vals))) \<and>
    args_list line = args_list opts @
      (if 2 * length (GetArgsStringForDisplay [] opts) + 1 + length (GetArgsStringForDisplay [] par) + length cmd_file \<le> 4096
       then [''-a'', ''+DAGParentNodeNames = '' @ [dquote] @ parents @ [dquote]] else []) @ [cmd_file] \<and>
    (args_list line \<noteq> args_list opts @ [cmd_file] \<and> cmd_file \<noteq> [] \<and> (\<forall>c \<in> set cmd_file. \<not> is_blank c \<and> c \<noteq> squote) \<longrightarrow>
      length (GetArgsStringForDisplay [] line) \<le> 4096)"
proof -
  have o: "\<exists>x xs. args_list opts = x # xs" unfolding opts_def submit_options_list by blast
  then obtain x xs where x: "args_list opts = x # xs" by blast
  have p: "args_list par = [''-a'', ''+DAGParentNodeNames = '' @ [dquote] @ parents @ [dquote]]" by (simp add: par_def parent_options_def new_ArgList_def)
  let ?n = "length (GetArgsStringForDisplay [] opts)" and ?m = "length (GetArgsStringForDisplay [] par)"
  have ne: "GetArgsStringForDisplay [] opts \<noteq> []" using x by (simp add: GetArgsStringForDisplay_def GetArgsStringV2Raw_def join_args_form)
  have "length (GetArgsStringForDisplay (GetArgsStringForDisplay [] opts) par) = ?n + Suc ?m"
    using display_more [OF ne, of par] tail_length [OF p] by simp
  then have l: "args_list line = args_list opts @ (if 2 * ?n + 1 + ?m + length cmd_file \<le> 4096 then args_list par else []) @ [cmd_file]"
    unfolding line_def submit_line_def opts_def [symmetric] par_def [symmetric] Let_def
    by (simp add: POSIX_ARG_MAX_def AppendArgsFromArgList_def fold_AppendArg)
  have "length (GetArgsStringForDisplay [] line) \<le> 4096"
    if "args_list line \<noteq> args_list opts @ [cmd_file]" "cmd_file \<noteq> []" "\<forall>c \<in> set cmd_file. \<not> is_blank c \<and> c \<noteq> squote"
  proof -
    have c: "2 * ?n + 1 + ?m + length cmd_file \<le> 4096" using that(1) l by (auto split: if_splits)
    have t: "length (v2_tail (args_list par @ [cmd_file])) = Suc ?m + Suc (length cmd_file)"
      using tail_length [OF p] plain_v2_word [OF that(2,3)] by (simp add: v2_tail_def)
    have "length (GetArgsStringForDisplay [] line) = ?n + Suc ?m + Suc (length cmd_file)"
      using display_append [OF x, of line "args_list par @ [cmd_file]"] l c t by simp
    moreover have "0 < ?n" using ne by simp
    ultimately show ?thesis using c by linarith
  qed
  moreover note l [unfolded p] submit_options_list [of dm node names vals nodeLog, folded opts_def]
  ultimately show ?thesis by blast
qed

definition sample_setup :: submit_setup where
  "sample_setup = \<lparr>condorSubmitExe = ''condor_submit'', storkSubmitExe = ''stork_submit'', DAGManJobId = CondorID 7 0 0, prohibitMultiJobs = True\<rparr>"

theorem submit_line_contents_witness:
  "args_list (submit_line sample_setup ''b.sub'' ''B'' ''A'' [''x''] [''1 2''] None) =
     [''condor_submit'', ''-a'', ''dag_node_name = B'', ''-a'', ''+DAGManJobId = 7'', ''-a'', ''DAGManJobId = 7'',
      ''-a'', ''submit_event_notes = DAG Node: B'', ''-a'', ''x = 1 2'', ''-a'', ''+DAGParentNodeNames = '' @ [dquote] @ ''A'' @ [dquote], ''b.sub'']"
proof -
  have "2 * length (GetArgsStringForDisplay [] (submit_options sample_setup ''B'' [''x''] [''1 2''] None)) + 1 +
      length (GetArgsStringForDisplay [] (parent_options ''A'')) + length ''b.sub'' \<le> 4096" by code_simp
  moreover have "string_of_int 7 = ''7''" by code_simp
  ultimately show ?thesis using submit_line_contents [of sample_setup "''B''" "[''x'']" "[''1 2'']" None "''b.sub''" "''A''"] by (simp add: sample_setup_def)
qed

text \<open>
  C25: The result of a successful submission is read correctly: if the tool exits with status 0 and its last line with the word
  ``cluster'' is the one that announces \<open>n\<close> jobs in cluster \<open>c\<close>, after any other complete lines, then \<open>condor_submit\<close>
  reports success with cluster \<open>c\<close> -- or ends the DAG if there are several jobs and those are not allowed.
\<close>

theorem condor_submit_reads_cluster:
  assumes "my_popen (args_list (submit_line dm cmd_file node parents names vals nodeLog)) =
      Some (pre @ string_of_nat n @ '' job(s) submitted to cluster '' @ string_of_nat c @ ''.'' @ [CHR 0x0A] @ suf, closed)"
    and "pre = [] \<or> last pre = CHR 0x0A" and "strstr suf ''cluster'' = None" and "closed mod 256 = 0" and "n < 2 ^ 31" and "c < 2 ^ 31"
  shows "condor_submit my_popen True home dm cmd_file condorID node parents names vals nodeLog =
    (if prohibitMultiJobs dm \<and> n > 1 then Inl (Shutdown_Rescue EXIT_ERROR)
     else Inr (home, CondorID (int c) (id_proc condorID) (id_subproc condorID)))"
proof -
  let ?l = "string_of_nat n @ '' job(s) submitted to cluster '' @ string_of_nat c @ ''.''"
  note l = submitted_line [OF assms(5,6) [folded printed_def]]
  obtain k where "read_key_line ''cluster'' (pre @ ?l @ [CHR 0x0A] @ suf) [] = read_key_line ''cluster'' (?l @ [CHR 0x0A] @ suf) k"
    using read_key_before [OF assms(2)] by blast
  then have "read_key_line ''cluster'' (pre @ ?l @ [CHR 0x0A] @ suf) [] = ?l" using l(1) [of suf k] read_key_after [OF assms(3)] by simp
  moreover have "my_popen (args_list (submit_line dm cmd_file node parents names vals nodeLog)) = Some (pre @ ?l @ [CHR 0x0A] @ suf, closed)"
    using assms(1) by simp
  ultimately show ?thesis using assms(4) l(2,3) by (simp add: condor_submit_def submit_try_def Let_def)
qed

theorem condor_submit_reads_cluster_witness:
  "condor_submit (\<lambda>_. Some (''Submitting job(s).'' @ [CHR 0x0A] @ ''1 job(s) submitted to cluster 42.'' @ [CHR 0x0A], 0)) True True sample_setup
     ''b.sub'' (CondorID 0 0 0) ''B'' ''A'' [] [] None = Inr (True, CondorID 42 0 0)"
proof -
  let ?popen = "(\<lambda>_. Some (''Submitting job(s).'' @ [CHR 0x0A] @ ''1 job(s) submitted to cluster 42.'' @ [CHR 0x0A], 0)) :: popen"
  have "string_of_nat 1 = ''1''" "string_of_nat 42 = ''42''" by code_simp+
  then have "?popen (args_list (submit_line sample_setup ''b.sub'' ''B'' ''A'' [] [] None)) =
      Some ((''Submitting job(s).'' @ [CHR 0x0A]) @ string_of_nat 1 @ '' job(s) submitted to cluster '' @ string_of_nat 42 @ ''.'' @ [CHR 0x0A] @ [], 0)" by simp
  from condor_submit_reads_cluster [OF this, where home = True and condorID = "CondorID 0 0 0"] show ?thesis by (simp add: sample_setup_def)
qed

end
