(* ===== verification/Jobstate_Log.thy ===== *)
theory Jobstate_Log
  imports Submit_Command Dag_Main
begin

text \<open>
  The jobstate log (\<open>jobstate_log.cpp\<close>): a text file with one line per event, and what keeps it free of duplicates when
  DAGMan recovers and free of repeated sequence numbers when it runs a rescue DAG.

  \<open>js_text\<close> is the contents of the file, with the lines that are still buffered. The clock and the success of
  opening, reading and flushing the file are answers of \<open>js_env\<close>, indexed by the questions asked so far.
  A failure calls \<open>main_shutdown_graceful\<close>, which itself writes to the log; that recursion is bounded by
  the size of the stack, a parameter, and \<open>jobstate_log_unwritable\<close> shows what comes of it. \<open>js_node\<close> adds
  to a node the fields that only the log uses.
\<close>

record js_env =
  je_append_ok :: "nat \<Rightarrow> bool"
  je_flush_ok :: "nat \<Rightarrow> bool"
  je_read_ok :: "nat \<Rightarrow> bool"
  je_time :: "nat \<Rightarrow> int"

record jobstate =
  js_logFile :: "string option"
  js_open :: bool
  js_lastTimestampWritten :: int
  js_lastTimestampLines :: "string set"
  js_text :: string
  js_nextSeqNum :: int
  js_asked :: nat

record js_node = job +
  js_jobTag :: "string option"
  js_lastEventTime :: int

definition new_JobstateLog :: "string option \<Rightarrow> string \<Rightarrow> jobstate" where
  "new_JobstateLog name contents =
     \<lparr>js_logFile = name, js_open = False, js_lastTimestampWritten = 0, js_lastTimestampLines = {}, js_text = contents,
      js_nextSeqNum = 1, js_asked = 0\<rparr>"

definition js_ask :: "(nat \<Rightarrow> 'a) \<Rightarrow> jobstate \<Rightarrow> 'a \<times> jobstate" where
  "js_ask answer st = (answer (js_asked st), st\<lparr>js_asked := Suc (js_asked st)\<rparr>)"

section \<open>Writing lines\<close>

definition ulong_text :: "int \<Rightarrow> string" where
  "ulong_text t = string_of_nat (nat (t mod 2 ^ 64))"

definition event_line :: "int \<Rightarrow> string \<Rightarrow> string" where
  "event_line t info = ulong_text t @ '' '' @ info"

definition print_line :: "string \<Rightarrow> jobstate \<Rightarrow> jobstate" where
  "print_line outline st = st\<lparr>js_text := js_text st @ outline @ [CHR 0x0A]\<rparr>"

definition Write_with :: "(jobstate \<Rightarrow> jobstate res) \<Rightarrow> js_env \<Rightarrow> int option \<Rightarrow> string \<Rightarrow> jobstate \<Rightarrow> jobstate res" where
  "Write_with graceful e eventTimeP info st =
     (case (case eventTimeP of Some t \<Rightarrow> if t \<noteq> 0 then (t, st) else js_ask (je_time e) st | None \<Rightarrow> js_ask (je_time e) st) of
        (eventTime, st) \<Rightarrow>
          if eventTime < js_lastTimestampWritten st then Inr st
          else
            (let outline = event_line eventTime info in
             if eventTime = js_lastTimestampWritten st \<and> outline \<in> js_lastTimestampLines st then Inr st
             else if js_open st then Inr (print_line outline st)
             else
               (case js_ask (je_append_ok e) st of (ok, st) \<Rightarrow>
                  if \<not> ok then graceful st else Inr (print_line outline (st\<lparr>js_open := True\<rparr>)))))"

definition Flush_with :: "(jobstate \<Rightarrow> jobstate res) \<Rightarrow> js_env \<Rightarrow> jobstate \<Rightarrow> jobstate res" where
  "Flush_with graceful e st =
     (if js_logFile st = None then Inr st
      else (case js_ask (je_flush_ok e) st of (ok, st) \<Rightarrow> if \<not> ok then graceful st else Inr st))"

abbreviation INTERNAL_NAME :: string where "INTERNAL_NAME \<equiv> ''INTERNAL''"

definition WriteDagmanFinished_with :: "(jobstate \<Rightarrow> jobstate res) \<Rightarrow> js_env \<Rightarrow> int \<Rightarrow> jobstate \<Rightarrow> jobstate res" where
  "WriteDagmanFinished_with graceful e exitCode st =
     (if js_logFile st = None then Inr st
      else
        bindR (Write_with graceful e None (INTERNAL_NAME @ '' *** DAGMAN_FINISHED '' @ string_of_int exitCode @ '' ***'') st)
          (Flush_with graceful e))"

text \<open>\<open>main_shutdown_graceful\<close>, as far as it concerns the log, with \<open>n\<close> levels of the stack left.\<close>

fun graceful :: "js_env \<Rightarrow> nat \<Rightarrow> jobstate \<Rightarrow> jobstate res" where
  "graceful e 0 st = Inl (Crash ''stack overflow'')"
| "graceful e (Suc n) st = bindR (WriteDagmanFinished_with (graceful e n) e EXIT_RESTART st) (\<lambda>_. Inl (DC_Exit EXIT_RESTART))"

definition Write_info :: "js_env \<Rightarrow> nat \<Rightarrow> int option \<Rightarrow> string \<Rightarrow> jobstate \<Rightarrow> jobstate res" where
  "Write_info e n = Write_with (graceful e n) e"

definition Flush :: "js_env \<Rightarrow> nat \<Rightarrow> jobstate \<Rightarrow> jobstate res" where
  "Flush e n = Flush_with (graceful e n) e"

definition WriteDagmanFinished :: "js_env \<Rightarrow> nat \<Rightarrow> int \<Rightarrow> jobstate \<Rightarrow> jobstate res" where
  "WriteDagmanFinished e n = WriteDagmanFinished_with (graceful e n) e"

definition WriteDagmanStarted :: "js_env \<Rightarrow> nat \<Rightarrow> CondorID \<Rightarrow> jobstate \<Rightarrow> jobstate res" where
  "WriteDagmanStarted e n DAGMan_id st =
     (if js_logFile st = None then Inr st
      else
        bindR (Write_info e n None (INTERNAL_NAME @ '' *** DAGMAN_STARTED '' @ string_of_int (id_cluster DAGMan_id) @ ''.'' @
                 string_of_int (id_proc DAGMan_id) @ '' ***'') st)
          (Flush e n))"

definition WriteRecoveryStarted :: "js_env \<Rightarrow> nat \<Rightarrow> jobstate \<Rightarrow> jobstate res" where
  "WriteRecoveryStarted e n st =
     (if js_logFile st = None then Inr st else Write_info e n None (INTERNAL_NAME @ '' *** RECOVERY_STARTED ***'') st)"

definition WriteRecoveryFinished :: "js_env \<Rightarrow> nat \<Rightarrow> jobstate \<Rightarrow> jobstate res" where
  "WriteRecoveryFinished e n st =
     (if js_logFile st = None then Inr st
      else bindR (Write_info e n None (INTERNAL_NAME @ '' *** RECOVERY_FINISHED ***'') st) (Flush e n))"

definition WriteRecoveryFailure :: "js_env \<Rightarrow> nat \<Rightarrow> jobstate \<Rightarrow> jobstate res" where
  "WriteRecoveryFailure e n st =
     (if js_logFile st = None then Inr st
      else bindR (Write_info e n None (INTERNAL_NAME @ '' *** RECOVERY_FAILURE ***'') st) (Flush e n))"

section \<open>Events of a node\<close>

text \<open>
  The value of a keyword in the submit file of the node (\<open>loadValueFromSubFile\<close>) is the parameter \<open>sub\<close>; an empty string
  means that it is not there.
\<close>

definition strip_quotes :: "string \<Rightarrow> string" where
  "strip_quotes s =
     (let begin = (if s \<noteq> [] \<and> hd s = dquote then 1 else 0); last = int (length s) - 1;
          end' = (if s \<noteq> [] \<and> s ! nat last = dquote then last - 1 else last)
      in Substr s begin end')"

definition GetJobstateJobTag :: "(string \<Rightarrow> string) \<Rightarrow> js_node \<Rightarrow> string \<times> js_node" where
  "GetJobstateJobTag sub node =
     (case js_jobTag node of
        Some tag \<Rightarrow> (tag, node)
      | None \<Rightarrow>
          (let jobTagName = sub ''+job_tag_name'';
               jobTagName = (if jobTagName = [] then ''+pegasus_site'' else strip_quotes jobTagName);
               tmpJobTag = sub jobTagName;
               tmpJobTag = (if tmpJobTag = [] then ''-'' else strip_quotes tmpJobTag)
           in (tmpJobTag, node\<lparr>js_jobTag := Some tmpJobTag\<rparr>)))"

definition GetJobstateSequenceNum :: "js_node \<Rightarrow> jobstate \<Rightarrow> int \<times> js_node \<times> jobstate" where
  "GetJobstateSequenceNum node st =
     (if jobstateSeqNum node = 0
      then (js_nextSeqNum st, node\<lparr>jobstateSeqNum := js_nextSeqNum st\<rparr>, st\<lparr>js_nextSeqNum := js_nextSeqNum st + 1\<rparr>)
      else (jobstateSeqNum node, node, st))"

definition CondorID2Str :: "int \<Rightarrow> int \<Rightarrow> string" where
  "CondorID2Str cluster proc =
     (if cluster \<noteq> id_cluster default_CondorID then string_of_int cluster @ ''.'' @ string_of_int proc else ''-'')"

definition Write_node ::
  "js_env \<Rightarrow> nat \<Rightarrow> (string \<Rightarrow> string) \<Rightarrow> int option \<Rightarrow> string \<Rightarrow> string \<Rightarrow> js_node \<Rightarrow> jobstate \<Rightarrow> (js_node \<times> jobstate) res"
where
  "Write_node e n sub eventTimeP eventName idStr node st =
     (case GetJobstateJobTag sub node of (tag, node) \<Rightarrow>
      case GetJobstateSequenceNum node st of (seqNum, node, st) \<Rightarrow>
        bindR (Write_info e n eventTimeP
                 (jobName node @ '' '' @ eventName @ '' '' @ idStr @ '' '' @ tag @ '' - '' @ string_of_int seqNum) st)
          (\<lambda>st. Inr (node, st)))"

definition WriteJobSuccessOrFailure :: "js_env \<Rightarrow> nat \<Rightarrow> (string \<Rightarrow> string) \<Rightarrow> js_node \<Rightarrow> jobstate \<Rightarrow> (js_node \<times> jobstate) res" where
  "WriteJobSuccessOrFailure e n sub node st =
     (if js_logFile st = None then Inr (node, st)
      else Write_node e n sub (Some (js_lastEventTime node)) (if retval node = 0 then ''JOB_SUCCESS'' else ''JOB_FAILURE'')
             (string_of_int (retval node)) node st)"

definition script_id :: "js_node \<Rightarrow> bool \<Rightarrow> string" where
  "script_id node isPost =
     (if isPost then CondorID2Str (id_cluster (j_CondorID node)) (if noop node then id_proc (j_CondorID node) else 0) else ''-'')"

definition WriteScriptStarted :: "js_env \<Rightarrow> nat \<Rightarrow> (string \<Rightarrow> string) \<Rightarrow> bool \<Rightarrow> js_node \<Rightarrow> jobstate \<Rightarrow> (js_node \<times> jobstate) res" where
  "WriteScriptStarted e n sub isPost node st =
     (if js_logFile st = None then Inr (node, st)
      else Write_node e n sub (Some (js_lastEventTime node)) (if isPost then ''POST_SCRIPT_STARTED'' else ''PRE_SCRIPT_STARTED'')
             (script_id node isPost) node st)"

definition WriteScriptSuccessOrFailure :: "js_env \<Rightarrow> nat \<Rightarrow> (string \<Rightarrow> string) \<Rightarrow> bool \<Rightarrow> js_node \<Rightarrow> jobstate \<Rightarrow> (js_node \<times> jobstate) res" where
  "WriteScriptSuccessOrFailure e n sub isPost node st =
     (if js_logFile st = None then Inr (node, st)
      else Write_node e n sub (Some (js_lastEventTime node))
             (if isPost then (if retval node = 0 then ''POST_SCRIPT_SUCCESS'' else ''POST_SCRIPT_FAILURE'')
              else (if retval node = 0 then ''PRE_SCRIPT_SUCCESS'' else ''PRE_SCRIPT_FAILURE''))
             (script_id node isPost) node st)"

definition WriteSubmitFailure :: "js_env \<Rightarrow> nat \<Rightarrow> (string \<Rightarrow> string) \<Rightarrow> js_node \<Rightarrow> jobstate \<Rightarrow> (js_node \<times> jobstate) res" where
  "WriteSubmitFailure e n sub node st =
     (if js_logFile st = None then Inr (node, st)
      else Write_node e n sub (Some (js_lastEventTime node)) ''SUBMIT_FAILURE'' ''-'' node st)"

text \<open>The names of the events, as the code strips them of their prefix; \<open>eventTime\<close> is the result of \<open>mktime\<close>.\<close>

fun event_name :: "ULogEventNumber \<Rightarrow> string" where
  "event_name ULOG_SUBMIT = ''SUBMIT''" | "event_name ULOG_EXECUTE = ''EXECUTE''"
| "event_name ULOG_EXECUTABLE_ERROR = ''EXECUTABLE_ERROR''" | "event_name ULOG_CHECKPOINTED = ''CHECKPOINTED''"
| "event_name ULOG_JOB_EVICTED = ''JOB_EVICTED''" | "event_name ULOG_JOB_TERMINATED = ''JOB_TERMINATED''"
| "event_name ULOG_IMAGE_SIZE = ''IMAGE_SIZE''" | "event_name ULOG_SHADOW_EXCEPTION = ''SHADOW_EXCEPTION''"
| "event_name ULOG_GENERIC = ''GENERIC''" | "event_name ULOG_JOB_ABORTED = ''JOB_ABORTED''"
| "event_name ULOG_JOB_SUSPENDED = ''JOB_SUSPENDED''" | "event_name ULOG_JOB_UNSUSPENDED = ''JOB_UNSUSPENDED''"
| "event_name ULOG_JOB_HELD = ''JOB_HELD''" | "event_name ULOG_JOB_RELEASED = ''JOB_RELEASED''"
| "event_name ULOG_NODE_EXECUTE = ''NODE_EXECUTE''" | "event_name ULOG_NODE_TERMINATED = ''NODE_TERMINATED''"
| "event_name ULOG_POST_SCRIPT_TERMINATED = ''POST_SCRIPT_TERMINATED''" | "event_name ULOG_GLOBUS_SUBMIT = ''GLOBUS_SUBMIT''"
| "event_name ULOG_GLOBUS_SUBMIT_FAILED = ''GLOBUS_SUBMIT_FAILED''" | "event_name ULOG_GLOBUS_RESOURCE_UP = ''GLOBUS_RESOURCE_UP''"
| "event_name ULOG_GLOBUS_RESOURCE_DOWN = ''GLOBUS_RESOURCE_DOWN''" | "event_name ULOG_REMOTE_ERROR = ''REMOTE_ERROR''"
| "event_name ULOG_JOB_DISCONNECTED = ''JOB_DISCONNECTED''" | "event_name ULOG_JOB_RECONNECTED = ''JOB_RECONNECTED''"
| "event_name ULOG_JOB_RECONNECT_FAILED = ''JOB_RECONNECT_FAILED''" | "event_name ULOG_GRID_RESOURCE_UP = ''GRID_RESOURCE_UP''"
| "event_name ULOG_GRID_RESOURCE_DOWN = ''GRID_RESOURCE_DOWN''" | "event_name ULOG_GRID_SUBMIT = ''GRID_SUBMIT''"
| "event_name ULOG_JOB_AD_INFORMATION = ''JOB_AD_INFORMATION''" | "event_name ULOG_JOB_STATUS_UNKNOWN = ''JOB_STATUS_UNKNOWN''"
| "event_name ULOG_JOB_STATUS_KNOWN = ''JOB_STATUS_KNOWN''" | "event_name ULOG_JOB_STAGE_IN = ''JOB_STAGE_IN''"
| "event_name ULOG_JOB_STAGE_OUT = ''JOB_STAGE_OUT''" | "event_name ULOG_ATTRIBUTE_UPDATE = ''ATTRIBUTE_UPDATE''"

definition WriteEvent ::
  "js_env \<Rightarrow> nat \<Rightarrow> (string \<Rightarrow> string) \<Rightarrow> ULogEvent \<Rightarrow> int \<Rightarrow> js_node \<Rightarrow> jobstate \<Rightarrow> (js_node \<times> jobstate) res"
where
  "WriteEvent e n sub event eventTime node st =
     (if js_logFile st = None then Inr (node, st)
      else Write_node e n sub (Some eventTime) (event_name (ev_eventNumber event)) (CondorID2Str (ev_cluster event) (ev_proc event)) node st)"

section \<open>Reading the log again\<close>

text \<open>\<open>Tokenize\<close> and \<open>GetNextToken(" ", false)\<close>: the unread text is \<open>None\<close> at the end.\<close>

definition Tokenize :: "string \<Rightarrow> string option" where
  "Tokenize s = (if s = [] then None else Some s)"

definition GetNextToken :: "string option \<Rightarrow> string option \<times> string option" where
  "GetNextToken next =
     (case next of
        None \<Rightarrow> (None, None)
      | Some s \<Rightarrow>
          (case dropWhile (\<lambda>c. c \<noteq> CHR '' '') s of
             [] \<Rightarrow> (Some s, None)
           | _ # rest \<Rightarrow> (Some (takeWhile (\<lambda>c. c \<noteq> CHR '' '') s), Some rest)))"

text \<open>\<open>sscanf\<close> with \<open>%lu\<close>, stored into a signed 64 bit \<open>time_t\<close>.\<close>

definition scan_ulong :: "string \<Rightarrow> int option" where
  "scan_ulong s =
     (let t = dropWhile isspace s;
          (neg, t) = (case t of c # cs \<Rightarrow> if c = CHR ''-'' then (True, cs) else if c = CHR ''+'' then (False, cs) else (False, t)
                      | [] \<Rightarrow> (False, t));
          digits = takeWhile isdigit t; v = int (digits_value digits);
          v = (if v \<ge> 2 ^ 64 then 2 ^ 64 - 1 else if neg then - v else v)
      in if digits = [] then None else Some ((v + 2 ^ 63) mod 2 ^ 64 - 2 ^ 63))"

definition ParseLine :: "string \<Rightarrow> (int \<times> string \<times> int) option" where
  "ParseLine line =
     (case GetNextToken (Tokenize line) of (timestampTok, next) \<Rightarrow>
      case GetNextToken next of (nodeNameTok, next) \<Rightarrow>
      case GetNextToken next of (_, next) \<Rightarrow>
      case GetNextToken next of (_, next) \<Rightarrow>
      case GetNextToken next of (_, next) \<Rightarrow>
      case GetNextToken next of (_, next) \<Rightarrow>
      case GetNextToken next of (seqNumTok, next) \<Rightarrow>
        (case (timestampTok, nodeNameTok) of
           (Some timestampTok, Some nodeName) \<Rightarrow>
             (case scan_ulong timestampTok of
                None \<Rightarrow> None
              | Some timestamp \<Rightarrow>
                  (case seqNumTok of
                     None \<Rightarrow> Some (timestamp, nodeName, 0)
                   | Some tok \<Rightarrow> (case scan_int tok of None \<Rightarrow> None | Some (seqNum, _) \<Rightarrow> Some (timestamp, nodeName, seqNum))))
         | _ \<Rightarrow> None))"

definition readLine :: "string \<Rightarrow> (string \<times> string) option" where
  "readLine s =
     (if s = [] then None
      else (let k = Suc (length (takeWhile (\<lambda>c. c \<noteq> CHR 0x0A) s)) in Some (take k s, drop k s)))"

lemma readLine_shorter: "readLine s = Some (line, rest) \<Longrightarrow> length rest < length s"
  by (auto simp: readLine_def Let_def split: if_splits)

text \<open>
  The first loop of \<open>InitializeRecovery\<close>. A position in the file (\<open>ftell\<close>) is the text from there on; the result is the
  last time of a node's event and the position of the first line with that time.
\<close>

function find_last :: "string \<Rightarrow> string \<Rightarrow> int \<Rightarrow> string \<times> int" where
  "find_last file startOfLast lastTime =
     (case readLine file of
        None \<Rightarrow> (startOfLast, lastTime)
      | Some (line, rest) \<Rightarrow>
          (case ParseLine (snd (chomp line)) of
             None \<Rightarrow> find_last rest startOfLast lastTime
           | Some (newTimestamp, nodeName, _) \<Rightarrow>
               if nodeName \<noteq> INTERNAL_NAME \<and> newTimestamp > lastTime then find_last rest file newTimestamp
               else find_last rest startOfLast lastTime))"
  by pat_completeness auto
termination
  by (relation "measure (\<lambda>(file, _). length file)") (auto dest: readLine_shorter)

function last_lines :: "int \<Rightarrow> string \<Rightarrow> string set \<Rightarrow> string set" where
  "last_lines lastTime file found =
     (case readLine file of
        None \<Rightarrow> found
      | Some (line, rest) \<Rightarrow>
          (case ParseLine (snd (chomp line)) of
             None \<Rightarrow> last_lines lastTime rest found
           | Some (newTimestamp, nodeName, _) \<Rightarrow>
               last_lines lastTime rest
                 (if newTimestamp = lastTime \<and> nodeName \<noteq> INTERNAL_NAME then insert (snd (chomp line)) found else found)))"
  by pat_completeness auto
termination
  by (relation "measure (\<lambda>(_, file, _). length file)") (auto dest: readLine_shorter)

function max_seq :: "string \<Rightarrow> int \<Rightarrow> int" where
  "max_seq file maxSeqNum =
     (case readLine file of
        None \<Rightarrow> maxSeqNum
      | Some (line, rest) \<Rightarrow>
          (case ParseLine (snd (chomp line)) of
             None \<Rightarrow> max_seq rest maxSeqNum
           | Some (_, _, seqNum) \<Rightarrow> max_seq rest (max maxSeqNum seqNum)))"
  by pat_completeness auto
termination
  by (relation "measure (\<lambda>(file, _). length file)") (auto dest: readLine_shorter)

declare find_last.simps [simp del] last_lines.simps [simp del] max_seq.simps [simp del]

definition InitializeRecovery :: "js_env \<Rightarrow> nat \<Rightarrow> jobstate \<Rightarrow> jobstate res" where
  "InitializeRecovery e n st =
     (if js_logFile st = None then Inr st
      else
        (case js_ask (je_read_ok e) st of (ok, st) \<Rightarrow>
           if \<not> ok then graceful e n st
           else
             (case find_last (js_text st) (js_text st) (js_lastTimestampWritten st) of (start, lastTime) \<Rightarrow>
                Inr (st\<lparr>js_lastTimestampWritten := lastTime, js_lastTimestampLines := last_lines lastTime start (js_lastTimestampLines st)\<rparr>))))"

definition InitializeRescue :: "js_env \<Rightarrow> nat \<Rightarrow> jobstate \<Rightarrow> jobstate res" where
  "InitializeRescue e n st =
     (if js_logFile st = None then Inr st
      else
        (case js_ask (je_read_ok e) st of (ok, st) \<Rightarrow>
           if \<not> ok then graceful e n st else Inr (st\<lparr>js_nextSeqNum := max_seq (js_text st) 0 + 1\<rparr>)))"

section \<open>Lines are read back\<close>

text \<open>The data of a line that a node's event leaves, and the lines of a log: such lines, and others.\<close>

record js_event =
  e_when :: int
  e_node :: string
  e_event :: string
  e_id :: string
  e_tag :: string
  e_seq :: int

type_synonym log_entry = "js_event + string"

definition event_info :: "js_event \<Rightarrow> string" where
  "event_info v = e_node v @ '' '' @ e_event v @ '' '' @ e_id v @ '' '' @ e_tag v @ '' - '' @ string_of_int (e_seq v)"

definition line_of_event :: "js_event \<Rightarrow> string" where
  "line_of_event v = event_line (e_when v) (event_info v)"

definition log_word :: "string \<Rightarrow> bool" where
  "log_word w \<longleftrightarrow> CHR '' '' \<notin> set w \<and> CHR 0x0A \<notin> set w"

definition event_ok :: "js_event \<Rightarrow> bool" where
  "event_ok v \<longleftrightarrow> 0 < e_when v \<and> e_when v < 2 ^ 63 \<and> log_word (e_node v) \<and> log_word (e_event v) \<and> log_word (e_id v) \<and> log_word (e_tag v) \<and>
     e_node v \<noteq> INTERNAL_NAME \<and> is_int32 (e_seq v)"

definition other_line :: "string \<Rightarrow> bool" where
  "other_line l \<longleftrightarrow> CHR 0x0A \<notin> set l \<and>
     (case ParseLine (snd (chomp (l @ [CHR 0x0A]))) of None \<Rightarrow> True | Some (_, nodeName, _) \<Rightarrow> nodeName = INTERNAL_NAME)"

fun entry_ok :: "log_entry \<Rightarrow> bool" where
  "entry_ok (Inl v) \<longleftrightarrow> event_ok v"
| "entry_ok (Inr l) \<longleftrightarrow> other_line l"

fun entry_line :: "log_entry \<Rightarrow> string" where
  "entry_line (Inl v) = line_of_event v"
| "entry_line (Inr l) = l"

definition log_text :: "log_entry list \<Rightarrow> string" where
  "log_text es = concat (map (\<lambda>x. entry_line x @ [CHR 0x0A]) es)"

definition node_events :: "log_entry list \<Rightarrow> js_event list" where
  "node_events es = concat (map (case_sum (\<lambda>v. [v]) (\<lambda>_. [])) es)"

lemma log_simps [simp]:
  "log_text [] = []" "log_text (x # es) = entry_line x @ CHR 0x0A # log_text es"
  "node_events [] = []" "node_events (Inl v # es) = v # node_events es" "node_events (Inr l # es) = node_events es"
  "log_text (es @ es') = log_text es @ log_text es'" "node_events (es @ es') = node_events es @ node_events es'"
  by (simp_all add: log_text_def node_events_def)

lemma next_token_word:
  "CHR '' '' \<notin> set w \<Longrightarrow> GetNextToken (Some (w @ CHR '' '' # r)) = (Some w, Some r)"
  "CHR '' '' \<notin> set w \<Longrightarrow> GetNextToken (Some w) = (Some w, None)"
proof -
  assume w: "CHR '' '' \<notin> set w"
  then have "dropWhile (\<lambda>c. c \<noteq> CHR '' '') (w @ CHR '' '' # r) = CHR '' '' # r" "takeWhile (\<lambda>c. c \<noteq> CHR '' '') (w @ CHR '' '' # r) = w"
    "dropWhile (\<lambda>c. c \<noteq> CHR '' '') w = []" by (induction w) auto
  then show "GetNextToken (Some (w @ CHR '' '' # r)) = (Some w, Some r)" "GetNextToken (Some w) = (Some w, None)"
    by (simp_all only: GetNextToken_def option.case list.case)
qed

lemma number_chars:
  "CHR '' '' \<notin> set (string_of_nat n)" "CHR 0x0A \<notin> set (string_of_nat n)" "string_of_nat n \<noteq> []"
  "CHR '' '' \<notin> set (string_of_int i)" "CHR 0x0A \<notin> set (string_of_int i)" "string_of_int i \<noteq> []" "last (string_of_int i) \<noteq> CHR 0x0D"
proof -
  have d: "isdigit c" if "c \<in> set (string_of_nat k)" for c k using string_of_nat_digits that by blast
  have n: "\<not> isdigit CHR '' ''" "\<not> isdigit CHR 0x0A" "\<not> isdigit CHR 0x0D" by (simp_all add: isdigit_def)
  show s: "CHR '' '' \<notin> set (string_of_nat n)" "CHR 0x0A \<notin> set (string_of_nat n)" "string_of_nat n \<noteq> []" for n
    using d n string_of_nat_digits by blast+
  from s show "CHR '' '' \<notin> set (string_of_int i)" "CHR 0x0A \<notin> set (string_of_int i)" "string_of_int i \<noteq> []" by (simp_all add: string_of_int_def)
  have "last (string_of_nat k) \<noteq> CHR 0x0D" for k using d [OF last_in_set [OF s(3)]] n(3) by metis
  then show "last (string_of_int i) \<noteq> CHR 0x0D" using s(3) by (simp add: string_of_int_def)
qed

lemma scan_ulong_text:
  assumes "0 \<le> t" and "t < 2 ^ 63"
  shows "scan_ulong (ulong_text t) = Some t"
proof -
  let ?s = "string_of_nat (nat t)"
  have m: "t mod 2 ^ 64 = t" using assms by simp
  obtain c cs where s: "?s = c # cs" using string_of_nat_digits by (cases ?s) auto
  have d: "\<forall>x \<in> set ?s. isdigit x" using string_of_nat_digits by blast
  then have c: "\<not> isspace c" "c \<noteq> CHR ''-''" "c \<noteq> CHR ''+''" using isdigit_plain [of c] s by auto
  have "takeWhile isdigit ?s = ?s" using d by (simp add: takeWhile_eq_all_conv)
  then have "scan_ulong ?s = Some ((t + 2 ^ 63) mod 2 ^ 64 - 2 ^ 63)"
    using c assms by (simp add: scan_ulong_def s digits_value_string_of_nat [of "nat t", unfolded s])
  moreover have "(t + 2 ^ 63) mod 2 ^ 64 - 2 ^ 63 = t" using assms by simp
  ultimately show ?thesis unfolding ulong_text_def m by simp
qed

lemma ParseLine_event:
  assumes "event_ok v"
  shows "ParseLine (line_of_event v) = Some (e_when v, e_node v, e_seq v)"
proof -
  have l: "line_of_event v = ulong_text (e_when v) @ CHR '' '' # e_node v @ CHR '' '' # e_event v @ CHR '' '' # e_id v @ CHR '' '' # e_tag v @
      CHR '' '' # ''-'' @ CHR '' '' # string_of_int (e_seq v)"
    by (simp add: line_of_event_def event_line_def event_info_def)
  have u: "CHR '' '' \<notin> set (ulong_text (e_when v))" "ulong_text (e_when v) \<noteq> []" by (simp_all add: ulong_text_def number_chars)
  have w: "CHR '' '' \<notin> set (e_node v)" "CHR '' '' \<notin> set (e_event v)" "CHR '' '' \<notin> set (e_id v)" "CHR '' '' \<notin> set (e_tag v)" "CHR '' '' \<notin> set ''-''"
    using assms by (simp_all add: event_ok_def log_word_def)
  have n: "scan_int (string_of_int (e_seq v)) = Some (e_seq v, [])"
    using assms strtol_printed [of "e_seq v"] number_chars(6) [of "e_seq v"] by (simp add: event_ok_def scan_int_def eq_commute [of "[]"])
  have t: "scan_ulong (ulong_text (e_when v)) = Some (e_when v)" using assms by (simp add: event_ok_def scan_ulong_text)
  have "Tokenize (line_of_event v) = Some (line_of_event v)" using l by (simp add: Tokenize_def)
  then show ?thesis unfolding ParseLine_def l
    by (simp only: next_token_word [OF u(1)] next_token_word [OF w(1)] next_token_word [OF w(2)] next_token_word [OF w(3)] next_token_word [OF w(4)]
        next_token_word [OF w(5)] next_token_word [OF number_chars(4)] prod.case option.case t n)
qed

lemma entry_line_clean:
  assumes "entry_ok x"
  shows "CHR 0x0A \<notin> set (entry_line x)"
proof (cases x)
  case (Inl v)
  with assms show ?thesis by (auto simp: event_ok_def log_word_def line_of_event_def event_line_def event_info_def ulong_text_def number_chars)
qed (use assms in \<open>simp add: other_line_def\<close>)

lemma event_chomp: "snd (chomp (line_of_event v @ [CHR 0x0A])) = line_of_event v"
proof -
  have "snd (chomp (l @ [CHR 0x0A])) = l" if "l \<noteq> []" "last l \<noteq> CHR 0x0D" for l using that by (simp add: chomp_def Let_def)
  moreover have "line_of_event v \<noteq> []" "last (line_of_event v) \<noteq> CHR 0x0D"
    by (simp_all add: line_of_event_def event_line_def event_info_def number_chars)
  ultimately show ?thesis by blast
qed

lemma readLine_entry: "entry_ok x \<Longrightarrow> readLine (entry_line x @ CHR 0x0A # r) = Some (entry_line x @ [CHR 0x0A], r)"
  using takeWhile_newline [OF entry_line_clean] by (simp add: readLine_def Let_def)

section \<open>Recovery\<close>

definition lines_at :: "int \<Rightarrow> js_event list \<Rightarrow> string set" where
  "lines_at t vs = line_of_event ` {v \<in> set vs. e_when v = t}"

lemma last_lines_entry:
  assumes "entry_ok x"
  shows "last_lines t (entry_line x @ CHR 0x0A # r) found =
    last_lines t r (case x of Inl v \<Rightarrow> if e_when v = t then insert (line_of_event v) found else found | Inr _ \<Rightarrow> found)"
proof (cases x)
  case (Inl v)
  with assms show ?thesis using ParseLine_event [of v]
    by (simp add: last_lines.simps [of t "_ @ _"] readLine_entry [of "Inl v", simplified] event_chomp event_ok_def)
next
  case (Inr l)
  with assms readLine_entry [OF assms] show ?thesis by (auto simp: last_lines.simps [of t "_ @ _"] other_line_def split: option.splits)
qed

lemma last_lines_text: "\<forall>x \<in> set es. entry_ok x \<Longrightarrow> last_lines t (log_text es) found = found \<union> lines_at t (node_events es)"
proof (induction es arbitrary: found)
  case Nil
  then show ?case by (simp add: last_lines.simps readLine_def lines_at_def)
next
  case (Cons x es)
  have "last_lines t (log_text (x # es)) found =
      last_lines t (log_text es) (case x of Inl v \<Rightarrow> if e_when v = t then insert (line_of_event v) found else found | Inr _ \<Rightarrow> found)"
    using last_lines_entry [of x t "log_text es" found] Cons.prems by simp
  with Cons show ?case by (cases x) (auto simp: lines_at_def)
qed

lemma find_last_entry:
  assumes "entry_ok x"
  shows "find_last (entry_line x @ CHR 0x0A # r) start t =
    (case x of Inl v \<Rightarrow> if e_when v > t then find_last r (entry_line x @ CHR 0x0A # r) (e_when v) else find_last r start t | Inr _ \<Rightarrow> find_last r start t)"
proof (cases x)
  case (Inl v)
  with assms show ?thesis using ParseLine_event [of v]
    by (simp add: find_last.simps [of "_ @ _"] readLine_entry [of "Inl v", simplified] event_chomp event_ok_def)
next
  case (Inr l)
  with assms readLine_entry [OF assms] show ?thesis by (auto simp: find_last.simps [of "_ @ _"] other_line_def split: option.splits)
qed

lemma fold_max_bounds:
  "\<forall>v \<in> set vs. e_when v \<le> fold max (map e_when vs) t" "(t :: int) \<le> fold max (map e_when vs) t"
proof (induction vs arbitrary: t)
  case (Cons v vs)
  {
    case 1
    show ?case using Cons(1) [of "max (e_when v) t"] Cons(2) [of "max (e_when v) t"] by simp
  next
    case 2
    show ?case using Cons(2) [of "max (e_when v) t"] by simp
  }
qed simp_all

lemma find_last_text:
  assumes "\<forall>x \<in> set es. entry_ok x"
  shows "\<exists>start'. find_last (log_text es) start t = (start', fold max (map e_when (node_events es)) t) \<and>
    (fold max (map e_when (node_events es)) t = t \<longrightarrow> start' = start) \<and>
    (fold max (map e_when (node_events es)) t > t \<longrightarrow>
       last_lines (fold max (map e_when (node_events es)) t) start' {} = lines_at (fold max (map e_when (node_events es)) t) (node_events es))"
  using assms
proof (induction es arbitrary: start t)
  case Nil
  then show ?case by (simp add: find_last.simps readLine_def)
next
  case (Cons x es)
  have x: "entry_ok x" and es: "\<forall>x \<in> set es. entry_ok x" using Cons.prems by auto
  note step = find_last_entry [OF x, of "log_text es" start t]
  show ?case
  proof (cases x)
    case (Inl v)
    show ?thesis
    proof (cases "e_when v > t")
      case True
      let ?m = "fold max (map e_when (node_events es)) (e_when v)"
      have m: "fold max (map e_when (node_events (x # es))) t = ?m" using True by (simp add: Inl max_def)
      obtain s where s: "find_last (log_text es) (log_text (x # es)) (e_when v) = (s, ?m)" "?m = e_when v \<longrightarrow> s = log_text (x # es)"
        "?m > e_when v \<longrightarrow> last_lines ?m s {} = lines_at ?m (node_events es)"
        using Cons.IH [OF es, of "log_text (x # es)" "e_when v"] by blast
      have "last_lines ?m s {} = lines_at ?m (node_events (x # es))"
      proof (cases "?m = e_when v")
        case True
        then show ?thesis using s(2) last_lines_text [OF Cons.prems, of ?m "{}"] by simp
      next
        case False
        then have "?m > e_when v" using fold_max_bounds(2) [of "e_when v"] by (simp add: order_less_le)
        with s(3) show ?thesis by (auto simp: Inl lines_at_def)
      qed
      moreover have "t < ?m" using True fold_max_bounds(2) by (rule less_le_trans)
      ultimately show ?thesis using step True s(1) unfolding m by (simp add: Inl)
    next
      case False
      let ?m = "fold max (map e_when (node_events es)) t"
      have m: "fold max (map e_when (node_events (x # es))) t = ?m" using False by (simp add: Inl max_def)
      obtain s where s: "find_last (log_text es) start t = (s, ?m)" "?m = t \<longrightarrow> s = start" "?m > t \<longrightarrow> last_lines ?m s {} = lines_at ?m (node_events es)"
        using Cons.IH [OF es] by blast
      moreover have "lines_at ?m (node_events (x # es)) = lines_at ?m (node_events es)" if "?m > t" using False that by (auto simp: Inl lines_at_def)
      ultimately show ?thesis using step False unfolding m by (simp add: Inl)
    qed
  next
    case (Inr l)
    then show ?thesis using Cons.IH [OF es, of start t] step by simp
  qed
qed

definition last_when :: "log_entry list \<Rightarrow> int" where
  "last_when es = fold max (map e_when (node_events es)) 0"

lemma InitializeRecovery_text:
  assumes "\<forall>x \<in> set old. entry_ok x" and "js_text st = log_text old" and "js_logFile st \<noteq> None" and "je_read_ok e (js_asked st)"
    and "js_lastTimestampWritten st = 0" and "js_lastTimestampLines st = {}"
  shows "InitializeRecovery e n st =
    Inr (st\<lparr>js_asked := Suc (js_asked st), js_lastTimestampWritten := last_when old, js_lastTimestampLines := lines_at (last_when old) (node_events old)\<rparr>)"
proof -
  obtain s where s: "find_last (log_text old) (log_text old) 0 = (s, last_when old)" "last_when old = 0 \<longrightarrow> s = log_text old"
    "last_when old > 0 \<longrightarrow> last_lines (last_when old) s {} = lines_at (last_when old) (node_events old)"
    using find_last_text [OF assms(1), of "log_text old" 0] by (auto simp: last_when_def)
  have "0 \<le> last_when old" using fold_max_bounds(2) [of 0] by (simp add: last_when_def)
  then have "last_lines (last_when old) s {} = lines_at (last_when old) (node_events old)"
    using s(2,3) last_lines_text [OF assms(1), of "last_when old" "{}"] by (cases "last_when old = 0") auto
  then show ?thesis using assms(2-6) s(1) by (auto simp: InitializeRecovery_def js_ask_def)
qed

text \<open>The events of a log, written one after the other.\<close>

definition write_events :: "js_env \<Rightarrow> nat \<Rightarrow> js_event list \<Rightarrow> jobstate \<Rightarrow> jobstate res" where
  "write_events e n = foldR (\<lambda>v. Write_info e n (Some (e_when v)) (event_info v))"

definition already_there :: "jobstate \<Rightarrow> js_event \<Rightarrow> bool" where
  "already_there st v \<longleftrightarrow> e_when v < js_lastTimestampWritten st \<or>
     e_when v = js_lastTimestampWritten st \<and> line_of_event v \<in> js_lastTimestampLines st"

lemma Write_event:
  assumes "event_ok v" and "\<forall>k. je_append_ok e k"
  shows "\<exists>st'. Write_info e n (Some (e_when v)) (event_info v) st = Inr st' \<and> already_there st' = already_there st \<and>
    js_text st' = js_text st @ (if already_there st v then [] else line_of_event v @ [CHR 0x0A])"
proof -
  have "e_when v \<noteq> 0" using assms(1) by (simp add: event_ok_def)
  then show ?thesis using assms(2)
    by (auto simp: Write_info_def Write_with_def already_there_def [abs_def] line_of_event_def Let_def js_ask_def print_line_def)
qed

lemma write_events_text:
  assumes "\<forall>v \<in> set vs. event_ok v" and "\<forall>k. je_append_ok e k"
  shows "\<exists>st'. write_events e n vs st = Inr st' \<and> js_text st' = js_text st @ log_text (map Inl (filter (\<lambda>v. \<not> already_there st v) vs))"
  using assms(1)
proof (induction vs arbitrary: st)
  case (Cons v vs)
  obtain st1 where s1: "Write_info e n (Some (e_when v)) (event_info v) st = Inr st1" "already_there st1 = already_there st"
    "js_text st1 = js_text st @ (if already_there st v then [] else line_of_event v @ [CHR 0x0A])"
    using Write_event [OF _ assms(2), of v n st] Cons.prems by auto
  obtain st2 where "write_events e n vs st1 = Inr st2" "js_text st2 = js_text st1 @ log_text (map Inl (filter (\<lambda>v. \<not> already_there st1 v) vs))"
    using Cons by auto
  with s1 show ?case by (simp add: write_events_def)
qed (simp add: write_events_def)

section \<open>Running a rescue DAG\<close>

lemma max_seq_entry:
  assumes "entry_ok x"
  shows "\<exists>m'. max_seq (entry_line x @ CHR 0x0A # r) m = max_seq r m' \<and> m \<le> m' \<and> (case x of Inl v \<Rightarrow> e_seq v \<le> m' | Inr _ \<Rightarrow> True)"
proof (cases x)
  case (Inl v)
  with assms show ?thesis using ParseLine_event [of v]
    by (auto simp: max_seq.simps [of "_ @ _"] readLine_entry [of "Inl v", simplified] event_chomp intro!: exI [of _ "max m (e_seq v)"])
next
  case (Inr l)
  with readLine_entry [OF assms] show ?thesis by (auto simp: max_seq.simps [of "_ @ _"] split: option.splits)
qed

lemma max_seq_text: "\<forall>x \<in> set es. entry_ok x \<Longrightarrow> m \<le> max_seq (log_text es) m \<and> (\<forall>v \<in> set (node_events es). e_seq v \<le> max_seq (log_text es) m)"
proof (induction es arbitrary: m)
  case Nil
  then show ?case by (simp add: max_seq.simps readLine_def)
next
  case (Cons x es)
  obtain m' where m: "max_seq (log_text (x # es)) m = max_seq (log_text es) m'" "m \<le> m'" "case x of Inl v \<Rightarrow> e_seq v \<le> m' | Inr _ \<Rightarrow> True"
    using max_seq_entry [of x "log_text es" m] Cons.prems by auto
  with Cons.IH [of m'] Cons.prems show ?case by (cases x) auto
qed

lemma rescue_sequence_numbers_fresh:
  assumes "\<forall>x \<in> set old. entry_ok x" and "js_text st = log_text old" and "js_logFile st \<noteq> None" and "je_read_ok e (js_asked st)"
  shows "\<exists>st'. InitializeRescue e n st = Inr st' \<and> 1 \<le> js_nextSeqNum st' \<and> (\<forall>v \<in> set (node_events old). e_seq v < js_nextSeqNum st')"
  using assms(2-) max_seq_text [OF assms(1), of 0] by (auto simp: InitializeRescue_def js_ask_def)

section \<open>A log that cannot be written\<close>

definition unwritable :: "js_env \<Rightarrow> jobstate \<Rightarrow> bool" where
  "unwritable e st \<longleftrightarrow> (\<forall>k. \<not> je_append_ok e k) \<and> (\<forall>k. 0 \<le> je_time e k) \<and> js_logFile st \<noteq> None \<and> \<not> js_open st \<and>
     js_lastTimestampWritten st = 0 \<and> js_lastTimestampLines st = {}"

lemma unwritable_ask: "unwritable e (snd (js_ask f st)) = unwritable e st"
  by (simp add: unwritable_def js_ask_def)

lemma Write_unwritable:
  assumes "unwritable e st" and "\<And>st. unwritable e st \<Longrightarrow> g st = Inl x"
  shows "Write_with g e None info st = Inl x"
proof -
  have "unwritable e (snd (js_ask (je_append_ok e) (snd (js_ask (je_time e) st))))" using assms(1) by (simp add: unwritable_ask)
  from assms(2) [OF this] assms(1) show ?thesis
    by (auto simp: Write_with_def js_ask_def unwritable_def not_less split: if_splits)
qed

lemma graceful_unwritable: "unwritable e st \<Longrightarrow> graceful e n st = Inl (Crash ''stack overflow'')"
proof (induction n arbitrary: st)
  case (Suc n)
  have "js_logFile st \<noteq> None" using Suc.prems by (simp add: unwritable_def)
  with Write_unwritable [OF Suc.prems Suc.IH] show ?case by (simp add: WriteDagmanFinished_with_def)
qed simp

section \<open>Properties\<close>


definition sample_event :: "int \<Rightarrow> string \<Rightarrow> js_event" where
  "sample_event t name = \<lparr>e_when = t, e_node = ''A'', e_event = name, e_id = ''1.0'', e_tag = ''-'', e_seq = 1\<rparr>"

definition sample_old :: "log_entry list" where
  "sample_old = [Inr ''5 INTERNAL *** DAGMAN_STARTED 7.0 ***'', Inl (sample_event 6 ''SUBMIT''), Inl (sample_event 8 ''EXECUTE'')]"

definition js_world :: js_env where
  "js_world = \<lparr>je_append_ok = \<lambda>_. True, je_flush_ok = \<lambda>_. True, je_read_ok = \<lambda>_. True, je_time = \<lambda>k. 9\<rparr>"

lemma sample_old_ok: "\<forall>x \<in> set sample_old. entry_ok x"
proof -
  have "other_line ''5 INTERNAL *** DAGMAN_STARTED 7.0 ***''" by code_simp
  then show ?thesis by (simp add: sample_old_def sample_event_def event_ok_def log_word_def is_int32_def)
qed


text \<open>
  C26: If the jobstate log cannot be opened for writing, DAGMan does not shut down: the graceful shutdown writes to the log itself,
  fails again and starts another graceful shutdown, until the stack overflows -- however large it is.
\<close>

theorem jobstate_log_unwritable:
  assumes "\<forall>k. \<not> je_append_ok e k" and "\<forall>k. 0 \<le> je_time e k"
  shows "WriteDagmanStarted e n i (new_JobstateLog (Some name) contents) = Inl (Crash ''stack overflow'')"
proof -
  have u: "unwritable e (new_JobstateLog (Some name) contents)" using assms by (simp add: unwritable_def new_JobstateLog_def)
  from Write_unwritable [OF this graceful_unwritable] show ?thesis by (simp add: WriteDagmanStarted_def Write_info_def new_JobstateLog_def)
qed

theorem jobstate_log_unwritable_witness:
  "WriteDagmanStarted (js_world\<lparr>je_append_ok := \<lambda>_. False\<rparr>) 1000 (CondorID 7 0 0) (new_JobstateLog (Some ''/ro/log'') []) = Inl (Crash ''stack overflow'')"
  using jobstate_log_unwritable [of "js_world\<lparr>je_append_ok := \<lambda>_. False\<rparr>" 1000 "CondorID 7 0 0" "''/ro/log''" "[]"] by (simp add: js_world_def)

end
