(* ===== verification/Logical_Lines.thy ===== *)
theory Logical_Lines
  imports Dag_Parse Text_Words
begin

text \<open>
  The part of \<open>MultiLogFiles\<close> (\<open>read_multiple_logs.cpp\<close>) that reads DAG and submit files line by line: physical lines,
  lines joined at a trailing backslash, and the values that DAGMan and \<open>condor_submit_dag\<close> look up in them, with the
  string operations they use (\<open>StringList\<close>, \<open>MyString::GetNextToken\<close>) and \<open>GetConfigFile\<close> of \<open>dagman_multi_dag.cpp\<close>.

  An error message is \<open>None\<close>, or an empty name where the code returns one. A directory is entered for the time of a
  call and left again, as \<open>TmpDir\<close> does it.
\<close>

section \<open>Lines\<close>

text \<open>\<open>StringList::initializeFromString\<close>: blanks before an item are skipped, those inside and after it are not.\<close>

function string_list :: "(char \<Rightarrow> bool) \<Rightarrow> string \<Rightarrow> string list" where
  "string_list isSeparator s =
     (let s = dropWhile (\<lambda>c. isSeparator c \<or> isspace c) s
      in if s = [] then [] else takeWhile (\<lambda>c. \<not> isSeparator c) s # string_list isSeparator (dropWhile (\<lambda>c. \<not> isSeparator c) s))"
  by pat_completeness auto
termination
proof (relation "measure (\<lambda>(_, s). length s)")
  fix sep :: "char \<Rightarrow> bool" and s t
  assume t: "t = dropWhile (\<lambda>c. sep c \<or> isspace c) s" "t \<noteq> []"
  then have "\<not> sep (hd t)" using hd_dropWhile [of "\<lambda>c. sep c \<or> isspace c" s] by blast
  then have "length (dropWhile (\<lambda>c. \<not> sep c) t) < length t" using t(2) length_dropWhile_le [of "\<lambda>c. \<not> sep c" "tl t"] by (cases t) auto
  also have "\<dots> \<le> length s" using t(1) length_dropWhile_le by blast
  finally show "((sep, dropWhile (\<lambda>c. \<not> sep c) t), sep, s) \<in> measure (\<lambda>(_, s). length s)" by simp
qed simp

declare string_list.simps [simp del]

definition crlf :: "char \<Rightarrow> bool" where
  "crlf c \<longleftrightarrow> c = CHR 0x0D \<or> c = CHR 0x0A"

definition blank_or_tab :: "char \<Rightarrow> bool" where
  "blank_or_tab c \<longleftrightarrow> c = CHR '' '' \<or> c = CHR 0x09"

definition continues :: "string \<Rightarrow> bool" where
  "continues l \<longleftrightarrow> l \<noteq> [] \<and> last l = CHR 0x5C"

text \<open>The inner loop: the logical line and the physical lines after it.\<close>

fun combine_line :: "string list \<Rightarrow> string \<Rightarrow> (string \<times> string list) option" where
  "combine_line [] logicalLine = (if continues logicalLine then None else Some (logicalLine, []))"
| "combine_line (physicalLine # listIn) logicalLine =
     (if continues logicalLine then combine_line listIn (butlast logicalLine @ physicalLine) else Some (logicalLine, physicalLine # listIn))"

lemma combine_line_shorter: "combine_line ps l = Some (l', rest) \<Longrightarrow> length rest \<le> length ps"
  by (induction ps l rule: combine_line.induct) (fastforce split: if_splits)+

function CombineLines :: "string list \<Rightarrow> string list option" where
  "CombineLines [] = Some []"
| "CombineLines (physicalLine # listIn) =
     (case combine_line listIn physicalLine of
        None \<Rightarrow> None
      | Some (logicalLine, listIn) \<Rightarrow> map_option ((#) logicalLine) (CombineLines listIn))"
  by pat_completeness auto
termination
  by (relation "measure length") (auto dest: combine_line_shorter simp: le_imp_less_Suc)

text \<open>The contents of a file up to a null byte; a file that cannot be read counts as empty.\<close>

definition readFileToString :: "(string \<Rightarrow> string option) \<Rightarrow> string \<Rightarrow> string" where
  "readFileToString contents f = (case contents f of None \<Rightarrow> [] | Some t \<Rightarrow> takeWhile (\<lambda>c. c \<noteq> CHR 0x00) t)"

definition fileNameToLogicalLines :: "(string \<Rightarrow> string option) \<Rightarrow> string \<Rightarrow> string list option" where
  "fileNameToLogicalLines contents f =
     (let fileContents = readFileToString contents f in if fileContents = [] then None else CombineLines (string_list crlf fileContents))"

section \<open>Values\<close>

text \<open>\<open>GetNextToken\<close> that skips blank tokens; \<open>None\<close> as the unread text is the null pointer.\<close>

function GetNextToken_skip :: "char \<Rightarrow> string option \<Rightarrow> string option \<times> string option" where
  "GetNextToken_skip delim None = (None, None)"
| "GetNextToken_skip delim (Some s) =
     (let result = takeWhile (\<lambda>c. c \<noteq> delim) s;
          nextToken = (case dropWhile (\<lambda>c. c \<noteq> delim) s of [] \<Rightarrow> None | _ # rest \<Rightarrow> Some rest)
      in if result = [] then GetNextToken_skip delim nextToken else (Some result, nextToken))"
  by pat_completeness auto
termination
proof (relation "measure (\<lambda>(_, next). case next of None \<Rightarrow> 0 | Some s \<Rightarrow> Suc (length s))")
  fix delim :: char and s r n
  assume "n = (case dropWhile (\<lambda>c. c \<noteq> delim) s of [] \<Rightarrow> None | _ # rest \<Rightarrow> Some rest)"
  then show "((delim, n), delim, Some s) \<in> measure (\<lambda>(_, next). case next of None \<Rightarrow> 0 | Some s \<Rightarrow> Suc (length s))"
    using length_dropWhile_le [of "\<lambda>c. c \<noteq> delim" s] by (cases "dropWhile (\<lambda>c. c \<noteq> delim) s") simp_all
qed simp

definition getParamFromSubmitLine :: "string \<Rightarrow> string \<Rightarrow> string" where
  "getParamFromSubmitLine submitLine paramName =
     (case GetNextToken_skip CHR ''='' (if submitLine = [] then None else Some submitLine) of
        (None, _) \<Rightarrow> []
      | (Some token, next) \<Rightarrow>
          if strcaseeq (trim token) paramName then
            (case fst (GetNextToken_skip CHR ''='' next) of None \<Rightarrow> [] | Some value \<Rightarrow> trim value)
          else [])"

text \<open>The last line with a value counts.\<close>

definition last_param :: "string \<Rightarrow> string list \<Rightarrow> string" where
  "last_param paramName logicalLines =
     fold (\<lambda>line value. let tmp = getParamFromSubmitLine line paramName in if tmp \<noteq> [] then tmp else value) logicalLines []"

definition fullpath :: "string \<Rightarrow> bool" where
  "fullpath path \<longleftrightarrow>
     (case path of
        [] \<Rightarrow> False
      | c # cs \<Rightarrow> c = CHR ''/'' \<or> c = CHR 0x5C \<or>
          (case cs of c1 # c2 # _ \<Rightarrow> c1 = CHR '':'' \<and> (c2 = CHR 0x5C \<or> c2 = CHR ''/'') | _ \<Rightarrow> False))"

text \<open>\<open>cwd\<close> is the working directory, if it can be found.\<close>

definition MakePathAbsolute :: "string option \<Rightarrow> string \<Rightarrow> string option" where
  "MakePathAbsolute cwd filePath =
     (if fullpath filePath then Some filePath else map_option (\<lambda>d. d @ ''/'' @ filePath) cwd)"

definition getcwd :: "files \<Rightarrow> string \<Rightarrow> string option" where
  "getcwd fs cwd = (if f_getcwd_ok fs cwd then Some cwd else None)"

text \<open>A call in another directory: \<open>None\<close> if it cannot be entered.\<close>

definition in_directory :: "files \<Rightarrow> string \<Rightarrow> string \<Rightarrow> (string \<Rightarrow> 'a) \<Rightarrow> 'a option res" where
  "in_directory fs cwd dir body =
     (if dir = '''' \<or> dir = ''.'' then Inr (Some (body cwd))
      else if \<not> f_getcwd_ok fs cwd then Inl (EXCEPT ''Unable to get current directory!'')
      else
        (case f_chdir fs cwd dir of
           None \<Rightarrow> Inr None
         | Some cwd' \<Rightarrow>
             if f_chdir fs cwd' cwd = None then Inl (EXCEPT ''Unable to chdir() to original directory!'')
             else Inr (Some (body cwd'))))"

text \<open>The name of the log file, empty if there is none, and whether it is in XML, as far as the function says so.\<close>

definition loadLogFileNameFromSubFile :: "files \<Rightarrow> string \<Rightarrow> string \<Rightarrow> string \<Rightarrow> (string \<times> bool option) res" where
  "loadLogFileNameFromSubFile fs cwd strSubFilename dir =
     bindR (in_directory fs cwd dir (\<lambda>cwd.
       (case fileNameToLogicalLines (f_fopen fs cwd) strSubFilename of
          None \<Rightarrow> ([], None)
        | Some logicalLines \<Rightarrow>
            (let logFileName = last_param ''log'' logicalLines; initialDir = last_param ''initialdir'' logicalLines;
                 isXml = (map tolower (last_param ''log_xml'' logicalLines) = ''true'');
                 logFileName = (if strstr logFileName ''$('' \<noteq> None then [] else logFileName)
             in if logFileName = [] then ([], Some isXml)
                else
                  (let logFileName = (if initialDir \<noteq> [] \<and> \<not> fullpath logFileName then initialDir @ ''/'' @ logFileName else logFileName)
                   in case MakePathAbsolute (getcwd fs cwd) logFileName of None \<Rightarrow> ([], None) | Some path \<Rightarrow> (path, Some isXml))))))
       (\<lambda>r. Inr (case r of None \<Rightarrow> ([], None) | Some x \<Rightarrow> x))"

definition loadValueFromSubFile :: "files \<Rightarrow> string \<Rightarrow> string \<Rightarrow> string \<Rightarrow> string \<Rightarrow> string res" where
  "loadValueFromSubFile fs cwd strSubFilename dir keyword =
     bindR (in_directory fs cwd dir (\<lambda>cwd.
       (case fileNameToLogicalLines (f_fopen fs cwd) strSubFilename of
          None \<Rightarrow> []
        | Some logicalLines \<Rightarrow> (let value = last_param keyword logicalLines in if strchr value CHR ''$'' \<noteq> None then [] else value))))
       (\<lambda>r. Inr (case r of None \<Rightarrow> [] | Some x \<Rightarrow> x))"

definition atoi :: "string \<Rightarrow> int" where
  "atoi s = int_of_long (fst (strtol s))"

definition queue_count :: "string \<Rightarrow> int \<Rightarrow> int" where
  "queue_count submitLine queueCount =
     (case GetNextToken_skip CHR '' '' (if submitLine = [] then None else Some submitLine) of
        (None, _) \<Rightarrow> queueCount
      | (Some token, next) \<Rightarrow>
          if strcaseeq (trim token) ''queue'' then
            (case fst (GetNextToken_skip CHR '' '' next) of None \<Rightarrow> queueCount + 1 | Some rawToken \<Rightarrow> queueCount + atoi rawToken)
          else queueCount)"

text \<open>The path with the directory is computed and not used.\<close>

definition getQueueCountFromSubmitFile :: "(string \<Rightarrow> string option) \<Rightarrow> string \<Rightarrow> string \<Rightarrow> int" where
  "getQueueCountFromSubmitFile contents strSubFilename dir =
     (let fullpath = (if dir \<noteq> [] then dir @ ''/'' @ strSubFilename else strSubFilename)
      in case fileNameToLogicalLines contents strSubFilename of
           None \<Rightarrow> -1
         | Some logicalLines \<Rightarrow> fold queue_count logicalLines 0)"

definition value_of_line :: "string \<Rightarrow> nat \<Rightarrow> string \<Rightarrow> string list \<Rightarrow> string list option res" where
  "value_of_line keyword skipTokens logicalLine vals =
     (if logicalLine = [] then Inr (Some vals)
      else
        (case string_list blank_or_tab logicalLine of
           [] \<Rightarrow> Inl (Crash ''strcasecmp( tokens.next(), keyword )'')
         | first # tokens \<Rightarrow>
             if strcaseeq first keyword then
               (if length tokens < skipTokens then Inr None
                else
                  (case drop skipTokens tokens of
                     [] \<Rightarrow> Inr None
                   | newValue # _ \<Rightarrow>
                       if newValue = [] then Inr None else Inr (Some (if newValue \<in> set vals then vals else vals @ [newValue]))))
             else Inr (Some vals)))"

text \<open>The result is \<open>None\<close> with an error message; then the values before the bad line are in the list.\<close>

fun values_loop :: "string \<Rightarrow> nat \<Rightarrow> string list \<Rightarrow> string list \<Rightarrow> (bool \<times> string list) res" where
  "values_loop keyword skipTokens [] vals = Inr (True, vals)"
| "values_loop keyword skipTokens (logicalLine # logicalLines) vals =
     bindR (value_of_line keyword skipTokens logicalLine vals) (\<lambda>r.
       case r of None \<Rightarrow> Inr (False, vals) | Some vals \<Rightarrow> values_loop keyword skipTokens logicalLines vals)"

definition getValuesFromFile :: "(string \<Rightarrow> string option) \<Rightarrow> string \<Rightarrow> string \<Rightarrow> string list \<Rightarrow> nat \<Rightarrow> (bool \<times> string list) res" where
  "getValuesFromFile contents f keyword vals skipTokens =
     (case fileNameToLogicalLines contents f of
        None \<Rightarrow> Inr (False, vals)
      | Some logicalLines \<Rightarrow> values_loop keyword skipTokens logicalLines vals)"

section \<open>The configuration file of a DAG\<close>

definition merge_config :: "string option \<Rightarrow> string \<Rightarrow> bool \<times> string \<Rightarrow> bool \<times> string" where
  "merge_config cwd cfgFile s =
     (case s of (result, configFile) \<Rightarrow>
        case MakePathAbsolute cwd cfgFile of
          None \<Rightarrow> (False, configFile)
        | Some cfgFileMS \<Rightarrow>
            if configFile = [] then (result, cfgFileMS)
            else if configFile \<noteq> cfgFileMS then (False, configFile) else (result, configFile))"

text \<open>A directory that cannot be entered ends the loop.\<close>

fun GetConfigFile :: "files \<Rightarrow> string \<Rightarrow> bool \<Rightarrow> string list \<Rightarrow> bool \<times> string \<Rightarrow> (bool \<times> string) res" where
  "GetConfigFile fs cwd useDagDir [] s = Inr s"
| "GetConfigFile fs cwd useDagDir (dag_file # dagFiles) s =
     (let dir = (if useDagDir then condor_dirname dag_file else ''.'');
          newDagFile = (if useDagDir then condor_basename dag_file else dag_file)
      in bindR (in_directory fs cwd dir (\<lambda>cwd.
           bindR (getValuesFromFile (f_fopen fs cwd) newDagFile ''config'' [] 0) (\<lambda>(ok, configFiles).
             Inr (fold (merge_config (getcwd fs cwd)) configFiles (fst s \<and> ok, snd s))))) (\<lambda>r.
         case r of
           None \<Rightarrow> Inr (False, snd s)
         | Some r \<Rightarrow> bindR r (GetConfigFile fs cwd useDagDir dagFiles)))"

section \<open>Text that is written to be read by these functions\<close>

text \<open>A line that stays one physical line, and lines broken into pieces.\<close>

definition physical :: "string \<Rightarrow> bool" where
  "physical l \<longleftrightarrow> l \<noteq> [] \<and> \<not> isspace (hd l) \<and> (\<forall>c \<in> set l. \<not> crlf c)"

definition text_of_lines :: "string list \<Rightarrow> string" where
  "text_of_lines ls = concat (map (\<lambda>l. l @ [CHR 0x0A]) ls)"

fun wrapped :: "string list \<Rightarrow> string list" where
  "wrapped [] = []"
| "wrapped [p] = [p]"
| "wrapped (p # q # ps) = (p @ [CHR 0x5C]) # wrapped (q # ps)"

lemma text_of_lines_simps [simp]: "text_of_lines [] = []" "text_of_lines (l # ls) = l @ CHR 0x0A # text_of_lines ls"
  by (simp_all add: text_of_lines_def)

lemma string_list_newline [simp]: "string_list crlf (CHR 0x0A # s) = string_list crlf s"
  by (subst (1 2) string_list.simps) (simp add: crlf_def)

lemma string_list_lines: "\<forall>l \<in> set ls. physical l \<Longrightarrow> string_list crlf (text_of_lines ls) = ls"
proof (induction ls)
  case Nil
  show ?case by (subst string_list.simps) simp
next
  case (Cons l ls)
  let ?t = "l @ CHR 0x0A # text_of_lines ls"
  have l: "l \<noteq> []" "\<not> isspace (hd l)" "\<forall>c \<in> set l. \<not> crlf c" using Cons.prems by (simp_all add: physical_def)
  have d: "dropWhile (\<lambda>c. crlf c \<or> isspace c) ?t = ?t" using l by (cases l) simp_all
  have w: "takeWhile (\<lambda>c. \<not> crlf c) ?t = l" "dropWhile (\<lambda>c. \<not> crlf c) ?t = CHR 0x0A # text_of_lines ls"
    using l(3) by (simp_all add: takeWhile_append dropWhile_append crlf_def)
  have "string_list crlf ?t = l # string_list crlf (CHR 0x0A # text_of_lines ls)"
    by (subst string_list.simps) (simp only: d w Let_def, simp)
  then show ?case using Cons by simp
qed

lemma combine_wrapped:
  "ps \<noteq> [] \<Longrightarrow> last ps \<noteq> [] \<Longrightarrow> \<not> continues (last ps) \<Longrightarrow>
    combine_line (tl (wrapped ps) @ rest) (pre @ hd (wrapped ps)) = Some (pre @ concat ps, rest)"
proof (induction ps arbitrary: pre rule: wrapped.induct)
  case (2 p)
  then show ?case by (cases rest) (auto simp: continues_def)
next
  case (3 p q ps)
  have w: "wrapped (q # ps) = hd (wrapped (q # ps)) # tl (wrapped (q # ps))" by (cases ps) simp_all
  have "combine_line (wrapped (q # ps) @ rest) (pre @ p @ [CHR 0x5C]) = combine_line (tl (wrapped (q # ps)) @ rest) ((pre @ p) @ hd (wrapped (q # ps)))"
    by (subst w) (simp add: continues_def butlast_append)
  also have "\<dots> = Some ((pre @ p) @ concat (q # ps), rest)" using 3 by (intro "3.IH") simp_all
  finally show ?case by simp
qed simp

lemma CombineLines_wrapped:
  assumes "\<forall>ps \<in> set pss. ps \<noteq> [] \<and> last ps \<noteq> [] \<and> \<not> continues (last ps)"
  shows "CombineLines (concat (map wrapped pss)) = Some (map concat pss)"
  using assms
proof (induction pss)
  case (Cons ps pss)
  have w: "wrapped ps = hd (wrapped ps) # tl (wrapped ps)" using Cons.prems by (cases ps rule: wrapped.cases) simp_all
  have "combine_line (tl (wrapped ps) @ concat (map wrapped pss)) (hd (wrapped ps)) = Some (concat ps, concat (map wrapped pss))"
    using combine_wrapped [of ps _ "[]"] Cons.prems by simp
  then have "CombineLines (hd (wrapped ps) # tl (wrapped ps) @ concat (map wrapped pss)) = Some (concat ps # map concat pss)"
    using Cons by simp
  then show ?case using w by (metis append_Cons concat.simps(2) list.simps(9))
qed simp

text \<open>
  Wherever lines are broken by a backslash, the same logical lines are read -- as long as no piece begins
  with a blank, which is lost at the break.
\<close>

theorem wrapped_lines_read_back:
  assumes "\<forall>ps \<in> set pss. ps \<noteq> [] \<and> (\<forall>p \<in> set ps. physical p) \<and> last (last ps) \<noteq> CHR 0x5C" and "pss \<noteq> []"
    and "contents f = Some (text_of_lines (concat (map wrapped pss)))" and "\<forall>ps \<in> set pss. \<forall>p \<in> set ps. CHR 0x00 \<notin> set p"
  shows "fileNameToLogicalLines contents f = Some (map concat pss)"
proof -
  have ph: "physical p \<Longrightarrow> physical (p @ [CHR 0x5C])" for p by (auto simp: physical_def crlf_def)
  have pieces: "\<forall>l \<in> set (wrapped ps). physical l \<and> CHR 0x00 \<notin> set l" if "\<forall>p \<in> set ps. physical p \<and> CHR 0x00 \<notin> set p" for ps
    using that by (induction ps rule: wrapped.induct) (auto intro: ph)
  let ?ls = "concat (map wrapped pss)"
  have ls: "\<forall>l \<in> set ?ls. physical l \<and> CHR 0x00 \<notin> set l" using pieces assms(1,4) unfolding set_concat set_map by blast
  have "CHR 0x00 \<notin> set (text_of_lines ?ls)" using ls by (auto simp: text_of_lines_def)
  then have t: "takeWhile (\<lambda>c. c \<noteq> CHR 0x00) (text_of_lines ?ls) = text_of_lines ?ls" by (auto simp: takeWhile_eq_all_conv)
  have "wrapped ps \<noteq> []" if "ps \<noteq> []" for ps using that by (cases ps rule: wrapped.cases) simp_all
  then have "?ls \<noteq> []" using assms(1,2) by (cases pss) simp_all
  then have ne: "text_of_lines ?ls \<noteq> []" by (cases ?ls) simp_all
  have "physical (last ps)" if "ps \<in> set pss" for ps using assms(1) that last_in_set by blast
  then have c: "\<forall>ps \<in> set pss. ps \<noteq> [] \<and> last ps \<noteq> [] \<and> \<not> continues (last ps)"
    using assms(1) unfolding continues_def physical_def by blast
  show ?thesis unfolding fileNameToLogicalLines_def readFileToString_def assms(3) Let_def
    using CombineLines_wrapped [OF c] string_list_lines [of ?ls] ls by (simp add: t ne)
qed

section \<open>What is looked up\<close>

declare GetNextToken_skip.simps [simp del]

lemma GetNextToken_skip_word:
  assumes "w \<noteq> []" and "delim \<notin> set w"
  shows "GetNextToken_skip delim (Some w) = (Some w, None)" and "GetNextToken_skip delim (Some (w @ delim # rest)) = (Some w, Some rest)"
proof -
  have t: "takeWhile (\<lambda>c. c \<noteq> delim) w = w" "dropWhile (\<lambda>c. c \<noteq> delim) w = []"
    "takeWhile (\<lambda>c. c \<noteq> delim) (w @ delim # rest) = w" "dropWhile (\<lambda>c. c \<noteq> delim) (w @ delim # rest) = delim # rest"
    using assms(2) by (auto simp: takeWhile_append dropWhile_append takeWhile_eq_all_conv)
  show "GetNextToken_skip delim (Some w) = (Some w, None)" "GetNextToken_skip delim (Some (w @ delim # rest)) = (Some w, Some rest)"
    unfolding GetNextToken_skip.simps t Let_def using assms(1) by simp_all
qed

lemma getParam_value:
  assumes "n \<noteq> []" and "CHR ''='' \<notin> set n" and "v \<noteq> []" and "CHR ''='' \<notin> set v"
  shows "getParamFromSubmitLine (n @ CHR ''='' # v) paramName = (if strcaseeq (trim n) paramName then trim v else [])"
  using GetNextToken_skip_word(2) [OF assms(1,2), of v] GetNextToken_skip_word(1) [OF assms(3,4)]
  by (simp add: getParamFromSubmitLine_def)

text \<open>The lines of a file never begin with a blank, so a token is always there.\<close>

definition unblank :: "string \<Rightarrow> bool" where
  "unblank l \<longleftrightarrow> l \<noteq> [] \<and> \<not> isspace (hd l)"

lemma string_list_unblank: "\<forall>l \<in> set (string_list sep s). unblank l"
proof (induction sep s rule: string_list.induct)
  case (1 sep s)
  let ?s = "dropWhile (\<lambda>c. sep c \<or> isspace c) s"
  show ?case
  proof (cases "?s = []")
    case True
    then show ?thesis by (subst string_list.simps) (simp only: Let_def, simp)
  next
    case False
    then have "\<not> sep (hd ?s) \<and> \<not> isspace (hd ?s)" using hd_dropWhile [of "\<lambda>c. sep c \<or> isspace c" s] by blast
    then have "unblank (takeWhile (\<lambda>c. \<not> sep c) ?s)" using False by (cases ?s) (simp_all add: unblank_def)
    moreover have "string_list sep s = takeWhile (\<lambda>c. \<not> sep c) ?s # string_list sep (dropWhile (\<lambda>c. \<not> sep c) ?s)"
      using False by (subst string_list.simps) (simp only: Let_def if_False)
    ultimately show ?thesis using 1 [OF refl False] by simp
  qed
qed

lemma combine_line_unblank:
  "combine_line ps l = Some (l', rest) \<Longrightarrow> \<forall>p \<in> set ps. unblank p \<Longrightarrow> unblank l \<Longrightarrow> unblank l' \<and> (\<forall>p \<in> set rest. unblank p)"
proof (induction ps l rule: combine_line.induct)
  case (2 p ps l)
  have "unblank (butlast l @ p)" if "continues l"
    using 2(3,4) that by (cases l) (auto simp: unblank_def)
  then show ?case using 2 by (auto split: if_splits)
qed (auto split: if_splits)

lemma CombineLines_unblank: "CombineLines ps = Some ls \<Longrightarrow> \<forall>p \<in> set ps. unblank p \<Longrightarrow> \<forall>l \<in> set ls. unblank l"
proof (induction ps arbitrary: ls rule: CombineLines.induct)
  case (2 p ps)
  then obtain l rest ls' where l: "combine_line ps p = Some (l, rest)" "CombineLines rest = Some ls'" "ls = l # ls'"
    by (auto split: option.splits)
  have u: "unblank l \<and> (\<forall>p \<in> set rest. unblank p)" using combine_line_unblank [OF l(1)] "2.prems"(2) by simp
  have "\<forall>l \<in> set ls'. unblank l" using "2.IH" [OF l(1) refl l(2)] u by blast
  then show ?case using u l(3) by simp
qed simp

lemma logical_lines_unblank: "fileNameToLogicalLines contents f = Some ls \<Longrightarrow> \<forall>l \<in> set ls. unblank l"
  using CombineLines_unblank string_list_unblank by (auto simp: fileNameToLogicalLines_def Let_def split: if_splits)

lemma first_token: "unblank l \<Longrightarrow> string_list blank_or_tab l \<noteq> []"
proof -
  assume "unblank l"
  then have "dropWhile (\<lambda>c. blank_or_tab c \<or> isspace c) l = l" "l \<noteq> []"
    by (cases l; auto simp: unblank_def blank_or_tab_def isspace_def)+
  then show ?thesis by (subst string_list.simps) (simp only: Let_def, simp)
qed

lemma getValuesFromFile_returns: "\<exists>r. getValuesFromFile contents f keyword vals n = Inr r"
proof -
  have "\<exists>r. values_loop keyword n ls vals = Inr r" if "\<forall>l \<in> set ls. unblank l" for ls
    using that
  proof (induction ls arbitrary: vals)
    case Nil
    show ?case unfolding values_loop.simps by blast
  next
    case (Cons l ls)
    obtain r where "value_of_line keyword n l vals = Inr r"
      using first_token [of l] Cons.prems by (fastforce simp: value_of_line_def unblank_def split: list.splits if_splits)
    moreover have "\<exists>x. values_loop keyword n ls vals' = Inr x" for vals' using Cons by simp
    ultimately show ?case by (cases r) auto
  qed
  then show ?thesis using logical_lines_unblank by (auto simp: getValuesFromFile_def split: option.splits)
qed

lemma queue_count_ignores_dir: "getQueueCountFromSubmitFile contents f dir = getQueueCountFromSubmitFile contents f []"
  by (simp add: getQueueCountFromSubmitFile_def)

end
