(* ===== verification/Output_Files.thy ===== *)
theory Output_Files
  imports Dag_Graph
begin

text \<open>
  The files that DAGMan writes for others to read: the node status file and the dot file (\<open>dag.cpp\<close>). Both are written under
  a temporary name first. An operation gives the sequence of the changes it makes to the disk, so that what
  another process may see in between can be stated. The answers of the system (the clock, whether a file can be created
  and renamed, the text of a time in the local time zone) are in \<open>out_env\<close>.
\<close>

type_synonym disk = "string \<Rightarrow> string option"

datatype disk_op = Unlink string | Create string | Print string string | Rename string string

fun apply_op :: "disk_op \<Rightarrow> disk \<Rightarrow> disk" where
  "apply_op (Unlink f) disk = disk(f := None)"
| "apply_op (Create f) disk = disk(f \<mapsto> [])"
| "apply_op (Print f s) disk = disk(f := map_option (\<lambda>t. t @ s) (disk f))"
| "apply_op (Rename f g) disk = (case disk f of None \<Rightarrow> disk | Some t \<Rightarrow> disk(f := None, g \<mapsto> t))"

abbreviation apply_ops :: "disk_op list \<Rightarrow> disk \<Rightarrow> disk" where
  "apply_ops \<equiv> fold apply_op"

record out_env =
  oe_start :: int
  oe_end :: int
  oe_fopen_ok :: bool
  oe_rename_ok :: bool
  oe_ctime :: "int \<Rightarrow> string"

definition time_text :: "out_env \<Rightarrow> int \<Rightarrow> string" where
  "time_text e t = takeWhile (\<lambda>c. c \<noteq> CHR 0x0A) (oe_ctime e t)"

definition time_line :: "out_env \<Rightarrow> int \<Rightarrow> string" where
  "time_line e t = string_of_nat (nat (t mod 2 ^ 64)) @ '' ('' @ time_text e t @ '')'' @ [CHR 0x0A]"

section \<open>The node status file\<close>

definition node_status_line :: "job \<Rightarrow> string" where
  "node_status_line j =
     (let statusStr = (if Status j = STATUS_READY \<and> \<not> CanSubmit j then ''STATUS_UNREADY  '' else status_name (Status j));
          nodeNote = (case Status j of
              STATUS_SUBMITTED \<Rightarrow> if isIdle j then ''idle'' else ''not_idle''
            | STATUS_ERROR \<Rightarrow> error_text j
            | _ \<Rightarrow> [])
      in ''JOB '' @ jobName j @ '' '' @ statusStr @ '' ('' @ nodeNote @ '')'' @ [CHR 0x0A])"

definition overall_status :: "bool \<Rightarrow> bool \<Rightarrow> Dag \<Rightarrow> status_t \<times> string" where
  "overall_status held removed d =
     (if DoneSuccess d then (STATUS_DONE, ''success'')
      else if DoneFailed d then (STATUS_ERROR, ''failed'')
      else if DoneCycle d then (STATUS_ERROR, ''cycle'')
      else if held then (STATUS_SUBMITTED, ''held'')
      else if removed then (STATUS_ERROR, ''removed'')
      else (STATUS_SUBMITTED, []))"

definition status_prints :: "out_env \<Rightarrow> bool \<Rightarrow> bool \<Rightarrow> string list \<Rightarrow> Dag \<Rightarrow> string list" where
  "status_prints e held removed dagFiles d =
     [''BEGIN '' @ time_line e (oe_start e), ''Status of nodes of DAG(s): ''] @ map (\<lambda>f. f @ '' '') dagFiles @ [[CHR 0x0A, CHR 0x0A]] @
     map (\<lambda>i. node_status_line (node_at d i)) (d_jobs d) @
     (case overall_status held removed d of (dagStatus, statusNote) \<Rightarrow>
        [CHR 0x0A # ''DAG status: '' @ status_name dagStatus @ '' ('' @ statusNote @ '')'' @ [CHR 0x0A]]) @
     [''Next scheduled update: '',
      if FinishedRunning d \<or> removed then ''none'' @ [CHR 0x0A] else time_line e (oe_end e + d_minStatusUpdateTime d),
      ''END '' @ time_line e (oe_end e)]"

text \<open>The result: the changes to the disk, the new \<open>_lastStatusUpdateTimestamp\<close>, the new state.\<close>

definition DumpNodeStatus :: "out_env \<Rightarrow> bool \<Rightarrow> bool \<Rightarrow> string list \<Rightarrow> int \<Rightarrow> Dag \<Rightarrow> disk_op list \<times> int \<times> Dag" where
  "DumpNodeStatus e held removed dagFiles lastUpdate d =
     (case d_statusFileName d of
        None \<Rightarrow> ([], lastUpdate, d)
      | Some file \<Rightarrow>
          if \<not> d_statusFileOutdated d \<and> \<not> held \<and> \<not> removed then ([], lastUpdate, d)
          else
            (let startTime = oe_start e;
                 tooSoon = (d_minStatusUpdateTime d > 0 \<and> startTime - lastUpdate < d_minStatusUpdateTime d)
             in if tooSoon \<and> \<not> held \<and> \<not> removed \<and> \<not> FinishedRunning d then ([], lastUpdate, d)
                else
                  (let tmp = file @ ''.tmp'' in
                   if \<not> oe_fopen_ok e then ([Unlink tmp], lastUpdate, d)
                   else
                     (let ops = Unlink tmp # Create tmp # map (Print tmp) (status_prints e held removed dagFiles d) in
                      if \<not> oe_rename_ok e then (ops, lastUpdate, d)
                      else (ops @ [Rename tmp file], startTime, d\<lparr>d_statusFileOutdated := False\<rparr>)))))"

section \<open>The dot file\<close>

definition quoted :: "string \<Rightarrow> string" where
  "quoted s = CHR 0x22 # s @ [CHR 0x22]"

definition dot_node_line :: "job \<Rightarrow> string" where
  "dot_node_line j =
     ''    '' @ quoted (jobName j) @
     (case Status j of
        STATUS_READY \<Rightarrow> '' [shape=ellipse label='' @ quoted (jobName j @ '' (I)'') @ ''];''
      | STATUS_PRERUN \<Rightarrow> '' [shape=ellipse label='' @ quoted (jobName j @ '' (Pre)'') @ '' style=dotted];''
      | STATUS_SUBMITTED \<Rightarrow> '' [shape=ellipse label='' @ quoted (jobName j @ '' (R)'') @ '' peripheries=2];''
      | STATUS_POSTRUN \<Rightarrow> '' [shape=ellipse label='' @ quoted (jobName j @ '' (Post)'') @ '' style=dotted];''
      | STATUS_DONE \<Rightarrow> '' [shape=ellipse label='' @ quoted (jobName j @ '' (Done)'') @ '' style=bold];''
      | STATUS_ERROR \<Rightarrow> '' [shape=box label='' @ quoted (jobName j @ '' (E)'') @ ''];'') @ [CHR 0x0A]"

definition DumpDotFileNodes :: "Dag \<Rightarrow> string list" where
  "DumpDotFileNodes d = map (\<lambda>i. dot_node_line (node_at d i)) (d_jobs d) @ [[CHR 0x0A]]"

definition dot_arc_line :: "Dag \<Rightarrow> JobID_t \<Rightarrow> JobID_t \<Rightarrow> string" where
  "dot_arc_line d parent child =
     ''    '' @ quoted (jobName (node_at d parent)) @ '' -> '' @ quoted (jobName (node_at d child)) @ '';'' @ [CHR 0x0A]"

definition DumpDotFileArcs :: "Dag \<Rightarrow> string list res" where
  "DumpDotFileArcs d =
     foldR (\<lambda>parent lines.
       foldR (\<lambda>q lines. bindR (FindNodeByNodeID q d) (\<lambda>child.
          case child of None \<Rightarrow> Inl (Crash ''child->GetJobName()'') | Some c \<Rightarrow> Inr (lines @ [dot_arc_line d parent c])))
         (sorted_list_of_set (queue_of d parent Q_CHILDREN)) lines)
       (d_jobs d) []"

text \<open>The contents of the include file are \<open>None\<close> if there is none or it cannot be opened; copying them in pieces of at most 99 bytes is one change here.\<close>

definition IncludeExtraDotCommands :: "string \<Rightarrow> string option \<Rightarrow> string list" where
  "IncludeExtraDotCommands include_file contents =
     (case contents of
        None \<Rightarrow> []
      | Some s \<Rightarrow> [''// Beginning of commands included from '' @ include_file @ ''.'' @ [CHR 0x0A], s,
                   ''// End of commands included from '' @ include_file @ ''.'' @ [CHR 0x0A, CHR 0x0A]])"

partial_function (option) unused_suffix :: "disk \<Rightarrow> string \<Rightarrow> int \<Rightarrow> int option" where
  "unused_suffix disk name suffix =
     (if disk (name @ ''.'' @ string_of_int suffix) \<noteq> None then unused_suffix disk name (suffix + 1) else Some suffix)"

text \<open>The name, and the next \<open>_dot_file_name_suffix\<close>; \<open>None\<close> if the loop does not end.\<close>

definition ChooseDotFileName :: "disk \<Rightarrow> bool \<Rightarrow> string \<Rightarrow> int \<Rightarrow> (string \<times> int) option" where
  "ChooseDotFileName disk overwrite name suffix =
     (if overwrite then Some (name, suffix)
      else map_option (\<lambda>k. (name @ ''.'' @ string_of_int k, k + 1)) (unused_suffix disk name suffix))"

definition dot_prints :: "out_env \<Rightarrow> string \<Rightarrow> string option \<Rightarrow> Dag \<Rightarrow> string list res" where
  "dot_prints e include_file contents d =
     bindR (DumpDotFileArcs d) (\<lambda>arcs.
       Inr ([''digraph DAG {'' @ [CHR 0x0A],
             ''    label='' @ quoted (''DAGMan Job status at '' @ time_text e (oe_start e)) @ '';'' @ [CHR 0x0A, CHR 0x0A]] @
            IncludeExtraDotCommands include_file contents @ DumpDotFileNodes d @ arcs @ [''}'' @ [CHR 0x0A]]))"

definition DumpDotFile ::
  "out_env \<Rightarrow> disk \<Rightarrow> string option \<Rightarrow> bool \<Rightarrow> string \<Rightarrow> string option \<Rightarrow> int \<Rightarrow> Dag \<Rightarrow> (disk_op list \<times> int) res option"
where
  "DumpDotFile e disk dot_file_name overwrite include_file contents suffix d =
     (case dot_file_name of
        None \<Rightarrow> Some (Inr ([], suffix))
      | Some name \<Rightarrow>
          map_option (\<lambda>(current, suffix).
            (let temp = current @ ''.temp'' in
             if \<not> oe_fopen_ok e then Inr ([Unlink temp], suffix)
             else
               bindR (dot_prints e include_file contents d) (\<lambda>lines.
                 Inr (Unlink temp # Create temp # map (Print temp) lines @ [Unlink current] @
                        (if oe_rename_ok e then [Rename temp current] else []), suffix))))
            (ChooseDotFileName disk overwrite name suffix))"

section \<open>What is on the disk in between\<close>

fun touches :: "disk_op \<Rightarrow> string set" where
  "touches (Unlink f) = {f}" | "touches (Create f) = {f}" | "touches (Print f s) = {f}" | "touches (Rename f g) = {f, g}"

lemma untouched: "g \<notin> (\<Union>op \<in> set ops. touches op) \<Longrightarrow> apply_ops ops disk g = disk g"
proof (induction ops arbitrary: disk)
  case (Cons op ops)
  then show ?case by (cases op) (auto split: option.splits)
qed simp

lemma apply_prints: "apply_ops (map (Print f) ss) disk = disk(f := map_option (\<lambda>t. t @ concat ss) (disk f))"
  by (induction ss arbitrary: disk) (auto simp: option.map_comp comp_def option.map_ident)

lemma apply_take_untouched:
  assumes "g \<notin> (\<Union>op \<in> set ops. touches op)"
  shows "apply_ops (take k ops) disk g = disk g"
  by (rule untouched) (use assms in_set_takeD in fastforce)

text \<open>The changes up to the renaming, and the renaming: the file is what it was, or it is complete.\<close>

lemma replace_by_rename:
  assumes "tmp \<noteq> file" and "ops = Unlink tmp # Create tmp # map (Print tmp) ss"
  shows "apply_ops (take k (ops @ [Rename tmp file])) disk file \<in> {disk file, Some (concat ss)}"
    and "apply_ops (ops @ [Rename tmp file]) disk = disk(tmp := None, file \<mapsto> concat ss)"
proof -
  have u: "file \<notin> (\<Union>op \<in> set ops. touches op)" using assms by auto
  have p: "apply_ops ops disk = disk(tmp \<mapsto> concat ss)" by (simp add: assms(2) apply_prints)
  show f: "apply_ops (ops @ [Rename tmp file]) disk = disk(tmp := None, file \<mapsto> concat ss)" by (simp add: p)
  show "apply_ops (take k (ops @ [Rename tmp file])) disk file \<in> {disk file, Some (concat ss)}"
  proof (cases "k \<le> length ops")
    case True
    then show ?thesis using apply_take_untouched [OF u] by simp
  next
    case False
    then have "take k (ops @ [Rename tmp file]) = ops @ [Rename tmp file]" by simp
    then show ?thesis using f by simp
  qed
qed

lemma DumpNodeStatus_results:
  fixes e held removed dagFiles d f
  defines "tmp \<equiv> f @ ''.tmp''"
  defines "ops \<equiv> Unlink tmp # Create tmp # map (Print tmp) (status_prints e held removed dagFiles d)"
  assumes "d_statusFileName d = Some f"
  shows "DumpNodeStatus e held removed dagFiles lastUpdate d \<in>
    {([], lastUpdate, d), ([Unlink tmp], lastUpdate, d), (ops, lastUpdate, d), (ops @ [Rename tmp f], oe_start e, d\<lparr>d_statusFileOutdated := False\<rparr>)}"
  unfolding DumpNodeStatus_def assms(3) Let_def option.case tmp_def [symmetric] ops_def [symmetric] by simp

section \<open>The number of a dot file\<close>

lemma string_of_nat_inj: "string_of_nat m = string_of_nat n \<longleftrightarrow> m = n"
  by (metis digits_value_string_of_nat)

lemma unused_suffix_ends:
  assumes "finite (dom disk)" and "0 \<le> s"
  shows "\<exists>k \<ge> s. unused_suffix disk name s = Some k \<and> disk (name @ ''.'' @ string_of_int k) = None \<and>
    (\<forall>i. s \<le> i \<and> i < k \<longrightarrow> disk (name @ ''.'' @ string_of_int i) \<noteq> None)"
  using assms
proof (induction "card {i. s \<le> i \<and> disk (name @ ''.'' @ string_of_int i) \<noteq> None}" arbitrary: s rule: less_induct)
  case less
  let ?used = "\<lambda>s. {i. s \<le> i \<and> disk (name @ ''.'' @ string_of_int i) \<noteq> None}"
  have "inj_on (\<lambda>i. name @ ''.'' @ string_of_int i) (?used s)"
    using less.prems(2) by (auto simp: inj_on_def string_of_int_def string_of_nat_inj nat_eq_iff)
  moreover have "(\<lambda>i. name @ ''.'' @ string_of_int i) ` ?used s \<subseteq> dom disk" by auto
  ultimately have fin: "finite (?used s)" using less.prems(1) finite_imageD finite_subset by blast
  show ?case
  proof (cases "disk (name @ ''.'' @ string_of_int s)")
    case None
    then show ?thesis by (subst unused_suffix.simps) auto
  next
    case (Some t)
    have "s \<in> ?used s" "s \<notin> ?used (s + 1)" using Some by simp_all
    moreover have "?used (s + 1) \<subseteq> ?used s" by auto
    ultimately have "?used (s + 1) \<subset> ?used s" by blast
    with fin have c: "card (?used (s + 1)) < card (?used s)" by (rule psubset_card_mono)
    obtain k where k: "s + 1 \<le> k" "unused_suffix disk name (s + 1) = Some k" "disk (name @ ''.'' @ string_of_int k) = None"
      "\<forall>i. s + 1 \<le> i \<and> i < k \<longrightarrow> disk (name @ ''.'' @ string_of_int i) \<noteq> None"
      using less.hyps [OF c less.prems(1)] less.prems(2) by auto
    have "unused_suffix disk name s = Some k" using Some k(2) by (subst unused_suffix.simps) simp
    moreover have "disk (name @ ''.'' @ string_of_int i) \<noteq> None" if "s \<le> i" "i < k" for i
      using that k(4) Some by (cases "i = s") auto
    ultimately show ?thesis using k(1,3) by (intro exI [of _ k]) auto
  qed
qed

section \<open>The arcs of the graph\<close>

lemma arcs_of_node:
  assumes "store_ok d" and "set cs \<subseteq> dom (d_nodes d)"
  shows "foldR (\<lambda>q lines. bindR (FindNodeByNodeID q d) (\<lambda>child.
      case child of None \<Rightarrow> Inl (Crash ''child->GetJobName()'') | Some c \<Rightarrow> Inr (lines @ [dot_arc_line d p c]))) cs l = Inr (l @ map (dot_arc_line d p) cs)"
  using assms(2) by (induction cs arbitrary: l) (auto simp: FindNodeByNodeID_ok [OF assms(1)] simp del: domIff)

lemma DumpDotFileArcs_form:
  assumes "store_ok d" and "symmetric_deps d"
  shows "DumpDotFileArcs d = Inr (concat (map (\<lambda>p. map (dot_arc_line d p) (sorted_list_of_set (queue_of d p Q_CHILDREN))) (d_jobs d)))"
proof -
  have s: "set (d_jobs d) \<subseteq> dom (d_nodes d)" using assms(1) by (simp add: store_ok_def)
  have q: "set (sorted_list_of_set (queue_of d p Q_CHILDREN)) \<subseteq> dom (d_nodes d)" if "p \<in> set (d_jobs d)" for p
  proof -
    have "finite (queue_of d p Q_CHILDREN)" "queue_of d p Q_CHILDREN \<subseteq> dom (d_nodes d)" using assms(2) s that unfolding symmetric_deps_def by blast+
    then show ?thesis by simp
  qed
  have "foldR (\<lambda>parent lines. foldR (\<lambda>q lines. bindR (FindNodeByNodeID q d) (\<lambda>child.
      case child of None \<Rightarrow> Inl (Crash ''child->GetJobName()'') | Some c \<Rightarrow> Inr (lines @ [dot_arc_line d parent c])))
         (sorted_list_of_set (queue_of d parent Q_CHILDREN)) lines) ps l =
      Inr (l @ concat (map (\<lambda>p. map (dot_arc_line d p) (sorted_list_of_set (queue_of d p Q_CHILDREN))) ps))" if "set ps \<subseteq> set (d_jobs d)" for ps l
    using that by (induction ps arbitrary: l) (simp_all add: arcs_of_node [OF assms(1) q])
  then show ?thesis by (simp add: DumpDotFileArcs_def)
qed

section \<open>Properties\<close>


definition sample_out :: out_env where
  "sample_out = \<lparr>oe_start = 100, oe_end = 101, oe_fopen_ok = True, oe_rename_ok = True, oe_ctime = \<lambda>_. ''now'' @ [CHR 0x0A]\<rparr>"

definition status_dag :: Dag where
  "status_dag = chain_nodes\<lparr>d_statusFileName := Some ''st'', d_minStatusUpdateTime := 60\<rparr>"




end
