(* ===== verification/Submit_Dag.thy ===== *)
theory Submit_Dag
  imports Submit_Command Logical_Lines Output_Files Rescue_Files
begin

text \<open>
  \<open>condor_submit_dag\<close> (\<open>condor_submit_dag.cpp\<close>, \<open>dagman_recursive_submit.cpp\<close>): its options, the command line they are read
  from, the recursion into nested DAGs with the command line that \<open>runSubmitDag\<close> builds, the check for files that
  are already there, the submit file for DAGMan and how the limits in an existing one are preserved.

  The readable files of the current directory are a \<open>disk\<close>, which the operations return updated. An \<open>exit\<close> is \<open>DC_Exit\<close>
  with its code; \<open>printUsage\<close> exits with 1. What the tool is given by its surroundings is in \<open>sd_env\<close>: the
  view of the disk from other directories, the commands it runs, the search path, the version string, values of
  configuration parameters and the environment as text (\<open>Env\<close> is not modelled). Messages are not modelled.
\<close>

record deep_options =
  dp_bVerbose :: bool
  dp_bForce :: bool
  dp_strNotification :: string
  dp_bAllowLogError :: bool
  dp_strDagmanPath :: string
  dp_useDagDir :: bool
  dp_strOutfileDir :: string
  dp_oldRescue :: bool
  dp_autoRescue :: bool
  dp_doRescueFrom :: int
  dp_allowVerMismatch :: bool
  dp_recurse :: bool
  dp_updateSubmit :: bool
  dp_importEnv :: bool

record shallow_options =
  sh_bSubmit :: bool
  sh_strRemoteSchedd :: string
  sh_strScheddDaemonAdFile :: string
  sh_strScheddAddressFile :: string
  sh_iMaxIdle :: int
  sh_iMaxJobs :: int
  sh_iMaxPre :: int
  sh_iMaxPost :: int
  sh_bNoEventChecks :: bool
  sh_appendFile :: string
  sh_appendLines :: "string list"
  sh_strConfigFile :: string
  sh_dumpRescueDag :: bool
  sh_runValgrind :: bool
  sh_primaryDagFile :: string
  sh_dagFiles :: "string list"
  sh_strLibOut :: string
  sh_strLibErr :: string
  sh_strDebugLog :: string
  sh_strSchedLog :: string
  sh_strSubFile :: string
  sh_strRescueFile :: string
  sh_strLockFile :: string
  sh_copyToSpool :: bool
  sh_iDebugLevel :: int

type_synonym dag_options = "deep_options \<times> shallow_options"

definition new_deep_options :: "bool \<Rightarrow> bool \<Rightarrow> deep_options" where
  "new_deep_options old auto =
     \<lparr>dp_bVerbose = False, dp_bForce = False, dp_strNotification = [], dp_bAllowLogError = False, dp_strDagmanPath = [], dp_useDagDir = False,
      dp_strOutfileDir = [], dp_oldRescue = old, dp_autoRescue = auto, dp_doRescueFrom = 0, dp_allowVerMismatch = False, dp_recurse = False,
      dp_updateSubmit = False, dp_importEnv = False\<rparr>"

definition DEBUG_UNSET :: int where "DEBUG_UNSET = -1"

definition new_shallow_options :: "string \<Rightarrow> bool \<Rightarrow> shallow_options" where
  "new_shallow_options insert_sub_file copy_to_spool =
     \<lparr>sh_bSubmit = True, sh_strRemoteSchedd = [], sh_strScheddDaemonAdFile = [], sh_strScheddAddressFile = [], sh_iMaxIdle = 0, sh_iMaxJobs = 0,
      sh_iMaxPre = 0, sh_iMaxPost = 0, sh_bNoEventChecks = False, sh_appendFile = insert_sub_file, sh_appendLines = [], sh_strConfigFile = [],
      sh_dumpRescueDag = False, sh_runValgrind = False, sh_primaryDagFile = [], sh_dagFiles = [], sh_strLibOut = [], sh_strLibErr = [],
      sh_strDebugLog = [], sh_strSchedLog = [], sh_strSubFile = [], sh_strRescueFile = [], sh_strLockFile = [], sh_copyToSpool = copy_to_spool, sh_iDebugLevel = DEBUG_UNSET\<rparr>"

text \<open>
  A command is run in a directory, with variables added to the environment. \<open>sd_same_literal\<close> tells whether the compiler
  gives the two literals \<open>""\<close> the same address.
\<close>

record sd_env =
  sd_files :: "disk \<Rightarrow> files"
  sd_cwd :: string
  sd_system :: "string option \<Rightarrow> (string \<times> string) list \<Rightarrow> string list \<Rightarrow> disk \<Rightarrow> int \<times> disk"
  sd_which :: "string \<Rightarrow> string"
  sd_version :: string
  sd_fopen_ok :: bool
  sd_environment :: "dag_options \<Rightarrow> string option"
  sd_onExitRemove :: "string option"
  sd_maxRescueDagNum :: int
  sd_same_literal :: bool

section \<open>Reading the command line\<close>

definition has :: "string \<Rightarrow> string \<Rightarrow> bool" where
  "has strArg opt \<longleftrightarrow> find_string strArg opt 0 \<noteq> -1"

definition with_value :: "string list \<Rightarrow> (string \<Rightarrow> 'a) \<Rightarrow> (string list \<times> 'a) res" where
  "with_value rest f = (case rest of [] \<Rightarrow> Inl (DC_Exit 1) | v # rest' \<Rightarrow> Inr (rest', f v))"

text \<open>The arguments that are still unread, and the new options; \<open>None\<close> if it is not one of these flags.\<close>

definition parsePreservedArgs :: "string \<Rightarrow> string list \<Rightarrow> shallow_options \<Rightarrow> (string list \<times> shallow_options) res option" where
  "parsePreservedArgs strArg rest sh =
     (if has strArg ''-maxi'' then Some (with_value rest (\<lambda>v. sh\<lparr>sh_iMaxIdle := atoi v\<rparr>))
      else if has strArg ''-maxj'' then Some (with_value rest (\<lambda>v. sh\<lparr>sh_iMaxJobs := atoi v\<rparr>))
      else if has strArg ''-maxpr'' then Some (with_value rest (\<lambda>v. sh\<lparr>sh_iMaxPre := atoi v\<rparr>))
      else if has strArg ''-maxpo'' then Some (with_value rest (\<lambda>v. sh\<lparr>sh_iMaxPost := atoi v\<rparr>))
      else None)"

definition parse_option :: "string option \<Rightarrow> string \<Rightarrow> string list \<Rightarrow> dag_options \<Rightarrow> (string list \<times> dag_options) res" where
  "parse_option cwd strArg rest opts =
     (case opts of (dp, sh) \<Rightarrow>
      if has strArg ''-no_s'' then Inr (rest, dp, sh\<lparr>sh_bSubmit := False\<rparr>)
      else if has strArg ''-vers'' then Inl (DC_Exit 0)
      else if has strArg ''-help'' then Inl (DC_Exit 1)
      else if has strArg ''-schedd-daemon-ad-file'' then with_value rest (\<lambda>v. (dp, sh\<lparr>sh_strScheddDaemonAdFile := v\<rparr>))
      else if has strArg ''-schedd-address-file'' then with_value rest (\<lambda>v. (dp, sh\<lparr>sh_strScheddAddressFile := v\<rparr>))
      else if has strArg ''-f'' then Inr (rest, dp\<lparr>dp_bForce := True\<rparr>, sh)
      else if has strArg ''-not'' then with_value rest (\<lambda>v. (dp\<lparr>dp_strNotification := v\<rparr>, sh))
      else if has strArg ''-r'' then with_value rest (\<lambda>v. (dp, sh\<lparr>sh_strRemoteSchedd := v\<rparr>))
      else if has strArg ''-dagman'' then with_value rest (\<lambda>v. (dp\<lparr>dp_strDagmanPath := v\<rparr>, sh))
      else if has strArg ''-de'' then with_value rest (\<lambda>v. (dp, sh\<lparr>sh_iDebugLevel := atoi v\<rparr>))
      else if has strArg ''-noev'' then Inr (rest, dp, sh\<lparr>sh_bNoEventChecks := True\<rparr>)
      else if has strArg ''-allowlog'' then Inr (rest, dp\<lparr>dp_bAllowLogError := True\<rparr>, sh)
      else if has strArg ''-use'' then Inr (rest, dp\<lparr>dp_useDagDir := True\<rparr>, sh)
      else if has strArg ''-out'' then with_value rest (\<lambda>v. (dp\<lparr>dp_strOutfileDir := v\<rparr>, sh))
      else if has strArg ''-con'' then
        (case rest of
           [] \<Rightarrow> Inl (DC_Exit 1)
         | v # rest' \<Rightarrow>
             (case MakePathAbsolute cwd v of
                None \<Rightarrow> Inl (DC_Exit 1)
              | Some path \<Rightarrow> Inr (rest', dp, sh\<lparr>sh_strConfigFile := path\<rparr>)))
      else if has strArg ''-app'' then with_value rest (\<lambda>v. (dp, sh\<lparr>sh_appendLines := sh_appendLines sh @ [v]\<rparr>))
      else if has strArg ''-insert'' then with_value rest (\<lambda>v. (dp, sh\<lparr>sh_appendFile := v\<rparr>))
      else if has strArg ''-oldr'' then with_value rest (\<lambda>v. (dp\<lparr>dp_oldRescue := atoi v \<noteq> 0\<rparr>, sh))
      else if has strArg ''-autor'' then with_value rest (\<lambda>v. (dp\<lparr>dp_autoRescue := atoi v \<noteq> 0\<rparr>, sh))
      else if has strArg ''-dores'' then with_value rest (\<lambda>v. (dp\<lparr>dp_doRescueFrom := atoi v\<rparr>, sh))
      else if has strArg ''-allowver'' then Inr (rest, dp\<lparr>dp_allowVerMismatch := True\<rparr>, sh)
      else if has strArg ''-no_rec'' then Inr (rest, dp\<lparr>dp_recurse := False\<rparr>, sh)
      else if has strArg ''-do_rec'' then Inr (rest, dp\<lparr>dp_recurse := True\<rparr>, sh)
      else if has strArg ''-updat'' then Inr (rest, dp\<lparr>dp_updateSubmit := True\<rparr>, sh)
      else if has strArg ''-import_env'' then Inr (rest, dp\<lparr>dp_importEnv := True\<rparr>, sh)
      else if has strArg ''-dumpr'' then Inr (rest, dp, sh\<lparr>sh_dumpRescueDag := True\<rparr>)
      else if has strArg ''-valgrind'' then Inr (rest, dp, sh\<lparr>sh_runValgrind := True\<rparr>)
      else if has strArg ''-v'' then Inr (rest, dp\<lparr>dp_bVerbose := True\<rparr>, sh)
      else
        (case parsePreservedArgs strArg rest sh of
           Some r \<Rightarrow> bindR r (\<lambda>(rest, sh). Inr (rest, dp, sh))
         | None \<Rightarrow> Inl (DC_Exit 1)))"

lemma with_value_shorter: "with_value rest f = Inr (rest', x) \<Longrightarrow> length rest' \<le> length rest"
  by (cases rest) (simp_all add: with_value_def)

lemma parsePreservedArgs_shorter: "parsePreservedArgs a rest sh = Some (Inr (rest', sh')) \<Longrightarrow> length rest' \<le> length rest"
  by (auto simp: parsePreservedArgs_def dest: with_value_shorter split: if_splits)

lemma parse_option_shorter: "parse_option cwd a rest opts = Inr (rest', opts') \<Longrightarrow> length rest' \<le> length rest"
  by (cases opts) (force simp: parse_option_def dest: with_value_shorter parsePreservedArgs_shorter split: if_splits option.splits list.splits)

function parse_args :: "string option \<Rightarrow> string list \<Rightarrow> dag_options \<Rightarrow> dag_options res" where
  "parse_args cwd [] opts = Inr opts"
| "parse_args cwd (a # rest) opts =
     (if a = [] \<or> hd a \<noteq> CHR ''-'' then
        parse_args cwd rest
          (apsnd (\<lambda>sh. sh\<lparr>sh_dagFiles := sh_dagFiles sh @ [a], sh_primaryDagFile := (if sh_primaryDagFile sh = [] then a else sh_primaryDagFile sh)\<rparr>) opts)
      else if sh_primaryDagFile (snd opts) \<noteq> [] then Inl (DC_Exit 1)
      else
        (case parse_option cwd (map tolower a) rest opts of
           Inl x \<Rightarrow> Inl x
         | Inr (rest', opts') \<Rightarrow> parse_args cwd rest' opts'))"
  by pat_completeness auto
termination
  by (relation "measure (\<lambda>(_, args, _). length args)") (auto dest: parse_option_shorter simp: le_imp_less_Suc)

definition parseCommandLine :: "string option \<Rightarrow> string list \<Rightarrow> dag_options \<Rightarrow> dag_options res" where
  "parseCommandLine cwd args opts =
     bindR (parse_args cwd args opts) (\<lambda>(dp, sh).
       if sh_primaryDagFile sh = [] then Inl (DC_Exit 1)
       else if dp_oldRescue dp \<and> dp_autoRescue dp then Inl (DC_Exit 1)
       else if dp_doRescueFrom dp < 0 then Inl (DC_Exit 1)
       else Inr (dp, sh))"

section \<open>Nested DAGs\<close>

definition int_of_bool :: "bool \<Rightarrow> int" where
  "int_of_bool b = (if b then 1 else 0)"

definition flag :: "bool \<Rightarrow> string list \<Rightarrow> ArgList \<Rightarrow> ArgList" where
  "flag b xs args = (if b then fold AppendArg xs args else args)"

definition recursive_args :: "deep_options \<Rightarrow> string \<Rightarrow> bool \<Rightarrow> ArgList" where
  "recursive_args dp dag_file isRetry =
     (let args = fold AppendArg [''condor_submit_dag'', ''-no_submit'', ''-update_submit''] new_ArgList;
          args = flag (dp_bVerbose dp) [''-verbose''] args;
          args = flag (dp_bForce dp \<and> \<not> isRetry) [''-force''] args;
          args = flag (dp_strNotification dp \<noteq> []) [''-notification'', dp_strNotification dp] args;
          args = flag (dp_strDagmanPath dp \<noteq> []) [''-dagman'', dp_strDagmanPath dp] args;
          args = flag (dp_bAllowLogError dp) [''-allowlogerror''] args;
          args = flag (dp_useDagDir dp) [''-usedagdir''] args;
          args = flag (dp_strOutfileDir dp \<noteq> []) [''-outfile_dir'', dp_strOutfileDir dp] args;
          args = AppendArg_int (int_of_bool (dp_oldRescue dp)) (AppendArg ''-oldrescue'' args);
          args = AppendArg_int (int_of_bool (dp_autoRescue dp)) (AppendArg ''-autorescue'' args);
          args = flag (dp_doRescueFrom dp \<noteq> 0) [''-dorescuefrom'', string_of_int (dp_doRescueFrom dp)] args;
          args = flag (dp_allowVerMismatch dp) [''-allowver''] args;
          args = flag (dp_importEnv dp) [''-import_env''] args;
          args = flag (dp_recurse dp) [''-do_recurse''] args;
          args = flag (dp_updateSubmit dp) [''-update_submit''] args
      in AppendArg dag_file args)"

definition runSubmitDag :: "sd_env \<Rightarrow> deep_options \<Rightarrow> string \<Rightarrow> string option \<Rightarrow> bool \<Rightarrow> disk \<Rightarrow> (int \<times> disk) res" where
  "runSubmitDag e dp dag_file dir isRetry disk =
     (let run = (case sd_system e dir [] (args_list (recursive_args dp dag_file isRetry)) disk of
                   (ret, disk) \<Rightarrow> (if ret \<noteq> 0 then 1 else 0, disk))
      in case dir of
           None \<Rightarrow> Inr run
         | Some d \<Rightarrow>
             bindR (in_directory (sd_files e disk) (sd_cwd e) d (\<lambda>_. run)) (\<lambda>r.
               Inr (case r of None \<Rightarrow> (1, disk) | Some x \<Rightarrow> x)))"

text \<open>The file and the directory, from the tokens after the keyword.\<close>

definition parseJobOrDagLine :: "string list \<Rightarrow> (string \<times> string option) option" where
  "parseJobOrDagLine tokens =
     (case tokens of
        nodeName # submitOrDagFile # rest \<Rightarrow>
          (case rest of
             [] \<Rightarrow> Some (submitOrDagFile, None)
           | dirKeyword # rest \<Rightarrow>
               if strcaseeq dirKeyword ''DIR'' then (case rest of [] \<Rightarrow> None | dir # _ \<Rightarrow> Some (submitOrDagFile, Some dir))
               else Some (submitOrDagFile, None))
      | _ \<Rightarrow> None)"

text \<open>One line: \<open>None\<close> if the function returns 1 there.\<close>

definition recursion_line :: "sd_env \<Rightarrow> deep_options \<Rightarrow> string \<Rightarrow> disk \<Rightarrow> (int option \<times> disk) res" where
  "recursion_line e dp dagLine disk =
     (let run = (\<lambda>dag_file dir. bindR (runSubmitDag e dp dag_file dir False disk) (\<lambda>(r, disk). Inr (Some r, disk)))
      in case string_list blank_or_tab dagLine of
           [] \<Rightarrow> Inr (Some 0, disk)
         | first # tokens \<Rightarrow>
             if strcaseeq first ''JOB'' then
               (case parseJobOrDagLine tokens of
                  None \<Rightarrow> Inr (None, disk)
                | Some (submitFile, dir) \<Rightarrow>
                    (let start = find_string submitFile DAG_SUBMIT_FILE_SUFFIX 0
                     in if start \<ge> 0 \<and> start + int (length DAG_SUBMIT_FILE_SUFFIX) = int (length submitFile)
                        then run (snd (replaceString DAG_SUBMIT_FILE_SUFFIX [] 0 submitFile)) dir
                        else Inr (Some 0, disk)))
             else if strcaseeq first ''SUBDAG'' then
               (case tokens of
                  [] \<Rightarrow> Inl (Crash ''strcasecmp( inlineOrExt, EXTERNAL )'')
                | inlineOrExt # tokens \<Rightarrow>
                    if \<not> strcaseeq inlineOrExt ''EXTERNAL'' then Inr (None, disk)
                    else
                      (case parseJobOrDagLine tokens of
                         None \<Rightarrow> Inr (None, disk)
                       | Some (nestedDagFile, dir) \<Rightarrow> run nestedDagFile dir))
             else Inr (Some 0, disk))"

fun recursion_lines :: "sd_env \<Rightarrow> deep_options \<Rightarrow> string list \<Rightarrow> int \<Rightarrow> disk \<Rightarrow> (int option \<times> disk) res" where
  "recursion_lines e dp [] result disk = Inr (Some result, disk)"
| "recursion_lines e dp (dagLine # logicalLines) result disk =
     bindR (recursion_line e dp dagLine disk) (\<lambda>(r, disk).
       case r of
         None \<Rightarrow> Inr (None, disk)
       | Some r \<Rightarrow> recursion_lines e dp logicalLines (if r \<noteq> 0 then 1 else result) disk)"

fun recursion_files :: "sd_env \<Rightarrow> deep_options \<Rightarrow> string list \<Rightarrow> int \<Rightarrow> disk \<Rightarrow> (int \<times> disk) res" where
  "recursion_files e dp [] result disk = Inr (result, disk)"
| "recursion_files e dp (dag_file # dagFiles) result disk =
     (case fileNameToLogicalLines disk dag_file of
        None \<Rightarrow> Inr (1, disk)
      | Some logicalLines \<Rightarrow>
          bindR (recursion_lines e dp logicalLines result disk) (\<lambda>(r, disk).
            case r of None \<Rightarrow> Inr (1, disk) | Some result \<Rightarrow> recursion_files e dp dagFiles result disk))"

definition doRecursion :: "sd_env \<Rightarrow> dag_options \<Rightarrow> disk \<Rightarrow> (int \<times> disk) res" where
  "doRecursion e opts disk = (case opts of (dp, sh) \<Rightarrow> recursion_files e dp (sh_dagFiles sh) 0 disk)"

section \<open>The submit file\<close>

text \<open>The names that depend on the primary DAG file; \<open>None\<close> is the return value 1.\<close>

definition file_names :: "string option \<Rightarrow> deep_options \<Rightarrow> shallow_options \<Rightarrow> shallow_options option" where
  "file_names cwd dp sh =
     (let dag = sh_primaryDagFile sh;
          sh = sh\<lparr>sh_strLibOut := dag @ ''.lib.out'', sh_strLibErr := dag @ ''.lib.err'',
                  sh_strDebugLog := (if dp_strOutfileDir dp \<noteq> [] then dp_strOutfileDir dp @ ''/'' @ condor_basename dag else dag) @ ''.dagman.out'',
                  sh_strSchedLog := dag @ ''.dagman.log'', sh_strSubFile := dag @ DAG_SUBMIT_FILE_SUFFIX\<rparr>
      in case (if dp_useDagDir dp then map_option (\<lambda>d. d @ ''/'' @ condor_basename dag) cwd else Some dag) of
           None \<Rightarrow> None
         | Some rescueDagBase \<Rightarrow>
             Some (sh\<lparr>sh_strRescueFile := rescueDagBase @ (if length (sh_dagFiles sh) > 1 then ''_multi'' else []) @ ''.rescue'',
                      sh_strLockFile := dag @ ''.lock''\<rparr>))"

definition setUpOptions :: "sd_env \<Rightarrow> dag_options \<Rightarrow> disk \<Rightarrow> dag_options option res" where
  "setUpOptions e opts disk =
     (case opts of (dp, sh) \<Rightarrow>
        case file_names (getcwd (sd_files e disk) (sd_cwd e)) dp sh of
          None \<Rightarrow> Inr None
        | Some sh \<Rightarrow>
            (let dp = (if dp_strDagmanPath dp = [] then dp\<lparr>dp_strDagmanPath := sd_which e ''condor_dagman''\<rparr> else dp)
             in if dp_strDagmanPath dp = [] then Inr None
                else
                  bindR (GetConfigFile (sd_files e disk) (sd_cwd e) (dp_useDagDir dp) (sh_dagFiles sh) (True, sh_strConfigFile sh)) (\<lambda>(ok, cfg).
                    Inr (if ok then Some (dp, sh\<lparr>sh_strConfigFile := cfg\<rparr>) else None))))"

text \<open>Rescue DAGs on the disk.\<close>

definition find_last_rescue :: "disk \<Rightarrow> string \<Rightarrow> bool \<Rightarrow> int \<Rightarrow> int res" where
  "find_last_rescue disk primaryDagFile multiDags maxRescueDagNum =
     foldR (\<lambda>test lastRescue. bindR (RescueDagName primaryDagFile multiDags test) (\<lambda>testName.
       Inr (if disk testName \<noteq> None then test else lastRescue))) [1..maxRescueDagNum] 0"

definition rename_rescue :: "string \<Rightarrow> bool \<Rightarrow> int \<Rightarrow> disk \<Rightarrow> disk res" where
  "rename_rescue primaryDagFile multiDags rescueNum disk =
     bindR (RescueDagName primaryDagFile multiDags rescueNum) (\<lambda>rescueDagName.
       if disk rescueDagName = None then Inl (EXCEPT ''Fatal error: unable to rename old rescue file'')
       else Inr (apply_op (Rename rescueDagName (rescueDagName @ ''.old'')) disk))"

definition rename_rescues_after :: "string \<Rightarrow> bool \<Rightarrow> int \<Rightarrow> int \<Rightarrow> disk \<Rightarrow> disk res" where
  "rename_rescues_after primaryDagFile multiDags rescueDagNum maxRescueDagNum disk =
     (if \<not> rescueDagNum \<ge> 0 then Inl (ASSERT ''rescueDagNum >= 0'')
      else
        bindR (find_last_rescue disk primaryDagFile multiDags maxRescueDagNum) (\<lambda>lastToDelete.
          foldR (rename_rescue primaryDagFile multiDags) [rescueDagNum + 1..lastToDelete] disk))"

definition remove_old_files :: "int \<Rightarrow> dag_options \<Rightarrow> disk \<Rightarrow> disk res" where
  "remove_old_files maxRescueDagNum opts disk =
     (case opts of (dp, sh) \<Rightarrow>
        if dp_bForce dp then
          (let disk = apply_ops [Unlink (sh_strSubFile sh), Unlink (sh_strSchedLog sh), Unlink (sh_strLibOut sh), Unlink (sh_strLibErr sh)] disk
           in if dp_oldRescue dp then Inr (apply_op (Unlink (sh_strRescueFile sh)) disk)
              else rename_rescues_after (sh_primaryDagFile sh) (length (sh_dagFiles sh) > 1) 0 maxRescueDagNum disk)
        else Inr disk)"

definition ensureOutputFilesExist :: "int \<Rightarrow> dag_options \<Rightarrow> disk \<Rightarrow> disk res" where
  "ensureOutputFilesExist maxRescueDagNum opts disk =
     (case opts of (dp, sh) \<Rightarrow>
        (let multiDags = (length (sh_dagFiles sh) > 1); primaryDagFile = sh_primaryDagFile sh
         in bindR (if dp_doRescueFrom dp > 0 then
                     bindR (RescueDagName primaryDagFile multiDags (dp_doRescueFrom dp)) (\<lambda>rescueDagName.
                       if disk rescueDagName = None then Inl (DC_Exit 1) else Inr ())
                   else Inr ()) (\<lambda>_.
            bindR (remove_old_files maxRescueDagNum opts disk) (\<lambda>disk.
            bindR (if dp_autoRescue dp then
                     bindR (find_last_rescue disk primaryDagFile multiDags maxRescueDagNum) (\<lambda>rescueDagNum. Inr (rescueDagNum > 0))
                   else Inr False) (\<lambda>autoRunningRescue.
            if \<not> autoRunningRescue \<and> dp_doRescueFrom dp < 1 \<and> \<not> dp_updateSubmit dp \<and>
               (\<exists>f \<in> {sh_strSubFile sh, sh_strLibOut sh, sh_strLibErr sh, sh_strSchedLog sh}. disk f \<noteq> None)
            then Inl (DC_Exit 1)
            else if \<not> dp_autoRescue dp \<and> dp_doRescueFrom dp < 1 \<and> disk (sh_strRescueFile sh) \<noteq> None then Inl (DC_Exit 1)
            else Inr disk)))))"

definition dagman_args :: "string \<Rightarrow> dag_options \<Rightarrow> ArgList" where
  "dagman_args version opts =
     (case opts of (dp, sh) \<Rightarrow>
        (let args = flag (sh_runValgrind sh) [''--tool=memcheck'', ''--leak-check=yes'', ''--show-reachable=yes'', dp_strDagmanPath dp] new_ArgList;
             args = fold AppendArg [''-f'', ''-l'', ''.''] args;
             args = flag (sh_iDebugLevel sh \<noteq> DEBUG_UNSET) [''-Debug'', string_of_int (sh_iDebugLevel sh)] args;
             args = fold AppendArg [''-Lockfile'', sh_strLockFile sh] args;
             args = AppendArg_int (int_of_bool (dp_autoRescue dp)) (AppendArg ''-AutoRescue'' args);
             args = AppendArg_int (dp_doRescueFrom dp) (AppendArg ''-DoRescueFrom'' args);
             args = fold (\<lambda>f args. fold AppendArg [''-Dag'', f] args) (sh_dagFiles sh) args;
             args = flag (dp_oldRescue dp) [''-Rescue'', sh_strRescueFile sh] args;
             args = flag (sh_iMaxIdle sh \<noteq> 0) [''-MaxIdle'', string_of_int (sh_iMaxIdle sh)] args;
             args = flag (sh_iMaxJobs sh \<noteq> 0) [''-MaxJobs'', string_of_int (sh_iMaxJobs sh)] args;
             args = flag (sh_iMaxPre sh \<noteq> 0) [''-MaxPre'', string_of_int (sh_iMaxPre sh)] args;
             args = flag (sh_iMaxPost sh \<noteq> 0) [''-MaxPost'', string_of_int (sh_iMaxPost sh)] args;
             args = flag (dp_bAllowLogError dp) [''-AllowLogError''] args;
             args = flag (dp_useDagDir dp) [''-UseDagDir''] args;
             args = fold AppendArg [''-CsdVersion'', version] args;
             args = flag (dp_allowVerMismatch dp) [''-AllowVersionMismatch''] args;
             args = flag (sh_dumpRescueDag sh) [''-DumpRescue''] args;
             args = flag (dp_bVerbose dp) [''-Verbose''] args;
             args = flag (dp_bForce dp) [''-Force''] args;
             args = flag (dp_strNotification dp \<noteq> []) [''-Notification'', dp_strNotification dp] args;
             args = flag (dp_strDagmanPath dp \<noteq> []) [''-Dagman'', dp_strDagmanPath dp] args;
             args = flag (dp_strOutfileDir dp \<noteq> []) [''-Outfile_dir'', dp_strOutfileDir dp] args;
             args = flag (dp_updateSubmit dp) [''-Update_submit''] args
         in flag (dp_importEnv dp) [''-Import_env''] args))"

definition arguments_line :: "string \<Rightarrow> dag_options \<Rightarrow> string" where
  "arguments_line version opts = ''arguments'' @ [CHR 0x09] @ ''= '' @ GetArgsStringV1WackedOrV2Quoted [] (dagman_args version opts)"

function preserve_loop :: "string list \<Rightarrow> shallow_options \<Rightarrow> shallow_options res" where
  "preserve_loop [] sh = Inr sh"
| "preserve_loop (a # rest) sh =
     (case parsePreservedArgs (map tolower a) rest sh of
        None \<Rightarrow> preserve_loop rest sh
      | Some (Inl x) \<Rightarrow> Inl x
      | Some (Inr (rest', sh')) \<Rightarrow> preserve_loop rest' sh')"
  by pat_completeness auto
termination
  by (relation "measure (\<lambda>(args, _). length args)") (auto dest: parsePreservedArgs_shorter simp: le_imp_less_Suc)

text \<open>\<open>None\<close> is the return value 1, after an error message.\<close>

definition parseArgumentsLine :: "string \<Rightarrow> shallow_options \<Rightarrow> shallow_options option res" where
  "parseArgumentsLine subLine sh =
     (case strchr subLine dquote of
        None \<Rightarrow> Inr None
      | Some start \<Rightarrow>
          (let end' = length subLine - 1 - the (strchr (rev subLine) dquote);
               arguments = Substr subLine (int start) (int end')
           in bindR (AppendArgsV2Quoted (Some arguments) [] new_ArgList) (\<lambda>(ok, _, arglist).
                if \<not> ok then Inr None else bindR (preserve_loop (args_list arglist) sh) (\<lambda>sh. Inr (Some sh)))))"

fun old_flags :: "string list \<Rightarrow> shallow_options \<Rightarrow> shallow_options option res" where
  "old_flags [] sh = Inr (Some sh)"
| "old_flags (subLine # logicalLines) sh =
     (case string_list blank_or_tab subLine of
        [] \<Rightarrow> old_flags logicalLines sh
      | first # _ \<Rightarrow>
          if strcaseeq first ''arguments'' then
            bindR (parseArgumentsLine subLine sh) (\<lambda>r. case r of None \<Rightarrow> Inr None | Some sh \<Rightarrow> old_flags logicalLines sh)
          else old_flags logicalLines sh)"

definition getOldSubmitFlags :: "disk \<Rightarrow> shallow_options \<Rightarrow> shallow_options option res" where
  "getOldSubmitFlags disk sh =
     (if disk (sh_strSubFile sh) \<noteq> None then
        (case fileNameToLogicalLines disk (sh_strSubFile sh) of
           None \<Rightarrow> Inr None
         | Some logicalLines \<Rightarrow> old_flags logicalLines sh)
      else Inr (Some sh))"

definition defaultRemoveExpr :: string where
  "defaultRemoveExpr = ''( ExitSignal =?= 11 || (ExitCode =!= UNDEFINED && ExitCode >=0 && ExitCode <= 2))''"

definition entry :: "string \<Rightarrow> string \<Rightarrow> string" where
  "entry name val = name @ CHR 0x09 # ''= '' @ val"

text \<open>The lines of the submit file: \<open>exe\<close> is the program, \<open>env\<close> the text of the environment, \<open>ins\<close> the lines of the inserted file.\<close>

definition submit_file_lines :: "sd_env \<Rightarrow> dag_options \<Rightarrow> string \<Rightarrow> string \<Rightarrow> string list \<Rightarrow> string list" where
  "submit_file_lines e opts exe env ins =
     (case opts of (dp, sh) \<Rightarrow>
        [''# Filename: '' @ sh_strSubFile sh,
         ''# Generated by condor_submit_dag '' @ concat (map (\<lambda>f. f @ '' '') (sh_dagFiles sh)),
         entry ''universe'' ''scheduler'',
         entry ''executable'' exe,
         entry (''getenv'' @ [CHR 0x09]) ''True'',
         entry (''output'' @ [CHR 0x09]) (sh_strLibOut sh),
         entry (''error'' @ [CHR 0x09]) (sh_strLibErr sh),
         entry (''log'' @ [CHR 0x09]) (sh_strSchedLog sh),
         entry ''remove_kill_sig'' ''SIGUSR1'',
         entry ''+OtherJobRemoveRequirements'' ([dquote] @ ''DAGManJobId == $(cluster)'' @ [dquote]),
         ''# Note: default on_exit_remove expression:'',
         ''# '' @ defaultRemoveExpr,
         ''# attempts to ensure that DAGMan is automatically'',
         ''# requeued by the schedd if it exits abnormally or'',
         ''# is killed (e.g., during a reboot).'',
         entry ''on_exit_remove'' (case sd_onExitRemove e of None \<Rightarrow> defaultRemoveExpr | Some x \<Rightarrow> x),
         entry ''copy_to_spool'' (if sh_copyToSpool sh then ''True'' else ''False''),
         arguments_line (sd_version e) opts,
         entry ''environment'' env] @
        (if dp_strNotification dp \<noteq> [] then [entry ''notification'' (dp_strNotification dp)] else []) @
        ins @ sh_appendLines sh @ [''queue''])"

definition writeSubmitFile :: "sd_env \<Rightarrow> dag_options \<Rightarrow> disk \<Rightarrow> disk res" where
  "writeSubmitFile e opts disk =
     (case opts of (dp, sh) \<Rightarrow>
        if \<not> sd_fopen_ok e then Inl (DC_Exit 1)
        else
          (let disk = apply_op (Create (sh_strSubFile sh)) disk;
               exe = (if sh_runValgrind sh then sd_which e ''valgrind'' else dp_strDagmanPath dp)
           in if sh_runValgrind sh \<and> exe = [] then Inl (DC_Exit 1)
              else if sh_strConfigFile sh \<noteq> [] \<and> disk (sh_strConfigFile sh) = None then Inl (DC_Exit 1)
              else
                (case sd_environment e opts of
                   None \<Rightarrow> Inl (DC_Exit 1)
                 | Some env \<Rightarrow>
                     bindR (if sh_appendFile sh \<noteq> [] \<or> \<not> sd_same_literal e then
                              (case disk (sh_appendFile sh) of None \<Rightarrow> Inl (DC_Exit 1) | Some t \<Rightarrow> Inr (getlines t))
                            else Inr []) (\<lambda>ins.
                       Inr (disk(sh_strSubFile sh \<mapsto> text_of_lines (submit_file_lines e opts exe env ins)))))))"

definition submit_dag_args :: "shallow_options \<Rightarrow> ArgList" where
  "submit_dag_args sh =
     AppendArg (sh_strSubFile sh) (flag (sh_strRemoteSchedd sh \<noteq> []) [''-r'', sh_strRemoteSchedd sh] (AppendArg ''condor_submit'' new_ArgList))"

definition submitDag :: "sd_env \<Rightarrow> shallow_options \<Rightarrow> disk \<Rightarrow> int \<times> disk" where
  "submitDag e sh disk =
     (if sh_bSubmit sh then
        (let vars = (if sh_strScheddDaemonAdFile sh \<noteq> [] then [(''_CONDOR_SCHEDD_DAEMON_AD_FILE'', sh_strScheddDaemonAdFile sh)] else []) @
                    (if sh_strScheddAddressFile sh \<noteq> [] then [(''_CONDOR_SCHEDD_ADDRESS_FILE'', sh_strScheddAddressFile sh)] else [])
         in case sd_system e None vars (args_list (submit_dag_args sh)) disk of (ret, disk) \<Rightarrow> (if ret \<noteq> 0 then 1 else 0, disk))
      else (0, disk))"

section \<open>The program\<close>

definition submit_dag_main :: "sd_env \<Rightarrow> string list \<Rightarrow> dag_options \<Rightarrow> disk \<Rightarrow> (int \<times> disk) res" where
  "submit_dag_main e args opts disk =
     bindR (parseCommandLine (getcwd (sd_files e disk) (sd_cwd e)) args opts) (\<lambda>opts.
     bindR (if dp_recurse (fst opts) then doRecursion e opts disk else Inr (0, disk)) (\<lambda>(tmpResult, disk).
       if tmpResult \<noteq> 0 then Inr (tmpResult, disk)
       else
         bindR (setUpOptions e opts disk) (\<lambda>r.
           case r of
             None \<Rightarrow> Inr (1, disk)
           | Some (dp, sh) \<Rightarrow>
               bindR (ensureOutputFilesExist (sd_maxRescueDagNum e) (dp, sh) disk) (\<lambda>disk.
               bindR (if dp_updateSubmit dp then getOldSubmitFlags disk sh else Inr (Some sh)) (\<lambda>r.
                 case r of
                   None \<Rightarrow> Inr (1, disk)
                 | Some sh \<Rightarrow> bindR (writeSubmitFile e (dp, sh) disk) (\<lambda>disk. Inr (submitDag e sh disk)))))))"

section \<open>Nested DAGs get the same options\<close>

lemma no_value_step:
  assumes "sh_primaryDagFile sh = []" and "parse_option cwd (map tolower (CHR ''-'' # a)) rest (dp, sh) = Inr (rest, opts)"
  shows "parse_args cwd ((CHR ''-'' # a) # rest) (dp, sh) = parse_args cwd rest opts"
  using assms by simp

lemma value_step:
  assumes "sh_primaryDagFile sh = []" and "parse_option cwd (map tolower (CHR ''-'' # a)) (v # rest) (dp, sh) = Inr (rest, opts)"
  shows "parse_args cwd ((CHR ''-'' # a) # v # rest) (dp, sh) = parse_args cwd rest opts"
  using assms by simp

lemmas option_defs = parse_option_def parsePreservedArgs_def with_value_def has_def find_string_def tolower_def

lemma flag_options:
  "parse_option cwd (map tolower ''-no_submit'') r (dp, sh) = Inr (r, dp, sh\<lparr>sh_bSubmit := False\<rparr>)"
  "parse_option cwd (map tolower ''-update_submit'') r (dp, sh) = Inr (r, dp\<lparr>dp_updateSubmit := True\<rparr>, sh)"
  "parse_option cwd (map tolower ''-verbose'') r (dp, sh) = Inr (r, dp\<lparr>dp_bVerbose := True\<rparr>, sh)"
  "parse_option cwd (map tolower ''-force'') r (dp, sh) = Inr (r, dp\<lparr>dp_bForce := True\<rparr>, sh)"
  "parse_option cwd (map tolower ''-allowlogerror'') r (dp, sh) = Inr (r, dp\<lparr>dp_bAllowLogError := True\<rparr>, sh)"
  "parse_option cwd (map tolower ''-usedagdir'') r (dp, sh) = Inr (r, dp\<lparr>dp_useDagDir := True\<rparr>, sh)"
  "parse_option cwd (map tolower ''-allowver'') r (dp, sh) = Inr (r, dp\<lparr>dp_allowVerMismatch := True\<rparr>, sh)"
  "parse_option cwd (map tolower ''-import_env'') r (dp, sh) = Inr (r, dp\<lparr>dp_importEnv := True\<rparr>, sh)"
  "parse_option cwd (map tolower ''-do_recurse'') r (dp, sh) = Inr (r, dp\<lparr>dp_recurse := True\<rparr>, sh)"
  by (simp_all add: option_defs)

lemma value_options:
  "parse_option cwd (map tolower ''-notification'') (v # r) (dp, sh) = Inr (r, dp\<lparr>dp_strNotification := v\<rparr>, sh)"
  "parse_option cwd (map tolower ''-dagman'') (v # r) (dp, sh) = Inr (r, dp\<lparr>dp_strDagmanPath := v\<rparr>, sh)"
  "parse_option cwd (map tolower ''-outfile_dir'') (v # r) (dp, sh) = Inr (r, dp\<lparr>dp_strOutfileDir := v\<rparr>, sh)"
  "parse_option cwd (map tolower ''-oldrescue'') (v # r) (dp, sh) = Inr (r, dp\<lparr>dp_oldRescue := atoi v \<noteq> 0\<rparr>, sh)"
  "parse_option cwd (map tolower ''-autorescue'') (v # r) (dp, sh) = Inr (r, dp\<lparr>dp_autoRescue := atoi v \<noteq> 0\<rparr>, sh)"
  "parse_option cwd (map tolower ''-dorescuefrom'') (v # r) (dp, sh) = Inr (r, dp\<lparr>dp_doRescueFrom := atoi v\<rparr>, sh)"
  by (simp_all add: option_defs)

lemma atoi_printed: "is_int32 i \<Longrightarrow> atoi (string_of_int i) = i"
  using strtol_printed by (simp add: atoi_def)

lemma flag_list [simp]: "args_list (flag b xs al) = args_list al @ (if b then xs else [])"
  by (simp add: flag_def fold_AppendArg)

lemma AppendArg_int_list [simp]: "args_list (AppendArg_int i al) = args_list al @ [string_of_int i]"
  by (simp add: AppendArg_int_def)

lemma flag_steps:
  assumes "sh_primaryDagFile sh = []"
  shows "parse_args cwd (''-no_submit'' # r) (dp, sh) = parse_args cwd r (dp, sh\<lparr>sh_bSubmit := False\<rparr>)"
    and "parse_args cwd (''-update_submit'' # r) (dp, sh) = parse_args cwd r (dp\<lparr>dp_updateSubmit := True\<rparr>, sh)"
    and "parse_args cwd ((if b then [''-update_submit''] else []) @ r) (dp, sh) = parse_args cwd r (dp\<lparr>dp_updateSubmit := dp_updateSubmit dp \<or> b\<rparr>, sh)"
    and "parse_args cwd ((if b then [''-verbose''] else []) @ r) (dp, sh) = parse_args cwd r (dp\<lparr>dp_bVerbose := dp_bVerbose dp \<or> b\<rparr>, sh)"
    and "parse_args cwd ((if b then [''-force''] else []) @ r) (dp, sh) = parse_args cwd r (dp\<lparr>dp_bForce := dp_bForce dp \<or> b\<rparr>, sh)"
    and "parse_args cwd ((if b then [''-allowlogerror''] else []) @ r) (dp, sh) = parse_args cwd r (dp\<lparr>dp_bAllowLogError := dp_bAllowLogError dp \<or> b\<rparr>, sh)"
    and "parse_args cwd ((if b then [''-usedagdir''] else []) @ r) (dp, sh) = parse_args cwd r (dp\<lparr>dp_useDagDir := dp_useDagDir dp \<or> b\<rparr>, sh)"
    and "parse_args cwd ((if b then [''-allowver''] else []) @ r) (dp, sh) = parse_args cwd r (dp\<lparr>dp_allowVerMismatch := dp_allowVerMismatch dp \<or> b\<rparr>, sh)"
    and "parse_args cwd ((if b then [''-import_env''] else []) @ r) (dp, sh) = parse_args cwd r (dp\<lparr>dp_importEnv := dp_importEnv dp \<or> b\<rparr>, sh)"
    and "parse_args cwd ((if b then [''-do_recurse''] else []) @ r) (dp, sh) = parse_args cwd r (dp\<lparr>dp_recurse := dp_recurse dp \<or> b\<rparr>, sh)"
  by (cases b; cases dp; simp only: if_True if_False append_Cons append_Nil no_value_step [OF assms flag_options(1)] no_value_step [OF assms flag_options(2)]
      no_value_step [OF assms flag_options(3)] no_value_step [OF assms flag_options(4)] no_value_step [OF assms flag_options(5)]
      no_value_step [OF assms flag_options(6)] no_value_step [OF assms flag_options(7)] no_value_step [OF assms flag_options(8)]
      no_value_step [OF assms flag_options(9)] deep_options.simps simp_thms)+

lemma value_steps:
  assumes "sh_primaryDagFile sh = []"
  shows "parse_args cwd ((if b then [''-notification'', v] else []) @ r) (dp, sh) = parse_args cwd r (dp\<lparr>dp_strNotification := if b then v else dp_strNotification dp\<rparr>, sh)"
    and "parse_args cwd ((if b then [''-dagman'', v] else []) @ r) (dp, sh) = parse_args cwd r (dp\<lparr>dp_strDagmanPath := if b then v else dp_strDagmanPath dp\<rparr>, sh)"
    and "parse_args cwd ((if b then [''-outfile_dir'', v] else []) @ r) (dp, sh) = parse_args cwd r (dp\<lparr>dp_strOutfileDir := if b then v else dp_strOutfileDir dp\<rparr>, sh)"
    and "parse_args cwd (''-oldrescue'' # v # r) (dp, sh) = parse_args cwd r (dp\<lparr>dp_oldRescue := atoi v \<noteq> 0\<rparr>, sh)"
    and "parse_args cwd (''-autorescue'' # v # r) (dp, sh) = parse_args cwd r (dp\<lparr>dp_autoRescue := atoi v \<noteq> 0\<rparr>, sh)"
    and "parse_args cwd ((if b then [''-dorescuefrom'', v] else []) @ r) (dp, sh) = parse_args cwd r (dp\<lparr>dp_doRescueFrom := if b then atoi v else dp_doRescueFrom dp\<rparr>, sh)"
  by (cases b; cases dp; simp only: if_True if_False append_Cons append_Nil value_step [OF assms value_options(1)] value_step [OF assms value_options(2)]
      value_step [OF assms value_options(3)] value_step [OF assms value_options(4)] value_step [OF assms value_options(5)]
      value_step [OF assms value_options(6)] deep_options.simps)+

lemma recursive_args_list:
  "args_list (recursive_args dp f isRetry) = ''condor_submit_dag'' # ''-no_submit'' # ''-update_submit'' #
     (if dp_bVerbose dp then [''-verbose''] else []) @ (if dp_bForce dp \<and> \<not> isRetry then [''-force''] else []) @
     (if dp_strNotification dp \<noteq> [] then [''-notification'', dp_strNotification dp] else []) @
     (if dp_strDagmanPath dp \<noteq> [] then [''-dagman'', dp_strDagmanPath dp] else []) @
     (if dp_bAllowLogError dp then [''-allowlogerror''] else []) @ (if dp_useDagDir dp then [''-usedagdir''] else []) @
     (if dp_strOutfileDir dp \<noteq> [] then [''-outfile_dir'', dp_strOutfileDir dp] else []) @
     ''-oldrescue'' # string_of_int (int_of_bool (dp_oldRescue dp)) # ''-autorescue'' # string_of_int (int_of_bool (dp_autoRescue dp)) #
     (if dp_doRescueFrom dp \<noteq> 0 then [''-dorescuefrom'', string_of_int (dp_doRescueFrom dp)] else []) @
     (if dp_allowVerMismatch dp then [''-allowver''] else []) @ (if dp_importEnv dp then [''-import_env''] else []) @
     (if dp_recurse dp then [''-do_recurse''] else []) @ (if dp_updateSubmit dp then [''-update_submit''] else []) @ [f]"
  unfolding recursive_args_def Let_def append_a_list AppendArg_int_list flag_list fold_AppendArg
  by (simp only: new_ArgList_def ArgList.simps append_Cons append_Nil append_assoc)

section \<open>Properties\<close>

text \<open>
  C19: A nested DAG is submitted with the options of its parent: the command line that \<open>runSubmitDag\<close> builds is read by
  \<open>condor_submit_dag\<close> as the same deep options -- except that existing submit files may be updated, and nothing
  is forced on a retry -- and as a single DAG file that is not submitted, whatever the configuration says about rescue DAGs.
\<close>

theorem nested_dag_options_roundtrip:
  assumes "f \<noteq> []" and "hd f \<noteq> CHR ''-''" and "\<not> (dp_oldRescue dp \<and> dp_autoRescue dp)" and "0 \<le> dp_doRescueFrom dp" and "dp_doRescueFrom dp < 2 ^ 31"
  shows "parseCommandLine cwd (tl (args_list (recursive_args dp f isRetry))) (new_deep_options old auto, new_shallow_options ins spool) =
    Inr (dp\<lparr>dp_bForce := dp_bForce dp \<and> \<not> isRetry, dp_updateSubmit := True\<rparr>,
         (new_shallow_options ins spool)\<lparr>sh_bSubmit := False, sh_primaryDagFile := f, sh_dagFiles := [f]\<rparr>)"
proof -
  have i: "is_int32 (dp_doRescueFrom dp)" using assms(4,5) by (simp add: is_int32_def)
  have b: "(atoi (string_of_int (int_of_bool x)) \<noteq> 0) = x" for x by (simp add: atoi_printed is_int32_def int_of_bool_def)
  let ?sh = "(new_shallow_options ins spool)\<lparr>sh_bSubmit := False\<rparr>"
  have p: "sh_primaryDagFile (new_shallow_options ins spool) = []" "sh_primaryDagFile ?sh = []" by (simp_all add: new_shallow_options_def)
  have last: "parse_args cwd [f] (d, ?sh) = Inr (d, ?sh\<lparr>sh_primaryDagFile := f, sh_dagFiles := [f]\<rparr>)" for d
    using assms(1,2) by (simp add: new_shallow_options_def)
  have "parse_args cwd (tl (args_list (recursive_args dp f isRetry))) (new_deep_options old auto, new_shallow_options ins spool) =
      Inr (dp\<lparr>dp_bForce := dp_bForce dp \<and> \<not> isRetry, dp_updateSubmit := True\<rparr>, ?sh\<lparr>sh_primaryDagFile := f, sh_dagFiles := [f]\<rparr>)"
    unfolding recursive_args_list list.sel flag_steps(1) [OF p(1)]
    unfolding flag_steps(2-10) [OF p(2)] value_steps [OF p(2)] append_Cons append_Nil last
    using atoi_printed [OF i] by (cases dp) (simp add: new_deep_options_def b)
  then show ?thesis using assms(1,3,4) by (simp add: parseCommandLine_def)
qed

theorem nested_dag_options_roundtrip_witness:
  "parseCommandLine None
     (tl (args_list (recursive_args ((new_deep_options False True)\<lparr>dp_bForce := True, dp_useDagDir := True, dp_strOutfileDir := ''out'', dp_doRescueFrom := 3\<rparr>)
        ''sub.dag'' True)))
     (new_deep_options True False, new_shallow_options [] False) =
   Inr ((new_deep_options False True)\<lparr>dp_useDagDir := True, dp_strOutfileDir := ''out'', dp_doRescueFrom := 3, dp_updateSubmit := True\<rparr>,
        (new_shallow_options [] False)\<lparr>sh_bSubmit := False, sh_primaryDagFile := ''sub.dag'', sh_dagFiles := [''sub.dag'']\<rparr>)"
  by (subst nested_dag_options_roundtrip) (simp_all add: new_deep_options_def)

end
