(* ===== verification/Submit_Files.thy ===== *)
theory Submit_Files
  imports Submit_Dag
begin

text \<open>
  What \<open>condor_submit_dag\<close> does to files that are there already: which are removed or renamed, which make it refuse to
  run, and what it reads from an old submit file.
\<close>

section \<open>Rescue DAGs on the disk\<close>

lemma last_rescue_step:
  assumes "last_rescue ex f m mx l" and "0 \<le> mx"
  shows "last_rescue ex f m (mx + 1) (if ex (rescue_name f m (mx + 1)) then mx + 1 else l)"
proof -
  have "k \<le> mx + 1 \<longleftrightarrow> k \<le> mx \<or> k = mx + 1" for k by auto
  then show ?thesis using assms by (auto simp: last_rescue_def)
qed

lemma find_last_rescue_last: "\<exists>l. find_last_rescue disk f m mx = Inr l \<and> last_rescue (\<lambda>n. disk n \<noteq> None) f m mx l"
proof -
  have "\<exists>l. find_last_rescue disk f m (int k) = Inr l \<and> last_rescue (\<lambda>n. disk n \<noteq> None) f m (int k) l" for k
  proof (induction k)
    case 0
    show ?case by (auto simp: find_last_rescue_def last_rescue_def)
  next
    case (Suc k)
    then obtain l where l: "find_last_rescue disk f m (int k) = Inr l" "last_rescue (\<lambda>n. disk n \<noteq> None) f m (int k) l" by blast
    have "[1..int (Suc k)] = [1..int k] @ [int k + 1]" by (simp add: upto_rec2 add.commute)
    then have "find_last_rescue disk f m (int (Suc k)) = Inr (if disk (rescue_name f m (int k + 1)) \<noteq> None then int k + 1 else l)"
      using l(1) by (simp add: find_last_rescue_def foldR_append RescueDagName_ok)
    moreover have "last_rescue (\<lambda>n. disk n \<noteq> None) f m (int (Suc k)) (if disk (rescue_name f m (int k + 1)) \<noteq> None then int k + 1 else l)"
      using last_rescue_step [OF l(2)] by (simp add: add.commute)
    ultimately show ?case by blast
  qed
  from this [of "nat mx"] show ?thesis
    by (cases "0 \<le> mx") (auto simp: find_last_rescue_def last_rescue_def)
qed

abbreviation old_name :: "string \<Rightarrow> bool \<Rightarrow> int \<Rightarrow> string" where
  "old_name f m n \<equiv> rescue_name f m n @ ''.old''"

lemma last_rescue_name: "1 \<le> n \<Longrightarrow> isdigit (last (rescue_name f m n))"
proof -
  assume "1 \<le> n"
  let ?d = "string_of_nat (nat n)"
  have "?d \<noteq> []" "isdigit (last ?d)" using string_of_nat_digits [of "nat n"] by simp_all
  then show ?thesis using \<open>1 \<le> n\<close> by (simp add: rescue_name_def precision_3d_def zero_padded_def)
qed

lemma old_name_differs: "1 \<le> k \<Longrightarrow> old_name f m n \<noteq> rescue_name f m k"
proof -
  assume "1 \<le> k"
  have "last (old_name f m n) = CHR ''d''" "\<not> isdigit CHR ''d''" by (simp_all add: isdigit_def)
  then show ?thesis using last_rescue_name [OF \<open>1 \<le> k\<close>] by metis
qed

text \<open>All rescue DAGs up to number \<open>l\<close> have been renamed.\<close>

definition renamed_to :: "string \<Rightarrow> bool \<Rightarrow> int \<Rightarrow> disk \<Rightarrow> disk \<Rightarrow> bool" where
  "renamed_to f m l disk disk' \<longleftrightarrow>
     (\<forall>n. 1 \<le> n \<and> n \<le> l \<longrightarrow> disk (rescue_name f m n) \<noteq> None \<and> disk' (rescue_name f m n) = None \<and> disk' (old_name f m n) = disk (rescue_name f m n)) \<and>
     (\<forall>g. (\<forall>n. 1 \<le> n \<and> n \<le> l \<longrightarrow> g \<noteq> rescue_name f m n \<and> g \<noteq> old_name f m n) \<longrightarrow> disk' g = disk g)"

lemma rename_loop: "foldR (rename_rescue f m) [1..int k] disk = Inr disk' \<Longrightarrow> renamed_to f m (int k) disk disk'"
proof (induction k arbitrary: disk')
  case 0
  then show ?case by (auto simp: renamed_to_def)
next
  case (Suc k)
  let ?n = "int k + 1"
  have "[1..int (Suc k)] = [1..int k] @ [?n]" by (simp add: upto_rec2 add.commute)
  with Suc.prems obtain d where d: "foldR (rename_rescue f m) [1..int k] disk = Inr d" "rename_rescue f m ?n d = Inr disk'"
    by (auto simp: foldR_append)
  then have r: "renamed_to f m (int k) disk d" using Suc.IH by simp
  from d(2) obtain t where t: "d (rescue_name f m ?n) = Some t" "disk' = d(rescue_name f m ?n := None, old_name f m ?n \<mapsto> t)"
    by (cases "d (rescue_name f m ?n)") (simp_all add: rename_rescue_def RescueDagName_ok)
  have new: "rescue_name f m n \<noteq> rescue_name f m ?n" "old_name f m n \<noteq> old_name f m ?n" "old_name f m n \<noteq> rescue_name f m ?n"
    "rescue_name f m n \<noteq> old_name f m ?n" if "1 \<le> n" "n \<le> int k" for n
    using that rescue_name_inj [of n ?n f m] old_name_differs [of ?n f m n] old_name_differs [of n f m ?n] by auto
  have "\<forall>n. 1 \<le> n \<and> n \<le> int k \<longrightarrow> rescue_name f m ?n \<noteq> rescue_name f m n \<and> rescue_name f m ?n \<noteq> old_name f m n"
    using new(1,3) by (simp add: eq_commute)
  then have same: "d (rescue_name f m ?n) = disk (rescue_name f m ?n)" using r unfolding renamed_to_def by blast
  have n: "1 \<le> n \<and> n \<le> int (Suc k) \<longleftrightarrow> 1 \<le> n \<and> n \<le> int k \<or> n = ?n" for n by auto
  have here: "disk (rescue_name f m ?n) \<noteq> None \<and> disk' (rescue_name f m ?n) = None \<and> disk' (old_name f m ?n) = disk (rescue_name f m ?n)"
    using t same by simp
  have before: "disk (rescue_name f m n) \<noteq> None \<and> disk' (rescue_name f m n) = None \<and> disk' (old_name f m n) = disk (rescue_name f m n)"
    if "1 \<le> n" "n \<le> int k" for n using r that new [OF that] by (simp add: renamed_to_def t(2))
  have other: "disk' g = disk g" if "\<forall>n. 1 \<le> n \<and> n \<le> int (Suc k) \<longrightarrow> g \<noteq> rescue_name f m n \<and> g \<noteq> old_name f m n" for g
  proof -
    have "g \<noteq> rescue_name f m ?n" "g \<noteq> old_name f m ?n" "\<forall>n. 1 \<le> n \<and> n \<le> int k \<longrightarrow> g \<noteq> rescue_name f m n \<and> g \<noteq> old_name f m n"
      using that by auto
    then show ?thesis using r by (simp add: t(2) renamed_to_def)
  qed
  show ?case unfolding renamed_to_def using here before other n by blast
qed

lemma rename_rescues_renamed:
  assumes "rename_rescues_after f m 0 mx disk = Inr disk'"
  shows "\<exists>l. last_rescue (\<lambda>n. disk n \<noteq> None) f m mx l \<and> renamed_to f m l disk disk'"
proof -
  obtain l where l: "find_last_rescue disk f m mx = Inr l" "last_rescue (\<lambda>n. disk n \<noteq> None) f m mx l" using find_last_rescue_last by blast
  then have "foldR (rename_rescue f m) [1..int (nat l)] disk = Inr disk'" using assms by (simp add: rename_rescues_after_def last_rescue_def)
  from rename_loop [OF this] l(2) show ?thesis by (auto simp: last_rescue_def)
qed

section \<open>Files that are there already\<close>

definition output_files :: "shallow_options \<Rightarrow> string set" where
  "output_files sh = {sh_strSubFile sh, sh_strLibOut sh, sh_strLibErr sh, sh_strSchedLog sh}"

abbreviation sh_multi :: "shallow_options \<Rightarrow> bool" where
  "sh_multi sh \<equiv> length (sh_dagFiles sh) > 1"

abbreviation rescue_of :: "shallow_options \<Rightarrow> int \<Rightarrow> string" where
  "rescue_of sh n \<equiv> rescue_name (sh_primaryDagFile sh) (sh_multi sh) n"

lemma ensure_returns:
  assumes "ensureOutputFilesExist mx (dp, sh) disk = Inr disk'"
  shows "remove_old_files mx (dp, sh) disk = Inr disk'"
    and "dp_doRescueFrom dp < 1 \<Longrightarrow> \<not> dp_updateSubmit dp \<Longrightarrow> (dp_autoRescue dp \<Longrightarrow> find_last_rescue disk' (sh_primaryDagFile sh) (sh_multi sh) mx = Inr 0) \<Longrightarrow>
      \<forall>f \<in> output_files sh. disk' f = None"
  using assms by (auto simp: ensureOutputFilesExist_def output_files_def Let_def split: if_splits)

definition without_outputs :: "shallow_options \<Rightarrow> disk \<Rightarrow> disk" where
  "without_outputs sh disk = (\<lambda>f. if f \<in> output_files sh then None else disk f)"

lemma remove_forced:
  assumes "remove_old_files mx (dp, sh) disk = Inr disk'" and "dp_bForce dp"
  shows "dp_oldRescue dp \<Longrightarrow> disk' = (without_outputs sh disk)(sh_strRescueFile sh := None)"
    and "\<not> dp_oldRescue dp \<Longrightarrow> \<exists>l. last_rescue (\<lambda>n. without_outputs sh disk n \<noteq> None) (sh_primaryDagFile sh) (sh_multi sh) mx l \<and>
      renamed_to (sh_primaryDagFile sh) (sh_multi sh) l (without_outputs sh disk) disk'"
proof -
  have u: "apply_ops [Unlink (sh_strSubFile sh), Unlink (sh_strSchedLog sh), Unlink (sh_strLibOut sh), Unlink (sh_strLibErr sh)] disk = without_outputs sh disk"
    by (rule ext) (simp add: without_outputs_def output_files_def)
  show "disk' = (without_outputs sh disk)(sh_strRescueFile sh := None)" if "dp_oldRescue dp"
    using assms that unfolding remove_old_files_def prod.case u Let_def by simp
  show "\<exists>l. last_rescue (\<lambda>n. without_outputs sh disk n \<noteq> None) (sh_primaryDagFile sh) (sh_multi sh) mx l \<and>
      renamed_to (sh_primaryDagFile sh) (sh_multi sh) l (without_outputs sh disk) disk'" if "\<not> dp_oldRescue dp"
    using assms that rename_rescues_renamed unfolding remove_old_files_def prod.case u Let_def by simp
qed

lemma no_rescue_found:
  assumes "\<forall>n. 1 \<le> n \<and> n \<le> mx \<longrightarrow> disk (rescue_name f m n) = None"
  shows "find_last_rescue disk f m mx = Inr 0"
proof -
  obtain l where l: "find_last_rescue disk f m mx = Inr l" "last_rescue (\<lambda>n. disk n \<noteq> None) f m mx l" using find_last_rescue_last by blast
  have "l = 0" using l(2) assms by (auto simp: last_rescue_def max_def split: if_splits)
  then show ?thesis using l(1) by simp
qed



text \<open>A directory with a submit file and a rescue DAG.\<close>

definition sample_deep :: deep_options where
  "sample_deep = (new_deep_options False True)\<lparr>dp_strDagmanPath := ''/bin/condor_dagman''\<rparr>"

definition sample_shallow :: shallow_options where
  "sample_shallow = the (file_names (Some ''/home'') sample_deep ((new_shallow_options [] False)\<lparr>sh_primaryDagFile := ''d.dag'', sh_dagFiles := [''d.dag'']\<rparr>))"

definition sample_disk :: disk where
  "sample_disk = [''d.dag.condor.sub'' \<mapsto> ''S'', ''d.dag.rescue001'' \<mapsto> ''R'']"

definition sample_forced :: deep_options where
  "sample_forced = sample_deep\<lparr>dp_bForce := True, dp_doRescueFrom := 1\<rparr>"

lemma sample_ensure: "case ensureOutputFilesExist 2 (sample_forced, sample_shallow) sample_disk of Inr d \<Rightarrow> True | Inl x \<Rightarrow> False"
  by code_simp



end
