(* ===== verification/Submit_Update.thy ===== *)
theory Submit_Update
  imports Submit_Files
begin

text \<open>
  The submit file that \<open>condor_submit_dag\<close> writes is read again by a later run with \<open>-update_submit\<close>: the limits in it are
  found, whatever else it holds, if no other argument looks like one of their flags.
\<close>

section \<open>Finding the flags\<close>

definition plain_arg :: "string \<Rightarrow> bool" where
  "plain_arg a \<longleftrightarrow> (\<forall>p \<in> {''-maxi'', ''-maxj'', ''-maxpr'', ''-maxpo''}. \<not> has (map tolower a) p)"

lemma strstr_set: "strstr s p = Some k \<Longrightarrow> set p \<subseteq> set s"
proof (induction s p arbitrary: k rule: strstr.induct)
  case (2 x xs p)
  show ?case
  proof (cases "take (length p) (x # xs) = p")
    case True
    then show ?thesis using set_take_subset by metis
  next
    case False
    then show ?thesis using 2 by auto
  qed
qed (simp split: if_splits)

lemma has_set: "has s p \<Longrightarrow> p \<noteq> [] \<Longrightarrow> set p \<subseteq> set s"
  using strstr_set by (auto simp: has_def find_string_def split: if_splits option.splits)

lemma int_chars: "c \<in> set (string_of_int i) \<Longrightarrow> isdigit c \<or> c = CHR ''-''"
  using string_of_nat_digits by (auto simp: string_of_int_def split: if_splits)

lemma plain_number_arg [simp]: "plain_arg (string_of_int i)"
proof -
  have t: "c \<noteq> CHR ''m''" if "c \<in> set (map tolower (string_of_int i))" for c
  proof -
    have "tolower d \<noteq> CHR ''m''" if "isdigit d \<or> d = CHR ''-''" for d
      using that by (auto simp: isdigit_def tolower_def)
    then show ?thesis using that int_chars by auto
  qed
  have "\<not> has (map tolower (string_of_int i)) p" if m: "CHR ''m'' \<in> set p" for p
  proof
    assume "has (map tolower (string_of_int i)) p"
    moreover have "p \<noteq> []" using m by auto
    ultimately have "CHR ''m'' \<in> set (map tolower (string_of_int i))" using m by (rule has_set [THEN subsetD])
    from t [OF this] show False by simp
  qed
  then show ?thesis unfolding plain_arg_def by simp
qed

lemma plain_flags [simp]:
  "plain_arg ''--tool=memcheck''" "plain_arg ''--leak-check=yes''" "plain_arg ''--show-reachable=yes''" "plain_arg ''-f''" "plain_arg ''-l''" "plain_arg ''.''"
  "plain_arg ''-Debug''" "plain_arg ''-Lockfile''" "plain_arg ''-AutoRescue''" "plain_arg ''-DoRescueFrom''" "plain_arg ''-Dag''" "plain_arg ''-Rescue''"
  "plain_arg ''-AllowLogError''" "plain_arg ''-UseDagDir''" "plain_arg ''-CsdVersion''" "plain_arg ''-AllowVersionMismatch''" "plain_arg ''-DumpRescue''"
  "plain_arg ''-Verbose''" "plain_arg ''-Force''" "plain_arg ''-Notification''" "plain_arg ''-Dagman''" "plain_arg ''-Outfile_dir''"
  "plain_arg ''-Update_submit''" "plain_arg ''-Import_env''"
  by (simp_all add: plain_arg_def has_def find_string_def tolower_def)

lemma preserve_skip: "\<forall>a \<in> set xs. plain_arg a \<Longrightarrow> preserve_loop (xs @ ys) sh = preserve_loop ys sh"
  by (induction xs) (simp_all add: plain_arg_def parsePreservedArgs_def)

lemma lower_flags:
  "map tolower ''-MaxIdle'' = ''-maxidle''" "map tolower ''-MaxJobs'' = ''-maxjobs''"
  "map tolower ''-MaxPre'' = ''-maxpre''" "map tolower ''-MaxPost'' = ''-maxpost''"
  by code_simp+

lemma limit_flags:
  "parsePreservedArgs (map tolower ''-MaxIdle'') (v # ys) sh = Some (Inr (ys, sh\<lparr>sh_iMaxIdle := atoi v\<rparr>))"
  "parsePreservedArgs (map tolower ''-MaxJobs'') (v # ys) sh = Some (Inr (ys, sh\<lparr>sh_iMaxJobs := atoi v\<rparr>))"
  "parsePreservedArgs (map tolower ''-MaxPre'') (v # ys) sh = Some (Inr (ys, sh\<lparr>sh_iMaxPre := atoi v\<rparr>))"
  "parsePreservedArgs (map tolower ''-MaxPost'') (v # ys) sh = Some (Inr (ys, sh\<lparr>sh_iMaxPost := atoi v\<rparr>))"
  unfolding lower_flags by (simp_all add: option_defs)

lemma preserve_flags:
  "preserve_loop ((if b then [''-MaxIdle'', v] else []) @ ys) sh = preserve_loop ys (if b then sh\<lparr>sh_iMaxIdle := atoi v\<rparr> else sh)"
  "preserve_loop ((if b then [''-MaxJobs'', v] else []) @ ys) sh = preserve_loop ys (if b then sh\<lparr>sh_iMaxJobs := atoi v\<rparr> else sh)"
  "preserve_loop ((if b then [''-MaxPre'', v] else []) @ ys) sh = preserve_loop ys (if b then sh\<lparr>sh_iMaxPre := atoi v\<rparr> else sh)"
  "preserve_loop ((if b then [''-MaxPost'', v] else []) @ ys) sh = preserve_loop ys (if b then sh\<lparr>sh_iMaxPost := atoi v\<rparr> else sh)"
  by (cases b; simp only: if_True if_False append_Cons append_Nil preserve_loop.simps limit_flags option.case sum.case prod.case)+

section \<open>The arguments line\<close>

definition limits_of :: "shallow_options \<Rightarrow> shallow_options \<Rightarrow> shallow_options" where
  "limits_of sh sh' = sh'\<lparr>sh_iMaxIdle := if sh_iMaxIdle sh \<noteq> 0 then sh_iMaxIdle sh else sh_iMaxIdle sh',
     sh_iMaxJobs := if sh_iMaxJobs sh \<noteq> 0 then sh_iMaxJobs sh else sh_iMaxJobs sh',
     sh_iMaxPre := if sh_iMaxPre sh \<noteq> 0 then sh_iMaxPre sh else sh_iMaxPre sh',
     sh_iMaxPost := if sh_iMaxPost sh \<noteq> 0 then sh_iMaxPost sh else sh_iMaxPost sh'\<rparr>"

definition args_before :: "dag_options \<Rightarrow> string list" where
  "args_before opts = (case opts of (dp, sh) \<Rightarrow>
     (if sh_runValgrind sh then [''--tool=memcheck'', ''--leak-check=yes'', ''--show-reachable=yes'', dp_strDagmanPath dp] else []) @
     [''-f'', ''-l'', ''.''] @ (if sh_iDebugLevel sh \<noteq> DEBUG_UNSET then [''-Debug'', string_of_int (sh_iDebugLevel sh)] else []) @
     [''-Lockfile'', sh_strLockFile sh, ''-AutoRescue'', string_of_int (int_of_bool (dp_autoRescue dp)),
      ''-DoRescueFrom'', string_of_int (dp_doRescueFrom dp)] @
     concat (map (\<lambda>f. [''-Dag'', f]) (sh_dagFiles sh)) @ (if dp_oldRescue dp then [''-Rescue'', sh_strRescueFile sh] else []))"

definition args_after :: "string \<Rightarrow> dag_options \<Rightarrow> string list" where
  "args_after version opts = (case opts of (dp, sh) \<Rightarrow>
     (if dp_bAllowLogError dp then [''-AllowLogError''] else []) @ (if dp_useDagDir dp then [''-UseDagDir''] else []) @
     [''-CsdVersion'', version] @ (if dp_allowVerMismatch dp then [''-AllowVersionMismatch''] else []) @
     (if sh_dumpRescueDag sh then [''-DumpRescue''] else []) @ (if dp_bVerbose dp then [''-Verbose''] else []) @
     (if dp_bForce dp then [''-Force''] else []) @
     (if dp_strNotification dp \<noteq> [] then [''-Notification'', dp_strNotification dp] else []) @
     (if dp_strDagmanPath dp \<noteq> [] then [''-Dagman'', dp_strDagmanPath dp] else []) @
     (if dp_strOutfileDir dp \<noteq> [] then [''-Outfile_dir'', dp_strOutfileDir dp] else []) @
     (if dp_updateSubmit dp then [''-Update_submit''] else []) @ (if dp_importEnv dp then [''-Import_env''] else []))"

lemma fold_dags: "args_list (fold (\<lambda>f args. fold AppendArg [''-Dag'', f] args) fs al) = args_list al @ concat (map (\<lambda>f. [''-Dag'', f]) fs)"
  by (induction fs arbitrary: al) simp_all

lemma dagman_args_list:
  "args_list (dagman_args version (dp, sh)) = args_before (dp, sh) @
     (if sh_iMaxIdle sh \<noteq> 0 then [''-MaxIdle'', string_of_int (sh_iMaxIdle sh)] else []) @
     (if sh_iMaxJobs sh \<noteq> 0 then [''-MaxJobs'', string_of_int (sh_iMaxJobs sh)] else []) @
     (if sh_iMaxPre sh \<noteq> 0 then [''-MaxPre'', string_of_int (sh_iMaxPre sh)] else []) @
     (if sh_iMaxPost sh \<noteq> 0 then [''-MaxPost'', string_of_int (sh_iMaxPost sh)] else []) @ args_after version (dp, sh)"
  unfolding dagman_args_def args_before_def args_after_def prod.case Let_def append_a_list flag_list fold_dags fold_AppendArg AppendArg_int_list
  by (simp only: new_ArgList_def ArgList.simps append_Cons append_Nil append_assoc)

lemma dagman_args_preserved:
  assumes "\<forall>a \<in> set (args_before (dp, sh)) \<union> set (args_after version (dp, sh)). plain_arg a"
    and "\<forall>i \<in> {sh_iMaxIdle sh, sh_iMaxJobs sh, sh_iMaxPre sh, sh_iMaxPost sh}. is_int32 i"
  shows "preserve_loop (args_list (dagman_args version (dp, sh))) sh' = Inr (limits_of sh sh')"
proof -
  have "preserve_loop (args_after version (dp, sh)) x = Inr x" for x using preserve_skip [of "args_after version (dp, sh)" "[]" x] assms(1) by simp
  moreover have "atoi (string_of_int i) = i" if "i \<in> {sh_iMaxIdle sh, sh_iMaxJobs sh, sh_iMaxPre sh, sh_iMaxPost sh}" for i
    using assms(2) that atoi_printed by blast
  ultimately show ?thesis
    unfolding dagman_args_list using assms(1) by (cases sh') (simp add: preserve_skip preserve_flags limits_of_def)
qed

lemma strchr_none: "c \<notin> set s \<Longrightarrow> strchr s c = None" and strchr_first: "c \<notin> set s \<Longrightarrow> strchr (s @ c # t) c = Some (length s)"
  by (induction s) auto

lemma parse_quoted_line:
  assumes "dquote \<notin> set pre"
  shows "parseArgumentsLine (pre @ GetArgsStringV2Quoted [] al) sh = bindR (preserve_loop (args_list al) sh) (\<lambda>sh. Inr (Some sh))"
proof -
  let ?q = "GetArgsStringV2Quoted [] al" let ?l = "pre @ ?q"
  obtain m where q: "?q = dquote # m @ [dquote]" by (simp add: GetArgsStringV2Quoted_def V2RawToV2Quoted_def)
  have s: "strchr ?l dquote = Some (length pre)" using strchr_first [OF assms] by (simp add: q)
  have e: "strchr (rev ?l) dquote = Some 0" by (simp add: q)
  have "Substr ?l (int (length pre)) (int (length ?l - 1 - 0)) = ?q" by (simp add: Substr_def q nat_add_distrib)
  then show ?thesis unfolding parseArgumentsLine_def s option.case e option.sel Let_def by (simp add: V2Quoted_back new_ArgList_def)
qed

lemma arguments_line_quoted:
  assumes "\<exists>a \<in> set (args_list (dagman_args version opts)). \<exists>c \<in> set a. is_blank c"
  shows "arguments_line version opts = (''arguments'' @ [CHR 0x09] @ ''= '') @ GetArgsStringV2Quoted [] (dagman_args version opts)"
proof -
  have "fst (v1_out_loop (args_list (dagman_args version opts)) []) \<noteq> None" using assms v1_out_none by blast
  then show ?thesis by (auto simp: arguments_line_def GetArgsStringV1WackedOrV2Quoted_def GetArgsStringV1Raw_def split: prod.splits option.splits)
qed

section \<open>The whole file\<close>

definition clean :: "string \<Rightarrow> bool" where
  "clean s \<longleftrightarrow> (\<forall>c \<in> set s. \<not> crlf c \<and> c \<noteq> CHR 0x00)"

lemma clean_simps [simp]: "clean []" "clean (c # s) \<longleftrightarrow> \<not> crlf c \<and> c \<noteq> CHR 0x00 \<and> clean s" "clean (s @ t) \<longleftrightarrow> clean s \<and> clean t"
  by (auto simp: clean_def)

lemma clean_concat [simp]: "clean (concat ss) \<longleftrightarrow> (\<forall>s \<in> set ss. clean s)"
  by (auto simp: clean_def)

lemma clean_v2_chars: "clean s \<Longrightarrow> clean (v2_chars q s)"
  by (induction q s rule: v2_chars.induct) (auto simp: crlf_def)

lemma clean_quoted: "\<forall>a \<in> set (args_list al). clean a \<Longrightarrow> clean (GetArgsStringV2Quoted [] al)"
proof -
  assume "\<forall>a \<in> set (args_list al). clean a"
  then have w: "\<forall>a \<in> set (args_list al). clean (v2_word a)" using clean_v2_chars by (auto simp: v2_word_def crlf_def)
  have "clean (join_args (args_list al) [] 0)"
    using w by (cases "args_list al") (auto simp: join_args_form v2_tail_def crlf_def)
  moreover have "clean (EscapeChars t [dquote] dquote)" if "clean t" for t using that by (induction t) (auto simp: crlf_def)
  ultimately show ?thesis by (simp add: GetArgsStringV2Quoted_def V2RawToV2Quoted_def GetArgsStringV2Raw_def crlf_def)
qed

text \<open>A line that is read as it stands, and is not the arguments line.\<close>

definition harmless_line :: "string \<Rightarrow> bool" where
  "harmless_line l \<longleftrightarrow> physical l \<and> CHR 0x00 \<notin> set l \<and> last l \<noteq> CHR 0x5C \<and> \<not> strcaseeq (hd (string_list blank_or_tab l)) ''arguments''"

lemma first_word:
  assumes "w \<noteq> []" and "\<forall>c \<in> set w. \<not> isspace c"
  shows "hd (string_list blank_or_tab w) = w" and "blank_or_tab c \<Longrightarrow> hd (string_list blank_or_tab (w @ c # r)) = w"
proof -
  have b: "\<not> blank_or_tab c" if "c \<in> set w" for c using assms(2) that by (auto simp: blank_or_tab_def isspace_def)
  have d: "dropWhile (\<lambda>c. blank_or_tab c \<or> isspace c) (w @ x) = w @ x" for x using assms b by (cases w) auto
  show "hd (string_list blank_or_tab w) = w"
    using d [of "[]"] b assms(1) by (subst string_list.simps) (simp add: Let_def takeWhile_eq_all_conv)
  show "hd (string_list blank_or_tab (w @ c # r)) = w" if "blank_or_tab c"
    using d [of "c # r"] b assms(1) that by (subst string_list.simps) (simp add: Let_def takeWhile_append)
qed

lemma harmless_word:
  assumes "w \<noteq> []" and "\<forall>c \<in> set w. \<not> isspace c" and "clean w" and "\<not> strcaseeq w ''arguments''" and "blank_or_tab c" and "clean r" and "\<not> continues r"
  shows "harmless_line (w @ c # r)"
proof -
  have c: "\<not> crlf c" "c \<noteq> CHR 0x5C" "c \<noteq> CHR 0x00" using assms(5) by (auto simp: blank_or_tab_def crlf_def)
  have "physical (w @ c # r)" using assms(1-3,6) c by (cases w) (auto simp: physical_def clean_def)
  moreover have "CHR 0x00 \<notin> set (w @ c # r)" using assms(3,6) c by (auto simp: clean_def)
  moreover have "last (w @ c # r) \<noteq> CHR 0x5C" using assms(7) c by (auto simp: continues_def)
  ultimately show ?thesis using first_word(2) [OF assms(1,2,5)] assms(4) by (simp add: harmless_line_def)
qed

lemma harmless_entry:
  assumes "w \<noteq> []" and "\<forall>c \<in> set w. \<not> isspace c" and "clean w" and "\<not> strcaseeq w ''arguments''" and "clean v" and "\<not> continues v"
  shows "harmless_line (entry w v)" and "harmless_line (entry (w @ [CHR 0x09]) v)" and "harmless_line (w @ CHR '' '' # v)"
proof -
  have b: "blank_or_tab CHR 0x09" "blank_or_tab CHR '' ''" by (simp_all add: blank_or_tab_def)
  have r: "clean (''= '' @ v)" "clean (CHR 0x09 # ''= '' @ v)" using assms(5) by (simp_all add: crlf_def)
  have n: "\<not> continues (''= '' @ v)" "\<not> continues (CHR 0x09 # ''= '' @ v)" using assms(6) by (auto simp: continues_def split: if_splits)
  show "harmless_line (entry w v)" using harmless_word [OF assms(1-4) b(1) r(1) n(1)] by (simp add: entry_def)
  show "harmless_line (entry (w @ [CHR 0x09]) v)" using harmless_word [OF assms(1-4) b(1) r(2) n(2)] by (simp add: entry_def)
  show "harmless_line (w @ CHR '' '' # v)" by (rule harmless_word [OF assms(1-4) b(2) assms(5,6)])
qed

lemma old_flags_skip: "\<forall>l \<in> set ls. harmless_line l \<Longrightarrow> old_flags (ls @ ms) sh = old_flags ms sh"
proof (induction ls)
  case (Cons l ls)
  then show ?case by (cases "string_list blank_or_tab l") (simp_all add: harmless_line_def)
qed simp

text \<open>What the submit file must be like to be read back: the strings the user chose contain no line ends and no limit flag.\<close>

definition argument_strings :: "sd_env \<Rightarrow> dag_options \<Rightarrow> string set" where
  "argument_strings e opts = (case opts of (dp, sh) \<Rightarrow>
     {dp_strDagmanPath dp, sh_strLockFile sh, sh_strRescueFile sh, sd_version e, dp_strNotification dp, dp_strOutfileDir dp} \<union> set (sh_dagFiles sh))"

definition line_strings :: "sd_env \<Rightarrow> dag_options \<Rightarrow> string set" where
  "line_strings e opts = (case opts of (dp, sh) \<Rightarrow>
     {sh_strSubFile sh, sh_strLibOut sh, sh_strLibErr sh, sh_strSchedLog sh, sd_which e ''valgrind'', dp_strDagmanPath dp, dp_strNotification dp} \<union>
     set_option (sd_environment e opts) \<union> set_option (sd_onExitRemove e))"

definition readable_back :: "sd_env \<Rightarrow> dag_options \<Rightarrow> disk \<Rightarrow> bool" where
  "readable_back e opts disk \<longleftrightarrow>
     (\<exists>c \<in> set (sd_version e). is_blank c) \<and> (\<forall>s \<in> argument_strings e opts. clean s \<and> plain_arg s) \<and>
     (\<forall>s \<in> line_strings e opts. clean s \<and> \<not> continues s) \<and> (\<forall>l \<in> set (sh_appendLines (snd opts)). harmless_line l) \<and>
     (\<forall>t. disk (sh_appendFile (snd opts)) = Some t \<longrightarrow> (\<forall>l \<in> set (getlines t). harmless_line l)) \<and>
     (\<forall>i \<in> {sh_iMaxIdle (snd opts), sh_iMaxJobs (snd opts), sh_iMaxPre (snd opts), sh_iMaxPost (snd opts)}. is_int32 i)"

lemma ball_set_if: "(\<forall>x \<in> set (if b then xs else []). P x) \<longleftrightarrow> (b \<longrightarrow> (\<forall>x \<in> set xs. P x))"
  by (cases b) simp_all

lemma clean_args:
  assumes "\<forall>s \<in> argument_strings e (dp, sh). clean s \<and> plain_arg s"
  shows "\<forall>a \<in> set (args_before (dp, sh)) \<union> set (args_after (sd_version e) (dp, sh)). plain_arg a"
    and "\<forall>a \<in> set (args_list (dagman_args (sd_version e) (dp, sh))). clean a"
proof -
  have "\<not> isdigit c \<and> c \<noteq> CHR ''-''" if "crlf c \<or> c = CHR 0x00" for c using that unfolding crlf_def by (elim disjE) (simp_all add: isdigit_def)
  then have n: "clean (string_of_int i)" for i unfolding clean_def using int_chars by blast
  show "\<forall>a \<in> set (args_before (dp, sh)) \<union> set (args_after (sd_version e) (dp, sh)). plain_arg a"
    using assms unfolding args_before_def args_after_def argument_strings_def prod.case set_append ball_Un ball_set_if by simp
  have "\<forall>a \<in> set (args_before (dp, sh)) \<union> set (args_after (sd_version e) (dp, sh)). clean a"
    using assms unfolding args_before_def args_after_def argument_strings_def prod.case set_append ball_Un ball_set_if by (simp add: n crlf_def)
  then show "\<forall>a \<in> set (args_list (dagman_args (sd_version e) (dp, sh))). clean a"
    unfolding dagman_args_list set_append ball_Un ball_set_if by (simp add: n crlf_def)
qed

definition lines_before :: "sd_env \<Rightarrow> shallow_options \<Rightarrow> string \<Rightarrow> string list" where
  "lines_before e sh exe =
     [''# Filename: '' @ sh_strSubFile sh, ''# Generated by condor_submit_dag '' @ concat (map (\<lambda>f. f @ '' '') (sh_dagFiles sh)),
      entry ''universe'' ''scheduler'', entry ''executable'' exe, entry (''getenv'' @ [CHR 0x09]) ''True'',
      entry (''output'' @ [CHR 0x09]) (sh_strLibOut sh), entry (''error'' @ [CHR 0x09]) (sh_strLibErr sh),
      entry (''log'' @ [CHR 0x09]) (sh_strSchedLog sh), entry ''remove_kill_sig'' ''SIGUSR1'',
      entry ''+OtherJobRemoveRequirements'' ([dquote] @ ''DAGManJobId == $(cluster)'' @ [dquote]),
      ''# Note: default on_exit_remove expression:'', ''# '' @ defaultRemoveExpr, ''# attempts to ensure that DAGMan is automatically'',
      ''# requeued by the schedd if it exits abnormally or'', ''# is killed (e.g., during a reboot).'',
      entry ''on_exit_remove'' (case sd_onExitRemove e of None \<Rightarrow> defaultRemoveExpr | Some x \<Rightarrow> x),
      entry ''copy_to_spool'' (if sh_copyToSpool sh then ''True'' else ''False'')]"

definition lines_after :: "dag_options \<Rightarrow> string \<Rightarrow> string list \<Rightarrow> string list" where
  "lines_after opts env ins = (case opts of (dp, sh) \<Rightarrow>
     entry ''environment'' env # (if dp_strNotification dp \<noteq> [] then [entry ''notification'' (dp_strNotification dp)] else []) @
     ins @ sh_appendLines sh @ [''queue''])"

lemma submit_file_split:
  "submit_file_lines e (dp, sh) exe env ins = lines_before e sh exe @ arguments_line (sd_version e) (dp, sh) # lines_after (dp, sh) env ins"
  by (simp add: submit_file_lines_def lines_before_def lines_after_def)

lemma last_spaced_files: "last (''Generated by condor_submit_dag '' @ concat (map (\<lambda>f. f @ '' '') fs)) = CHR '' ''"
  by (induction fs rule: rev_induct) simp_all

lemma harmless_comments:
  assumes "clean v" and "\<not> continues v"
  shows "harmless_line (CHR ''#'' # CHR '' '' # v)"
  using harmless_entry(3) [of "''#''" v] assms by (simp add: isspace_def crlf_def strcaseeq_def)

lemma harmless_entries:
  assumes "clean v" and "\<not> continues v"
  shows "harmless_line (entry ''universe'' v)" "harmless_line (entry ''executable'' v)" "harmless_line (entry (''getenv'' @ [CHR 0x09]) v)"
    "harmless_line (entry (''output'' @ [CHR 0x09]) v)" "harmless_line (entry (''error'' @ [CHR 0x09]) v)" "harmless_line (entry (''log'' @ [CHR 0x09]) v)"
    "harmless_line (entry ''remove_kill_sig'' v)" "harmless_line (entry ''+OtherJobRemoveRequirements'' v)" "harmless_line (entry ''on_exit_remove'' v)"
    "harmless_line (entry ''copy_to_spool'' v)" "harmless_line (entry ''environment'' v)" "harmless_line (entry ''notification'' v)"
  by (intro harmless_entry assms; simp add: isspace_def crlf_def strcaseeq_def)+

lemma clean_lines:
  assumes "\<forall>s \<in> line_strings e (dp, sh). clean s \<and> \<not> continues s" and "\<forall>s \<in> argument_strings e (dp, sh). clean s \<and> plain_arg s"
    and "exe = (if sh_runValgrind sh then sd_which e ''valgrind'' else dp_strDagmanPath dp)" and "sd_environment e (dp, sh) = Some env"
    and "\<forall>l \<in> set (ins @ sh_appendLines sh). harmless_line l"
  shows "\<forall>l \<in> set (lines_before e sh exe). harmless_line l" and "\<forall>l \<in> set (lines_after (dp, sh) env ins). harmless_line l"
proof -
  have str: "clean s \<and> \<not> continues s" if "s \<in> {sh_strSubFile sh, sh_strLibOut sh, sh_strLibErr sh, sh_strSchedLog sh, exe, env, dp_strNotification dp}" for s
    using that assms(1,3,4) by (auto simp: line_strings_def split: if_splits)
  have rm: "clean (case sd_onExitRemove e of None \<Rightarrow> defaultRemoveExpr | Some x \<Rightarrow> x) \<and> \<not> continues (case sd_onExitRemove e of None \<Rightarrow> defaultRemoveExpr | Some x \<Rightarrow> x)"
    using assms(1) by (cases "sd_onExitRemove e") (simp_all add: line_strings_def defaultRemoveExpr_def crlf_def continues_def)
  have files: "clean (concat (map (\<lambda>f. f @ '' '') (sh_dagFiles sh)))" using assms(2) by (auto simp: argument_strings_def crlf_def)
  have gen: "harmless_line (''# Generated by condor_submit_dag '' @ concat (map (\<lambda>f. f @ '' '') (sh_dagFiles sh)))"
    using harmless_comments [of "''Generated by condor_submit_dag '' @ concat (map (\<lambda>f. f @ '' '') (sh_dagFiles sh))"] files last_spaced_files [of "sh_dagFiles sh"]
    by (simp add: continues_def crlf_def)
  have sub: "harmless_line (''# Filename: '' @ sh_strSubFile sh)"
    using harmless_comments [of "''Filename: '' @ sh_strSubFile sh"] str [of "sh_strSubFile sh"] by (auto simp: continues_def crlf_def split: if_splits)
  have lit: "harmless_line ''# Note: default on_exit_remove expression:''" "harmless_line (''# '' @ defaultRemoveExpr)"
    "harmless_line ''# attempts to ensure that DAGMan is automatically''" "harmless_line ''# requeued by the schedd if it exits abnormally or''"
    "harmless_line ''# is killed (e.g., during a reboot).''"
    by (simp_all add: harmless_comments continues_def crlf_def defaultRemoveExpr_def)
  have vals: "clean ''scheduler'' \<and> \<not> continues ''scheduler''" "clean ''True'' \<and> \<not> continues ''True''" "clean ''False'' \<and> \<not> continues ''False''"
    "clean ''SIGUSR1'' \<and> \<not> continues ''SIGUSR1''"
    "clean ([dquote] @ ''DAGManJobId == $(cluster)'' @ [dquote]) \<and> \<not> continues ([dquote] @ ''DAGManJobId == $(cluster)'' @ [dquote])"
    by (simp_all add: crlf_def continues_def)
  have spool: "harmless_line (entry ''copy_to_spool'' (if sh_copyToSpool sh then ''True'' else ''False''))" using harmless_entries(10) vals by simp
  have fixed: "harmless_line (entry ''universe'' ''scheduler'')" "harmless_line (entry (''getenv'' @ [CHR 0x09]) ''True'')" "harmless_line (entry ''remove_kill_sig'' ''SIGUSR1'')"
    "harmless_line (entry ''+OtherJobRemoveRequirements'' ([dquote] @ ''DAGManJobId == $(cluster)'' @ [dquote]))"
    using vals harmless_entries(1,3,7,8) by blast+
  have named: "harmless_line (entry ''executable'' exe)" "harmless_line (entry (''output'' @ [CHR 0x09]) (sh_strLibOut sh))"
    "harmless_line (entry (''error'' @ [CHR 0x09]) (sh_strLibErr sh))" "harmless_line (entry (''log'' @ [CHR 0x09]) (sh_strSchedLog sh))"
    "harmless_line (entry ''on_exit_remove'' (case sd_onExitRemove e of None \<Rightarrow> defaultRemoveExpr | Some x \<Rightarrow> x))"
    using str [of exe] str [of "sh_strLibOut sh"] str [of "sh_strLibErr sh"] str [of "sh_strSchedLog sh"] rm harmless_entries(2,4,5,6,9) by blast+
  show "\<forall>l \<in> set (lines_before e sh exe). harmless_line l"
    unfolding lines_before_def list.set ball_simps using gen sub lit spool fixed named by (intro conjI TrueI)
  have "harmless_line ''queue''" using first_word(1) [of "''queue''"] by (simp add: harmless_line_def physical_def isspace_def crlf_def strcaseeq_def)
  then show "\<forall>l \<in> set (lines_after (dp, sh) env ins). harmless_line l"
    using assms(5) harmless_entries(11,12) str by (auto simp: lines_after_def)
qed

lemma written_file:
  assumes "writeSubmitFile e (dp, sh) disk = Inr disk'" and "readable_back e (dp, sh) disk"
  shows "\<exists>before after. disk' (sh_strSubFile sh) = Some (text_of_lines (before @ arguments_line (sd_version e) (dp, sh) # after)) \<and>
    (\<forall>l \<in> set before \<union> set after. harmless_line l)"
proof -
  let ?exe = "if sh_runValgrind sh then sd_which e ''valgrind'' else dp_strDagmanPath dp"
  let ?disk = "disk(sh_strSubFile sh \<mapsto> [])"
  obtain env where env: "sd_environment e (dp, sh) = Some env"
    using assms(1) by (cases "sd_environment e (dp, sh)") (auto simp: writeSubmitFile_def Let_def split: if_splits)
  then obtain ins where ins: "(if sh_appendFile sh \<noteq> [] \<or> \<not> sd_same_literal e then
        (case ?disk (sh_appendFile sh) of None \<Rightarrow> Inl (DC_Exit 1) | Some t \<Rightarrow> Inr (getlines t)) else Inr []) = Inr ins"
    and d: "disk' = ?disk(sh_strSubFile sh \<mapsto> text_of_lines (submit_file_lines e (dp, sh) ?exe env ins))"
    using assms(1) unfolding writeSubmitFile_def prod.case Let_def apply_op.simps env option.case
    by (simp only: bindR_eq_Inr Inr_inject if_split_asm [where P = "\<lambda>x. x = Inr disk'"]) blast
  have "\<forall>l \<in> set ins. harmless_line l"
    using ins assms(2) by (auto simp: readable_back_def split: if_splits option.splits)
  moreover have rb: "\<forall>s \<in> line_strings e (dp, sh). clean s \<and> \<not> continues s" "\<forall>s \<in> argument_strings e (dp, sh). clean s \<and> plain_arg s"
    "\<forall>l \<in> set (sh_appendLines sh). harmless_line l"
    using assms(2) unfolding readable_back_def snd_conv by blast+
  ultimately have i: "\<forall>l \<in> set (ins @ sh_appendLines sh). harmless_line l" by auto
  have h: "\<forall>l \<in> set (lines_before e sh ?exe). harmless_line l" "\<forall>l \<in> set (lines_after (dp, sh) env ins). harmless_line l"
    by (rule clean_lines [OF rb(1,2) refl env i])+
  then show ?thesis using d unfolding submit_file_split by (metis UnE fun_upd_same)
qed


definition sample_sd :: sd_env where
  "sample_sd = \<lparr>sd_files = (\<lambda>_. \<lparr>f_fopen = (\<lambda>_ _. Some ''JOB A a.sub''), f_getcwd_ok = (\<lambda>_. True), f_chdir = (\<lambda>_ _. None), f_queueCount = (\<lambda>_ _. 1)\<rparr>),
     sd_cwd = ''/home'', sd_system = (\<lambda>_ _ _ disk. (0, disk)), sd_which = (\<lambda>f. ''/bin/'' @ f), sd_version = ''$CondorVersion: 7.5.6 $'', sd_fopen_ok = True,
     sd_environment = (\<lambda>_. Some ''A=1''), sd_onExitRemove = None, sd_maxRescueDagNum = 2, sd_same_literal = True\<rparr>"

definition sample_limited :: shallow_options where
  "sample_limited = sample_shallow\<lparr>sh_iMaxJobs := 5\<rparr>"

lemma sample_written: "\<exists>disk'. writeSubmitFile sample_sd (sample_deep, sample_limited) Map.empty = Inr disk'"
proof -
  have "sd_fopen_ok sample_sd" "\<not> sh_runValgrind sample_limited" "sh_strConfigFile sample_limited = []"
    "sd_environment sample_sd (sample_deep, sample_limited) = Some ''A=1''" "sh_appendFile sample_limited = []" "sd_same_literal sample_sd"
    by code_simp+
  then show ?thesis by (simp add: writeSubmitFile_def Let_def)
qed

lemma sample_readable: "readable_back sample_sd (sample_deep, sample_limited) Map.empty"
proof -
  have "\<exists>c \<in> set (sd_version sample_sd). is_blank c" by code_simp
  moreover have "\<forall>s \<in> argument_strings sample_sd (sample_deep, sample_limited). clean s \<and> plain_arg s" by code_simp
  moreover have "\<forall>s \<in> line_strings sample_sd (sample_deep, sample_limited). clean s \<and> \<not> continues s" by code_simp
  moreover have "sh_appendLines sample_limited = []" by code_simp
  moreover have "\<forall>i \<in> {sh_iMaxIdle sample_limited, sh_iMaxJobs sample_limited, sh_iMaxPre sample_limited, sh_iMaxPost sample_limited}. is_int32 i" by code_simp
  ultimately show ?thesis unfolding readable_back_def by simp
qed


text \<open>A flag is found anywhere in an argument: with a DAG file of this name, the limit on the number of jobs is lost.\<close>

lemma flag_in_dag_name_loses_limit:
  "preserve_loop [''-Dag'', ''a-maxjobs.dag'', ''-MaxJobs'', ''5''] sh = Inr (sh\<lparr>sh_iMaxJobs := 0\<rparr>)"
proof -
  have a: "parsePreservedArgs (map tolower ''a-maxjobs.dag'') (v # ys) sh = Some (Inr (ys, sh\<lparr>sh_iMaxJobs := atoi v\<rparr>))" for v ys
    by (simp add: option_defs)
  have "atoi ''-MaxJobs'' = 0" by code_simp
  moreover have "plain_arg ''5''" by code_simp
  ultimately show ?thesis
    using preserve_skip [of "[''-Dag'']" "[''a-maxjobs.dag'', ''-MaxJobs'', ''5'']" sh] preserve_skip [of "[''5'']" "[]" "sh\<lparr>sh_iMaxJobs := 0\<rparr>"]
    by (simp only: append_Cons append_Nil list.set ball_simps plain_flags preserve_loop.simps(2) [of "''a-maxjobs.dag''"] a
        preserve_loop.simps(1) option.case sum.case prod.case simp_thms)
qed

section \<open>A run that only prepares the submit file\<close>

text \<open>Reading the old submit file changes nothing but the limits.\<close>

definition but_limits :: "shallow_options \<Rightarrow> shallow_options" where
  "but_limits sh = sh\<lparr>sh_iMaxIdle := 0, sh_iMaxJobs := 0, sh_iMaxPre := 0, sh_iMaxPost := 0\<rparr>"

lemma but_limits_fields:
  "but_limits sh' = but_limits sh \<Longrightarrow> sh_strSubFile sh' = sh_strSubFile sh \<and> sh_bSubmit sh' = sh_bSubmit sh"
  by (cases sh; cases sh') (simp add: but_limits_def)

lemma parsePreservedArgs_limits: "parsePreservedArgs a rest sh = Some (Inr (rest', sh')) \<Longrightarrow> but_limits sh' = but_limits sh"
  by (auto simp: parsePreservedArgs_def with_value_def but_limits_def split: if_splits list.splits)

lemma preserve_loop_limits: "preserve_loop args sh = Inr sh' \<Longrightarrow> but_limits sh' = but_limits sh"
proof (induction args sh rule: preserve_loop.induct)
  case (2 a rest sh)
  show ?case
  proof (cases "parsePreservedArgs (map tolower a) rest sh")
    case None
    then show ?thesis using 2 by simp
  next
    case (Some r)
    then obtain rest' sh1 where r: "r = Inr (rest', sh1)" using 2(3) by (cases r) auto
    then show ?thesis using 2 Some parsePreservedArgs_limits [of "map tolower a" rest sh rest' sh1] by simp
  qed
qed simp

lemma parseArgumentsLine_limits: "parseArgumentsLine l sh = Inr (Some sh') \<Longrightarrow> but_limits sh' = but_limits sh"
  by (auto simp: parseArgumentsLine_def Let_def dest: preserve_loop_limits split: option.splits if_splits)

lemma old_flags_limits: "old_flags ls sh = Inr (Some sh') \<Longrightarrow> but_limits sh' = but_limits sh"
proof (induction ls arbitrary: sh)
  case (Cons l ls)
  show ?case
  proof (cases "string_list blank_or_tab l \<noteq> [] \<and> strcaseeq (hd (string_list blank_or_tab l)) ''arguments''")
    case True
    then obtain sh1 where "parseArgumentsLine l sh = Inr (Some sh1)" "old_flags ls sh1 = Inr (Some sh')"
      using Cons.prems by (cases "string_list blank_or_tab l") (auto split: option.splits)
    then show ?thesis using Cons.IH parseArgumentsLine_limits by metis
  next
    case False
    then have "old_flags ls sh = Inr (Some sh')" using Cons.prems by (cases "string_list blank_or_tab l") auto
    then show ?thesis by (rule Cons.IH)
  qed
qed simp

lemma getOldSubmitFlags_limits: "getOldSubmitFlags disk sh = Inr (Some sh') \<Longrightarrow> but_limits sh' = but_limits sh"
  by (auto simp: getOldSubmitFlags_def dest: old_flags_limits split: if_splits option.splits)

lemma writeSubmitFile_writes: "writeSubmitFile e (dp, sh) disk = Inr disk' \<Longrightarrow> f \<noteq> sh_strSubFile sh \<Longrightarrow> disk' f = disk f"
  by (auto simp: writeSubmitFile_def Let_def split: if_splits option.splits)

lemma setUpOptions_fields:
  assumes "setUpOptions e (dp, sh) disk = Inr (Some (dp', sh'))"
  shows "sh_strSubFile sh' = sh_primaryDagFile sh @ DAG_SUBMIT_FILE_SUFFIX \<and> sh_bSubmit sh' = sh_bSubmit sh \<and> dp_bForce dp' = dp_bForce dp"
proof -
  obtain sh1 where s: "file_names (getcwd (sd_files e disk) (sd_cwd e)) dp sh = Some sh1"
    using assms by (cases "file_names (getcwd (sd_files e disk) (sd_cwd e)) dp sh") (auto simp: setUpOptions_def)
  then have "sh_strSubFile sh1 = sh_primaryDagFile sh @ DAG_SUBMIT_FILE_SUFFIX \<and> sh_bSubmit sh1 = sh_bSubmit sh"
    by (auto simp: file_names_def Let_def split: if_splits option.splits)
  moreover have "\<exists>cfg. sh' = sh1\<lparr>sh_strConfigFile := cfg\<rparr>" "dp_bForce dp' = dp_bForce dp"
    using assms s by (auto simp: setUpOptions_def Let_def split: if_splits)
  ultimately show ?thesis by auto
qed

text \<open>
  C22: A run with \<open>-no_submit\<close>, as the one for a nested DAG, changes no file but the submit file of its DAG, unless it is told to
  recurse or to use force.
\<close>

theorem no_submit_writes_one_file:
  assumes "parseCommandLine (getcwd (sd_files e disk) (sd_cwd e)) args opts = Inr (dp, sh)"
    and "\<not> dp_recurse dp" and "\<not> dp_bForce dp" and "\<not> sh_bSubmit sh" and "submit_dag_main e args opts disk = Inr (r, disk')"
    and "f \<noteq> sh_primaryDagFile sh @ ''.condor.sub''"
  shows "disk' f = disk f"
proof -
  have m: "bindR (setUpOptions e (dp, sh) disk) (\<lambda>r.
      case r of None \<Rightarrow> Inr (1, disk)
      | Some (dp, sh) \<Rightarrow>
          bindR (ensureOutputFilesExist (sd_maxRescueDagNum e) (dp, sh) disk) (\<lambda>disk.
          bindR (if dp_updateSubmit dp then getOldSubmitFlags disk sh else Inr (Some sh)) (\<lambda>r.
            case r of None \<Rightarrow> Inr (1, disk)
            | Some sh \<Rightarrow> bindR (writeSubmitFile e (dp, sh) disk) (\<lambda>disk. Inr (submitDag e sh disk))))) = Inr (r, disk')"
    using assms(2,5) unfolding submit_dag_main_def assms(1) by simp
  then obtain s where s: "setUpOptions e (dp, sh) disk = Inr s" by blast
  show ?thesis
  proof (cases s)
    case None
    then show ?thesis using m s by simp
  next
    case (Some x)
    then obtain dp1 sh1 where x: "setUpOptions e (dp, sh) disk = Inr (Some (dp1, sh1))" using s by (cases x) simp
    note fs = setUpOptions_fields [OF x]
    obtain d1 where d1: "ensureOutputFilesExist (sd_maxRescueDagNum e) (dp1, sh1) disk = Inr d1" using m x by auto
    then have d: "d1 = disk" using ensure_returns(1) [OF d1] fs assms(3) by (simp add: remove_old_files_def)
    obtain g where g: "(if dp_updateSubmit dp1 then getOldSubmitFlags disk sh1 else Inr (Some sh1)) = Inr g" using m x d1 d by auto
    show ?thesis
    proof (cases g)
      case None
      then show ?thesis using m x d1 d g by simp
    next
      case (Some sh2)
      then have sh2: "sh_strSubFile sh2 = sh_strSubFile sh1" "\<not> sh_bSubmit sh2"
        using g fs assms(4) getOldSubmitFlags_limits [of disk sh1 sh2] but_limits_fields [of sh2 sh1] by (auto split: if_splits)
      have "writeSubmitFile e (dp1, sh2) disk = Inr disk'" using m x d1 d g Some sh2(2) by (auto simp: submitDag_def)
      then show ?thesis using writeSubmitFile_writes sh2(1) fs assms(6) by (simp add: DAG_SUBMIT_FILE_SUFFIX_def)
    qed
  qed
qed

definition sample_options :: dag_options where
  "sample_options = (new_deep_options False True, new_shallow_options [] False)"

definition sample_quiet :: shallow_options where
  "sample_quiet = sample_shallow\<lparr>sh_bSubmit := False\<rparr>"

definition sample_parsed :: dag_options where
  "sample_parsed = (new_deep_options False True,
     (new_shallow_options [] False)\<lparr>sh_bSubmit := False, sh_primaryDagFile := ''d.dag'', sh_dagFiles := [''d.dag'']\<rparr>)"

lemma sample_steps:
  "parseCommandLine (getcwd (sd_files sample_sd Map.empty) (sd_cwd sample_sd)) [''-no_submit'', ''d.dag''] sample_options = Inr sample_parsed"
  "setUpOptions sample_sd sample_parsed Map.empty = Inr (Some (sample_deep, sample_quiet))"
  by code_simp+

lemma sample_main: "\<exists>disk'. submit_dag_main sample_sd [''-no_submit'', ''d.dag''] sample_options Map.empty = Inr (0, disk')"
proof -
  have e: "case ensureOutputFilesExist (sd_maxRescueDagNum sample_sd) (sample_deep, sample_quiet) Map.empty of Inr d \<Rightarrow> True | Inl x \<Rightarrow> False" by code_simp
  have o: "\<not> dp_bForce sample_deep" "\<not> dp_recurse (fst sample_parsed)" "\<not> dp_updateSubmit sample_deep" "\<not> sh_bSubmit sample_quiet" by code_simp+
  from e obtain d where d: "ensureOutputFilesExist (sd_maxRescueDagNum sample_sd) (sample_deep, sample_quiet) Map.empty = Inr d"
    by (auto split: sum.splits)
  have same: "d = Map.empty" using ensure_returns(1) [OF d] o(1) by (simp add: remove_old_files_def)
  have "sd_fopen_ok sample_sd" "\<not> sh_runValgrind sample_quiet" "sh_strConfigFile sample_quiet = []"
    "sd_environment sample_sd (sample_deep, sample_quiet) = Some ''A=1''" "sh_appendFile sample_quiet = []" "sd_same_literal sample_sd"
    by code_simp+
  then obtain d' where "writeSubmitFile sample_sd (sample_deep, sample_quiet) Map.empty = Inr d'" by (simp add: writeSubmitFile_def Let_def)
  then have "submit_dag_main sample_sd [''-no_submit'', ''d.dag''] sample_options Map.empty = Inr (0, d')"
    unfolding submit_dag_main_def sample_steps bindR_Inr using d same sample_steps(2) o by (simp add: submitDag_def)
  then show ?thesis by blast
qed

theorem no_submit_writes_one_file_witness:
  "\<exists>disk'. submit_dag_main sample_sd [''-no_submit'', ''d.dag''] sample_options Map.empty = Inr (0, disk') \<and> disk' ''d.dag.lib.out'' = None"
proof -
  obtain d where d: "submit_dag_main sample_sd [''-no_submit'', ''d.dag''] sample_options Map.empty = Inr (0, d)" using sample_main by blast
  have "d ''d.dag.lib.out'' = (Map.empty :: disk) ''d.dag.lib.out''"
    by (rule no_submit_writes_one_file [OF sample_steps(1) [unfolded sample_parsed_def] _ _ _ d]) (simp_all add: new_deep_options_def)
  then show ?thesis using d by simp
qed

text \<open>A line that ends after \<open>SUBDAG\<close> makes the recursion follow a null pointer.\<close>

lemma subdag_line_crashes: "recursion_line e dp ''SUBDAG'' disk = Inl (Crash ''strcasecmp( inlineOrExt, EXTERNAL )'')"
proof -
  have "string_list blank_or_tab ''SUBDAG'' = [''SUBDAG'']" "\<not> strcaseeq ''SUBDAG'' ''JOB''" "strcaseeq ''SUBDAG'' ''SUBDAG''" by code_simp+
  then show ?thesis by (simp add: recursion_line_def)
qed

end
