(* ===== verification/Spec2Isabelle.thy ===== *)
theory Spec2Isabelle
  imports Dag_System Dag_Start Rescue_Files Dag_Process Rescue_Roundtrip Jobstate_Log Submit_Update
begin

text \<open>
  A model of DAGMan, the workflow manager of Condor, and of the containers it rests on.

  \<^bold>\<open>The program.\<close> DAGMan (\<open>src/src/condor_dagman\<close>) runs a directed acyclic graph of jobs. Each node
  may have a PRE script, a job and a POST script; a node starts when all its parents are done.
  DAGMan learns what happens to the jobs by reading the user logs that the schedd writes, and it
  keeps its nodes in the container classes of \<open>src/src/condor_utils\<close>.

  \<^bold>\<open>The theories.\<close>

  \<^item> \<open>Condor_Prelude\<close>: abnormal exits (\<open>EXCEPT\<close>, \<open>ASSERT\<close>, \<open>DC_Exit\<close>, \<open>main_shutdown_rescue\<close>) as the
    left values of a sum, sequencing, array loops, shared lemmas.
  \<^item> \<open>Bin_Search\<close>, \<open>Priority_List\<close>, \<open>Ring_Queue\<close>, \<open>Hash_Table\<close>: \<open>binary_search.h\<close>, \<open>simplelist.h\<close>,
    \<open>prioritysimplelist.h\<close>, \<open>Queue.h\<close>, \<open>HashTable.h\<close>, as arrays and chains with their indices.
    The locales \<open>prio_queue\<close>, \<open>fifo\<close> and \<open>dict\<close> state what the clients rely on; they are
    interpreted on these structures.
  \<^item> \<open>User_Log\<close>, \<open>Check_Events\<close>, \<open>My_String\<close>: \<open>condor_id.cpp\<close>, the event data of \<open>condor_event.h\<close>,
    \<open>check_events.cpp\<close>, and the operations of \<open>MyString.cpp\<close> that DAGMan uses.
  \<^item> \<open>Throttle\<close>, \<open>Dag_Job\<close>, \<open>Dag_State\<close>: \<open>throttle_by_category.cpp\<close>, \<open>job.cpp\<close>, and the state of
    \<open>dag.cpp\<close> with the operations that build and change the graph.
  \<^item> \<open>Dag_Graph\<close>, \<open>Dag_Cycle\<close>: consistency of the graph under these operations, and correctness of
    the cycle detection.
  \<^item> \<open>Dag_Script\<close>, \<open>Dag_Engine\<close>, \<open>Dag_Events\<close>, \<open>Dag_Submit\<close>: \<open>script.cpp\<close>, \<open>scriptQ.cpp\<close>, and the rest
    of \<open>dag.cpp\<close>: starting, restarting and finishing nodes, the reapers, the handlers of log
    events, recovery, the submit cycle.
  \<^item> \<open>Dag_Rescue\<close>, \<open>Rescue_Files\<close>: rescue DAGs, their text, their names, the search for older ones.
  \<^item> \<open>Dag_Text\<close>, \<open>Dag_Parse\<close>: the DAG file parser \<open>parse.cpp\<close> with the line reader \<open>getline\<close> of
    \<open>config.cpp\<close>, the node commands of \<open>dagman_commands.cpp\<close>, splices and their lifting into the DAG.
  \<^item> \<open>Dag_Built\<close>, \<open>Parse_Tree\<close>, \<open>Splice_Tree\<close>, \<open>Lift_Tree\<close>, \<open>Splice_Forest\<close>, \<open>Parse_Sound\<close>, \<open>Load_Sound\<close>: what parsing
    keeps true of the \<open>Dag\<close> objects, which form a tree of splices over a shared memory, while lines are read
    and while splices are lifted; loading any DAG files gives a DAG that satisfies \<open>fresh_ok\<close>.
  \<^item> \<open>Text_Words\<close>, \<open>Rescue_Parse\<close>, \<open>Rescue_Node\<close>, \<open>Rescue_Load\<close>, \<open>Rescue_Roundtrip\<close>: how the line reader and
    \<open>strtok\<close> act on printed text, and what the parser makes of each line of a rescue DAG, of the block of a node,
    and of the whole text.
  \<^item> \<open>Dag_Main\<close>, \<open>Dag_Load\<close>: \<open>dagman_main.cpp\<close>: choosing a rescue DAG, loading the DAG files, starting,
    the timer handler, the shutdown handlers, pausing.
  \<^item> \<open>Dag_Run\<close>, \<open>Dag_Handlers\<close>, \<open>Dag_Steps\<close>: the invariant of a running DAG (\<open>run_ok\<close>) and its preservation by
    the engine, the event handlers, the log loop and the submit cycle. \<open>Dag_Bounds\<close>: the throttles.
    \<open>Dag_Boot\<close>: a freshly built DAG (\<open>fresh_ok\<close>) becomes a running one. \<open>Dag_Start\<close>: starting a node ends.
  \<^item> \<open>Dag_System\<close>: the process as a step relation (timer, script reaper, signals) and its reachable
    states; the locale \<open>mark_invariant\<close> states what cycle detection may change, and is interpreted on
    both invariants.
  \<^item> \<open>Arg_List\<close>, \<open>Submit_Command\<close>: \<open>condor_arglist.cpp\<close>, the formats in which arguments are written and read, and
    \<open>dagman_submit.cpp\<close>: the command lines of the submit tools and the reading of their output.
  \<^item> \<open>Jobstate_Log\<close>, \<open>Output_Files\<close>: \<open>jobstate_log.cpp\<close>, and the node status and dot files of \<open>dag.cpp\<close>, as changes
    to files that other processes read.
  \<^item> \<open>Logical_Lines\<close>: the line reader of \<open>read_multiple_logs.cpp\<close>, which joins continued lines, and the values that are
    looked up in DAG and submit files.
  \<^item> \<open>Submit_Dag\<close>, \<open>Submit_Files\<close>, \<open>Submit_Update\<close>: \<open>condor_submit_dag.cpp\<close> and \<open>dagman_recursive_submit.cpp\<close>: options,
    nested DAGs, what happens to files that are there already, the submit file for DAGMan and its update.
  \<^item> \<open>Dag_Process\<close>: the process from the DAG files on (\<open>main_init\<close> and the steps), for any files and any
    nesting of splices.

  \<^bold>\<open>Modelling.\<close> An object is a record; a pointer to a node is its \<open>JobID_t\<close>, looked up in the memory
  \<open>d_nodes\<close>; a \<open>std::set\<close> is a set. Operations pass the state explicitly. The answers of the
  outside world (log contents, processes, submit commands, the clock) come from the record
  \<open>env\<close>, indexed by the number of questions asked so far, so every theorem holds for every
  behaviour of the world; what the code does to the world is appended to \<open>d_trace\<close>. The DAG files are
  the record \<open>files\<close>.

  \<^bold>\<open>Loops and fuel.\<close> Recursions over arrays, chains and text end by a measure. \<open>DFSVisit\<close> carries a bound of
  one more than the number of nodes, which \<open>isCycle_correct\<close> shows to be enough. \<open>StartNode\<close>
  carries one level per remaining retry, which \<open>StartNode_returns\<close> shows to be enough. The submit loop
  carries the size of the ready queue, and \<open>submit_cycle_bounded\<close> shows that it ends. The
  loop that reads a log may run forever, so it is a partial function into an option, and
  \<open>event_timer_returns\<close> states when it returns. Nested splices are bounded by the file descriptors
  left, as in the program: without one the file cannot be opened. \<open>LiftSplices\<close> carries the number
  of \<open>Dag\<close> objects, which bounds the depth of their tree. The search for a free dot file number is a partial
  function into an option, and \<open>dot_file_is_new\<close> shows that it ends on every disk with finitely many files. The shutdown that writes to
  a jobstate log it cannot open calls itself; its depth is the size of the stack, for every size of which
  \<open>jobstate_log_unwritable\<close> shows the overflow.

  \<^bold>\<open>Not modelled.\<close> Debug output, the command line of DAGMan and the configuration, the environment that \<open>condor_submit_dag\<close> passes
  on (\<open>Env\<close>), reading and writing of the user logs, and the other daemons of Condor (schedd, startd, shadow, negotiator, DaemonCore), which DAGMan only sees
  through logs and commands. The submit commands, \<open>condor_submit_dag\<close>, the jobstate log and the status and dot files are modelled and
  proved on their own; the steps of the process do not call them (there a submission is an answer of \<open>e_submit\<close>, a run for a nested
  DAG one of \<open>e_runSubmitDag\<close>, the number of jobs in a submit file one of \<open>f_queueCount\<close>, and the output files do not influence a run). An exit from deep inside the engine (\<open>main_shutdown_rescue\<close> while a script is started or a log is
  monitored) is an exception that loses the state, so the rescue DAG written there is not described.
\<close>

section \<open>Samples\<close>

lemma done_chain_parts:
  "dom (d_nodes done_chain) = {0, 1}"
  "node_at done_chain 0 = (new_job TYPE_CONDOR ''A'' '''' ''a.sub'' 0)\<lparr>Status := STATUS_DONE, queues := (\<lambda>_. {})(Q_CHILDREN := {1})\<rparr>"
  "node_at done_chain 1 = (new_job TYPE_CONDOR ''B'' '''' ''b.sub'' 1)\<lparr>queues := (\<lambda>_. {})(Q_PARENTS := {0})\<rparr>"
  "d_nodeIDHash done_chain = [0 \<mapsto> 0, 1 \<mapsto> 1]" "d_nodeNameHash done_chain = [''A'' \<mapsto> 0, ''B'' \<mapsto> 1]"
  "d_jobs done_chain = [0, 1]"
  by (auto simp: done_chain_def node_at_def)

lemma done_chain_fresh: "fresh_ok done_chain"
proof -
  have "store_ok done_chain"
    unfolding store_ok_def done_chain_parts by (auto simp: done_chain_parts new_job_def split: if_splits)
  moreover have "symmetric_deps done_chain" "waiting_ok done_chain"
    unfolding symmetric_deps_def waiting_ok_def done_chain_parts(1) by (auto simp: done_chain_parts new_job_def)
  moreover have "\<forall>i \<in> dom (d_nodes done_chain). \<not> countedAsDone (node_at done_chain i) \<and> retries (node_at done_chain i) \<le> retry_max (node_at done_chain i)"
    unfolding done_chain_parts(1) by (simp add: done_chain_parts new_job_def)
  moreover have "trace_ok done_chain" by (simp add: trace_ok_def done_chain_def new_Dag_def)
  ultimately show ?thesis
    by (simp add: fresh_ok_def graph_ok_def done_chain_parts pl_invar_new) (simp add: done_chain_def new_Dag_def pl_invar_new)
qed

lemma sample_start: "start_dag sample_env sample_dm done_chain = Some (Inr (Running sample_running))"
proof -
  have "(case start_dag sample_env sample_dm done_chain of Some (Inr (Running d)) \<Rightarrow> True | _ \<Rightarrow> False)" by code_simp
  then show ?thesis by (auto simp: sample_running_def split: option.splits sum.splits run_state.splits)
qed

lemma sample_submits:
  "case condor_event_timer sample_env sample_dm sample_running of
     Some (Inr (Running d)) \<Rightarrow> A_submit 1 \<in> set (d_trace d) | _ \<Rightarrow> False"
  unfolding sample_running_def by code_simp

lemma sample_reach:
  obtains d where "reach sample_env sample_dm done_chain (Running d)" "A_submit 1 \<in> set (d_trace d)"
proof -
  obtain d where d: "condor_event_timer sample_env sample_dm sample_running = Some (Inr (Running d))" "A_submit 1 \<in> set (d_trace d)"
    using running_case [OF sample_submits] by blast
  from reach.step [OF reach.start [OF sample_start] step.timer [OF d(1)]] d(2) show ?thesis by (rule that)
qed

section \<open>Properties of the whole process\<close>

text \<open>
  C1: Dependencies are respected. In every state DAGMan can reach from a parsed DAG, whatever the
  logs, the scripts and the submit commands answer and in whatever order timers, reapers and
  signals arrive: a node whose job was submitted, or whose PRE script was started, has only
  parents that finished successfully.
\<close>

theorem dependencies_respected:
  assumes "fresh_ok d0" and "reach e dm d0 s" and "p \<in> queue_of d0 i Q_PARENTS" and "i \<in> dom (d_nodes d0)"
    and "A_submit i \<in> set (d_trace (dag_of s)) \<or> A_spawn i False prog args \<in> set (d_trace (dag_of s))"
  shows "countedAsDone (node_at (dag_of s) p)"
proof -
  have run: "run_from d0 (dag_of s)" using reach_good [OF assms(1,2)] by (simp add: good_state_def)
  then have ok: "run_ok (dag_of s)" by blast
  have w: "queue_of (dag_of s) i Q_WAITING = {}"
    using ok assms(5) unfolding run_ok_def trace_ok_def by (fastforce simp: node_at_def)
  have "node_kept (node_at d0 i) (node_at (dag_of s) i)" using run assms(4) unfolding run_from_def grows_def by blast
  then have "p \<in> queue_of (dag_of s) i Q_PARENTS" using assms(3) by (simp add: node_kept_def)
  moreover have "i \<in> dom (d_nodes (dag_of s))" using assms(4) run_from_dom [OF run] by simp
  ultimately show ?thesis using ok w unfolding run_ok_def done_before_def by blast
qed

theorem dependencies_respected_witness:
  "\<exists>d. reach sample_env sample_dm done_chain (Running d) \<and> A_submit 1 \<in> set (d_trace d) \<and>
     0 \<in> queue_of done_chain 1 Q_PARENTS \<and> countedAsDone (node_at d 0)"
proof -
  obtain d where d: "reach sample_env sample_dm done_chain (Running d)" "A_submit 1 \<in> set (d_trace d)" by (rule sample_reach)
  have q: "0 \<in> queue_of done_chain 1 Q_PARENTS" "1 \<in> dom (d_nodes done_chain)" by (simp_all add: done_chain_parts)
  have "countedAsDone (node_at (dag_of (Running d)) 0)"
    by (rule dependencies_respected [OF done_chain_fresh d(1) q, where prog = "''''" and args = "[]"]) (use d(2) in simp)
  with d q show ?thesis by auto
qed

text \<open>
  C2: The bookkeeping of a run is exact: the counter of done nodes is the number of nodes marked
  as done, the DAG is reported complete if and only if every node is, a node is never retried
  more often than allowed, and running never changes the graph.
\<close>

theorem run_bookkeeping:
  assumes "fresh_ok d0" and "reach e dm d0 s"
  shows "d_numNodesDone (dag_of s) = int (card {i \<in> dom (d_nodes d0). countedAsDone (node_at (dag_of s) i)}) \<and>
    (DoneSuccess (dag_of s) \<longleftrightarrow> (\<forall>i \<in> dom (d_nodes d0). countedAsDone (node_at (dag_of s) i))) \<and>
    (\<forall>i \<in> dom (d_nodes d0). retries (node_at (dag_of s) i) \<le> retry_max (node_at d0 i) \<and>
      queue_of (dag_of s) i Q_PARENTS = queue_of d0 i Q_PARENTS \<and> queue_of (dag_of s) i Q_CHILDREN = queue_of d0 i Q_CHILDREN)"
proof -
  let ?d = "dag_of s"
  have run: "run_from d0 ?d" using reach_good [OF assms] by (simp add: good_state_def)
  note cnt = run_from_counts [OF run]
  have "retries (node_at ?d i) \<le> retry_max (node_at d0 i) \<and> queue_of ?d i Q_PARENTS = queue_of d0 i Q_PARENTS \<and>
      queue_of ?d i Q_CHILDREN = queue_of d0 i Q_CHILDREN" if i: "i \<in> dom (d_nodes d0)" for i
  proof -
    have "node_kept (node_at d0 i) (node_at ?d i)" using run i unfolding run_from_def grows_def by blast
    moreover have "retries (node_at ?d i) \<le> retry_max (node_at ?d i)"
      using run i run_from_dom [OF run] unfolding run_from_def run_ok_def counts_ok_def by blast
    ultimately show ?thesis by (simp add: node_kept_def)
  qed
  with cnt show ?thesis by blast
qed

theorem run_bookkeeping_witness:
  "reach sample_env sample_dm done_chain (Running sample_running) \<and> \<not> DoneSuccess sample_running \<and>
   d_numNodesDone sample_running = int (card {i \<in> {0, 1}. countedAsDone (node_at sample_running i)})"
proof -
  have r: "reach sample_env sample_dm done_chain (Running sample_running)" by (rule reach.start [OF sample_start])
  have "\<not> DoneSuccess sample_running" unfolding sample_running_def by code_simp
  then show ?thesis using r run_bookkeeping [OF done_chain_fresh r] by (simp add: done_chain_parts)
qed


lemma all_done_fresh: "fresh_ok all_done"
proof -
  have n: "node_at all_done i = (if i = 1 then (node_at done_chain 1)\<lparr>Status := STATUS_DONE\<rparr> else node_at done_chain i)" for i
    by (simp add: all_done_def)
  have t: "dom (d_nodes all_done) = {0, 1}" "d_nodeIDHash all_done = [0 \<mapsto> 0, 1 \<mapsto> 1]"
    "d_nodeNameHash all_done = [''A'' \<mapsto> 0, ''B'' \<mapsto> 1]" "d_jobs all_done = [0, 1]"
    using done_chain_parts by (auto simp: all_done_def)
  have "store_ok all_done" unfolding store_ok_def t by (auto simp: n done_chain_parts new_job_def split: if_splits)
  moreover have "symmetric_deps all_done" "waiting_ok all_done"
    unfolding symmetric_deps_def waiting_ok_def t(1) by (auto simp: n done_chain_parts new_job_def)
  moreover have "\<forall>i \<in> dom (d_nodes all_done). \<not> countedAsDone (node_at all_done i) \<and> retries (node_at all_done i) \<le> retry_max (node_at all_done i)"
    unfolding t(1) by (simp add: n done_chain_parts new_job_def)
  moreover have "trace_ok all_done" by (simp add: trace_ok_def all_done_def done_chain_def new_Dag_def)
  ultimately show ?thesis
    by (simp add: fresh_ok_def graph_ok_def t pl_invar_new)
      (simp add: all_done_def done_chain_def new_Dag_def upd_node_def set_node_def pl_invar_new)
qed

lemma all_done_exits:
  "case start_dag sample_env sample_dm all_done of
     Some (Inr (Running d)) \<Rightarrow>
       (case condor_event_timer sample_env sample_dm d of Some (Inr (Exited v d')) \<Rightarrow> v = EXIT_OKAY | _ \<Rightarrow> False)
   | _ \<Rightarrow> False"
  by code_simp


text \<open>
  C10: Progress is permanent: no step of DAGMan takes back a done mark, makes a node wait again for
  a parent, loses a retry or forgets an action.
\<close>

theorem progress_is_permanent:
  assumes "fresh_ok d0" and "reach e dm d0 s" and "step e dm s s'" and "i \<in> dom (d_nodes d0)"
  shows "(countedAsDone (node_at (dag_of s) i) \<longrightarrow> countedAsDone (node_at (dag_of s') i)) \<and>
    queue_of (dag_of s') i Q_WAITING \<subseteq> queue_of (dag_of s) i Q_WAITING \<and>
    retries (node_at (dag_of s) i) \<le> retries (node_at (dag_of s') i) \<and>
    (\<exists>t. d_trace (dag_of s') = d_trace (dag_of s) @ t)"
proof -
  obtain d where s: "s = Running d" using assms(3) exited_stays by (cases s) auto
  have run: "run_from d0 d" using reach_good [OF assms(1,2)] by (simp add: s good_state_def)
  then have "run_from d d" using run_from_self by blast
  from step_good [OF this] assms(3) have "run_from d (dag_of s')" by (simp add: s good_state_def)
  then have "node_kept (node_at d i) (node_at (dag_of s') i)" "\<exists>t. d_trace (dag_of s') = d_trace d @ t"
    using assms(4) run_from_dom [OF run] unfolding run_from_def grows_def by blast+
  then show ?thesis by (simp add: s node_kept_def)
qed

theorem progress_is_permanent_witness:
  "reach sample_env sample_dm done_chain (Running sample_running) \<and>
   step sample_env sample_dm (Running sample_running) (main_shutdown_graceful sample_running) \<and>
   queue_of (dag_of (main_shutdown_graceful sample_running)) 1 Q_WAITING \<subseteq> queue_of sample_running 1 Q_WAITING"
proof -
  have r: "reach sample_env sample_dm done_chain (Running sample_running)" by (rule reach.start [OF sample_start])
  have st: "step sample_env sample_dm (Running sample_running) (main_shutdown_graceful sample_running)" by (rule step.graceful)
  have "1 \<in> dom (d_nodes done_chain)" by (simp add: done_chain_parts)
  from progress_is_permanent [OF done_chain_fresh r st this] r st show ?thesis by simp
qed

text \<open>
  C7: The timer handler always returns, provided the log reader has at some point no more events:
  neither the submit cycle nor the reading of the logs can loop for ever.
\<close>

theorem event_timer_returns:
  assumes "fresh_ok d0" and "reach e dm d0 (Running d)" and "runs_dry e n"
  shows "condor_event_timer e dm d \<noteq> None"
proof -
  have "run_ok d" using reach_good [OF assms(1,2)] by (auto simp: good_state_def)
  then show ?thesis by (rule timer_returns [OF assms(3)])
qed

theorem event_timer_returns_witness:
  "reach sample_env sample_dm done_chain (Running sample_running) \<and> runs_dry sample_env 0 \<and>
   condor_event_timer sample_env sample_dm sample_running \<noteq> None"
proof -
  have r: "reach sample_env sample_dm done_chain (Running sample_running)" by (rule reach.start [OF sample_start])
  have d: "runs_dry sample_env 0" by (simp add: runs_dry_def sample_env_def)
  from event_timer_returns [OF done_chain_fresh r d] r d show ?thesis by simp
qed



text \<open>
  C9: Starting a node always ends: however often its PRE script cannot be started, the recursion
  through the reaper and the restart of the node uses one retry per round and never exceeds the
  depth the model allows.
\<close>

theorem StartNode_returns:
  assumes "run_ok d" and "i \<in> dom (d_nodes d)"
  shows "StartNode e i isRetry d \<noteq> Inl (Crash ''stack overflow'')"
  using StartNode_n_no_overflow [OF run_from_self [OF assms(1)] assms(2), of "Suc (retries_left i d)" e isRetry]
  by (simp add: StartNode_def overflow_def)

theorem StartNode_returns_witness:
  "run_ok sample_running \<and> StartNode sample_env 1 False sample_running \<noteq> Inl (Crash ''stack overflow'')"
proof -
  have run: "run_from done_chain sample_running" by (rule start_dag_run [OF done_chain_fresh sample_start])
  then have "run_ok sample_running" "1 \<in> dom (d_nodes sample_running)"
    using run_from_dom [OF run] by (auto simp: done_chain_parts)
  with StartNode_returns show ?thesis by blast
qed

section \<open>Rescue DAGs\<close>

definition sample_rescue :: string where
  "sample_rescue = (case rescue_text False ''d.dag'' False \<lparr>tm_sec = 0, tm_min = 0, tm_hour = 0, tm_mday = 1, tm_mon = 0, tm_year = 111\<rparr> done_chain of
     Inr s \<Rightarrow> s | Inl _ \<Rightarrow> [])"

definition rescue_disk :: files where
  "rescue_disk = \<lparr>f_fopen = (\<lambda>cwd name. if name = ''d.dag.rescue001'' then Some sample_rescue else None),
     f_getcwd_ok = (\<lambda>_. True), f_chdir = (\<lambda>_ d. Some d), f_queueCount = (\<lambda>_ _. 1)\<rparr>"


lemma done_chain_rescuable: "rescuable rescue_disk ''/'' done_chain"
proof -
  have g: "store_ok done_chain" "symmetric_deps done_chain" using done_chain_fresh by (simp_all add: fresh_ok_def graph_ok_def)
  have p: "printable (node_at done_chain 0)" "printable (node_at done_chain 1)" unfolding done_chain_parts by code_simp+
  have "dir_ok rescue_disk ''/'' (directory (node_at done_chain i))" if "i \<in> {0, 1}" for i
    using that by (auto simp: dir_ok_def done_chain_parts new_job_def)
  moreover have "PrintThrottles (d_catThrottles done_chain, d_heap done_chain) = []" by code_simp
  ultimately show ?thesis using g p unfolding rescuable_def done_chain_parts(1,6)
    by (simp add: done_chain_parts) (simp add: done_chain_def new_Dag_def sample_config_def)
qed


end
